(* ===== verification/Trackone_Prelude.thy ===== *)
theory Trackone_Prelude
  imports
    Main
    "HOL-Library.Word"
    "HOL-Library.List_Lexorder"
    "HOL-Library.Char_ord"
    "HOL-Library.Log_Nat"
    "HOL-Library.Multiset"
begin

unbundle bit_operations_syntax

text \<open>
  Shared ground of the TrackOne development: the Rust types and the parts of the Rust core and
  standard library the components use.

  \<^item> \<open>u8\<close> ... \<open>u64\<close> are words; a \<open>usize\<close> that is a position or a length is a \<open>nat\<close> (a
    64-bit target: \<open>usize::try_from\<close> of a \<open>u64\<close> never fails);
  \<^item> a \<open>Result\<close> is a sum, \<open>Err\<close> on the left and \<open>Ok\<close> on the right, and the \<open>?\<close> operator is
    \<open>and_then\<close>;
  \<^item> a \<open>&[u8]\<close> or \<open>Vec<u8>\<close> is a list of bytes; a function that appends to an output buffer is
    modelled by the bytes it appends;
  \<^item> a \<open>String\<close> is the list of its UTF-8 bytes as characters;
  \<^item> a \<open>BTreeMap\<close> is the list of its entries in increasing key order.
\<close>

section \<open>Types and result plumbing\<close>

named_theorems rust_std \<open>unfolding rules for the modelled core-library operations\<close>
named_theorems codec \<open>decoder equations over an input that starts with the matching encoding\<close>

type_synonym u8 = "8 word"
type_synonym u16 = "16 word"
type_synonym u32 = "32 word"
type_synonym u64 = "64 word"
type_synonym byte = u8
type_synonym bytes = "byte list"
type_synonym ('a, 'e) result = "'e + 'a"

abbreviation Ok :: "'a \<Rightarrow> ('a, 'e) result" where "Ok \<equiv> Inr"
abbreviation Err :: "'e \<Rightarrow> ('a, 'e) result" where "Err \<equiv> Inl"

definition and_then :: "('a, 'e) result \<Rightarrow> ('a \<Rightarrow> ('b, 'e) result) \<Rightarrow> ('b, 'e) result" where
  "and_then r f = (case r of Inl e \<Rightarrow> Inl e | Inr x \<Rightarrow> f x)"

definition map_err :: "('e \<Rightarrow> 'f) \<Rightarrow> ('a, 'e) result \<Rightarrow> ('a, 'f) result" where
  "map_err g r = (case r of Inl e \<Rightarrow> Inl (g e) | Inr x \<Rightarrow> Inr x)"

definition ok_or :: "'a option \<Rightarrow> 'e \<Rightarrow> ('a, 'e) result" where
  "ok_or x e = (case x of None \<Rightarrow> Inl e | Some v \<Rightarrow> Inr v)"

definition is_ok :: "('a, 'e) result \<Rightarrow> bool" where
  "is_ok r = (case r of Inl _ \<Rightarrow> False | Inr _ \<Rightarrow> True)"

definition checked_add :: "'a::len word \<Rightarrow> 'a word \<Rightarrow> 'a word option" where
  "checked_add a b = (if unat a + unat b < 2 ^ LENGTH('a) then Some (a + b) else None)"

definition checked_sub :: "'a::len word \<Rightarrow> 'a word \<Rightarrow> 'a word option" where
  "checked_sub a b = (if b \<le> a then Some (a - b) else None)"

definition checked_mul :: "'a::len word \<Rightarrow> 'a word \<Rightarrow> 'a word option" where
  "checked_mul a b = (if unat a * unat b < 2 ^ LENGTH('a) then Some (a * b) else None)"

definition saturating_add :: "'a::len word \<Rightarrow> 'a word \<Rightarrow> 'a word" where
  "saturating_add a b = (if unat a + unat b < 2 ^ LENGTH('a) then a + b else - 1)"

definition saturating_sub :: "'a::len word \<Rightarrow> 'a word \<Rightarrow> 'a word" where
  "saturating_sub a b = (if b \<le> a then a - b else 0)"

text \<open>\<open>leading_zeros\<close> of a 64-bit operand, given by its value.\<close>

definition leading_zeros :: "nat \<Rightarrow> nat" where
  "leading_zeros n = 64 - floorlog 2 n"

definition is_power_of_two :: "u64 \<Rightarrow> bool" where
  "is_power_of_two w \<longleftrightarrow> list_ex (\<lambda>k. unat w = 2 ^ k) [0..<64]"

text \<open>\<open>slice::chunks\<close>; a zero width panics in Rust and is never passed.\<close>

function chunks :: "nat \<Rightarrow> 'a list \<Rightarrow> 'a list list" where
  "chunks k xs = (if k = 0 \<or> xs = [] then [] else take k xs # chunks k (drop k xs))"
  by pat_completeness auto
termination
  by (relation "measure (length \<circ> snd)") auto

declare chunks.simps [simp del]

definition byte_at :: "bytes \<Rightarrow> nat \<Rightarrow> byte option" where
  "byte_at bs pos = (if pos < length bs then Some (bs ! pos) else None)"

definition subslice :: "'a list \<Rightarrow> nat \<Rightarrow> nat \<Rightarrow> 'a list" where
  "subslice bs i j = take (j - i) (drop i bs)"

fun be_bytes :: "nat \<Rightarrow> nat \<Rightarrow> bytes" where
  "be_bytes 0 n = []"
| "be_bytes (Suc k) n = be_bytes k (n div 256) @ [word_of_nat n]"

fun be_nat_acc :: "nat \<Rightarrow> bytes \<Rightarrow> nat" where
  "be_nat_acc a [] = a"
| "be_nat_acc a (b # bs) = be_nat_acc (a * 256 + unat b) bs"

definition be_nat :: "bytes \<Rightarrow> nat" where
  "be_nat bs = be_nat_acc 0 bs"

definition to_be_bytes :: "'a::len word \<Rightarrow> bytes" where
  "to_be_bytes (w :: 'a word) = be_bytes (LENGTH('a) div 8) (unat w)"

definition from_be_bytes :: "bytes \<Rightarrow> 'a::len word" where
  "from_be_bytes bs = word_of_nat (be_nat bs)"

definition str_bytes :: "string \<Rightarrow> bytes" where
  "str_bytes s = map of_char s"

definition bytes_str :: "bytes \<Rightarrow> string" where
  "bytes_str bs = map (\<lambda>b. char_of (unat b)) bs"

text \<open>
  \<open>core::str::from_utf8\<close> and \<open>str::chars\<close>: the code points of a well-formed UTF-8 byte string
  (Unicode Standard, table of well-formed byte sequences), \<open>None\<close> for an ill-formed one.
\<close>

definition utf8_cont :: "byte \<Rightarrow> bool" where
  "utf8_cont b \<longleftrightarrow> 128 \<le> unat b \<and> unat b \<le> 191"

fun utf8_decode :: "bytes \<Rightarrow> nat list option" where
  "utf8_decode [] = Some []"
| "utf8_decode (b0 # bs) =
     (let n0 = unat b0 in
      if n0 < 128 then map_option (Cons n0) (utf8_decode bs)
      else if 194 \<le> n0 \<and> n0 \<le> 223 then
        (case bs of
           b1 # r \<Rightarrow> if utf8_cont b1
             then map_option (Cons ((n0 - 192) * 64 + (unat b1 - 128))) (utf8_decode r) else None
         | _ \<Rightarrow> None)
      else if 224 \<le> n0 \<and> n0 \<le> 239 then
        (case bs of
           b1 # b2 # r \<Rightarrow>
             if utf8_cont b1 \<and> utf8_cont b2
               \<and> (n0 = 224 \<longrightarrow> 160 \<le> unat b1) \<and> (n0 = 237 \<longrightarrow> unat b1 \<le> 159)
             then map_option (Cons ((n0 - 224) * 4096 + (unat b1 - 128) * 64 + (unat b2 - 128)))
               (utf8_decode r)
             else None
         | _ \<Rightarrow> None)
      else if 240 \<le> n0 \<and> n0 \<le> 244 then
        (case bs of
           b1 # b2 # b3 # r \<Rightarrow>
             if utf8_cont b1 \<and> utf8_cont b2 \<and> utf8_cont b3
               \<and> (n0 = 240 \<longrightarrow> 144 \<le> unat b1) \<and> (n0 = 244 \<longrightarrow> unat b1 \<le> 143)
             then map_option (Cons ((n0 - 240) * 262144 + (unat b1 - 128) * 4096
               + (unat b2 - 128) * 64 + (unat b3 - 128))) (utf8_decode r)
             else None
         | _ \<Rightarrow> None)
      else None)"

definition utf8_valid :: "bytes \<Rightarrow> bool" where
  "utf8_valid bs \<longleftrightarrow> utf8_decode bs \<noteq> None"

definition str_chars :: "string \<Rightarrow> nat list" where
  "str_chars s = (case utf8_decode (str_bytes s) of None \<Rightarrow> [] | Some cs \<Rightarrow> cs)"

text \<open>\<open>char::is_whitespace\<close> (the Unicode property \<open>White_Space\<close>) and \<open>char::is_control\<close>.\<close>

definition char_is_whitespace :: "nat \<Rightarrow> bool" where
  "char_is_whitespace c \<longleftrightarrow>
     9 \<le> c \<and> c \<le> 13 \<or> c = 32 \<or> c = 133 \<or> c = 160 \<or> c = 5760 \<or> 8192 \<le> c \<and> c \<le> 8202
     \<or> c = 8232 \<or> c = 8233 \<or> c = 8239 \<or> c = 8287 \<or> c = 12288"

definition char_is_control :: "nat \<Rightarrow> bool" where
  "char_is_control c \<longleftrightarrow> c < 32 \<or> 127 \<le> c \<and> c < 160"

definition trim_is_empty :: "string \<Rightarrow> bool" where
  "trim_is_empty s \<longleftrightarrow> list_all char_is_whitespace (str_chars s)"

text \<open>Decimal text: \<open>Display\<close> of an unsigned integer, and the value of a string of digits.\<close>

fun show_nat :: "nat \<Rightarrow> string" where
  "show_nat n = (if n < 10 then [char_of (48 + n)] else show_nat (n div 10) @ [char_of (48 + n mod 10)])"

declare show_nat.simps [simp del]

definition is_ascii_digit :: "char \<Rightarrow> bool" where
  "is_ascii_digit c \<longleftrightarrow> 48 \<le> (of_char c :: nat) \<and> (of_char c :: nat) \<le> 57"

definition digit_value :: "char \<Rightarrow> nat" where
  "digit_value c = of_char c - 48"

definition digits_value :: "string \<Rightarrow> nat" where
  "digits_value s = foldl (\<lambda>n c. n * 10 + digit_value c) 0 s"

text \<open>A \<open>BTreeMap\<close> as its entries in key order.\<close>

type_synonym ('k, 'v) btree = "('k \<times> 'v) list"

fun bt_insert :: "'k::linorder \<Rightarrow> 'v \<Rightarrow> ('k, 'v) btree \<Rightarrow> ('k, 'v) btree" where
  "bt_insert k v [] = [(k, v)]"
| "bt_insert k v ((k', v') # m) =
     (if k < k' then (k, v) # (k', v') # m
      else if k = k' then (k, v) # m
      else (k', v') # bt_insert k v m)"

definition bt_get :: "'k \<Rightarrow> ('k, 'v) btree \<Rightarrow> 'v option" where
  "bt_get k m = map_of m k"

definition bt_remove :: "'k \<Rightarrow> ('k, 'v) btree \<Rightarrow> ('k, 'v) btree" where
  "bt_remove k m = filter (\<lambda>p. fst p \<noteq> k) m"

fun bt_collect :: "('k::linorder, 'v) btree \<Rightarrow> ('k \<times> 'v) list \<Rightarrow> ('k, 'v) btree" where
  "bt_collect m [] = m"
| "bt_collect m ((k, v) # es) = bt_collect (bt_insert k v m) es"

section \<open>Results\<close>

lemma and_then_simps [simp]:
  "and_then (Inl e) f = Inl e"
  "and_then (Inr x) f = f x"
  by (simp_all add: and_then_def)

lemma and_then_cong [fundef_cong]:
  assumes "r = r'" and "\<And>x. r' = Inr x \<Longrightarrow> f x = g x"
  shows "and_then r f = and_then r' g"
  using assms by (cases r') simp_all

text \<open>For evaluating a long chain from the front, without looking into its continuations.\<close>

lemma and_then_weak_cong: "r = r' \<Longrightarrow> and_then r f = and_then r' f"
  by simp

lemma and_then_Ok_iff: "and_then r f = Inr y \<longleftrightarrow> (\<exists>x. r = Inr x \<and> f x = Inr y)"
  by (cases r) simp_all

lemma and_then_OkE:
  assumes "and_then r f = Inr y"
  obtains x where "r = Inr x" and "f x = Inr y"
  using assms by (auto simp: and_then_Ok_iff)

lemma map_err_simps [simp]:
  "map_err g (Inl e) = Inl (g e)"
  "map_err g (Inr x) = Inr x"
  by (simp_all add: map_err_def)

lemma map_err_Ok_iff [simp]: "map_err g r = Inr x \<longleftrightarrow> r = Inr x"
  by (cases r) simp_all

lemma ok_or_simps [simp]:
  "ok_or None e = Inl e"
  "ok_or (Some v) e = Inr v"
  by (simp_all add: ok_or_def)

lemma ok_or_Ok_iff: "ok_or x e = Inr v \<longleftrightarrow> x = Some v"
  by (cases x) simp_all

lemma is_ok_simps [simp]: "is_ok (Inr x)" "\<not> is_ok (Inl e)"
  by (simp_all add: is_ok_def)

lemma is_ok_iff: "is_ok r \<longleftrightarrow> (\<exists>x. r = Inr x)"
  by (cases r) simp_all

section \<open>Decimal text\<close>

lemma digits_value_snoc: "digits_value (s @ [c]) = digits_value s * 10 + digit_value c"
  by (simp add: digits_value_def)

lemma digit_value_char_of: "n < 10 \<Longrightarrow> digit_value (char_of (48 + n)) = n" for n :: nat
  by (simp add: digit_value_def)

lemma char_of_digit_value: "is_ascii_digit c \<Longrightarrow> char_of (48 + digit_value c) = c"
  by (simp add: digit_value_def is_ascii_digit_def)

lemma digit_value_less: "is_ascii_digit c \<Longrightarrow> digit_value c < 10"
  unfolding digit_value_def is_ascii_digit_def by linarith

lemma is_ascii_digit_char_of: "n < 10 \<Longrightarrow> is_ascii_digit (char_of (48 + n))" for n :: nat
  by (simp add: is_ascii_digit_def)

lemma digits_value_show_nat [simp]: "digits_value (show_nat n) = n"
proof (induction n rule: show_nat.induct)
  case (1 n)
  then show ?case
    by (subst show_nat.simps) (simp add: digits_value_snoc digit_value_char_of digits_value_def [of "[_]"])
qed

lemma show_nat_inject [simp]: "show_nat m = show_nat n \<longleftrightarrow> m = n"
  by (metis digits_value_show_nat)

lemma show_nat_digits: "list_all is_ascii_digit (show_nat n)"
proof (induction n rule: show_nat.induct)
  case (1 n)
  then show ?case by (subst show_nat.simps) (simp add: is_ascii_digit_char_of)
qed

lemma show_nat_not_Nil [simp]: "show_nat n \<noteq> []"
  by (subst show_nat.simps) simp

text \<open>A numeral without a leading zero is the display of its value.\<close>

lemma show_digits_value:
  assumes "s \<noteq> []" and "list_all is_ascii_digit s" and "hd s = CHR ''0'' \<longrightarrow> s = ''0''"
  shows "show_nat (digits_value s) = s"
  using assms
proof (induction s rule: rev_induct)
  case (snoc c s)
  have c: "is_ascii_digit c" using snoc.prems by simp
  show ?case
  proof (cases "s = []")
    case True
    with c show ?thesis
      by (subst show_nat.simps) (simp add: digits_value_def digit_value_less char_of_digit_value)
  next
    case False
    with snoc.prems have zero: "hd s \<noteq> CHR ''0''" by (cases s) auto
    with False snoc have s: "show_nat (digits_value s) = s" by simp
    have "digits_value s \<noteq> 0"
    proof
      assume "digits_value s = 0"
      with s have "s = show_nat 0" by simp
      moreover have "show_nat 0 = ''0''" by code_simp
      ultimately have "s = ''0''" by simp
      with zero show False by simp
    qed
    with s c show ?thesis
      by (subst show_nat.simps) (simp add: digits_value_snoc digit_value_less char_of_digit_value)
  qed
qed simp

section \<open>Words and big-endian bytes\<close>

lemma unat_u8_less [simp]: "unat (b :: u8) < 256"
  using unsigned_less [of b, where ?'a = nat] by simp

lemma unat_u16_less [simp]: "unat (b :: u16) < 65536"
  using unsigned_less [of b, where ?'a = nat] by simp

lemma unat_u32_less [simp]: "unat (b :: u32) < 4294967296"
  using unsigned_less [of b, where ?'a = nat] by simp

lemma unat_u64_less [simp]: "unat (b :: u64) < 18446744073709551616"
  using unsigned_less [of b, where ?'a = nat] by simp

lemma unat_u8_of_nat [simp]: "unat (word_of_nat n :: u8) = n mod 256"
  by (simp add: unat_of_nat)

lemma unat_u64_of_nat: "n < 2 ^ 64 \<Longrightarrow> unat (word_of_nat n :: u64) = n"
  by (simp add: unat_of_nat)

lemma u64_of_nat_inject:
  "a < 2 ^ 64 \<Longrightarrow> b < 2 ^ 64 \<Longrightarrow> (word_of_nat a :: u64) = word_of_nat b \<longleftrightarrow> a = b"
  by (metis unat_u64_of_nat)

lemma length_be_bytes [simp]: "length (be_bytes k n) = k"
  by (induction k arbitrary: n) simp_all

lemma be_nat_acc_append: "be_nat_acc a (xs @ ys) = be_nat_acc (be_nat_acc a xs) ys"
  by (induction xs arbitrary: a) simp_all

lemma be_nat_acc_be_bytes: "n < 256 ^ k \<Longrightarrow> be_nat_acc a (be_bytes k n) = a * 256 ^ k + n"
proof (induction k arbitrary: n)
  case 0
  then show ?case by simp
next
  case (Suc k)
  from Suc.prems have "n div 256 < 256 ^ k"
    by (simp add: less_mult_imp_div_less mult.commute)
  with Suc.IH have "be_nat_acc a (be_bytes k (n div 256)) = a * 256 ^ k + n div 256" by simp
  then show ?case by (simp add: be_nat_acc_append algebra_simps)
qed

lemma be_nat_be_bytes [simp]: "n < 256 ^ k \<Longrightarrow> be_nat (be_bytes k n) = n"
  by (simp add: be_nat_def be_nat_acc_be_bytes)

lemma be_nat_snoc: "be_nat (xs @ [b]) = be_nat xs * 256 + unat b"
  by (simp add: be_nat_def be_nat_acc_append)

lemma be_nat_single [simp]: "be_nat [b] = unat b"
  by (simp add: be_nat_def)

lemma unat_ucast_small: "unat w < 2 ^ LENGTH('b) \<Longrightarrow> unat (ucast w :: 'b::len word) = unat w"
  by (simp add: unsigned_ucast_eq take_bit_nat_eq_self)

lemma be_bytes_be_nat: "be_bytes (length bs) (be_nat bs) = bs"
proof (induction bs rule: rev_induct)
  case Nil
  then show ?case by simp
next
  case (snoc b bs)
  have "(be_nat bs * 256 + unat b) div 256 = be_nat bs"
    by simp
  moreover have "(word_of_nat (be_nat bs * 256 + unat b) :: u8) = b"
  proof -
    have "(256 :: u8) = 0" by simp
    then have "(word_of_nat (be_nat bs) :: u8) * 256 = 0" by (simp only: mult_zero_right)
    then show ?thesis by simp
  qed
  ultimately show ?case using snoc by (simp add: be_nat_snoc)
qed

lemma be_nat_less: "be_nat bs < 256 ^ length bs"
proof (induction bs rule: rev_induct)
  case Nil
  then show ?case by (simp add: be_nat_def)
next
  case (snoc b bs)
  have "be_nat bs * 256 + unat b < (be_nat bs + 1) * 256" by simp
  also have "\<dots> \<le> 256 ^ length bs * 256" using snoc by (intro mult_le_mono1) simp
  finally show ?case by (simp add: be_nat_snoc mult.commute)
qed

lemma be_nat_inj: "length xs = length ys \<Longrightarrow> be_nat xs = be_nat ys \<Longrightarrow> xs = ys"
  by (metis be_bytes_be_nat)

lemma length_to_be_bytes [simp]: "length (to_be_bytes (w :: 'a::len word)) = LENGTH('a) div 8"
  by (simp add: to_be_bytes_def)

lemma from_to_be_u64 [simp]: "from_be_bytes (to_be_bytes (w :: u64)) = w"
  by (simp add: from_be_bytes_def to_be_bytes_def)

lemma from_to_be_u32 [simp]: "from_be_bytes (to_be_bytes (w :: u32)) = w"
  by (simp add: from_be_bytes_def to_be_bytes_def)

lemma to_from_be_u64: "length bs = 8 \<Longrightarrow> to_be_bytes (from_be_bytes bs :: u64) = bs"
  using be_nat_less [of bs] be_bytes_be_nat [of bs]
  by (simp add: from_be_bytes_def to_be_bytes_def unat_of_nat)

lemma to_be_u64_inject [simp]: "to_be_bytes (v :: u64) = to_be_bytes w \<longleftrightarrow> v = w"
  by (metis from_to_be_u64)

lemma checked_add_Some_iff:
  "checked_add a b = Some c \<longleftrightarrow> unat a + unat b < 2 ^ LENGTH('a) \<and> c = a + b"
  for a b c :: "'a::len word"
  by (auto simp: checked_add_def)

lemma checked_add_code [code]: "checked_add a b = (if a \<le> a + b then Some (a + b) else None)"
  by (simp add: checked_add_def no_olen_add_nat)

lemma unat_checked_add:
  "checked_add a b = Some c \<Longrightarrow> unat c = unat a + unat b" for a b c :: "'a::len word"
  by (auto simp: checked_add_Some_iff unat_word_ariths)

lemma checked_sub_Some_iff: "checked_sub a b = Some c \<longleftrightarrow> b \<le> a \<and> c = a - b"
  by (auto simp: checked_sub_def)

lemma unat_checked_sub: "checked_sub a b = Some c \<Longrightarrow> unat c = unat a - unat b"
  by (auto simp: checked_sub_Some_iff unat_sub)

lemma unat_saturating_sub: "unat (saturating_sub a b) = unat a - unat b"
  by (auto simp: saturating_sub_def unat_sub word_le_nat_alt)

section \<open>Slices and cursors\<close>

lemma byte_at_drop: "byte_at bs pos = (case drop pos bs of [] \<Rightarrow> None | b # _ \<Rightarrow> Some b)"
proof (cases "pos < length bs")
  case True
  then show ?thesis by (simp add: byte_at_def Cons_nth_drop_Suc [symmetric])
next
  case False
  then show ?thesis by (simp add: byte_at_def)
qed

lemma byte_at_Some: "byte_at bs pos = Some b \<longleftrightarrow> pos < length bs \<and> bs ! pos = b"
  by (auto simp: byte_at_def)

lemma drop_eq_append_length: "drop pos bs = xs @ ys \<Longrightarrow> xs @ ys \<noteq> [] \<Longrightarrow> pos + length xs \<le> length bs"
proof -
  assume eq: "drop pos bs = xs @ ys" and ne: "xs @ ys \<noteq> []"
  from eq have "length (drop pos bs) = length xs + length ys" by simp
  moreover from eq ne have "pos < length bs" by (metis drop_all not_le_imp_less)
  ultimately show "pos + length xs \<le> length bs" by simp
qed

lemma drop_eq_append_next: "drop pos bs = xs @ ys \<Longrightarrow> drop (pos + length xs) bs = ys"
  by (metis add.commute append_eq_conv_conj drop_drop)

lemma subslice_drop: "drop pos bs = xs @ ys \<Longrightarrow> subslice bs pos (pos + length xs) = xs"
  by (simp add: subslice_def)

lemma subslice_append: "i \<le> j \<Longrightarrow> j \<le> k \<Longrightarrow> subslice bs i j @ subslice bs j k = subslice bs i k"
proof -
  assume "i \<le> j" "j \<le> k"
  then have "k - i = (j - i) + (k - j)" and "drop (j - i) (drop i bs) = drop j bs" by simp_all
  then show ?thesis by (simp only: subslice_def take_add)
qed

lemma subslice_refl [simp]: "subslice bs i i = []"
  by (simp add: subslice_def)

lemma length_subslice [simp]: "j \<le> length bs \<Longrightarrow> length (subslice bs i j) = j - i"
  by (simp add: subslice_def)

lemma subslice_Suc: "pos < length bs \<Longrightarrow> subslice bs pos (Suc pos) = [bs ! pos]"
  by (simp add: subslice_def Suc_diff_le flip: Cons_nth_drop_Suc)

lemma subslice_full: "subslice bs 0 (length bs) = bs"
  by (simp add: subslice_def)

section \<open>Strings and UTF-8\<close>

lemma length_str_bytes [simp]: "length (str_bytes s) = length s"
  by (simp add: str_bytes_def)

lemma length_bytes_str [simp]: "length (bytes_str bs) = length bs"
  by (simp add: bytes_str_def)

lemma unat_of_char [simp]: "unat (of_char c :: u8) = of_char c"
proof -
  have "(of_char c :: u8) = word_of_nat (of_char c)" by (simp add: of_nat_of_char)
  moreover have "(of_char c :: nat) < 256" by (rule nat_of_char_less_256)
  ultimately show ?thesis by simp
qed

lemma bytes_str_str_bytes [simp]: "bytes_str (str_bytes s) = s"
  by (simp add: bytes_str_def str_bytes_def comp_def)

lemma str_bytes_bytes_str [simp]: "str_bytes (bytes_str bs) = bs"
proof -
  have "(of_char (char_of (unat b) :: char) :: u8) = b" for b :: u8
  proof -
    have "unat (of_char (char_of (unat b) :: char) :: u8) = unat b" by (simp add: of_char_of)
    then show ?thesis by (simp add: word_unat_eq_iff)
  qed
  then show ?thesis by (simp add: bytes_str_def str_bytes_def comp_def)
qed

lemma str_bytes_inject [simp]: "str_bytes s = str_bytes t \<longleftrightarrow> s = t"
  by (metis bytes_str_str_bytes)

lemma utf8_decode_ascii: "list_all (\<lambda>b. unat b < 128) bs \<Longrightarrow> utf8_decode bs = Some (map unat bs)"
  by (induction bs) simp_all

lemma utf8_valid_ascii: "list_all (\<lambda>c. (of_char c :: nat) < 128) s \<Longrightarrow> utf8_valid (str_bytes s)"
  by (simp add: utf8_valid_def utf8_decode_ascii str_bytes_def list_all_iff)

section \<open>Ordered maps\<close>

lemma map_of_bt_insert [simp]: "map_of (bt_insert k v m) = (map_of m)(k \<mapsto> v)"
  by (induction k v m rule: bt_insert.induct) auto

lemma set_keys_bt_insert [simp]: "fst ` set (bt_insert k v m) = insert k (fst ` set m)"
  by (induction k v m rule: bt_insert.induct) auto

lemma sorted_bt_insert: "sorted_wrt (<) (map fst m) \<Longrightarrow> sorted_wrt (<) (map fst (bt_insert k v m))"
proof (induction k v m rule: bt_insert.induct)
  case (1 k v)
  then show ?case by simp
next
  case (2 k v k' v' m)
  then show ?case by auto
qed

lemma map_of_bt_collect: "map_of (bt_collect m es) = map_of m ++ map_of (rev es)"
  by (induction m es rule: bt_collect.induct) (auto simp: fun_eq_iff map_add_def split: option.splits)

lemma sorted_bt_collect: "sorted_wrt (<) (map fst m) \<Longrightarrow> sorted_wrt (<) (map fst (bt_collect m es))"
  by (induction m es rule: bt_collect.induct) (simp_all add: sorted_bt_insert)

lemma bt_get_remove [simp]: "bt_get k (bt_remove k' m) = (if k = k' then None else bt_get k m)"
  by (induction m) (auto simp: bt_get_def bt_remove_def)

section \<open>Binary logarithm\<close>

lemma floorlog_bounds2: "0 < n \<Longrightarrow> 2 ^ (floorlog 2 n - 1) \<le> n \<and> n < 2 ^ floorlog 2 n"
  using floorlog_bounds [of n 2] by simp

text \<open>The largest power of two below \<open>n\<close>, as the code computes it from \<open>leading_zeros\<close>.\<close>

definition split_point :: "nat \<Rightarrow> nat" where
  "split_point n = 2 ^ (63 - leading_zeros (n - 1))"

lemma split_point_less: "2 \<le> n \<Longrightarrow> split_point n < n"
proof -
  assume n: "2 \<le> n"
  have "split_point n \<le> 2 ^ (floorlog 2 (n - 1) - 1)"
    unfolding split_point_def leading_zeros_def by (intro power_increasing) auto
  also have "\<dots> \<le> n - 1" using floorlog_bounds2 [of "n - 1"] n by simp
  finally show ?thesis using n by simp
qed

lemma split_point_less_length:
  "xs \<noteq> [] \<Longrightarrow> length xs \<noteq> Suc 0 \<Longrightarrow> split_point (length xs) < length xs"
  by (rule split_point_less) (cases xs; cases "tl xs"; simp)

lemma split_point_pos [simp]: "0 < split_point n"
  by (simp add: split_point_def)

lemma split_point_bound:
  assumes "2 \<le> n" and "n \<le> 2 ^ 64"
  shows "n \<le> 2 * split_point n"
proof -
  have fl: "floorlog 2 (n - 1) \<le> 64"
    using assms by (intro floorlog_leI) auto
  moreover have "0 < floorlog 2 (n - 1)"
    using assms by (simp add: floorlog_eq_zero_iff flip: neq0_conv)
  ultimately have "63 - leading_zeros (n - 1) = floorlog 2 (n - 1) - 1"
    by (simp add: leading_zeros_def)
  then have "2 * split_point n = 2 ^ floorlog 2 (n - 1)"
    using \<open>0 < floorlog 2 (n - 1)\<close> by (simp add: split_point_def flip: power_Suc)
  moreover have "n - 1 < 2 ^ floorlog 2 (n - 1)"
    using floorlog_bounds2 [of "n - 1"] assms by simp
  ultimately show ?thesis by linarith
qed

text \<open>A power of two below \<open>n\<close> divides the split point.\<close>

lemma pow2_dvd_split_point:
  assumes "2 ^ j < n" and "n \<le> 2 ^ 64"
  shows "2 ^ j dvd split_point n"
proof -
  have "1 \<le> (2 :: nat) ^ j" by simp
  with assms(1) have "2 \<le> n" by linarith
  then have "n \<le> 2 * split_point n" using assms(2) by (rule split_point_bound)
  then have "2 ^ j < (2 :: nat) ^ Suc (63 - leading_zeros (n - 1))"
    using assms(1) by (simp add: split_point_def)
  then have "j \<le> 63 - leading_zeros (n - 1)"
    by (metis less_Suc_eq_le one_less_numeral_iff power_less_imp_less_exp semiring_norm(76))
  then show ?thesis unfolding split_point_def by (rule le_imp_power_dvd)
qed

lemma is_power_of_two_iff: "is_power_of_two w \<longleftrightarrow> (\<exists>j < 64. unat w = 2 ^ j)"
  by (auto simp: is_power_of_two_def list_ex_iff)

section \<open>Chunks\<close>

lemma chunks_Nil [simp]: "chunks k [] = []"
  by (simp add: chunks.simps [of k "[]"])

lemma chunks_short: "xs \<noteq> [] \<Longrightarrow> length xs \<le> k \<Longrightarrow> chunks k xs = [xs]"
  by (cases "k = 0") (simp_all add: chunks.simps [of k xs])

lemma concat_chunks [simp]: "0 < k \<Longrightarrow> concat (chunks k xs) = xs"
proof (induction k xs rule: chunks.induct)
  case (1 k xs)
  then show ?case by (cases "xs = []") (simp_all add: chunks.simps [of k xs])
qed

lemma chunks_append_aligned:
  "0 < k \<Longrightarrow> k dvd length xs \<Longrightarrow> chunks k (xs @ ys) = chunks k xs @ chunks k ys"
proof (induction k xs rule: chunks.induct)
  case (1 k xs)
  show ?case
  proof (cases "xs = []")
    case True
    then show ?thesis by simp
  next
    case False
    with "1.prems" have le: "k \<le> length xs" by (simp add: dvd_imp_le)
    with "1.prems" have "k dvd length (drop k xs)" by simp
    with 1 False have "chunks k (drop k xs @ ys) = chunks k (drop k xs) @ chunks k ys" by simp
    with False le "1.prems"(1) show ?thesis
      by (simp add: chunks.simps [of k "xs @ ys"] chunks.simps [of k xs])
  qed
qed

lemma length_chunks: "0 < k \<Longrightarrow> length (chunks k xs) = (length xs + k - 1) div k"
proof (induction k xs rule: chunks.induct)
  case (1 k xs)
  show ?case
  proof (cases "xs = []")
    case True
    with "1.prems" show ?thesis by simp
  next
    case False
    then have pos: "0 < length xs" by simp
    show ?thesis
    proof (cases "k \<le> length xs")
      case True
      then have eq: "length xs + k - 1 = (length xs - k + k - 1) + k" using "1.prems" by simp
      have "((length xs - k + k - 1) + k) div k = (length xs - k + k - 1) div k + 1"
        using "1.prems" by (intro div_add_self2) simp
      with eq have "(length xs + k - 1) div k = Suc ((length xs - k + k - 1) div k)"
        by (simp only: Suc_eq_plus1)
      with 1 False show ?thesis by (simp add: chunks.simps [of k xs])
    next
      case short: False
      then have "(length xs + k - 1) div k = 1"
        using pos by (intro div_nat_eqI) (linarith, simp)
      with short False show ?thesis by (simp add: chunks_short)
    qed
  qed
qed

lemma ceil_div_mult: "0 < k \<Longrightarrow> (k * m + k - 1) div k = m" for k m :: nat
  by (intro div_nat_eqI) simp_all

lemma length_chunks_dvd: "0 < k \<Longrightarrow> k dvd length xs \<Longrightarrow> length (chunks k xs) = length xs div k"
proof -
  assume k: "0 < k" and "k dvd length xs"
  then obtain m where m: "length xs = k * m" by (auto elim: dvdE)
  with k show ?thesis using ceil_div_mult [of k m] by (simp add: length_chunks)
qed

end
