(* ===== verification/Cbor_Head.thy ===== *)
theory Cbor_Head
  imports Trackone_Prelude
begin

unbundle bit_operations_syntax

text \<open>
  Item heads of deterministic CBOR (\<open>crates/trackone-ledger/src/vtl.rs\<close>): the shortest-form
  encoder \<open>put_head\<close> with the item writers built on it, and the strict reader
  \<open>read_cbor_argument\<close> with its error categories.  The locale \<open>head_encoder\<close> is the contract a
  shortest-form head encoder keeps with the strict reader; the workspace has three such encoders
  (here, in \<open>trackone-core\<close> and in the JSON-to-CBOR writer), each interpreted in its own theory.
\<close>

section \<open>Definitions\<close>

datatype segment_decode_error =
    Malformed string
  | NonCanonical string
  | ResourceLimit string
  | MissingField string
  | UnexpectedField string
  | InvalidField string
  | Invariant string

type_synonym 'a decode_result = "('a, segment_decode_error) result"

definition put_head :: "u8 \<Rightarrow> u64 \<Rightarrow> bytes" where
  "put_head major n =
     (let p = push_bit 5 major in
      if n \<le> 23 then [p OR ucast n]
      else if n \<le> 0xff then [p OR 24, ucast n]
      else if n \<le> 0xffff then (p OR 25) # to_be_bytes (ucast n :: u16)
      else if n \<le> 0xffffffff then (p OR 26) # to_be_bytes (ucast n :: u32)
      else (p OR 27) # to_be_bytes n)"

definition cbor_uint :: "u64 \<Rightarrow> bytes" where
  "cbor_uint v = put_head 0 v"

definition cbor_text :: "string \<Rightarrow> bytes" where
  "cbor_text v = put_head 3 (word_of_nat (length v)) @ str_bytes v"

definition cbor_bytes :: "bytes \<Rightarrow> bytes" where
  "cbor_bytes v = put_head 2 (word_of_nat (length v)) @ v"

definition cbor_null :: bytes where
  "cbor_null = [0xf6]"

definition cbor_map :: "u64 \<Rightarrow> bytes \<Rightarrow> bytes" where
  "cbor_map len body = put_head 5 len @ body"

definition cbor_array :: "u64 \<Rightarrow> bytes \<Rightarrow> bytes" where
  "cbor_array len body = put_head 4 len @ body"

definition cbor_key :: "string \<Rightarrow> bytes" where
  "cbor_key k = cbor_text k"

definition read_part :: "bytes \<Rightarrow> nat \<Rightarrow> nat \<Rightarrow> (bytes \<times> nat) decode_result" where
  "read_part bs pos width =
     (if pos + width \<le> length bs then Ok (subslice bs pos (pos + width), pos + width)
      else Err (Malformed ''truncated CBOR argument''))"

definition read_cbor_argument :: "bytes \<Rightarrow> nat \<Rightarrow> u8 \<Rightarrow> (u64 \<times> nat) decode_result" where
  "read_cbor_argument bs pos ai =
     (if ai \<le> 23 then Ok (ucast ai, pos)
      else if ai = 24 then
        and_then (read_part bs pos 1) (\<lambda>(part, pos).
          let v = (ucast (part ! 0) :: u64) in
          if v < 24 then Err (NonCanonical ''CBOR argument is not shortest'') else Ok (v, pos))
      else if ai = 25 then
        and_then (read_part bs pos 2) (\<lambda>(part, pos).
          let v = (ucast (from_be_bytes part :: u16) :: u64) in
          if v \<le> 0xff then Err (NonCanonical ''CBOR argument is not shortest'') else Ok (v, pos))
      else if ai = 26 then
        and_then (read_part bs pos 4) (\<lambda>(part, pos).
          let v = (ucast (from_be_bytes part :: u32) :: u64) in
          if v \<le> 0xffff then Err (NonCanonical ''CBOR argument is not shortest'') else Ok (v, pos))
      else if ai = 27 then
        and_then (read_part bs pos 8) (\<lambda>(part, pos).
          let v = (from_be_bytes part :: u64) in
          if v \<le> 0xffffffff then Err (NonCanonical ''CBOR argument is not shortest'')
          else Ok (v, pos))
      else Err (NonCanonical ''indefinite or reserved CBOR argument''))"

definition read_typed_argument :: "bytes \<Rightarrow> nat \<Rightarrow> ((u8 \<times> u64) \<times> nat) decode_result" where
  "read_typed_argument bs pos =
     and_then (ok_or (byte_at bs pos) (Malformed ''truncated CBOR item'')) (\<lambda>initial.
     and_then (read_cbor_argument bs (pos + 1) (initial AND 0x1f)) (\<lambda>(v, pos).
       Ok ((drop_bit 5 initial, v), pos)))"

section \<open>The initial byte\<close>

lemma bit_bounded: "unat w < 2 ^ k \<Longrightarrow> bit w n \<Longrightarrow> n < k" for w :: "'a::len word"
proof -
  assume "unat w < 2 ^ k" and "bit w n"
  then have "take_bit k (unat w) = unat w" and "bit (unat w) n"
    by (simp_all add: take_bit_nat_eq_self bit_unsigned_iff)
  then show "n < k" by (metis bit_take_bit_iff)
qed

lemma low_mask: "(0x1f :: u8) = mask 5"
  by (simp add: mask_eq_exp_minus_1)

lemma initial_byte_major: "m < 8 \<Longrightarrow> a < 32 \<Longrightarrow> drop_bit 5 (push_bit 5 m OR a) = m"
  for m a :: u8
  using bit_bounded [of m 3] bit_bounded [of a 5]
  by (intro bit_word_eqI) (auto simp: bit_simps word_less_nat_alt)

lemma initial_byte_ai: "m < 8 \<Longrightarrow> a < 32 \<Longrightarrow> (push_bit 5 m OR a) AND 0x1f = a"
  for m a :: u8
  unfolding low_mask using bit_bounded [of m 3] bit_bounded [of a 5]
  by (intro bit_word_eqI) (auto simp: bit_simps word_less_nat_alt)

lemma initial_byte_split: "push_bit 5 (drop_bit 5 b) OR (b AND 0x1f) = b" for b :: u8
  unfolding low_mask by (rule bit_word_eqI) (auto simp: bit_simps)

lemma initial_major_less: "drop_bit 5 b < 8" for b :: u8
  by (simp add: word_less_nat_alt drop_bit_eq_div unat_div less_mult_imp_div_less)

lemma initial_ai_less: "b AND 0x1f < 32" for b :: u8
proof -
  have "b AND 0x1f \<le> 0x1f" by (rule word_and_le1)
  then show ?thesis by (rule le_less_trans) simp
qed

section \<open>Shortest-form heads\<close>

text \<open>The width class of an argument, as the number of bytes that follow the initial byte.\<close>

definition head_width :: "nat \<Rightarrow> nat" where
  "head_width n =
     (if n < 24 then 0 else if n < 256 then 1 else if n < 65536 then 2
      else if n < 4294967296 then 4 else 8)"

definition head_ai :: "nat \<Rightarrow> u8" where
  "head_ai n =
     (if n < 24 then word_of_nat n else if n < 256 then 24 else if n < 65536 then 25
      else if n < 4294967296 then 26 else 27)"

lemma put_head_layout:
  "put_head m n = (push_bit 5 m OR head_ai (unat n)) # be_bytes (head_width (unat n)) (unat n)"
proof -
  have "(ucast n :: u8) = word_of_nat (unat n)"
    by (simp add: unsigned_ucast_eq)
  moreover have "unat n < 65536 \<Longrightarrow> unat (ucast n :: u16) = unat n"
    and "unat n < 4294967296 \<Longrightarrow> unat (ucast n :: u32) = unat n"
    by (simp_all add: unsigned_ucast_eq take_bit_nat_eq_self)
  moreover have "n \<le> 23 \<longleftrightarrow> unat n < 24" "n \<le> 0xff \<longleftrightarrow> unat n < 256"
    "n \<le> 0xffff \<longleftrightarrow> unat n < 65536" "n \<le> 0xffffffff \<longleftrightarrow> unat n < 4294967296"
    by (auto simp: word_le_nat_alt)
  ultimately show ?thesis
    by (simp add: put_head_def Let_def head_ai_def head_width_def to_be_bytes_def)
qed


lemma read_part_ok:
  assumes "drop pos bs = xs @ rest" and "xs \<noteq> []"
  shows "read_part bs pos (length xs) = Ok (xs, pos + length xs)"
  using drop_eq_append_length [OF assms(1)] assms by (simp add: read_part_def subslice_drop)

lemma read_part_Ok_iff:
  "read_part bs pos w = Ok (part, pos') \<longleftrightarrow>
     pos + w \<le> length bs \<and> pos' = pos + w \<and> part = subslice bs pos pos'"
  by (auto simp: read_part_def)

lemma ucast_from_be_u8: "length part = 1 \<Longrightarrow> unat (ucast (part ! 0) :: u64) = be_nat part"
  for part :: bytes
  by (cases part) (simp_all add: be_nat_def unsigned_ucast_eq take_bit_nat_eq_self
      less_trans [OF unat_u8_less])

lemma ucast_from_be_u16: "length part = 2 \<Longrightarrow> unat (ucast (from_be_bytes part :: u16) :: u64) = be_nat part"
  using be_nat_less [of part]
  by (simp add: from_be_bytes_def unsigned_ucast_eq take_bit_nat_eq_self unat_of_nat)

lemma ucast_from_be_u32: "length part = 4 \<Longrightarrow> unat (ucast (from_be_bytes part :: u32) :: u64) = be_nat part"
  using be_nat_less [of part]
  by (simp add: from_be_bytes_def unsigned_ucast_eq take_bit_nat_eq_self unat_of_nat)

lemma unat_from_be_u64: "length part = 8 \<Longrightarrow> unat (from_be_bytes part :: u64) = be_nat part"
  using be_nat_less [of part]
  by (simp add: from_be_bytes_def unat_of_nat)

text \<open>The strict reader returns what the shortest-form layout wrote.\<close>

lemma read_cbor_argument_head:
  assumes d: "drop pos bs = be_bytes (head_width (unat n)) (unat n) @ rest"
  shows "read_cbor_argument bs pos (head_ai (unat n)) = Ok (n, pos + head_width (unat n))"
proof -
  let ?k = "head_width (unat n)"
  have part: "read_part bs pos ?k = Ok (be_bytes ?k (unat n), pos + ?k)" if "0 < ?k"
    using read_part_ok [OF d] that by (metis length_be_bytes length_greater_0_conv)
  consider "unat n < 24" | "24 \<le> unat n" "unat n < 256" | "256 \<le> unat n" "unat n < 65536"
    | "65536 \<le> unat n" "unat n < 4294967296" | "4294967296 \<le> unat n" by linarith
  then show ?thesis
  proof cases
    case 1
    then have "(word_of_nat (unat n) :: u8) \<le> 23"
      by (simp add: word_le_nat_alt unsigned_ucast_eq take_bit_nat_eq_self)
    moreover have "(ucast (word_of_nat (unat n) :: u8) :: u64) = n"
      using 1 by (simp add: word_unat_eq_iff unsigned_ucast_eq unsigned_take_bit_eq
          take_bit_nat_eq_self)
    ultimately show ?thesis
      using 1 by (simp add: read_cbor_argument_def head_ai_def head_width_def)
  next
    case 2
    then have "unat (ucast (be_bytes ?k (unat n) ! 0) :: u64) = unat n"
      by (subst ucast_from_be_u8) (simp_all add: head_width_def unat_ucast_small)
    then have "(ucast (be_bytes ?k (unat n) ! 0) :: u64) = n" by (simp add: word_unat_eq_iff)
    with 2 part show ?thesis
      by (simp add: read_cbor_argument_def head_ai_def head_width_def word_less_nat_alt)
  next
    case 3
    then have "unat (ucast (from_be_bytes (be_bytes ?k (unat n)) :: u16) :: u64) = unat n"
      by (subst ucast_from_be_u16) (simp_all add: head_width_def)
    then have "(ucast (from_be_bytes (be_bytes ?k (unat n)) :: u16) :: u64) = n"
      by (simp add: word_unat_eq_iff)
    with 3 part show ?thesis
      by (simp add: read_cbor_argument_def head_ai_def head_width_def word_le_nat_alt)
  next
    case 4
    then have "unat (ucast (from_be_bytes (be_bytes ?k (unat n)) :: u32) :: u64) = unat n"
      by (subst ucast_from_be_u32) (simp_all add: head_width_def)
    then have "(ucast (from_be_bytes (be_bytes ?k (unat n)) :: u32) :: u64) = n"
      by (simp add: word_unat_eq_iff)
    with 4 part show ?thesis
      by (simp add: read_cbor_argument_def head_ai_def head_width_def word_le_nat_alt)
  next
    case 5
    then have "unat (from_be_bytes (be_bytes ?k (unat n)) :: u64) = unat n"
      by (subst unat_from_be_u64) (simp_all add: head_width_def)
    then have "(from_be_bytes (be_bytes ?k (unat n)) :: u64) = n" by (simp add: word_unat_eq_iff)
    with 5 part show ?thesis
      by (simp add: read_cbor_argument_def head_ai_def head_width_def word_le_nat_alt)
  qed
qed

text \<open>Conversely, whatever the strict reader accepts is laid out in the shortest form.\<close>

lemma read_cbor_argument_wide:
  assumes r: "read_cbor_argument bs pos ai = Ok (n, pos')" and ai: "\<not> ai \<le> 23"
  obtains part where "read_part bs pos (head_width (unat n)) = Ok (part, pos')"
    and "unat n = be_nat part" and "ai = head_ai (unat n)"
proof -
  have bound: "be_nat (subslice bs pos (pos + k)) < 256 ^ k" if "pos + k \<le> length bs" for k
    using be_nat_less [of "subslice bs pos (pos + k)"] that by simp
  from r ai consider
      part where "ai = 24" "read_part bs pos 1 = Ok (part, pos')" "n = ucast (part ! 0)" "\<not> n < 24"
    | part where "ai = 25" "read_part bs pos 2 = Ok (part, pos')"
        "n = ucast (from_be_bytes part :: u16)" "\<not> n \<le> 0xff"
    | part where "ai = 26" "read_part bs pos 4 = Ok (part, pos')"
        "n = ucast (from_be_bytes part :: u32)" "\<not> n \<le> 0xffff"
    | part where "ai = 27" "read_part bs pos 8 = Ok (part, pos')"
        "n = from_be_bytes part" "\<not> n \<le> 0xffffffff"
    by (auto simp: read_cbor_argument_def Let_def and_then_Ok_iff split: if_splits)
  then show thesis
  proof cases
    case 1
    with bound [of 1] show ?thesis
      by (intro that [of part]) (auto simp: head_ai_def head_width_def read_part_Ok_iff
          word_less_nat_alt ucast_from_be_u8)
  next
    case 2
    with bound [of 2] show ?thesis
      by (intro that [of part]) (auto simp: head_ai_def head_width_def read_part_Ok_iff
          word_le_nat_alt ucast_from_be_u16)
  next
    case 3
    with bound [of 4] show ?thesis
      by (intro that [of part]) (auto simp: head_ai_def head_width_def read_part_Ok_iff
          word_le_nat_alt ucast_from_be_u32)
  next
    case 4
    with bound [of 8] show ?thesis
      by (intro that [of part]) (auto simp: head_ai_def head_width_def read_part_Ok_iff
          word_le_nat_alt unat_from_be_u64)
  qed
qed

lemma read_cbor_argument_canonical:
  assumes r: "read_cbor_argument bs pos ai = Ok (n, pos')" and pos: "pos \<le> length bs"
  shows "ai = head_ai (unat n)" and "pos' = pos + head_width (unat n)" and "pos' \<le> length bs"
    and "subslice bs pos pos' = be_bytes (head_width (unat n)) (unat n)"
proof -
  have "ai = head_ai (unat n) \<and> pos' = pos + head_width (unat n) \<and> pos' \<le> length bs
    \<and> subslice bs pos pos' = be_bytes (head_width (unat n)) (unat n)"
  proof (cases "ai \<le> 23")
    case True
    then have ai: "unat ai < 24" by (simp add: word_le_nat_alt)
    from True r have n: "n = ucast ai" "pos' = pos" by (simp_all add: read_cbor_argument_def)
    then have "unat n = unat ai"
      using ai by (simp add: unsigned_ucast_eq take_bit_nat_eq_self)
    with ai n pos show ?thesis by (simp add: head_ai_def head_width_def)
  next
    case False
    from r False obtain part where part: "read_part bs pos (head_width (unat n)) = Ok (part, pos')"
      and n: "unat n = be_nat part" and ai: "ai = head_ai (unat n)"
      by (rule read_cbor_argument_wide)
    from part have pos': "pos' = pos + head_width (unat n)" "pos' \<le> length bs"
      and subslice: "subslice bs pos pos' = part"
      by (simp_all add: read_part_Ok_iff)
    then have "length part = head_width (unat n)" by auto
    then have "be_bytes (head_width (unat n)) (unat n) = part"
      using be_bytes_be_nat [of part] n by simp
    with pos' subslice ai show ?thesis by simp
  qed
  then show "ai = head_ai (unat n)" "pos' = pos + head_width (unat n)" "pos' \<le> length bs"
    "subslice bs pos pos' = be_bytes (head_width (unat n)) (unat n)" by blast+
qed

section \<open>The contract of a shortest-form head encoder\<close>

locale head_encoder =
  fixes head :: "u8 \<Rightarrow> u64 \<Rightarrow> bytes"
  assumes head_read:
    "m < 8 \<Longrightarrow> drop pos bs = head m n @ rest \<Longrightarrow>
       read_typed_argument bs pos = Ok ((m, n), pos + length (head m n))"
    and read_head:
    "read_typed_argument bs pos = Ok ((m, n), pos') \<Longrightarrow>
       m < 8 \<and> pos < pos' \<and> pos' \<le> length bs \<and> subslice bs pos pos' = head m n"
begin

lemma head_nonempty: "m < 8 \<Longrightarrow> head m n \<noteq> []"
proof
  assume "m < 8" and "head m n = []"
  then have "read_typed_argument [] 0 = Ok ((m, n), 0)"
    using head_read [of m 0 "[]" n "[]"] by simp
  then show False using read_head by blast
qed

text \<open>Prefix-freeness: the head at the front of an input is determined by the input.\<close>

lemma head_prefix_free:
  assumes "m < 8" and "m' < 8" and "head m n @ rest = head m' n' @ rest'"
  shows "m = m' \<and> n = n' \<and> rest = rest'"
proof -
  from head_read [of m 0 "head m n @ rest" n rest] assms(1)
  have "read_typed_argument (head m n @ rest) 0 = Ok ((m, n), length (head m n))" by simp
  moreover from head_read [of m' 0 "head m n @ rest" n' rest'] assms(2,3)
  have "read_typed_argument (head m n @ rest) 0 = Ok ((m', n'), length (head m' n'))" by simp
  ultimately show ?thesis using assms(3) by simp
qed

lemma head_inj: "m < 8 \<Longrightarrow> m' < 8 \<Longrightarrow> head m n = head m' n' \<Longrightarrow> m = m' \<and> n = n'"
  using head_prefix_free [of m m' n "[]" n' "[]"] by simp

text \<open>Length-prefixed payloads inherit it: no two byte strings share an encoding.\<close>

lemma prefixed_payload_inj:
  assumes "m < 8" and "length x < 2 ^ 64" and "length y < 2 ^ 64"
    and "head m (word_of_nat (length x)) @ x @ r = head m (word_of_nat (length y)) @ y @ s"
  shows "x = y \<and> r = s"
proof -
  have "(word_of_nat (length x) :: u64) = word_of_nat (length y) \<and> x @ r = y @ s"
    using head_prefix_free [OF assms(1) assms(1) assms(4)] by simp
  with assms(2,3) show ?thesis by (auto simp: u64_of_nat_inject)
qed

end

lemma read_typed_argument_put_head:
  assumes "m < 8" and "drop pos bs = put_head m n @ rest"
  shows "read_typed_argument bs pos = Ok ((m, n), pos + length (put_head m n))"
proof -
  have ai: "head_ai (unat n) < 32"
    by (auto simp: head_ai_def word_less_nat_alt unsigned_ucast_eq take_bit_nat_eq_self)
  from assms(2) have b: "byte_at bs pos = Some (push_bit 5 m OR head_ai (unat n))"
    by (simp add: byte_at_drop put_head_layout)
  from drop_eq_append_next [of pos bs "[push_bit 5 m OR head_ai (unat n)]"] assms(2)
  have "drop (pos + 1) bs = be_bytes (head_width (unat n)) (unat n) @ rest"
    by (simp add: put_head_layout)
  then have "read_cbor_argument bs (pos + 1) (head_ai (unat n)) = Ok (n, pos + 1 + head_width (unat n))"
    by (rule read_cbor_argument_head)
  with b ai assms(1) show ?thesis
    by (simp add: read_typed_argument_def initial_byte_major initial_byte_ai put_head_layout
        del: drop_bit_or)
qed

lemma read_typed_argument_canonical:
  assumes "read_typed_argument bs pos = Ok ((m, n), pos')"
  shows "m < 8 \<and> pos < pos' \<and> pos' \<le> length bs \<and> subslice bs pos pos' = put_head m n"
proof -
  from assms obtain b where b: "byte_at bs pos = Some b" and m: "m = drop_bit 5 b"
    and r: "read_cbor_argument bs (pos + 1) (b AND 0x1f) = Ok (n, pos')"
    by (auto simp: read_typed_argument_def and_then_Ok_iff ok_or_Ok_iff)
  from b have pos: "pos < length bs" "bs ! pos = b" by (simp_all add: byte_at_Some)
  note c = read_cbor_argument_canonical [OF r]
  from pos c have "subslice bs pos pos' = subslice bs pos (Suc pos) @ subslice bs (Suc pos) pos'"
    by (subst subslice_append) simp_all
  also have "\<dots> = put_head m n"
    using pos c m initial_byte_split [of b] by (simp add: subslice_Suc put_head_layout)
  finally show ?thesis using c pos m initial_major_less [of b] by simp
qed

interpretation vtl_head: head_encoder put_head
  by unfold_locales (simp_all add: read_typed_argument_put_head read_typed_argument_canonical)

lemma length_put_head [simp]: "length (put_head m n) = Suc (head_width (unat n))"
  by (simp add: put_head_layout)

end
