(* ===== verification/Vtl_Cbor.thy ===== *)
theory Vtl_Cbor
  imports Cbor_Head
begin

unbundle bit_operations_syntax

text \<open>
  The strict CBOR value parser of the segment profile (\<open>crates/trackone-ledger/src/vtl.rs\<close>):
  \<open>DecodeBudget\<close>, \<open>CborValue\<close>, \<open>ensure_collection_fits\<close> and \<open>parse_cbor_value\<close> with its nesting
  limit, item budget, shortest-form heads and deterministic key order.  The specification is the
  encoder \<open>enc_value\<close>: the parser returns a value exactly when the input starts with the encoding
  of that value and the value is canonical and shallow enough.  Reserving memory is taken to
  succeed.
\<close>

section \<open>Definitions\<close>

datatype cbor_value =
    CborUint u64
  | CborBytes bytes
  | CborText string
  | CborArray "cbor_value list"
  | CborMap "(string \<times> cbor_value) list"
  | CborNull

definition MAX_CBOR_NESTING_DEPTH :: nat where
  "MAX_CBOR_NESTING_DEPTH = 32"

text \<open>The budget is the number of items that may still be read.\<close>

definition for_input :: "bytes \<Rightarrow> nat" where
  "for_input bs = length bs"

definition consume_item :: "nat \<Rightarrow> nat decode_result" where
  "consume_item remaining_items =
     (if 1 \<le> remaining_items then Ok (remaining_items - 1)
      else Err (ResourceLimit ''CBOR item budget exceeded''))"

definition ensure_collection_fits :: "bytes \<Rightarrow> nat \<Rightarrow> u64 \<Rightarrow> nat \<Rightarrow> nat decode_result" where
  "ensure_collection_fits bs pos len minimum_items_per_entry =
     (let count = unat len in
      if 2 ^ 64 \<le> count * minimum_items_per_entry
      then Err (ResourceLimit ''CBOR collection size overflows platform'')
      else if length bs - pos < count * minimum_items_per_entry
      then Err (Malformed ''CBOR collection length exceeds remaining input'')
      else Ok count)"

text \<open>A length-prefixed slice.  A slice has fewer than \<open>2 ^ 64\<close> bytes, so the overflow of the
  cursor's \<open>checked_add\<close> and the bound on the input are the one comparison.\<close>

definition read_slice :: "bytes \<Rightarrow> nat \<Rightarrow> u64 \<Rightarrow> string \<Rightarrow> (bytes \<times> nat) decode_result" where
  "read_slice bs pos len truncated =
     (let end = pos + unat len in
      if end \<le> length bs then Ok (subslice bs pos end, end)
      else Err (Malformed truncated))"

definition key_out_of_order :: "bytes option \<Rightarrow> bytes \<Rightarrow> bool" where
  "key_out_of_order previous_key raw_key \<longleftrightarrow>
     (case previous_key of
        None \<Rightarrow> False
      | Some previous \<Rightarrow> length previous > length raw_key
          \<or> length previous = length raw_key \<and> previous \<ge> raw_key)"

function parse_cbor_value ::
    "bytes \<Rightarrow> nat \<Rightarrow> nat \<Rightarrow> nat \<Rightarrow> (cbor_value \<times> nat \<times> nat) decode_result"
  and parse_items ::
    "bytes \<Rightarrow> nat \<Rightarrow> nat \<Rightarrow> nat \<Rightarrow> nat \<Rightarrow> (cbor_value list \<times> nat \<times> nat) decode_result"
  and parse_entries ::
    "bytes \<Rightarrow> nat \<Rightarrow> nat \<Rightarrow> nat \<Rightarrow> nat \<Rightarrow> bytes option
       \<Rightarrow> ((string \<times> cbor_value) list \<times> nat \<times> nat) decode_result"
where
  "parse_cbor_value bs pos depth budget =
     (if depth > MAX_CBOR_NESTING_DEPTH
      then Err (ResourceLimit ''CBOR nesting depth exceeds the supported limit'')
      else
        and_then (consume_item budget) (\<lambda>budget.
        and_then (ok_or (byte_at bs pos) (Malformed ''truncated CBOR item'')) (\<lambda>initial.
        let major = drop_bit 5 initial in
        and_then (read_cbor_argument bs (pos + 1) (initial AND 0x1f)) (\<lambda>(len, pos).
          if major = 0 then Ok (CborUint len, pos, budget)
          else if major = 2 then
            and_then (read_slice bs pos len ''truncated CBOR byte string'') (\<lambda>(value, pos).
              Ok (CborBytes value, pos, budget))
          else if major = 3 then
            and_then (read_slice bs pos len ''truncated CBOR text'') (\<lambda>(raw, pos).
              if utf8_valid raw then Ok (CborText (bytes_str raw), pos, budget)
              else Err (Malformed ''CBOR text is not UTF-8''))
          else if major = 4 then
            and_then (ensure_collection_fits bs pos len 1) (\<lambda>_.
            and_then (parse_items bs pos (depth + 1) budget (unat len)) (\<lambda>(items, pos, budget).
              Ok (CborArray items, pos, budget)))
          else if major = 5 then
            and_then (ensure_collection_fits bs pos len 2) (\<lambda>_.
            and_then (parse_entries bs pos (depth + 1) budget (unat len) None)
              (\<lambda>(entries, pos, budget). Ok (CborMap entries, pos, budget)))
          else if major = 7 \<and> initial AND 0x1f = 22 then Ok (CborNull, pos, budget)
          else if major = 1 \<or> major = 6 \<or> major = 7
          then Err (InvalidField ''unsupported CBOR value in segment artifact'')
          else Err (Malformed ''invalid CBOR major type'')))))"
| "parse_items bs pos depth budget 0 = Ok ([], pos, budget)"
| "parse_items bs pos depth budget (Suc n) =
     and_then (parse_cbor_value bs pos depth budget) (\<lambda>(item, pos, budget).
     and_then (parse_items bs pos depth budget n) (\<lambda>(items, pos, budget).
       Ok (item # items, pos, budget)))"
| "parse_entries bs pos depth budget 0 previous_key = Ok ([], pos, budget)"
| "parse_entries bs pos depth budget (Suc n) previous_key =
     (let start = pos in
      and_then (parse_cbor_value bs pos depth budget) (\<lambda>(key, pos, budget).
      let raw_key = subslice bs start pos in
      if key_out_of_order previous_key raw_key
      then Err (NonCanonical ''CBOR map keys are not in deterministic order'')
      else case key of
          CborText key \<Rightarrow>
            and_then (parse_cbor_value bs pos depth budget) (\<lambda>(value, pos, budget).
            and_then (parse_entries bs pos depth budget n (Some raw_key)) (\<lambda>(entries, pos, budget).
              Ok ((key, value) # entries, pos, budget)))
        | _ \<Rightarrow> Err (InvalidField ''segment map keys must be text'')))"
  by pat_completeness auto
termination
  by (relation "inv_image (less_than <*lex*> less_than)
      (\<lambda>x. case x of
          Inl (bs, pos, depth, budget) \<Rightarrow> (34 - depth, 0)
        | Inr (Inl (bs, pos, depth, budget, n)) \<Rightarrow> (34 - depth, Suc n)
        | Inr (Inr (bs, pos, depth, budget, n, p)) \<Rightarrow> (34 - depth, Suc n))")
    (auto simp: MAX_CBOR_NESTING_DEPTH_def)

declare parse_cbor_value.simps [simp del]

text \<open>The specification: the encoder, its canonical values, their height and number of items.\<close>

fun enc_value :: "cbor_value \<Rightarrow> bytes" where
  "enc_value (CborUint n) = cbor_uint n"
| "enc_value (CborBytes v) = cbor_bytes v"
| "enc_value (CborText s) = cbor_text s"
| "enc_value (CborArray vs) =
     cbor_array (word_of_nat (length vs)) (concat (map enc_value vs))"
| "enc_value (CborMap es) =
     cbor_map (word_of_nat (length es)) (concat (map (\<lambda>(k, v). cbor_key k @ enc_value v) es))"
| "enc_value CborNull = cbor_null"

definition key_less :: "string \<Rightarrow> string \<Rightarrow> bool" where
  "key_less a b \<longleftrightarrow> \<not> key_out_of_order (Some (cbor_text a)) (cbor_text b)"

definition text_ok :: "string \<Rightarrow> bool" where
  "text_ok s \<longleftrightarrow> length s < 2 ^ 64 \<and> utf8_valid (str_bytes s)"

fun canonical_value :: "cbor_value \<Rightarrow> bool" where
  "canonical_value (CborUint n) \<longleftrightarrow> True"
| "canonical_value (CborBytes v) \<longleftrightarrow> length v < 2 ^ 64"
| "canonical_value (CborText s) \<longleftrightarrow> text_ok s"
| "canonical_value (CborArray vs) \<longleftrightarrow> length vs < 2 ^ 64 \<and> list_all canonical_value vs"
| "canonical_value (CborMap es) \<longleftrightarrow> 2 * length es < 2 ^ 64
     \<and> list_all (\<lambda>(k, v). text_ok k \<and> canonical_value v) es \<and> successively key_less (map fst es)"
| "canonical_value CborNull \<longleftrightarrow> True"

fun value_height :: "cbor_value \<Rightarrow> nat" where
  "value_height (CborArray vs) = fold max (map (Suc \<circ> value_height) vs) 0"
| "value_height (CborMap es) = fold max (map (\<lambda>(k, v). Suc (value_height v)) es) 0"
| "value_height _ = 0"

fun item_count :: "cbor_value \<Rightarrow> nat" where
  "item_count (CborArray vs) = Suc (sum_list (map item_count vs))"
| "item_count (CborMap es) = Suc (sum_list (map (\<lambda>(k, v). Suc (item_count v)) es))"
| "item_count _ = 1"

section \<open>Whatever the parser accepts is a canonical encoding\<close>

text \<open>\<open>parsed_as\<close>: the input from \<open>pos\<close> to \<open>pos'\<close> is the encoding of a canonical value, and the
  budget went down by its items.\<close>

definition parsed_as :: "bytes \<Rightarrow> nat \<Rightarrow> nat \<Rightarrow> nat \<Rightarrow> cbor_value \<times> nat \<times> nat \<Rightarrow> bool" where
  "parsed_as bs pos depth budget = (\<lambda>(v, pos', budget').
     pos < pos' \<and> pos' \<le> length bs \<and> subslice bs pos pos' = enc_value v \<and> canonical_value v
     \<and> depth + value_height v \<le> MAX_CBOR_NESTING_DEPTH \<and> budget = budget' + item_count v)"

lemma fold_max_le: "fold max xs a \<le> (m :: nat) \<longleftrightarrow> a \<le> m \<and> (\<forall>x \<in> set xs. x \<le> m)"
  by (induction xs arbitrary: a) auto

lemma add_fold_max_le:
  "d \<le> m \<Longrightarrow> d + fold max (map f xs) 0 \<le> m \<longleftrightarrow> (\<forall>x \<in> set xs. d + f x \<le> (m :: nat))"
  using fold_max_le [of "map f xs" 0 "m - d"] by (auto simp: le_diff_conv2 add.commute)

lemma read_slice_Ok_iff:
  "read_slice bs pos len msg = Ok (part, pos') \<longleftrightarrow>
     pos' = pos + unat len \<and> pos' \<le> length bs \<and> part = subslice bs pos pos'"
  by (auto simp: read_slice_def Let_def)

lemma ensure_collection_fits_Ok_iff:
  "ensure_collection_fits bs pos len m = Ok c \<longleftrightarrow>
     c = unat len \<and> unat len * m < 2 ^ 64 \<and> unat len * m \<le> length bs - pos"
  by (auto simp: ensure_collection_fits_def Let_def)

lemma consume_item_Ok_iff: "consume_item b = Ok b' \<longleftrightarrow> b = Suc b'"
  by (auto simp: consume_item_def)

text \<open>The parser with its head read by \<open>read_typed_argument\<close> and the dispatch on the major type
  on its own.\<close>

definition parse_body ::
  "bytes \<Rightarrow> nat \<Rightarrow> nat \<Rightarrow> u8 \<Rightarrow> u64 \<Rightarrow> nat \<Rightarrow> (cbor_value \<times> nat \<times> nat) decode_result" where
  "parse_body bs depth budget major len pos =
     (if major = 0 then Ok (CborUint len, pos, budget)
      else if major = 2 then
        and_then (read_slice bs pos len ''truncated CBOR byte string'') (\<lambda>(value, pos).
          Ok (CborBytes value, pos, budget))
      else if major = 3 then
        and_then (read_slice bs pos len ''truncated CBOR text'') (\<lambda>(raw, pos).
          if utf8_valid raw then Ok (CborText (bytes_str raw), pos, budget)
          else Err (Malformed ''CBOR text is not UTF-8''))
      else if major = 4 then
        and_then (ensure_collection_fits bs pos len 1) (\<lambda>_.
        and_then (parse_items bs pos (depth + 1) budget (unat len)) (\<lambda>(items, pos, budget).
          Ok (CborArray items, pos, budget)))
      else if major = 5 then
        and_then (ensure_collection_fits bs pos len 2) (\<lambda>_.
        and_then (parse_entries bs pos (depth + 1) budget (unat len) None)
          (\<lambda>(entries, pos, budget). Ok (CborMap entries, pos, budget)))
      else if major = 7 \<and> len = 22 then Ok (CborNull, pos, budget)
      else if major = 1 \<or> major = 6 \<or> major = 7
      then Err (InvalidField ''unsupported CBOR value in segment artifact'')
      else Err (Malformed ''invalid CBOR major type''))"

lemma simple_value_argument:
  assumes "read_cbor_argument bs (pos + 1) ai = Ok (len, p)" and "pos + 1 \<le> length bs"
  shows "ai = 22 \<longleftrightarrow> len = 22"
proof
  assume "ai = 22"
  with assms show "len = 22" by (simp add: read_cbor_argument_def)
next
  assume "len = 22"
  with read_cbor_argument_canonical(1) [OF assms] show "ai = 22" by (simp add: head_ai_def)
qed

lemma parse_cbor_value_eq:
  "parse_cbor_value bs pos depth budget =
     (if depth > MAX_CBOR_NESTING_DEPTH
      then Err (ResourceLimit ''CBOR nesting depth exceeds the supported limit'')
      else and_then (consume_item budget) (\<lambda>b.
        and_then (read_typed_argument bs pos) (\<lambda>((major, len), p).
          parse_body bs depth b major len p)))"
proof (cases "byte_at bs pos")
  case None
  then show ?thesis by (subst parse_cbor_value.simps) (simp add: read_typed_argument_def)
next
  case (Some initial)
  show ?thesis
  proof (cases "read_cbor_argument bs (pos + 1) (initial AND 0x1f)")
    case (Inl e)
    with Some show ?thesis
      by (subst parse_cbor_value.simps) (simp add: read_typed_argument_def Let_def)
  next
    case (Inr lp)
    obtain len p where lp: "lp = (len, p)" by (cases lp)
    have "initial AND 0x1f = 22 \<longleftrightarrow> len = 22"
      using Inr Some by (intro simple_value_argument) (auto simp: lp byte_at_Some)
    with Some Inr lp show ?thesis
      by (subst parse_cbor_value.simps)
        (simp add: read_typed_argument_def Let_def parse_body_def cong: if_cong)
  qed
qed

lemma parse_body_sound:
  assumes "parse_body bs depth b major len p = Ok (v, pos', b')"
  obtains
    (uint) "major = 0" "v = CborUint len" "pos' = p" "b' = b"
  | (byte) x where "major = 2" "read_slice bs p len ''truncated CBOR byte string'' = Ok (x, pos')"
      "v = CborBytes x" "b' = b"
  | (str) x where "major = 3" "read_slice bs p len ''truncated CBOR text'' = Ok (x, pos')"
      "utf8_valid x" "v = CborText (bytes_str x)" "b' = b"
  | (arr) vs where "major = 4" "unat len < 2 ^ 64"
      "parse_items bs p (depth + 1) b (unat len) = Ok (vs, pos', b')" "v = CborArray vs"
  | (mp) es where "major = 5" "2 * unat len < 2 ^ 64"
      "parse_entries bs p (depth + 1) b (unat len) None = Ok (es, pos', b')" "v = CborMap es"
  | (nul) "major = 7" "len = 22" "v = CborNull" "pos' = p" "b' = b"
  using assms unfolding parse_body_def
  by (auto simp: and_then_Ok_iff ensure_collection_fits_Ok_iff split: if_splits)

definition sound_at :: "nat \<Rightarrow> bool" where
  "sound_at depth \<longleftrightarrow> (\<forall>bs pos budget r. parse_cbor_value bs pos depth budget = Ok r \<longrightarrow>
     parsed_as bs pos depth budget r)"

lemma parse_items_sound:
  assumes "sound_at depth" and "pos \<le> length bs"
    and "parse_items bs pos depth budget n = Ok (vs, pos', budget')"
  shows "length vs = n \<and> pos \<le> pos' \<and> pos' \<le> length bs
    \<and> subslice bs pos pos' = concat (map enc_value vs) \<and> list_all canonical_value vs
    \<and> (\<forall>v \<in> set vs. depth + value_height v \<le> MAX_CBOR_NESTING_DEPTH)
    \<and> budget = budget' + sum_list (map item_count vs)"
  using assms(2,3)
proof (induction n arbitrary: pos budget vs)
  case 0
  then show ?case by simp
next
  case (Suc n)
  from Suc.prems obtain v p b ws where
    v: "parse_cbor_value bs pos depth budget = Ok (v, p, b)"
    and ws: "parse_items bs p depth b n = Ok (ws, pos', budget')" and vs: "vs = v # ws"
    by (auto simp: and_then_Ok_iff)
  from v assms(1) have pv: "parsed_as bs pos depth budget (v, p, b)" by (auto simp: sound_at_def)
  then have p: "p \<le> length bs" by (simp add: parsed_as_def)
  from Suc.IH [OF p ws] pv vs show ?case
    using subslice_append [of pos p pos' bs] by (auto simp: parsed_as_def)
qed

lemma parse_entries_sound:
  assumes "sound_at depth" and "pos \<le> length bs"
    and "parse_entries bs pos depth budget n (map_option cbor_text pk) = Ok (es, pos', budget')"
  shows "length es = n \<and> pos \<le> pos' \<and> pos' \<le> length bs
    \<and> subslice bs pos pos' = concat (map (\<lambda>(k, v). cbor_key k @ enc_value v) es)
    \<and> list_all (\<lambda>(k, v). text_ok k \<and> canonical_value v) es
    \<and> successively key_less ((case pk of None \<Rightarrow> [] | Some k \<Rightarrow> [k]) @ map fst es)
    \<and> (\<forall>(k, v) \<in> set es. depth + value_height v \<le> MAX_CBOR_NESTING_DEPTH)
    \<and> budget = budget' + sum_list (map (\<lambda>(k, v). Suc (item_count v)) es)"
  using assms(2,3)
proof (induction n arbitrary: pos budget es pk)
  case 0
  then show ?case by (cases pk) simp_all
next
  case (Suc n)
  from Suc.prems(2) obtain k p b v q c fs where
    k: "parse_cbor_value bs pos depth budget = Ok (CborText k, p, b)"
    and ord: "\<not> key_out_of_order (map_option cbor_text pk) (subslice bs pos p)"
    and v: "parse_cbor_value bs p depth b = Ok (v, q, c)"
    and fs: "parse_entries bs q depth c n (Some (subslice bs pos p)) = Ok (fs, pos', budget')"
    and es: "es = (k, v) # fs"
    by (auto simp: and_then_Ok_iff Let_def split: if_splits cbor_value.splits)
  from k v assms(1) have pk: "parsed_as bs pos depth budget (CborText k, p, b)"
    and pv: "parsed_as bs p depth b (v, q, c)" by (auto simp: sound_at_def)
  then have q: "q \<le> length bs" and raw: "subslice bs pos p = cbor_text k"
    by (simp_all add: parsed_as_def)
  from fs have fs': "parse_entries bs q depth c n (map_option cbor_text (Some k)) = Ok (fs, pos', budget')"
    by (simp add: raw)
  have "successively key_less ((case pk of None \<Rightarrow> [] | Some k \<Rightarrow> [k]) @ [k])"
    using ord raw by (cases pk) (simp_all add: key_less_def)
  with Suc.IH [OF q fs'] pk pv es raw show ?case
    using subslice_append [of pos p q bs] subslice_append [of pos q pos' bs]
    by (cases pk) (auto simp: parsed_as_def cbor_key_def)
qed

lemma not_sound_above: "MAX_CBOR_NESTING_DEPTH < depth \<Longrightarrow> sound_at depth"
  by (simp add: sound_at_def parse_cbor_value_eq)

lemma sound_step:
  assumes IH: "sound_at (depth + 1)"
  shows "sound_at depth"
  unfolding sound_at_def
proof (intro allI impI)
  fix bs pos budget r
  assume ok: "parse_cbor_value bs pos depth budget = Ok r"
  obtain v pos' b' where r: "r = (v, pos', b')" by (cases r)
  from ok r obtain b major len p where d: "depth \<le> MAX_CBOR_NESTING_DEPTH" and bud: "budget = Suc b"
    and h: "read_typed_argument bs pos = Ok ((major, len), p)"
    and body: "parse_body bs depth b major len p = Ok (v, pos', b')"
    by (auto simp: parse_cbor_value_eq and_then_Ok_iff consume_item_Ok_iff split: if_splits)
  from read_typed_argument_canonical [OF h] have p: "pos < p" "p \<le> length bs"
    and raw: "subslice bs pos p = put_head major len" by simp_all
  note app = subslice_append [of pos p pos' bs]
  from body show "parsed_as bs pos depth budget r"
  proof (cases rule: parse_body_sound)
    case uint
    with d bud p raw r show ?thesis by (simp add: parsed_as_def cbor_uint_def)
  next
    case (byte x)
    then have "length x = unat len" by (auto simp: read_slice_Ok_iff)
    then have "word_of_nat (length x) = len" by simp
    with byte d bud p raw r app show ?thesis
      by (auto simp: parsed_as_def cbor_bytes_def read_slice_Ok_iff)
  next
    case (str x)
    then have "length x = unat len" by (auto simp: read_slice_Ok_iff)
    then have "word_of_nat (length x) = len" by simp
    with str d bud p raw r app show ?thesis
      by (auto simp: parsed_as_def cbor_text_def read_slice_Ok_iff text_ok_def)
  next
    case (arr vs)
    from parse_items_sound [OF IH p(2) arr(3)] arr d bud p raw r app show ?thesis
      by (auto simp: parsed_as_def cbor_array_def add_fold_max_le)
  next
    case (mp es)
    have "parse_entries bs p (depth + 1) b (unat len) (map_option cbor_text None) = Ok (es, pos', b')"
      using mp by simp
    from parse_entries_sound [OF IH p(2) this] mp d bud p raw r app show ?thesis
      by (auto simp: parsed_as_def cbor_map_def add_fold_max_le)
  next
    case nul
    have "put_head 7 22 = cbor_null" by (simp add: put_head_def cbor_null_def)
    with nul d bud p raw r show ?thesis by (simp add: parsed_as_def)
  qed
qed

lemma sound_always: "sound_at depth"
proof (induction "MAX_CBOR_NESTING_DEPTH + 1 - depth" arbitrary: depth)
  case 0
  then show ?case by (intro not_sound_above) simp
next
  case (Suc k)
  then have "sound_at (depth + 1)" by simp
  then show ?case by (rule sound_step)
qed

lemma parse_cbor_value_sound:
  "parse_cbor_value bs pos depth budget = Ok r \<Longrightarrow> parsed_as bs pos depth budget r"
  using sound_always [of depth] unfolding sound_at_def by blast

section \<open>Every canonical encoding is accepted\<close>

lemma items_pos: "0 < item_count v"
  by (cases v) simp_all

lemma sum_list_map_le: "(\<And>x. x \<in> set xs \<Longrightarrow> f x \<le> g x) \<Longrightarrow> sum_list (map f xs) \<le> sum_list (map g xs)"
  for f g :: "'a \<Rightarrow> nat"
  by (induction xs) (auto intro: add_mono)

lemma items_le_length: "item_count v \<le> length (enc_value v)"
proof (induction v rule: item_count.induct)
  case (1 vs)
  then have "sum_list (map item_count vs) \<le> sum_list (map (length \<circ> enc_value) vs)"
    by (intro sum_list_map_le) simp
  then show ?case by (simp add: cbor_array_def length_concat comp_def)
next
  case (2 es)
  have "sum_list (map (\<lambda>(k, v). Suc (item_count v)) es)
    \<le> sum_list (map (\<lambda>(k, v). length (cbor_key k @ enc_value v)) es)"
    using 2 by (intro sum_list_map_le) (force simp: cbor_key_def cbor_text_def)
  then show ?case by (simp add: cbor_map_def length_concat comp_def case_prod_unfold)
qed (simp_all add: cbor_uint_def cbor_bytes_def cbor_text_def cbor_null_def)

definition complete_at :: "nat \<Rightarrow> cbor_value \<Rightarrow> bool" where
  "complete_at depth v \<longleftrightarrow> (\<forall>bs pos rest budget.
     drop pos bs = enc_value v @ rest \<longrightarrow> item_count v \<le> budget \<longrightarrow>
     parse_cbor_value bs pos depth budget = Ok (v, pos + length (enc_value v), budget - item_count v))"

lemma parse_items_complete:
  assumes "\<forall>v \<in> set vs. complete_at depth v"
    and "drop pos bs = concat (map enc_value vs) @ rest" and "sum_list (map item_count vs) \<le> budget"
  shows "parse_items bs pos depth budget (length vs)
    = Ok (vs, pos + length (concat (map enc_value vs)), budget - sum_list (map item_count vs))"
  using assms
proof (induction vs arbitrary: pos budget)
  case Nil
  then show ?case by simp
next
  case (Cons v vs)
  from Cons.prems(2) have d: "drop pos bs = enc_value v @ (concat (map enc_value vs) @ rest)" by simp
  with Cons.prems have "parse_cbor_value bs pos depth budget
      = Ok (v, pos + length (enc_value v), budget - item_count v)"
    by (simp add: complete_at_def)
  moreover have "parse_items bs (pos + length (enc_value v)) depth (budget - item_count v) (length vs)
      = Ok (vs, pos + length (enc_value v) + length (concat (map enc_value vs)),
            budget - item_count v - sum_list (map item_count vs))"
    using Cons.prems drop_eq_append_next [OF d] by (intro Cons.IH) simp_all
  ultimately show ?case by simp
qed

lemma read_head_drop:
  assumes "m < 8" and "drop pos bs = put_head m n @ rest"
  shows "read_typed_argument bs pos = Ok ((m, n), pos + length (put_head m n))"
    and "drop (pos + length (put_head m n)) bs = rest"
  using read_typed_argument_put_head [OF assms] drop_eq_append_next [OF assms(2)] by simp_all

lemma read_slice_ok:
  assumes "drop pos bs = x @ rest" and "pos \<le> length bs" and "length x < 2 ^ 64"
  shows "read_slice bs pos (word_of_nat (length x)) msg = Ok (x, pos + length x)"
proof -
  have "length bs - pos = length x + length rest" using assms(1) by (metis length_append length_drop)
  then have "pos + length x \<le> length bs" using assms(2) by linarith
  with assms show ?thesis
    using subslice_drop [OF assms(1)] by (simp add: read_slice_def Let_def unat_u64_of_nat)
qed

lemma drop_Cons_le: "drop pos bs = put_head m n @ rest \<Longrightarrow> pos + length (put_head m n) \<le> length bs"
  using drop_eq_append_length [of pos bs "put_head m n" rest] by (simp add: put_head_layout)

lemma complete_text:
  assumes "depth \<le> MAX_CBOR_NESTING_DEPTH" and "text_ok s"
  shows "complete_at depth (CborText s)"
  unfolding complete_at_def
proof (intro allI impI)
  fix bs pos rest budget
  assume d: "drop pos bs = enc_value (CborText s) @ rest" and b: "item_count (CborText s) \<le> budget"
  let ?h = "put_head 3 (word_of_nat (length s))"
  from d have d': "drop pos bs = ?h @ (str_bytes s @ rest)" by (simp add: cbor_text_def)
  note h = read_head_drop [OF _ d', simplified]
  have "read_slice bs (pos + length ?h) (word_of_nat (length s)) msg
      = Ok (str_bytes s, pos + length ?h + length s)" for msg
    using read_slice_ok [OF h(2)] drop_Cons_le [OF d'] assms(2) by (simp add: text_ok_def)
  with h b assms show "parse_cbor_value bs pos depth budget
      = Ok (CborText s, pos + length (enc_value (CborText s)), budget - item_count (CborText s))"
    by (simp add: parse_cbor_value_eq parse_body_def consume_item_def cbor_text_def text_ok_def)
qed

lemma parse_entries_complete:
  assumes "depth \<le> MAX_CBOR_NESTING_DEPTH"
    and "\<forall>(k, v) \<in> set es. text_ok k \<and> complete_at depth v"
    and "drop pos bs = concat (map (\<lambda>(k, v). cbor_key k @ enc_value v) es) @ rest"
    and "sum_list (map (\<lambda>(k, v). Suc (item_count v)) es) \<le> budget"
    and "successively key_less ((case pk of None \<Rightarrow> [] | Some k \<Rightarrow> [k]) @ map fst es)"
  shows "parse_entries bs pos depth budget (length es) (map_option cbor_text pk)
    = Ok (es, pos + length (concat (map (\<lambda>(k, v). cbor_key k @ enc_value v) es)),
          budget - sum_list (map (\<lambda>(k, v). Suc (item_count v)) es))"
  using assms(2-)
proof (induction es arbitrary: pos budget pk)
  case Nil
  then show ?case by simp
next
  case (Cons e es)
  obtain k v where e: "e = (k, v)" by (cases e)
  let ?r = "concat (map (\<lambda>(k, v). cbor_key k @ enc_value v) es) @ rest"
  let ?p = "pos + length (cbor_text k)" and ?b = "budget - 1 - item_count v"
  let ?q = "?p + length (enc_value v)"
  from Cons.prems(2) e have d: "drop pos bs = cbor_text k @ (enc_value v @ ?r)"
    by (simp add: cbor_key_def)
  have k: "parse_cbor_value bs pos depth budget = Ok (CborText k, ?p, budget - 1)"
    using complete_text [of depth k] assms(1) Cons.prems d e by (simp add: complete_at_def)
  have d2: "drop ?p bs = enc_value v @ ?r" by (rule drop_eq_append_next [OF d])
  have v: "parse_cbor_value bs ?p depth (budget - 1) = Ok (v, ?q, ?b)"
    using Cons.prems d2 e by (simp add: complete_at_def)
  have raw: "subslice bs pos ?p = cbor_text k" by (rule subslice_drop [OF d])
  have es: "parse_entries bs ?q depth ?b (length es) (map_option cbor_text (Some k))
      = Ok (es, ?q + length (concat (map (\<lambda>(k, v). cbor_key k @ enc_value v) es)),
          ?b - sum_list (map (\<lambda>(k, v). Suc (item_count v)) es))"
    using Cons.prems drop_eq_append_next [OF d2] e
    by (intro Cons.IH) (cases pk; simp)+
  have "\<not> key_out_of_order (map_option cbor_text pk) (cbor_text k)"
    using Cons.prems(4) e by (cases pk) (simp_all add: key_less_def key_out_of_order_def)
  with k v raw es e show ?case by (simp add: Let_def cbor_key_def)
qed

lemma concat_length_ge: "(\<And>x. x \<in> set xs \<Longrightarrow> m \<le> length (f x)) \<Longrightarrow> length xs * m \<le> length (concat (map f xs))"
  by (induction xs) (auto intro: add_mono)

lemma ensure_collection_fits_ok:
  assumes "drop pos bs = body @ rest" and "n * m \<le> length body" and "n * m < 2 ^ 64" and "n < 2 ^ 64"
  shows "ensure_collection_fits bs pos (word_of_nat n) m = Ok n"
proof -
  have "length bs - pos = length body + length rest" using assms(1) by (metis length_append length_drop)
  with assms show ?thesis by (simp add: ensure_collection_fits_def Let_def unat_u64_of_nat)
qed

lemma parse_head_body:
  assumes "depth \<le> MAX_CBOR_NESTING_DEPTH" and "m < 8" and "drop pos bs = put_head m n @ rest"
    and "parse_body bs depth b m n (pos + length (put_head m n)) = r"
  shows "parse_cbor_value bs pos depth (Suc b) = r"
  using assms read_head_drop(1) [OF assms(2,3)] by (simp add: parse_cbor_value_eq consume_item_def)

lemma complete_array:
  assumes "depth \<le> MAX_CBOR_NESTING_DEPTH" and "length vs < 2 ^ 64"
    and "\<forall>v \<in> set vs. complete_at (depth + 1) v"
  shows "complete_at depth (CborArray vs)"
  unfolding complete_at_def
proof (intro allI impI)
  fix bs pos rest budget
  assume d: "drop pos bs = enc_value (CborArray vs) @ rest" and b: "item_count (CborArray vs) \<le> budget"
  let ?body = "concat (map enc_value vs)"
  let ?h = "put_head 4 (word_of_nat (length vs))"
  from b obtain b' where b': "budget = Suc b'" "sum_list (map item_count vs) \<le> b'" by (cases budget) auto
  from d have d': "drop pos bs = ?h @ (?body @ rest)" by (simp add: cbor_array_def)
  note dp = drop_eq_append_next [OF d']
  have "length vs * 1 \<le> length ?body"
    by (rule concat_length_ge) (metis Suc_leI One_nat_def items_le_length items_pos order_less_le_trans)
  then have fits: "ensure_collection_fits bs (pos + length ?h) (word_of_nat (length vs)) 1
      = Ok (length vs)"
    using assms(2) by (intro ensure_collection_fits_ok [OF dp]) simp_all
  have "parse_body bs depth b' 4 (word_of_nat (length vs)) (pos + length ?h)
      = Ok (CborArray vs, pos + length (enc_value (CborArray vs)), budget - item_count (CborArray vs))"
    using parse_items_complete [OF assms(3) dp b'(2)] fits b' assms(2)
    by (simp add: parse_body_def cbor_array_def unat_u64_of_nat)
  with assms(1) d' show "parse_cbor_value bs pos depth budget
      = Ok (CborArray vs, pos + length (enc_value (CborArray vs)), budget - item_count (CborArray vs))"
    unfolding b'(1) by (intro parse_head_body [of depth 4]) simp_all
qed

lemma complete_map:
  assumes "depth + 1 \<le> MAX_CBOR_NESTING_DEPTH \<or> es = []" and "depth \<le> MAX_CBOR_NESTING_DEPTH"
    and "2 * length es < 2 ^ 64"
    and "\<forall>(k, v) \<in> set es. text_ok k \<and> complete_at (depth + 1) v"
    and "successively key_less (map fst es)"
  shows "complete_at depth (CborMap es)"
  unfolding complete_at_def
proof (intro allI impI)
  fix bs pos rest budget
  assume d: "drop pos bs = enc_value (CborMap es) @ rest" and b: "item_count (CborMap es) \<le> budget"
  let ?enc = "\<lambda>(k, v). cbor_key k @ enc_value v"
  let ?body = "concat (map ?enc es)"
  let ?h = "put_head 5 (word_of_nat (length es))"
  from b obtain b' where b': "budget = Suc b'" "sum_list (map (\<lambda>(k, v). Suc (item_count v)) es) \<le> b'"
    by (cases budget) auto
  from d have d': "drop pos bs = ?h @ (?body @ rest)" by (simp add: cbor_map_def)
  note dp = drop_eq_append_next [OF d']
  have "length es * 2 \<le> length ?body"
  proof (rule concat_length_ge)
    fix e :: "string \<times> cbor_value"
    have "1 \<le> length (enc_value (snd e))" using items_pos [of "snd e"] items_le_length [of "snd e"] by linarith
    moreover have "1 \<le> length (cbor_key (fst e))" by (simp add: cbor_key_def cbor_text_def)
    ultimately show "2 \<le> length (?enc e)" by (simp add: case_prod_unfold)
  qed
  then have fits: "ensure_collection_fits bs (pos + length ?h) (word_of_nat (length es)) 2
      = Ok (length es)"
    using assms(3) by (intro ensure_collection_fits_ok [OF dp]) simp_all
  have "parse_entries bs (pos + length ?h) (depth + 1) b' (length es) (map_option cbor_text None)
      = Ok (es, pos + length ?h + length ?body, b' - sum_list (map (\<lambda>(k, v). Suc (item_count v)) es))"
  proof (cases "es = []")
    case False
    with assms show ?thesis by (intro parse_entries_complete [OF _ _ dp b'(2)]) auto
  qed simp
  then have "parse_body bs depth b' 5 (word_of_nat (length es)) (pos + length ?h)
      = Ok (CborMap es, pos + length (enc_value (CborMap es)), budget - item_count (CborMap es))"
    using fits b' assms(3) by (simp add: parse_body_def cbor_map_def unat_u64_of_nat)
  with assms(2) d' show "parse_cbor_value bs pos depth budget
      = Ok (CborMap es, pos + length (enc_value (CborMap es)), budget - item_count (CborMap es))"
    unfolding b'(1) by (intro parse_head_body [of depth 5]) simp_all
qed

lemma canonical_complete:
  "canonical_value v \<Longrightarrow> depth + value_height v \<le> MAX_CBOR_NESTING_DEPTH \<Longrightarrow> complete_at depth v"
proof (induction v arbitrary: depth rule: canonical_value.induct)
  case (1 n)
  show ?case
    unfolding complete_at_def
  proof (intro allI impI)
    fix bs pos rest budget
    assume d: "drop pos bs = enc_value (CborUint n) @ rest" and b: "item_count (CborUint n) \<le> budget"
    from b obtain b' where "budget = Suc b'" by (cases budget) auto
    with 1 d show "parse_cbor_value bs pos depth budget
        = Ok (CborUint n, pos + length (enc_value (CborUint n)), budget - item_count (CborUint n))"
      by (auto simp: cbor_uint_def parse_body_def intro: parse_head_body [of depth 0])
  qed
next
  case (2 x)
  show ?case
    unfolding complete_at_def
  proof (intro allI impI)
    fix bs pos rest budget
    assume d: "drop pos bs = enc_value (CborBytes x) @ rest" and b: "item_count (CborBytes x) \<le> budget"
    from b obtain b' where b': "budget = Suc b'" by (cases budget) auto
    let ?h = "put_head 2 (word_of_nat (length x))"
    from d have d': "drop pos bs = ?h @ (x @ rest)" by (simp add: cbor_bytes_def)
    have "read_slice bs (pos + length ?h) (word_of_nat (length x)) msg
        = Ok (x, pos + length ?h + length x)" for msg
      using read_slice_ok [OF drop_eq_append_next [OF d']] drop_Cons_le [OF d'] 2 by simp
    with b' 2 d' show "parse_cbor_value bs pos depth budget
        = Ok (CborBytes x, pos + length (enc_value (CborBytes x)), budget - item_count (CborBytes x))"
      by (auto simp: cbor_bytes_def parse_body_def intro: parse_head_body [of depth 2])
  qed
next
  case (3 s)
  then show ?case by (simp add: complete_text)
next
  case (4 vs)
  have d: "depth \<le> MAX_CBOR_NESTING_DEPTH" using 4 by simp
  have "depth + fold max (map (Suc \<circ> value_height) vs) 0 \<le> MAX_CBOR_NESTING_DEPTH" using 4 by simp
  then have "\<forall>v \<in> set vs. depth + Suc (value_height v) \<le> MAX_CBOR_NESTING_DEPTH"
    unfolding add_fold_max_le [OF d] by simp
  then have "\<forall>v \<in> set vs. complete_at (depth + 1) v" using 4 by (simp add: list_all_iff)
  with 4 d show ?case by (intro complete_array) simp_all
next
  case (5 es)
  have d: "depth \<le> MAX_CBOR_NESTING_DEPTH" using 5 by simp
  have "depth + fold max (map (\<lambda>e. Suc (value_height (snd e))) es) 0 \<le> MAX_CBOR_NESTING_DEPTH"
    using 5 by (simp add: case_prod_unfold)
  then have h: "\<forall>e \<in> set es. depth + Suc (value_height (snd e)) \<le> MAX_CBOR_NESTING_DEPTH"
    unfolding add_fold_max_le [OF d] .
  then have "depth + 1 \<le> MAX_CBOR_NESTING_DEPTH \<or> es = []" by (cases es) auto
  moreover have "\<forall>(k, v) \<in> set es. text_ok k \<and> complete_at (depth + 1) v"
    using 5 h by (force simp: list_all_iff)
  ultimately show ?case using 5 d by (intro complete_map) simp_all
next
  case 6
  have n: "put_head 7 22 = cbor_null" by (simp add: put_head_def cbor_null_def)
  show ?case
    unfolding complete_at_def
  proof (intro allI impI)
    fix bs pos rest budget
    assume d: "drop pos bs = enc_value CborNull @ rest" and b: "item_count CborNull \<le> budget"
    from b obtain b' where b': "budget = Suc b'" by (cases budget) auto
    from d have d': "drop pos bs = put_head 7 22 @ rest" by (simp only: enc_value.simps n)
    show "parse_cbor_value bs pos depth budget
        = Ok (CborNull, pos + length (enc_value CborNull), budget - item_count CborNull)"
      unfolding b' using 6 by (intro parse_head_body [OF _ _ d'])
        (simp_all add: parse_body_def, simp_all add: cbor_null_def head_width_def)
  qed
qed

lemma parse_cbor_value_complete:
  assumes "canonical_value v" and "depth + value_height v \<le> MAX_CBOR_NESTING_DEPTH"
    and "drop pos bs = enc_value v @ rest" and "item_count v \<le> budget"
  shows "parse_cbor_value bs pos depth budget = Ok (v, pos + length (enc_value v), budget - item_count v)"
  using canonical_complete [OF assms(1,2)] assms(3,4) by (simp add: complete_at_def)

section \<open>Properties\<close>

text \<open>C6: On a whole input with the budget the decoder starts with, the strict parser succeeds and
  consumes everything exactly when the input is the deterministic encoding of a canonical value
  (shortest heads, UTF-8 text, keys strictly increasing in deterministic order) nested at most 32
  deep, and it returns that value; the item budget never rejects such an input.\<close>

theorem parse_accepts_exactly_canonical_encodings:
  "parse_cbor_value bs 0 0 (for_input bs) = Ok (v, length bs, budget') \<longleftrightarrow>
     bs = enc_value v \<and> canonical_value v \<and> value_height v \<le> MAX_CBOR_NESTING_DEPTH
     \<and> budget' = length bs - item_count v"
proof
  assume "parse_cbor_value bs 0 0 (for_input bs) = Ok (v, length bs, budget')"
  from parse_cbor_value_sound [OF this] show "bs = enc_value v \<and> canonical_value v
      \<and> value_height v \<le> MAX_CBOR_NESTING_DEPTH \<and> budget' = length bs - item_count v"
    by (auto simp: parsed_as_def subslice_full for_input_def)
next
  assume "bs = enc_value v \<and> canonical_value v \<and> value_height v \<le> MAX_CBOR_NESTING_DEPTH
      \<and> budget' = length bs - item_count v"
  then show "parse_cbor_value bs 0 0 (for_input bs) = Ok (v, length bs, budget')"
    using parse_cbor_value_complete [of v 0 0 bs "[]" "for_input bs"] items_le_length [of v]
    by (simp add: for_input_def)
qed

end
