(* ===== verification/Float_Bits.thy ===== *)
theory Float_Bits
  imports Cbor_Head
begin

unbundle bit_operations_syntax

text \<open>
  Floating-point values of commitment bytes, as bit patterns: \<open>f64\<close> is a \<open>u64\<close>, \<open>f32\<close> a
  \<open>u32\<close>, binary16 a \<open>u16\<close>.  The conversions of the language (\<open>as f64\<close>, exact; \<open>as f32\<close>, round to
  nearest even) and the exact arithmetic of \<open>decode_f16\<close> are written on sign, exponent and
  mantissa.  From \<open>crates/trackone-ledger/src/c_cbor.rs\<close>: \<open>try_encode_as_f16\<close>, \<open>cbor_float\<close>,
  \<open>canonical_float_bytes\<close>; from \<open>vtl.rs\<close>: \<open>decode_f16\<close>.
\<close>

section \<open>Definitions\<close>

definition f64_is_finite :: "u64 \<Rightarrow> bool" where
  "f64_is_finite v \<longleftrightarrow> drop_bit 52 v AND 0x7FF \<noteq> 0x7FF"

definition f64_eq_zero :: "u64 \<Rightarrow> bool" where
  "f64_eq_zero v \<longleftrightarrow> v AND 0x7FFFFFFFFFFFFFFF = 0"

text \<open>A binary format with \<open>eb\<close> exponent and \<open>mb\<close> mantissa bits, read as an \<open>f64\<close>.  An all-ones
  exponent becomes an infinity, or the quiet NaN.\<close>

definition f64_parts :: "nat \<Rightarrow> nat \<Rightarrow> nat \<Rightarrow> u64" where
  "f64_parts s e m = word_of_nat (s * 2 ^ 63 + e * 2 ^ 52 + m)"

definition widen :: "nat \<Rightarrow> nat \<Rightarrow> nat \<Rightarrow> u64" where
  "widen eb mb n =
     (let s = n div 2 ^ (eb + mb); e = n div 2 ^ mb mod 2 ^ eb; m = n mod 2 ^ mb;
          bias = 2 ^ (eb - 1) - 1 in
      if e = 2 ^ eb - 1 then (if m = 0 then f64_parts s 2047 0 else f64_parts 0 2047 (2 ^ 51))
      else if e = 0 \<and> m = 0 then f64_parts s 0 0
      else if e = 0 then
        let k = floorlog 2 m - 1 in f64_parts s (k + 1024 - bias - mb) ((m - 2 ^ k) * 2 ^ (52 - k))
      else f64_parts s (e + 1023 - bias) (m * 2 ^ (52 - mb)))"

definition f32_to_f64 :: "u32 \<Rightarrow> u64" where
  "f32_to_f64 v = widen 8 23 (unat v)"

definition decode_f16 :: "u16 \<Rightarrow> u64" where
  "decode_f16 bits = widen 5 10 (unat bits)"

definition round_half_even :: "nat \<Rightarrow> nat \<Rightarrow> nat" where
  "round_half_even x s =
     (let q = x div 2 ^ s; r = x mod 2 ^ s; half = 2 ^ (s - 1) in
      if r > half \<or> r = half \<and> odd q then q + 1 else q)"

definition f64_to_f32 :: "u64 \<Rightarrow> u32" where
  "f64_to_f32 v =
     (let n = unat v; s = n div 2 ^ 63; e = n div 2 ^ 52 mod 2048; m = n mod 2 ^ 52 in
      word_of_nat (s * 2 ^ 31 +
        (if e = 2047 then (if m = 0 then 255 * 2 ^ 23 else 255 * 2 ^ 23 + 2 ^ 22)
         else if e = 0 then 0
         else if 1150 < e then 255 * 2 ^ 23
         else if 897 \<le> e then (e - 897) * 2 ^ 23 + round_half_even (2 ^ 52 + m) 29
         else round_half_even (2 ^ 52 + m) (29 + (897 - e)))))"

definition try_encode_as_f16 :: "u64 \<Rightarrow> bytes option" where
  "try_encode_as_f16 val =
     (let bits64 = val;
          sign = (ucast (drop_bit 63 bits64) :: u16) in
      if f64_eq_zero val then Some (to_be_bytes (push_bit 15 sign))
      else
        let exp64 = int (unat (drop_bit 52 bits64 AND 0x7FF));
            mant64 = bits64 AND 0x000FFFFFFFFFFFFF;
            unbiased = exp64 - 1023 in
        if \<not> (-24 \<le> unbiased \<and> unbiased \<le> 15) then None
        else if unbiased \<ge> -14 then
          let f16_exp = (word_of_int (unbiased + 15) :: u16) in
          if mant64 AND (push_bit 42 1 - 1) \<noteq> 0 then None
          else
            let f16_mant = (ucast (drop_bit 42 mant64) :: u16) in
            Some (to_be_bytes (push_bit 15 sign OR push_bit 10 f16_exp OR f16_mant))
        else
          let full_sig = push_bit 52 1 OR mant64;
              total_shift = nat (28 - unbiased) in
          if full_sig AND (push_bit total_shift 1 - 1) \<noteq> 0 then None
          else
            let f16_mant = (ucast (drop_bit total_shift full_sig) :: u16) in
            Some (to_be_bytes (push_bit 15 sign OR f16_mant)))"

datatype ledger_error = NonFiniteFloat | UnsupportedNumber

definition cbor_float :: "u64 \<Rightarrow> (bytes, ledger_error) result" where
  "cbor_float n =
     (if \<not> f64_is_finite n then Err NonFiniteFloat
      else case try_encode_as_f16 n of
          Some f16_bytes \<Rightarrow> Ok (0xF9 # f16_bytes)
        | None \<Rightarrow>
            let f32_val = f64_to_f32 n in
            if f32_to_f64 f32_val = n then Ok (0xFA # to_be_bytes f32_val)
            else Ok (0xFB # to_be_bytes n))"

definition canonical_float_bytes :: "u64 \<Rightarrow> (bytes, ledger_error) result" where
  "canonical_float_bytes value = cbor_float value"

section \<open>Fields of words\<close>

lemma unat_drop_bit: "unat (drop_bit k w) = unat w div 2 ^ k" for w :: "'a::len word"
proof -
  have "unat (drop_bit k w) = drop_bit k (take_bit LENGTH('a) (unat w))"
    by (rule unsigned_drop_bit_eq)
  also have "take_bit LENGTH('a) (unat w) = unat w" by (simp add: take_bit_nat_eq_self)
  finally show ?thesis by (simp only: drop_bit_eq_div)
qed

lemma unat_and_mask: "unat (w AND mask k) = unat w mod 2 ^ k" for w :: "'a::len word"
  by (simp add: unsigned_and_eq flip: take_bit_eq_mask take_bit_eq_mod unsigned_take_bit_eq)

lemma push_bit_minus_mask: "push_bit k 1 - 1 = (mask k :: 'a::len word)"
  by (simp add: mask_eq_exp_minus_1 push_bit_eq_mult)

lemma unat_push_or:
  fixes a b :: "'a::len word"
  assumes "unat a < 2 ^ k" and "unat b * 2 ^ k + unat a < 2 ^ LENGTH('a)"
  shows "unat (push_bit k b OR a) = unat b * 2 ^ k + unat a"
proof -
  have "push_bit k b AND a = 0"
    by (intro bit_word_eqI) (auto simp: bit_simps dest: bit_bounded [OF assms(1)])
  then have "push_bit k b OR a = push_bit k b + a" by (simp add: disjunctive_add_eq_or)
  moreover have "unat (push_bit k b) = unat b * 2 ^ k"
  proof -
    have "unat (push_bit k b) = take_bit LENGTH('a) (push_bit k (unat b))"
      by (rule unsigned_push_bit_eq)
    also have "push_bit k (unat b) = unat b * 2 ^ k" by (rule push_bit_eq_mult)
    finally show ?thesis using assms(2) by (simp add: take_bit_nat_eq_self)
  qed
  ultimately show ?thesis using assms(2) by (simp add: unat_word_ariths)
qed

lemma masks:
  "(0x7FF :: u64) = mask 11" "(0x000FFFFFFFFFFFFF :: u64) = mask 52"
  "(0x7FFFFFFFFFFFFFFF :: u64) = mask 63"
  by (simp_all add: mask_eq_exp_minus_1)

text \<open>Sign, exponent and mantissa of an \<open>f64\<close>.\<close>

definition f64_sign :: "u64 \<Rightarrow> nat" where "f64_sign v = unat v div 2 ^ 63"
definition f64_exp :: "u64 \<Rightarrow> nat" where "f64_exp v = unat v div 2 ^ 52 mod 2 ^ 11"
definition f64_mant :: "u64 \<Rightarrow> nat" where "f64_mant v = unat v mod 2 ^ 52"

lemma f64_field_bounds: "f64_sign v < 2" "f64_exp v < 2048" "f64_mant v < 2 ^ 52"
  by (simp_all add: f64_sign_def f64_exp_def f64_mant_def less_mult_imp_div_less)

lemma f64_parts_of_fields: "f64_parts (f64_sign v) (f64_exp v) (f64_mant v) = v"
proof -
  let ?n = "unat v"
  have "?n div 2 ^ 52 = ?n div 2 ^ 52 div 2 ^ 11 * 2 ^ 11 + ?n div 2 ^ 52 mod 2 ^ 11"
    by (simp only: div_mult_mod_eq)
  moreover have "?n div 2 ^ 52 div 2 ^ 11 = f64_sign v"
    by (simp add: f64_sign_def div_mult2_eq [symmetric])
  ultimately have "?n = (f64_sign v * 2 ^ 11 + f64_exp v) * 2 ^ 52 + f64_mant v"
    unfolding f64_exp_def f64_mant_def by (metis div_mult_mod_eq)
  then have n: "f64_sign v * 2 ^ 63 + f64_exp v * 2 ^ 52 + f64_mant v = ?n" by simp
  show ?thesis unfolding f64_parts_def n by simp
qed

lemma f64_is_finite_iff: "f64_is_finite v \<longleftrightarrow> f64_exp v \<noteq> 2047"
proof -
  have "drop_bit 52 v AND 0x7FF = 0x7FF \<longleftrightarrow> unat (drop_bit 52 v AND 0x7FF) = 2047"
    by (simp add: word_unat_eq_iff)
  then show ?thesis
    unfolding f64_is_finite_def masks(1) unat_and_mask unat_drop_bit f64_exp_def by simp
qed

lemma f64_eq_zero_iff: "f64_eq_zero v \<longleftrightarrow> f64_exp v = 0 \<and> f64_mant v = 0"
proof -
  have "f64_eq_zero v \<longleftrightarrow> unat v mod 2 ^ 63 = 0"
    unfolding f64_eq_zero_def masks(3) by (simp add: word_unat_eq_iff unat_and_mask del: unsigned_and_eq)
  moreover have "unat v mod 2 ^ 63 = f64_exp v * 2 ^ 52 + f64_mant v"
  proof -
    have "unat v mod (2 ^ 52 * 2 ^ 11) = 2 ^ 52 * (unat v div 2 ^ 52 mod 2 ^ 11) + unat v mod 2 ^ 52"
      by (rule mod_mult2_eq)
    then show ?thesis by (simp add: f64_exp_def f64_mant_def)
  qed
  ultimately show ?thesis by simp
qed

text \<open>Reading a binary16 pattern given by its fields.\<close>

lemma widen_f16_fields:
  assumes "s < 2" and "e < 31" and "m < 1024"
  shows "widen 5 10 (s * 2 ^ 15 + e * 2 ^ 10 + m) =
    (if e = 0 \<and> m = 0 then f64_parts s 0 0
     else if e = 0 then f64_parts s (floorlog 2 m + 998) ((m - 2 ^ (floorlog 2 m - 1)) * 2 ^ (53 - floorlog 2 m))
     else f64_parts s (e + 1008) (m * 2 ^ 42))"
proof -
  let ?n = "s * 2 ^ 15 + e * 2 ^ 10 + m"
  have n: "?n = m + (e + s * 32) * 1024" by simp
  have "(m + (e + s * 32) * 1024) div 1024 = e + s * 32" "(m + (e + s * 32) * 1024) mod 1024 = m"
    using assms(3) by (simp_all only: div_mult_self1 mod_mult_self1) simp_all
  then have "?n div 2 ^ (5 + 10) = s" "?n div 2 ^ 10 mod 2 ^ 5 = e" "?n mod 2 ^ 10 = m"
    using assms unfolding n by (auto simp: div_mult2_eq [of _ 1024 32, simplified])
  moreover have "0 < floorlog 2 m" if "m \<noteq> 0" using that by (simp add: floorlog_eq_zero_iff flip: neq0_conv)
  ultimately show ?thesis using assms by (auto simp: widen_def Let_def add.commute)
qed

section \<open>Half precision is lossless\<close>

lemma unat_push_bit: "unat b * 2 ^ k < 2 ^ LENGTH('a) \<Longrightarrow> unat (push_bit k b) = unat b * 2 ^ k"
  for b :: "'a::len word"
  using unat_push_or [of 0 k b] by simp

lemma unat_sign16: "unat (ucast (drop_bit 63 v) :: u16) = f64_sign v"
  using f64_field_bounds(1) [of v]
  by (subst unat_ucast_small) (simp_all add: unat_drop_bit f64_sign_def del: unsigned_drop_bit_eq)

lemma unat_exp64: "unat (drop_bit 52 v AND 0x7FF) = f64_exp v"
  unfolding masks(1) unat_and_mask unat_drop_bit f64_exp_def by simp

lemma unat_mant64: "unat (v AND 0x000FFFFFFFFFFFFF) = f64_mant v"
  unfolding masks(2) unat_and_mask f64_mant_def by simp

lemma f16_normal:
  assumes "1009 \<le> f64_exp v" and "f64_exp v \<le> 1038" and "f64_mant v mod 2 ^ 42 = 0"
    and "unat fe = f64_exp v - 1008" and "unat fm = f64_mant v div 2 ^ 42"
    and "unat sign = f64_sign v"
  shows "decode_f16 (push_bit 15 sign OR push_bit 10 fe OR fm) = v"
proof -
  note b = f64_field_bounds [of v]
  have fm: "unat fm < 1024" using assms(5) b(3) by (simp add: less_mult_imp_div_less)
  have fe: "unat fe < 31" using assms(2,4) by simp
  have lo: "unat (push_bit 10 fe OR fm) = unat fe * 2 ^ 10 + unat fm"
    using fe fm by (intro unat_push_or) simp_all
  then have "unat (push_bit 15 sign OR push_bit 10 fe OR fm) = unat sign * 2 ^ 15 + (unat fe * 2 ^ 10 + unat fm)"
    using fe fm b(1) assms(6) by (subst unat_push_or) simp_all
  then have "decode_f16 (push_bit 15 sign OR push_bit 10 fe OR fm)
      = widen 5 10 (unat sign * 2 ^ 15 + unat fe * 2 ^ 10 + unat fm)"
    unfolding decode_f16_def by (simp only: add.assoc)
  also have "\<dots> = f64_parts (f64_sign v) (f64_exp v) (unat fm * 2 ^ 42)"
    using b(1) fe fm assms by (subst widen_f16_fields) simp_all
  also have "unat fm * 2 ^ 42 = f64_mant v" using assms(3,5) by (metis add.right_neutral div_mult_mod_eq)
  finally show ?thesis by (simp add: f64_parts_of_fields)
qed

lemma f16_subnormal:
  assumes e: "999 \<le> f64_exp v" "f64_exp v \<le> 1008"
    and mod: "(2 ^ 52 + f64_mant v) mod 2 ^ (1051 - f64_exp v) = 0"
    and fm: "unat fm = (2 ^ 52 + f64_mant v) div 2 ^ (1051 - f64_exp v)"
    and sign: "unat sign = f64_sign v"
  shows "decode_f16 (push_bit 15 sign OR fm) = v"
proof -
  note b = f64_field_bounds [of v]
  define k where "k = f64_exp v - 999"
  have k: "k \<le> 9" "1051 - f64_exp v = 52 - k" "k \<le> 52" using e by (simp_all add: k_def)
  have full: "unat fm * 2 ^ (52 - k) = 2 ^ 52 + f64_mant v"
    using mod fm k(2) by (metis add.right_neutral div_mult_mod_eq)
  have p: "(2 :: nat) ^ 52 = 2 ^ k * 2 ^ (52 - k)" using k(3) by (simp flip: power_add)
  have lower: "2 ^ k \<le> unat fm" using full p by (metis le_add1 mult_le_cancel2 zero_less_power pos2)
  have "unat fm * 2 ^ (52 - k) < 2 ^ Suc k * 2 ^ (52 - k)" using full p b(3) by simp
  then have upper: "unat fm < 2 ^ Suc k" by simp
  then have log: "floorlog 2 (unat fm) = Suc k" using lower by (intro antisym floorlog_leI floorlog_ge_SucI) simp_all
  have "(2 :: nat) ^ Suc k \<le> 2 ^ 10" using k(1) by (intro power_increasing) simp_all
  with upper have small: "unat fm < 1024" by simp
  then have "unat (push_bit 15 sign OR fm) = unat sign * 2 ^ 15 + unat fm"
    using b(1) sign by (intro unat_push_or) simp_all
  then have "decode_f16 (push_bit 15 sign OR fm) = widen 5 10 (unat sign * 2 ^ 15 + 0 * 2 ^ 10 + unat fm)"
    unfolding decode_f16_def by simp
  also have "\<dots> = f64_parts (f64_sign v) (f64_exp v) ((unat fm - 2 ^ k) * 2 ^ (52 - k))"
    using b(1) small sign lower e by (subst widen_f16_fields) (auto simp: log k_def)
  also have "(unat fm - 2 ^ k) * 2 ^ (52 - k) = f64_mant v"
    using full p by (simp add: diff_mult_distrib)
  finally show ?thesis by (simp add: f64_parts_of_fields)
qed

text \<open>The encoder with its exponent arithmetic on naturals.\<close>

lemma try_encode_as_f16_eq:
  "try_encode_as_f16 v =
     (let sign = (ucast (drop_bit 63 v) :: u16); e = f64_exp v;
          mant = v AND 0x000FFFFFFFFFFFFF; full = push_bit 52 1 OR mant in
      if f64_eq_zero v then Some (to_be_bytes (push_bit 15 sign))
      else if \<not> (999 \<le> e \<and> e \<le> 1038) then None
      else if 1009 \<le> e then
        (if mant AND mask 42 \<noteq> 0 then None
         else Some (to_be_bytes (push_bit 15 sign OR push_bit 10 (word_of_nat (e - 1008))
           OR ucast (drop_bit 42 mant))))
      else
        (if full AND mask (1051 - e) \<noteq> 0 then None
         else Some (to_be_bytes (push_bit 15 sign OR ucast (drop_bit (1051 - e) full)))))"
proof -
  have c: "-24 \<le> int e - 1023 \<longleftrightarrow> 999 \<le> e" "int e - 1023 \<le> 15 \<longleftrightarrow> e \<le> 1038"
    "-14 \<le> int e - 1023 \<longleftrightarrow> 1009 \<le> e" "nat (28 - (int e - 1023)) = 1051 - e" for e by linarith+
  have w: "(word_of_int (int e - 1023 + 15) :: u16) = word_of_nat (e - 1008)" if "1009 \<le> e" for e
  proof -
    have "int e - 1023 + 15 = int (e - 1008)" using that by simp
    then show ?thesis by (simp only: of_int_of_nat_eq)
  qed
  show ?thesis
    unfolding try_encode_as_f16_def Let_def unat_exp64 push_bit_minus_mask c
    by (auto simp only: w split: if_split)
qed

lemma unat_zero_iff_mod: "w AND mask k = 0 \<longleftrightarrow> unat w mod 2 ^ k = 0" for w :: "'a::len word"
  using unat_and_mask [of w k] by (simp add: word_unat_eq_iff del: unsigned_and_eq)

lemma unat_full_sig: "unat (push_bit 52 1 OR v AND 0x000FFFFFFFFFFFFF) = 2 ^ 52 + f64_mant v"
proof -
  have "unat (1 :: u64) = 1" by simp
  then show ?thesis
    using unat_push_or [of "v AND 0x000FFFFFFFFFFFFF" 52 1] f64_field_bounds(3) [of v]
    by (simp only: unat_mant64) simp
qed

lemma try_encode_as_f16_exact:
  assumes "try_encode_as_f16 v = Some bs"
  obtains h :: u16 where "bs = to_be_bytes h" and "decode_f16 h = v"
proof -
  let ?e = "f64_exp v" and ?sign = "ucast (drop_bit 63 v) :: u16"
  let ?mant = "v AND 0x000FFFFFFFFFFFFF"
  let ?full = "push_bit 52 1 OR ?mant"
  note b = f64_field_bounds [of v]
  consider (zero) "f64_eq_zero v" "bs = to_be_bytes (push_bit 15 ?sign)"
    | (normal) "1009 \<le> ?e" "?e \<le> 1038" "?mant AND mask 42 = 0"
        "bs = to_be_bytes (push_bit 15 ?sign OR push_bit 10 (word_of_nat (?e - 1008))
          OR ucast (drop_bit 42 ?mant))"
    | (sub) "999 \<le> ?e" "?e \<le> 1008" "?full AND mask (1051 - ?e) = 0"
        "bs = to_be_bytes (push_bit 15 ?sign OR ucast (drop_bit (1051 - ?e) ?full))"
    using assms unfolding try_encode_as_f16_eq Let_def
    by (auto simp only: not_le option.inject option.distinct split: if_splits)
  then show thesis
  proof cases
    case zero
    have "unat (push_bit 15 ?sign) = f64_sign v * 2 ^ 15 + 0 * 2 ^ 10 + 0"
      using b(1) by (subst unat_push_bit) (simp_all only: unat_sign16, simp_all)
    then have "decode_f16 (push_bit 15 ?sign) = f64_parts (f64_sign v) 0 0"
      unfolding decode_f16_def using b(1) by (simp only: widen_f16_fields) simp
    with zero that f64_parts_of_fields [of v] show ?thesis by (metis f64_eq_zero_iff)
  next
    case normal
    have "unat (word_of_nat (?e - 1008) :: u16) = ?e - 1008"
      using normal(1,2) by (simp only: unat_of_nat) simp
    moreover have "f64_mant v mod 2 ^ 42 = 0"
      using normal(3) unfolding unat_zero_iff_mod unat_mant64 .
    moreover have "unat (ucast (drop_bit 42 ?mant) :: u16) = f64_mant v div 2 ^ 42"
      using b(3) by (subst unat_ucast_small) (simp_all only: unat_drop_bit unat_mant64,
          simp add: less_mult_imp_div_less)
    ultimately show ?thesis
      by (intro that [OF normal(4)] f16_normal normal(1,2) unat_sign16)
  next
    case sub
    have "(2 ^ 52 + f64_mant v) mod 2 ^ (1051 - ?e) = 0"
      using sub(3) unfolding unat_zero_iff_mod unat_full_sig .
    moreover have "unat (ucast (drop_bit (1051 - ?e) ?full) :: u16)
        = (2 ^ 52 + f64_mant v) div 2 ^ (1051 - ?e)"
    proof -
      have "(2 :: nat) ^ 43 \<le> 2 ^ (1051 - ?e)" using sub(2) by (intro power_increasing) simp_all
      then have "(2 ^ 52 + f64_mant v) div 2 ^ (1051 - ?e) \<le> (2 ^ 52 + f64_mant v) div 2 ^ 43"
        by (intro div_le_mono2) simp_all
      also have "\<dots> < 2 ^ 16" using b(3) by (simp add: less_mult_imp_div_less)
      finally show ?thesis
        by (subst unat_ucast_small) (simp_all only: unat_drop_bit unat_full_sig, simp_all)
    qed
    ultimately show ?thesis
      by (intro that [OF sub(4)] f16_subnormal sub(1,2) unat_sign16)
  qed
qed

end
