(* ===== verification/Vtl_Record.thy ===== *)
theory Vtl_Record
  imports Vtl_Cbor Float_Bits
begin

unbundle bit_operations_syntax

text \<open>
  The canonical-record validator of the commitment profile (\<open>crates/trackone-ledger/src/vtl.rs\<close>):
  the seven-element array with its profile-visible metadata and the payload validator
  \<open>validate_commitment_value\<close>, which reads any deterministic CBOR value without keeping it (no
  tags, text keys in deterministic order, floats at their shortest exact width, nesting at most
  32).
\<close>

section \<open>Definitions\<close>

record canonical_record_metadata =
  crm_version :: u8
  crm_device_id :: bytes
  crm_fc :: u64
  crm_ingest_time :: u64
  crm_device_time :: "u64 option"
  crm_kind :: u64

definition read_uint_item :: "bytes \<Rightarrow> nat \<Rightarrow> string \<Rightarrow> (u64 \<times> nat) decode_result" where
  "read_uint_item bs pos field =
     and_then (read_typed_argument bs pos) (\<lambda>((major, value), pos).
       if major \<noteq> 0 then Err (InvalidField field) else Ok (value, pos))"

definition read_device_id :: "bytes \<Rightarrow> nat \<Rightarrow> (bytes \<times> nat) decode_result" where
  "read_device_id bs pos =
     and_then (read_typed_argument bs pos) (\<lambda>((major, len), pos).
       if major \<noteq> 2 \<or> len \<noteq> 8 then Err (InvalidField ''device_id must be an eight-byte string'')
       else
         let end = pos + 8 in
         if end \<le> length bs then Ok (subslice bs pos end, end)
         else Err (Malformed ''truncated device_id''))"

definition read_fixed :: "nat \<Rightarrow> bytes \<Rightarrow> nat \<Rightarrow> (bytes \<times> nat) decode_result" where
  "read_fixed n bs pos =
     (let end = pos + n in
      if end \<le> length bs then Ok (subslice bs pos end, end)
      else Err (Malformed ''truncated CBOR float''))"

definition validate_float_encoding :: "bytes \<Rightarrow> nat \<Rightarrow> nat \<Rightarrow> u64 \<Rightarrow> unit decode_result" where
  "validate_float_encoding bs start end value =
     and_then (map_err (\<lambda>_. InvalidField ''non-finite CBOR float'') (canonical_float_bytes value))
       (\<lambda>canonical.
         if canonical \<noteq> subslice bs start end
         then Err (NonCanonical ''CBOR float is not encoded at its shortest exact width'')
         else Ok ())"

definition validate_simple_or_float :: "bytes \<Rightarrow> nat \<Rightarrow> nat \<Rightarrow> u8 \<Rightarrow> nat decode_result" where
  "validate_simple_or_float bs pos start ai =
     (if 20 \<le> ai \<and> ai \<le> 22 then Ok pos
      else if ai = 25 then
        and_then (read_fixed 2 bs pos) (\<lambda>(bits, pos).
        and_then (validate_float_encoding bs start pos (decode_f16 (from_be_bytes bits))) (\<lambda>_. Ok pos))
      else if ai = 26 then
        and_then (read_fixed 4 bs pos) (\<lambda>(bits, pos).
        and_then (validate_float_encoding bs start pos (f32_to_f64 (from_be_bytes bits))) (\<lambda>_. Ok pos))
      else if ai = 27 then
        and_then (read_fixed 8 bs pos) (\<lambda>(bits, pos).
        and_then (validate_float_encoding bs start pos (from_be_bytes bits)) (\<lambda>_. Ok pos))
      else Err (InvalidField ''unsupported CBOR simple value''))"

text \<open>One key of a commitment map: the cursor after it and its raw bytes.\<close>

definition read_map_key :: "bytes \<Rightarrow> nat \<Rightarrow> (bytes \<times> nat) decode_result" where
  "read_map_key bs pos =
     (let key_start = pos in
      and_then (ok_or (byte_at bs pos) (Malformed ''truncated CBOR map key'')) (\<lambda>initial.
      if drop_bit 5 initial \<noteq> 3 then Err (InvalidField ''commitment map keys must be text'')
      else
        and_then (read_cbor_argument bs (pos + 1) (initial AND 0x1f)) (\<lambda>(key_len, pos).
        let end = pos + unat key_len in
        if \<not> end \<le> length bs then Err (Malformed ''truncated CBOR map key'')
        else if \<not> utf8_valid (subslice bs pos end) then Err (Malformed ''CBOR map key is not UTF-8'')
        else Ok (subslice bs key_start end, end))))"

function validate_commitment_value :: "bytes \<Rightarrow> nat \<Rightarrow> nat \<Rightarrow> nat \<Rightarrow> (nat \<times> nat) decode_result"
  and validate_commitment_items :: "bytes \<Rightarrow> nat \<Rightarrow> nat \<Rightarrow> nat \<Rightarrow> nat \<Rightarrow> (nat \<times> nat) decode_result"
  and validate_commitment_map ::
    "bytes \<Rightarrow> nat \<Rightarrow> nat \<Rightarrow> nat \<Rightarrow> nat \<Rightarrow> bytes option \<Rightarrow> (nat \<times> nat) decode_result"
where
  "validate_commitment_value bs pos depth budget =
     (if depth > MAX_CBOR_NESTING_DEPTH
      then Err (ResourceLimit ''CBOR nesting depth exceeds the supported limit'')
      else
        and_then (consume_item budget) (\<lambda>budget.
        let start = pos in
        and_then (ok_or (byte_at bs pos) (Malformed ''truncated CBOR payload item'')) (\<lambda>initial.
        let pos = pos + 1; major = drop_bit 5 initial; ai = initial AND 0x1f in
        if major = 7 then
          and_then (validate_simple_or_float bs pos start ai) (\<lambda>pos. Ok (pos, budget))
        else
          and_then (read_cbor_argument bs pos ai) (\<lambda>(len, pos).
          if major = 0 \<or> major = 1 then Ok (pos, budget)
          else if major = 2 \<or> major = 3 then
            and_then (read_slice bs pos len ''truncated CBOR string'') (\<lambda>(raw, end).
              if major = 3 \<and> \<not> utf8_valid raw then Err (Malformed ''CBOR text is not UTF-8'')
              else Ok (end, budget))
          else if major = 4 then
            and_then (ensure_collection_fits bs pos len 1) (\<lambda>_.
              validate_commitment_items bs pos (depth + 1) budget (unat len))
          else if major = 5 then
            and_then (ensure_collection_fits bs pos len 2) (\<lambda>_.
              validate_commitment_map bs pos (depth + 1) budget (unat len) None)
          else if major = 6
          then Err (InvalidField ''CBOR tags are not permitted in commitment bytes'')
          else Err (Malformed ''invalid CBOR major type'')))))"
| "validate_commitment_items bs pos depth budget 0 = Ok (pos, budget)"
| "validate_commitment_items bs pos depth budget (Suc n) =
     and_then (validate_commitment_value bs pos depth budget) (\<lambda>(pos, budget).
       validate_commitment_items bs pos depth budget n)"
| "validate_commitment_map bs pos depth budget 0 previous_key = Ok (pos, budget)"
| "validate_commitment_map bs pos depth budget (Suc n) previous_key =
     and_then (read_map_key bs pos) (\<lambda>(raw_key, pos).
     if key_out_of_order previous_key raw_key
     then Err (NonCanonical ''CBOR map keys are not in deterministic order'')
     else
       and_then (validate_commitment_value bs pos depth budget) (\<lambda>(pos, budget).
         validate_commitment_map bs pos depth budget n (Some raw_key)))"
  by pat_completeness auto
termination
  by (relation "inv_image (less_than <*lex*> less_than)
      (\<lambda>x. case x of
          Inl (bs, pos, depth, budget) \<Rightarrow> (34 - depth, 0)
        | Inr (Inl (bs, pos, depth, budget, n)) \<Rightarrow> (34 - depth, Suc n)
        | Inr (Inr (bs, pos, depth, budget, n, p)) \<Rightarrow> (34 - depth, Suc n))")
    (auto simp: MAX_CBOR_NESTING_DEPTH_def)

declare validate_commitment_value.simps [simp del]

definition read_device_time :: "bytes \<Rightarrow> nat \<Rightarrow> (u64 option \<times> nat) decode_result" where
  "read_device_time bs pos =
     (if byte_at bs pos = Some 0xf6 then Ok (None, pos + 1)
      else and_then (read_uint_item bs pos ''device_time'') (\<lambda>(v, pos). Ok (Some v, pos)))"

definition validate_canonical_record :: "bytes \<Rightarrow> canonical_record_metadata decode_result" where
  "validate_canonical_record bs =
     and_then (read_typed_argument bs 0) (\<lambda>((major, len), pos).
     if major \<noteq> 4 \<or> len \<noteq> 7
     then Err (InvalidField ''canonical record must be a seven-element array'') else
     and_then (read_uint_item bs pos ''record version'') (\<lambda>(version, pos).
     if version \<noteq> 1 then Err (InvalidField ''record version must be 1'') else
     and_then (read_device_id bs pos) (\<lambda>(device_id, pos).
     and_then (read_uint_item bs pos ''fc'') (\<lambda>(fc, pos).
     and_then (read_uint_item bs pos ''ingest_time'') (\<lambda>(ingest_time, pos).
     and_then (read_device_time bs pos) (\<lambda>(device_time, pos).
     and_then (read_uint_item bs pos ''kind'') (\<lambda>(kind, pos).
     and_then (validate_commitment_value bs pos 0 (for_input bs)) (\<lambda>(pos, budget).
     if pos \<noteq> length bs then Err (Malformed ''canonical record has trailing bytes'')
     else Ok \<lparr>crm_version = 1, crm_device_id = device_id, crm_fc = fc,
       crm_ingest_time = ingest_time, crm_device_time = device_time, crm_kind = kind\<rparr>))))))))"

text \<open>The specification: the values a payload may hold and their deterministic encoding.\<close>

datatype payload =
    PUint u64
  | PNint u64
  | PBytes bytes
  | PText string
  | PArray "payload list"
  | PMap "(string \<times> payload) list"
  | PBool bool
  | PNull
  | PFloat u64

fun enc_payload :: "payload \<Rightarrow> bytes" where
  "enc_payload (PUint n) = put_head 0 n"
| "enc_payload (PNint n) = put_head 1 n"
| "enc_payload (PBytes v) = cbor_bytes v"
| "enc_payload (PText s) = cbor_text s"
| "enc_payload (PArray vs) = cbor_array (word_of_nat (length vs)) (concat (map enc_payload vs))"
| "enc_payload (PMap es) =
     cbor_map (word_of_nat (length es)) (concat (map (\<lambda>(k, v). cbor_text k @ enc_payload v) es))"
| "enc_payload (PBool b) = [if b then 0xF5 else 0xF4]"
| "enc_payload PNull = [0xF6]"
| "enc_payload (PFloat n) = (case canonical_float_bytes n of Inr bs \<Rightarrow> bs | Inl _ \<Rightarrow> [])"

fun canonical_payload :: "payload \<Rightarrow> bool" where
  "canonical_payload (PBytes v) \<longleftrightarrow> length v < 2 ^ 64"
| "canonical_payload (PText s) \<longleftrightarrow> text_ok s"
| "canonical_payload (PArray vs) \<longleftrightarrow> length vs < 2 ^ 64 \<and> list_all canonical_payload vs"
| "canonical_payload (PMap es) \<longleftrightarrow> 2 * length es < 2 ^ 64
     \<and> list_all (\<lambda>(k, v). text_ok k \<and> canonical_payload v) es \<and> successively key_less (map fst es)"
| "canonical_payload (PFloat n) \<longleftrightarrow> f64_is_finite n"
| "canonical_payload _ \<longleftrightarrow> True"

fun payload_height :: "payload \<Rightarrow> nat" where
  "payload_height (PArray vs) = fold max (map (Suc \<circ> payload_height) vs) 0"
| "payload_height (PMap es) = fold max (map (\<lambda>(k, v). Suc (payload_height v)) es) 0"
| "payload_height _ = 0"

fun payload_items :: "payload \<Rightarrow> nat" where
  "payload_items (PArray vs) = Suc (sum_list (map payload_items vs))"
| "payload_items (PMap es) = Suc (sum_list (map (\<lambda>(k, v). payload_items v) es))"
| "payload_items _ = 1"

section \<open>Floats\<close>

lemma from_to_be_u16: "from_be_bytes (to_be_bytes (w :: u16)) = w"
  by (simp add: from_be_bytes_def to_be_bytes_def)

text \<open>Whatever the shortest-float writer emits reads back as the value it was given.\<close>

lemma canonical_float_bytes_cases:
  assumes "f64_is_finite n"
  obtains (half) h where "canonical_float_bytes n = Ok (0xF9 # to_be_bytes (h :: u16))" "decode_f16 h = n"
    | (single) w where "canonical_float_bytes n = Ok (0xFA # to_be_bytes (w :: u32))" "f32_to_f64 w = n"
    | (double) "canonical_float_bytes n = Ok (0xFB # to_be_bytes n)"
proof (cases "try_encode_as_f16 n")
  case None
  then show thesis
    using assms single [of "f64_to_f32 n"] double
    by (cases "f32_to_f64 (f64_to_f32 n) = n") (simp_all add: canonical_float_bytes_def cbor_float_def Let_def)
next
  case (Some bs)
  then show thesis
    using assms half
    by (auto simp: canonical_float_bytes_def cbor_float_def elim: try_encode_as_f16_exact)
qed

lemma canonical_float_bytes_Ok: "canonical_float_bytes n = Ok bs \<Longrightarrow> f64_is_finite n \<and> bs \<noteq> []"
  by (auto simp: canonical_float_bytes_def cbor_float_def Let_def split: if_splits option.splits)

lemma read_fixed_Ok_iff:
  "read_fixed n bs pos = Ok (x, pos') \<longleftrightarrow> pos' = pos + n \<and> pos' \<le> length bs \<and> x = subslice bs pos pos'"
  by (auto simp: read_fixed_def Let_def)

lemma read_fixed_ok:
  assumes "drop pos bs = x @ rest" and "x \<noteq> []"
  shows "read_fixed (length x) bs pos = Ok (x, pos + length x)"
  using drop_eq_append_length [OF assms(1)] assms by (simp add: read_fixed_def Let_def subslice_drop)

lemma validate_float_encoding_Ok_iff:
  "validate_float_encoding bs start end n = Ok () \<longleftrightarrow> canonical_float_bytes n = Ok (subslice bs start end)"
  by (auto simp: validate_float_encoding_def and_then_Ok_iff)

lemma float_initials:
  "drop_bit 5 (0xF9 :: u8) = 7" "(0xF9 :: u8) AND 0x1f = 25" "drop_bit 5 (0xFA :: u8) = 7"
  "(0xFA :: u8) AND 0x1f = 26" "drop_bit 5 (0xFB :: u8) = 7" "(0xFB :: u8) AND 0x1f = 27"
  by simp_all

lemma validate_float_complete:
  assumes "f64_is_finite n" and "drop pos bs = enc_payload (PFloat n) @ rest"
  shows "\<exists>initial. byte_at bs pos = Some initial \<and> drop_bit 5 initial = 7
    \<and> validate_simple_or_float bs (pos + 1) pos (initial AND 0x1f)
      = Ok (pos + length (enc_payload (PFloat n)))"
proof -
  have step: ?thesis
    if enc: "canonical_float_bytes n = Ok (i # x)" and i: "drop_bit 5 i = 7" and x: "x \<noteq> []"
      and v: "read_fixed (length x) bs (pos + 1) = Ok (x, pos + 1 + length x) \<Longrightarrow>
        validate_float_encoding bs pos (pos + 1 + length x) n = Ok () \<Longrightarrow>
        validate_simple_or_float bs (pos + 1) pos (i AND 0x1f) = Ok (pos + 1 + length x)" for i x
  proof -
    from assms(2) enc have d: "drop pos bs = [i] @ (x @ rest)" by simp
    have "drop (pos + 1) bs = x @ rest" using drop_eq_append_next [OF d] by simp
    then have r: "read_fixed (length x) bs (pos + 1) = Ok (x, pos + 1 + length x)"
      using x by (rule read_fixed_ok)
    have "subslice bs pos (pos + length (i # x)) = i # x"
      using d by (intro subslice_drop [of _ _ _ rest]) simp
    then have "validate_float_encoding bs pos (pos + 1 + length x) n = Ok ()"
      using enc by (simp add: validate_float_encoding_Ok_iff)
    with r v have "validate_simple_or_float bs (pos + 1) pos (i AND 0x1f) = Ok (pos + 1 + length x)" by blast
    moreover have "byte_at bs pos = Some i" using d by (simp add: byte_at_drop)
    ultimately show ?thesis using i enc by simp
  qed
  from assms(1) show ?thesis
  proof (cases rule: canonical_float_bytes_cases)
    case (half h)
    then show ?thesis
      by (intro step [of "0xF9" "to_be_bytes h"])
        (auto simp: validate_simple_or_float_def from_to_be_u16 simp flip: length_0_conv)
  next
    case (single w)
    then show ?thesis
      by (intro step [of "0xFA" "to_be_bytes w"])
        (auto simp: validate_simple_or_float_def from_to_be_u32 simp flip: length_0_conv)
  next
    case double
    then show ?thesis
      by (intro step [of "0xFB" "to_be_bytes n"])
        (auto simp: validate_simple_or_float_def simp flip: length_0_conv)
  qed
qed

section \<open>Accepted payloads are canonical encodings\<close>

definition validate_body ::
  "bytes \<Rightarrow> nat \<Rightarrow> nat \<Rightarrow> u8 \<Rightarrow> u64 \<Rightarrow> nat \<Rightarrow> (nat \<times> nat) decode_result" where
  "validate_body bs depth budget major len pos =
     (if major = 0 \<or> major = 1 then Ok (pos, budget)
      else if major = 2 \<or> major = 3 then
        and_then (read_slice bs pos len ''truncated CBOR string'') (\<lambda>(raw, end).
          if major = 3 \<and> \<not> utf8_valid raw then Err (Malformed ''CBOR text is not UTF-8'')
          else Ok (end, budget))
      else if major = 4 then
        and_then (ensure_collection_fits bs pos len 1) (\<lambda>_.
          validate_commitment_items bs pos (depth + 1) budget (unat len))
      else if major = 5 then
        and_then (ensure_collection_fits bs pos len 2) (\<lambda>_.
          validate_commitment_map bs pos (depth + 1) budget (unat len) None)
      else if major = 6
      then Err (InvalidField ''CBOR tags are not permitted in commitment bytes'')
      else Err (Malformed ''invalid CBOR major type''))"

lemma validate_commitment_value_Ok_iff:
  "validate_commitment_value bs pos depth budget = Ok r \<longleftrightarrow>
     depth \<le> MAX_CBOR_NESTING_DEPTH \<and>
     (\<exists>b initial. budget = Suc b \<and> byte_at bs pos = Some initial \<and>
       (if drop_bit 5 initial = 7
        then \<exists>p. validate_simple_or_float bs (pos + 1) pos (initial AND 0x1f) = Ok p \<and> r = (p, b)
        else \<exists>len p. read_typed_argument bs pos = Ok ((drop_bit 5 initial, len), p)
          \<and> validate_body bs depth b (drop_bit 5 initial) len p = Ok r))"
proof (cases "byte_at bs pos")
  case None
  then show ?thesis
    by (subst validate_commitment_value.simps) (auto simp: and_then_Ok_iff)
next
  case (Some initial)
  then show ?thesis
    by (subst validate_commitment_value.simps)
      (cases "drop_bit 5 initial = 7";
       simp add: and_then_Ok_iff consume_item_Ok_iff Let_def read_typed_argument_def
         validate_body_def split_paired_Ex; blast?)
qed

definition accepted_as :: "bytes \<Rightarrow> nat \<Rightarrow> nat \<Rightarrow> nat \<Rightarrow> nat \<times> nat \<Rightarrow> payload \<Rightarrow> bool" where
  "accepted_as bs pos depth budget = (\<lambda>(pos', budget') v.
     pos < pos' \<and> pos' \<le> length bs \<and> subslice bs pos pos' = enc_payload v \<and> canonical_payload v
     \<and> depth + payload_height v \<le> MAX_CBOR_NESTING_DEPTH \<and> budget = budget' + payload_items v)"

lemma validate_body_cases:
  assumes "validate_body bs depth b major len p = Ok (pos', b')"
  obtains
    (num) "major = 0 \<or> major = 1" "pos' = p" "b' = b"
  | (byte) x where "major = 2" "read_slice bs p len ''truncated CBOR string'' = Ok (x, pos')" "b' = b"
  | (str) x where "major = 3" "read_slice bs p len ''truncated CBOR string'' = Ok (x, pos')"
      "utf8_valid x" "b' = b"
  | (arr) "major = 4" "unat len < 2 ^ 64"
      "validate_commitment_items bs p (depth + 1) b (unat len) = Ok (pos', b')"
  | (mp) "major = 5" "2 * unat len < 2 ^ 64"
      "validate_commitment_map bs p (depth + 1) b (unat len) None = Ok (pos', b')"
  using assms unfolding validate_body_def
  by (auto simp: and_then_Ok_iff ensure_collection_fits_Ok_iff split: if_splits)

lemma simple_sound:
  assumes i: "byte_at bs pos = Some initial" "drop_bit 5 initial = 7"
    and v: "validate_simple_or_float bs (pos + 1) pos (initial AND 0x1f) = Ok p"
    and d: "depth \<le> MAX_CBOR_NESTING_DEPTH"
  shows "\<exists>v. accepted_as bs pos depth (Suc b) (p, b) v"
proof -
  let ?ai = "initial AND 0x1f"
  from i have pos: "pos < length bs" "bs ! pos = initial" by (simp_all add: byte_at_Some)
  have init: "initial = push_bit 5 7 OR ?ai" using initial_byte_split [of initial] i(2) by simp
  have float: "\<exists>v. accepted_as bs pos depth (Suc b) (p, b) v"
    if "canonical_float_bytes n = Ok (subslice bs pos p)" "pos < p" "p \<le> length bs" for n
    using that d canonical_float_bytes_Ok [OF that(1)]
    by (intro exI [of _ "PFloat n"]) (simp add: accepted_as_def)
  show ?thesis
  proof (cases "20 \<le> ?ai \<and> ?ai \<le> 22")
    case True
    then have p: "p = pos + 1" using v by (simp add: validate_simple_or_float_def)
    from True have "?ai = 20 \<or> ?ai = 21 \<or> ?ai = 22"
      by (auto simp: word_le_nat_alt word_unat_eq_iff)
    then have "initial = 0xF4 \<or> initial = 0xF5 \<or> initial = 0xF6"
      using init by auto
    then obtain v where "enc_payload v = [initial]" "canonical_payload v" "payload_height v = 0"
      "payload_items v = 1"
      using that by (elim disjE) (auto intro: that [of "PBool False"] that [of "PBool True"] that [of PNull])
    with d p pos show ?thesis
      by (intro exI [of _ v]) (simp add: accepted_as_def subslice_Suc)
  next
    case False
    with v have "\<exists>n. canonical_float_bytes n = Ok (subslice bs pos p) \<and> pos < p \<and> p \<le> length bs"
      by (auto simp: validate_simple_or_float_def and_then_Ok_iff read_fixed_Ok_iff
          validate_float_encoding_Ok_iff split: if_splits)
    then show ?thesis using float by blast
  qed
qed

definition accepts_at :: "nat \<Rightarrow> bool" where
  "accepts_at depth \<longleftrightarrow> (\<forall>bs pos budget r. validate_commitment_value bs pos depth budget = Ok r \<longrightarrow>
     (\<exists>v. accepted_as bs pos depth budget r v))"

lemma validate_items_sound:
  assumes "accepts_at depth" and "pos \<le> length bs"
    and "validate_commitment_items bs pos depth budget n = Ok (pos', budget')"
  shows "\<exists>vs. length vs = n \<and> pos \<le> pos' \<and> pos' \<le> length bs
    \<and> subslice bs pos pos' = concat (map enc_payload vs) \<and> list_all canonical_payload vs
    \<and> (\<forall>v \<in> set vs. depth + payload_height v \<le> MAX_CBOR_NESTING_DEPTH)
    \<and> budget = budget' + sum_list (map payload_items vs)"
  using assms(2,3)
proof (induction n arbitrary: pos budget)
  case 0
  then show ?case by simp
next
  case (Suc n)
  from Suc.prems obtain p b where
    v: "validate_commitment_value bs pos depth budget = Ok (p, b)"
    and ws: "validate_commitment_items bs p depth b n = Ok (pos', budget')"
    by (auto simp: and_then_Ok_iff)
  from v assms(1) obtain v where pv: "accepted_as bs pos depth budget (p, b) v"
    unfolding accepts_at_def by blast
  then have p: "p \<le> length bs" by (simp add: accepted_as_def)
  from Suc.IH [OF p ws] obtain vs where "length vs = n \<and> p \<le> pos' \<and> pos' \<le> length bs
    \<and> subslice bs p pos' = concat (map enc_payload vs) \<and> list_all canonical_payload vs
    \<and> (\<forall>v \<in> set vs. depth + payload_height v \<le> MAX_CBOR_NESTING_DEPTH)
    \<and> b = budget' + sum_list (map payload_items vs)" by blast
  with pv show ?case
    using subslice_append [of pos p pos' bs]
    by (intro exI [of _ "v # vs"]) (auto simp: accepted_as_def)
qed

lemma read_map_key_Ok:
  assumes "read_map_key bs pos = Ok (raw, p)"
  obtains k where "raw = cbor_text k" "text_ok k" "pos < p" "p \<le> length bs" "subslice bs pos p = raw"
proof -
  from assms obtain initial len q where i: "byte_at bs pos = Some initial" "drop_bit 5 initial = 3"
    and a: "read_cbor_argument bs (pos + 1) (initial AND 0x1f) = Ok (len, q)"
    and p: "p = q + unat len" "p \<le> length bs" and u: "utf8_valid (subslice bs q p)"
    and raw: "raw = subslice bs pos p"
    by (auto simp: read_map_key_def Let_def and_then_Ok_iff ok_or_Ok_iff split: if_splits)
  from i a have "read_typed_argument bs pos = Ok ((3, len), q)" by (simp add: read_typed_argument_def)
  from read_typed_argument_canonical [OF this]
  have q: "pos < q" "q \<le> length bs" "subslice bs pos q = put_head 3 len" by simp_all
  have len: "length (subslice bs q p) = unat len" using p q by simp
  have "raw = put_head 3 len @ subslice bs q p"
    using subslice_append [of pos q p bs] q p raw by simp
  then have "raw = cbor_text (bytes_str (subslice bs q p))" using len by (simp add: cbor_text_def)
  moreover have "text_ok (bytes_str (subslice bs q p))" using u len by (simp add: text_ok_def)
  ultimately show thesis using q p raw by (intro that) simp_all
qed

lemma validate_map_sound:
  assumes "accepts_at depth" and "pos \<le> length bs"
    and "validate_commitment_map bs pos depth budget n (map_option cbor_text pk) = Ok (pos', budget')"
  shows "\<exists>es. length es = n \<and> pos \<le> pos' \<and> pos' \<le> length bs
    \<and> subslice bs pos pos' = concat (map (\<lambda>(k, v). cbor_text k @ enc_payload v) es)
    \<and> list_all (\<lambda>(k, v). text_ok k \<and> canonical_payload v) es
    \<and> successively key_less ((case pk of None \<Rightarrow> [] | Some k \<Rightarrow> [k]) @ map fst es)
    \<and> (\<forall>(k, v) \<in> set es. depth + payload_height v \<le> MAX_CBOR_NESTING_DEPTH)
    \<and> budget = budget' + sum_list (map (\<lambda>(k, v). payload_items v) es)"
  using assms(2,3)
proof (induction n arbitrary: pos budget pk)
  case 0
  then show ?case by (cases pk) (auto intro!: exI [of _ "[]"])
next
  case (Suc n)
  from Suc.prems(2) obtain raw p q c where
    r: "read_map_key bs pos = Ok (raw, p)"
    and ord: "\<not> key_out_of_order (map_option cbor_text pk) raw"
    and v: "validate_commitment_value bs p depth budget = Ok (q, c)"
    and fs: "validate_commitment_map bs q depth c n (Some raw) = Ok (pos', budget')"
    by (auto simp: and_then_Ok_iff split: if_splits)
  from r obtain k where k: "raw = cbor_text k" "text_ok k" "pos < p" "p \<le> length bs"
    "subslice bs pos p = raw" by (rule read_map_key_Ok)
  from v assms(1) obtain v where pv: "accepted_as bs p depth budget (q, c) v"
    unfolding accepts_at_def by blast
  then have q: "q \<le> length bs" by (simp add: accepted_as_def)
  from fs have fs': "validate_commitment_map bs q depth c n (map_option cbor_text (Some k)) = Ok (pos', budget')"
    by (simp add: k)
  obtain es where es: "length es = n \<and> q \<le> pos' \<and> pos' \<le> length bs
    \<and> subslice bs q pos' = concat (map (\<lambda>(k, v). cbor_text k @ enc_payload v) es)
    \<and> list_all (\<lambda>(k, v). text_ok k \<and> canonical_payload v) es
    \<and> successively key_less ([k] @ map fst es)
    \<and> (\<forall>(k, v) \<in> set es. depth + payload_height v \<le> MAX_CBOR_NESTING_DEPTH)
    \<and> c = budget' + sum_list (map (\<lambda>(k, v). payload_items v) es)"
    using Suc.IH [OF q fs'] by auto
  have "successively key_less ((case pk of None \<Rightarrow> [] | Some k \<Rightarrow> [k]) @ [k])"
    using ord k by (cases pk) (simp_all add: key_less_def)
  with es pv k show ?case
    using subslice_append [of pos p q bs] subslice_append [of pos q pos' bs]
    by (intro exI [of _ "(k, v) # es"]) (cases pk; auto simp: accepted_as_def)
qed

lemma accepts_step:
  assumes IH: "accepts_at (depth + 1)"
  shows "accepts_at depth"
  unfolding accepts_at_def
proof (intro allI impI)
  fix bs pos budget r
  assume ok: "validate_commitment_value bs pos depth budget = Ok r"
  obtain pos' b' where r: "r = (pos', b')" by (cases r)
  from ok obtain b initial where d: "depth \<le> MAX_CBOR_NESTING_DEPTH" and bud: "budget = Suc b"
    and i: "byte_at bs pos = Some initial"
    and rest: "if drop_bit 5 initial = 7
        then \<exists>p. validate_simple_or_float bs (pos + 1) pos (initial AND 0x1f) = Ok p \<and> r = (p, b)
        else \<exists>len p. read_typed_argument bs pos = Ok ((drop_bit 5 initial, len), p)
          \<and> validate_body bs depth b (drop_bit 5 initial) len p = Ok r"
    unfolding validate_commitment_value_Ok_iff by blast
  show "\<exists>v. accepted_as bs pos depth budget r v"
  proof (cases "drop_bit 5 initial = 7")
    case True
    with rest i d bud show ?thesis using simple_sound [OF i True _ d] by auto
  next
    case False
    with rest obtain len p where h: "read_typed_argument bs pos = Ok ((drop_bit 5 initial, len), p)"
      and body: "validate_body bs depth b (drop_bit 5 initial) len p = Ok (pos', b')"
      using r by auto
    from read_typed_argument_canonical [OF h] have p: "pos < p" "p \<le> length bs"
      and raw: "subslice bs pos p = put_head (drop_bit 5 initial) len" by simp_all
    note app = subslice_append [of pos p pos' bs]
    from body show ?thesis
    proof (cases rule: validate_body_cases)
      case num
      then show ?thesis
        using d bud p raw r
        by (intro exI [of _ "if drop_bit 5 initial = 0 then PUint len else PNint len"])
          (auto simp: accepted_as_def)
    next
      case (byte x)
      then have "word_of_nat (length x) = len" by (auto simp: read_slice_Ok_iff)
      with byte d bud p raw r app show ?thesis
        by (intro exI [of _ "PBytes x"]) (auto simp: accepted_as_def cbor_bytes_def read_slice_Ok_iff)
    next
      case (str x)
      then have "word_of_nat (length x) = len" by (auto simp: read_slice_Ok_iff)
      with str d bud p raw r app show ?thesis
        by (intro exI [of _ "PText (bytes_str x)"])
          (auto simp: accepted_as_def cbor_text_def read_slice_Ok_iff text_ok_def)
    next
      case arr
      from validate_items_sound [OF IH p(2) arr(3)] obtain vs where
        "length vs = unat len \<and> p \<le> pos' \<and> pos' \<le> length bs
          \<and> subslice bs p pos' = concat (map enc_payload vs) \<and> list_all canonical_payload vs
          \<and> (\<forall>v \<in> set vs. depth + 1 + payload_height v \<le> MAX_CBOR_NESTING_DEPTH)
          \<and> b = b' + sum_list (map payload_items vs)" by blast
      with arr d bud p raw r app show ?thesis
        by (intro exI [of _ "PArray vs"]) (auto simp: accepted_as_def cbor_array_def add_fold_max_le)
    next
      case mp
      have "validate_commitment_map bs p (depth + 1) b (unat len) (map_option cbor_text None) = Ok (pos', b')"
        using mp by simp
      from validate_map_sound [OF IH p(2) this] obtain es where
        "length es = unat len \<and> p \<le> pos' \<and> pos' \<le> length bs
          \<and> subslice bs p pos' = concat (map (\<lambda>(k, v). cbor_text k @ enc_payload v) es)
          \<and> list_all (\<lambda>(k, v). text_ok k \<and> canonical_payload v) es
          \<and> successively key_less (map fst es)
          \<and> (\<forall>(k, v) \<in> set es. depth + 1 + payload_height v \<le> MAX_CBOR_NESTING_DEPTH)
          \<and> b = b' + sum_list (map (\<lambda>(k, v). payload_items v) es)" by auto
      with mp d bud p raw r app show ?thesis
        by (intro exI [of _ "PMap es"]) (auto simp: accepted_as_def cbor_map_def add_fold_max_le)
    qed
  qed
qed

lemma accepts_always: "accepts_at depth"
proof (induction "MAX_CBOR_NESTING_DEPTH + 1 - depth" arbitrary: depth)
  case 0
  then show ?case by (simp add: accepts_at_def validate_commitment_value_Ok_iff)
next
  case (Suc k)
  then have "accepts_at (depth + 1)" by simp
  then show ?case by (rule accepts_step)
qed

section \<open>Every canonical payload is accepted\<close>

definition passes_at :: "nat \<Rightarrow> payload \<Rightarrow> bool" where
  "passes_at depth v \<longleftrightarrow> (\<forall>bs pos rest budget.
     drop pos bs = enc_payload v @ rest \<longrightarrow> payload_items v \<le> budget \<longrightarrow>
     validate_commitment_value bs pos depth budget
       = Ok (pos + length (enc_payload v), budget - payload_items v))"

lemma payload_items_le_length: "canonical_payload v \<Longrightarrow> payload_items v \<le> length (enc_payload v)"
proof (induction v rule: payload_items.induct)
  case (1 vs)
  then have "sum_list (map payload_items vs) \<le> sum_list (map (length \<circ> enc_payload) vs)"
    by (intro sum_list_map_le) (simp add: list_all_iff)
  then show ?case by (simp add: cbor_array_def length_concat comp_def)
next
  case (2 es)
  have "sum_list (map (\<lambda>(k, v). payload_items v) es)
    \<le> sum_list (map (\<lambda>(k, v). length (cbor_text k @ enc_payload v)) es)"
    using 2 by (intro sum_list_map_le) (fastforce simp: list_all_iff)
  then show ?case by (simp add: cbor_map_def length_concat comp_def case_prod_unfold)
qed (auto simp: cbor_bytes_def cbor_text_def elim!: canonical_float_bytes_cases)

lemma payload_items_pos: "0 < payload_items v"
  by (cases v) simp_all

lemma validate_head_body:
  assumes "depth \<le> MAX_CBOR_NESTING_DEPTH" and "m < 7" and "drop pos bs = put_head m n @ rest"
    and "validate_body bs depth b m n (pos + length (put_head m n)) = Ok r"
  shows "validate_commitment_value bs pos depth (Suc b) = Ok r"
proof -
  have "m < 8" using assms(2) by (rule less_trans) simp
  then have h: "read_typed_argument bs pos = Ok ((m, n), pos + length (put_head m n))"
    using assms(3) by (rule read_typed_argument_put_head)
  then obtain i where "byte_at bs pos = Some i" "drop_bit 5 i = m"
    by (auto simp: read_typed_argument_def and_then_Ok_iff ok_or_Ok_iff)
  with h assms show ?thesis by (auto simp: validate_commitment_value_Ok_iff)
qed

lemma validate_items_complete:
  assumes "\<forall>v \<in> set vs. passes_at depth v"
    and "drop pos bs = concat (map enc_payload vs) @ rest" and "sum_list (map payload_items vs) \<le> budget"
  shows "validate_commitment_items bs pos depth budget (length vs)
    = Ok (pos + length (concat (map enc_payload vs)), budget - sum_list (map payload_items vs))"
  using assms
proof (induction vs arbitrary: pos budget)
  case Nil
  then show ?case by simp
next
  case (Cons v vs)
  from Cons.prems(2) have d: "drop pos bs = enc_payload v @ (concat (map enc_payload vs) @ rest)" by simp
  with Cons.prems have "validate_commitment_value bs pos depth budget
      = Ok (pos + length (enc_payload v), budget - payload_items v)"
    by (simp add: passes_at_def)
  moreover have "validate_commitment_items bs (pos + length (enc_payload v)) depth
      (budget - payload_items v) (length vs)
      = Ok (pos + length (enc_payload v) + length (concat (map enc_payload vs)),
            budget - payload_items v - sum_list (map payload_items vs))"
    using Cons.prems drop_eq_append_next [OF d] by (intro Cons.IH) simp_all
  ultimately show ?case by simp
qed

lemma read_map_key_ok:
  assumes "text_ok k" and "drop pos bs = cbor_text k @ rest"
  shows "read_map_key bs pos = Ok (cbor_text k, pos + length (cbor_text k))"
proof -
  let ?n = "word_of_nat (length k) :: u64"
  let ?h = "put_head 3 ?n"
  from assms(2) have d: "drop pos bs = ?h @ (str_bytes k @ rest)" by (simp add: cbor_text_def)
  from read_head_drop [OF _ d]
  have h: "read_typed_argument bs pos = Ok ((3, ?n), pos + length ?h)"
    "drop (pos + length ?h) bs = str_bytes k @ rest" by simp_all
  then obtain i where i: "byte_at bs pos = Some i" "drop_bit 5 i = 3"
    "read_cbor_argument bs (pos + 1) (i AND 0x1f) = Ok (?n, pos + length ?h)"
    by (auto simp: read_typed_argument_def and_then_Ok_iff ok_or_Ok_iff)
  have n: "unat ?n = length k" using assms(1) by (simp add: text_ok_def unat_u64_of_nat)
  have stop: "pos + length ?h + length k = pos + length (cbor_text k)" by (simp add: cbor_text_def)
  have "read_slice bs (pos + length ?h) ?n [] = Ok (str_bytes k, pos + length ?h + length k)"
    using read_slice_ok [OF h(2)] drop_Cons_le [OF d] assms(1) by (simp add: text_ok_def)
  then have "pos + length ?h + length k \<le> length bs"
    "subslice bs (pos + length ?h) (pos + length ?h + length k) = str_bytes k"
    using n by (simp_all add: read_slice_Ok_iff)
  moreover have "subslice bs pos (pos + length (cbor_text k)) = cbor_text k"
    by (rule subslice_drop [OF assms(2)])
  ultimately show ?thesis
    using i n assms(1) by (simp add: read_map_key_def Let_def text_ok_def flip: stop)
qed

lemma validate_map_complete:
  assumes "\<forall>(k, v) \<in> set es. text_ok k \<and> passes_at depth v"
    and "drop pos bs = concat (map (\<lambda>(k, v). cbor_text k @ enc_payload v) es) @ rest"
    and "sum_list (map (\<lambda>(k, v). payload_items v) es) \<le> budget"
    and "successively key_less ((case pk of None \<Rightarrow> [] | Some k \<Rightarrow> [k]) @ map fst es)"
  shows "validate_commitment_map bs pos depth budget (length es) (map_option cbor_text pk)
    = Ok (pos + length (concat (map (\<lambda>(k, v). cbor_text k @ enc_payload v) es)),
          budget - sum_list (map (\<lambda>(k, v). payload_items v) es))"
  using assms
proof (induction es arbitrary: pos budget pk)
  case Nil
  then show ?case by simp
next
  case (Cons e es)
  obtain k v where e: "e = (k, v)" by (cases e)
  let ?r = "concat (map (\<lambda>(k, v). cbor_text k @ enc_payload v) es) @ rest"
  let ?p = "pos + length (cbor_text k)" and ?b = "budget - payload_items v"
  let ?q = "?p + length (enc_payload v)"
  from Cons.prems(2) e have d: "drop pos bs = cbor_text k @ (enc_payload v @ ?r)" by simp
  have k: "read_map_key bs pos = Ok (cbor_text k, ?p)"
    using Cons.prems e by (intro read_map_key_ok [OF _ d]) simp
  have d2: "drop ?p bs = enc_payload v @ ?r" by (rule drop_eq_append_next [OF d])
  have v: "validate_commitment_value bs ?p depth budget = Ok (?q, ?b)"
    using Cons.prems d2 e by (simp add: passes_at_def)
  have es: "validate_commitment_map bs ?q depth ?b (length es) (map_option cbor_text (Some k))
      = Ok (?q + length (concat (map (\<lambda>(k, v). cbor_text k @ enc_payload v) es)),
          ?b - sum_list (map (\<lambda>(k, v). payload_items v) es))"
    using Cons.prems drop_eq_append_next [OF d2] e
    by (intro Cons.IH) (cases pk; simp)+
  have "\<not> key_out_of_order (map_option cbor_text pk) (cbor_text k)"
    using Cons.prems(4) e by (cases pk) (simp_all add: key_less_def key_out_of_order_def)
  with k v es e show ?case by simp
qed

lemma passes_array:
  assumes "depth \<le> MAX_CBOR_NESTING_DEPTH" and "length vs < 2 ^ 64" and c: "list_all canonical_payload vs"
    and "\<forall>v \<in> set vs. passes_at (depth + 1) v"
  shows "passes_at depth (PArray vs)"
  unfolding passes_at_def
proof (intro allI impI)
  fix bs pos rest budget
  assume d: "drop pos bs = enc_payload (PArray vs) @ rest" and b: "payload_items (PArray vs) \<le> budget"
  let ?body = "concat (map enc_payload vs)"
  let ?h = "put_head 4 (word_of_nat (length vs))"
  from b obtain b' where b': "budget = Suc b'" "sum_list (map payload_items vs) \<le> b'" by (cases budget) auto
  from d have d': "drop pos bs = ?h @ (?body @ rest)" by (simp add: cbor_array_def)
  note dp = drop_eq_append_next [OF d']
  have "length vs * 1 \<le> length ?body"
  proof (rule concat_length_ge)
    fix v assume "v \<in> set vs"
    then have "payload_items v \<le> length (enc_payload v)"
      using c by (simp add: list_all_iff payload_items_le_length)
    then show "1 \<le> length (enc_payload v)" using payload_items_pos [of v] by linarith
  qed
  then have fits: "ensure_collection_fits bs (pos + length ?h) (word_of_nat (length vs)) 1
      = Ok (length vs)"
    using assms(2) by (intro ensure_collection_fits_ok [OF dp]) simp_all
  have "validate_body bs depth b' 4 (word_of_nat (length vs)) (pos + length ?h)
      = Ok (pos + length (enc_payload (PArray vs)), budget - payload_items (PArray vs))"
    using validate_items_complete [OF assms(4) dp b'(2)] fits b' assms(2)
    by (simp add: validate_body_def cbor_array_def unat_u64_of_nat)
  with assms(1) d' show "validate_commitment_value bs pos depth budget
      = Ok (pos + length (enc_payload (PArray vs)), budget - payload_items (PArray vs))"
    unfolding b'(1) by (intro validate_head_body [of depth 4]) simp_all
qed

lemma passes_map:
  assumes "depth \<le> MAX_CBOR_NESTING_DEPTH" and "2 * length es < 2 ^ 64"
    and c: "list_all (\<lambda>(k, v). text_ok k \<and> canonical_payload v) es"
    and p: "\<forall>(k, v) \<in> set es. passes_at (depth + 1) v"
    and "successively key_less (map fst es)"
  shows "passes_at depth (PMap es)"
  unfolding passes_at_def
proof (intro allI impI)
  fix bs pos rest budget
  assume d: "drop pos bs = enc_payload (PMap es) @ rest" and b: "payload_items (PMap es) \<le> budget"
  let ?enc = "\<lambda>(k, v). cbor_text k @ enc_payload v"
  let ?body = "concat (map ?enc es)"
  let ?h = "put_head 5 (word_of_nat (length es))"
  from b obtain b' where b': "budget = Suc b'" "sum_list (map (\<lambda>(k, v). payload_items v) es) \<le> b'"
    by (cases budget) auto
  from d have d': "drop pos bs = ?h @ (?body @ rest)" by (simp add: cbor_map_def)
  note dp = drop_eq_append_next [OF d']
  have "length es * 2 \<le> length ?body"
  proof (rule concat_length_ge)
    fix e assume "e \<in> set es"
    then have "payload_items (snd e) \<le> length (enc_payload (snd e))"
      using c by (auto simp: list_all_iff intro!: payload_items_le_length)
    then have "1 \<le> length (enc_payload (snd e))" using payload_items_pos [of "snd e"] by linarith
    moreover have "1 \<le> length (cbor_text (fst e))" by (simp add: cbor_text_def)
    ultimately show "2 \<le> length (?enc e)" by (simp add: case_prod_unfold)
  qed
  then have fits: "ensure_collection_fits bs (pos + length ?h) (word_of_nat (length es)) 2
      = Ok (length es)"
    using assms(2) by (intro ensure_collection_fits_ok [OF dp]) simp_all
  have "\<forall>(k, v) \<in> set es. text_ok k \<and> passes_at (depth + 1) v"
    using c p by (auto simp: list_all_iff)
  then have "validate_commitment_map bs (pos + length ?h) (depth + 1) b' (length es) (map_option cbor_text None)
      = Ok (pos + length ?h + length ?body, b' - sum_list (map (\<lambda>(k, v). payload_items v) es))"
    using assms(5) by (intro validate_map_complete [OF _ dp b'(2)]) simp_all
  then have "validate_body bs depth b' 5 (word_of_nat (length es)) (pos + length ?h)
      = Ok (pos + length (enc_payload (PMap es)), budget - payload_items (PMap es))"
    using fits b' assms(2) by (simp add: validate_body_def cbor_map_def unat_u64_of_nat)
  with assms(1) d' show "validate_commitment_value bs pos depth budget
      = Ok (pos + length (enc_payload (PMap es)), budget - payload_items (PMap es))"
    unfolding b'(1) by (intro validate_head_body [of depth 5]) simp_all
qed

lemma passes_scalar:
  assumes "depth \<le> MAX_CBOR_NESTING_DEPTH" and "m < 7" and "enc_payload v = put_head m n @ tail"
    and "payload_items v = 1"
    and "\<And>bs pos rest b. drop pos bs = put_head m n @ (tail @ rest) \<Longrightarrow>
      validate_body bs depth b m n (pos + length (put_head m n))
        = Ok (pos + length (put_head m n) + length tail, b)"
  shows "passes_at depth v"
  unfolding passes_at_def
proof (intro allI impI)
  fix bs pos rest budget
  assume "drop pos bs = enc_payload v @ rest" and b: "payload_items v \<le> budget"
  then have d: "drop pos bs = put_head m n @ (tail @ rest)" by (simp add: assms(3))
  from b obtain b' where b': "budget = Suc b'" using assms(4) by (cases budget) auto
  have "validate_commitment_value bs pos depth (Suc b')
      = Ok (pos + length (put_head m n) + length tail, b')"
    using assms(1,2) d assms(5) [OF d] by (rule validate_head_body)
  then show "validate_commitment_value bs pos depth budget
      = Ok (pos + length (enc_payload v), budget - payload_items v)"
    by (simp add: b' assms(3,4))
qed

lemma passes_string:
  assumes "depth \<le> MAX_CBOR_NESTING_DEPTH" and "m = 2 \<or> m = 3 \<and> utf8_valid x" and "length x < 2 ^ 64"
    and "enc_payload v = put_head m (word_of_nat (length x)) @ x" and "payload_items v = 1"
  shows "passes_at depth v"
proof (rule passes_scalar [OF assms(1) _ assms(4,5)])
  show "m < 7" using assms(2) by auto
  fix bs pos rest b
  assume d: "drop pos bs = put_head m (word_of_nat (length x)) @ (x @ rest)"
  have "read_slice bs (pos + length (put_head m (word_of_nat (length x)))) (word_of_nat (length x)) msg
      = Ok (x, pos + length (put_head m (word_of_nat (length x))) + length x)" for msg
    using read_slice_ok [OF drop_eq_append_next [OF d] drop_Cons_le [OF d] assms(3)] .
  then show "validate_body bs depth b m (word_of_nat (length x))
      (pos + length (put_head m (word_of_nat (length x))))
    = Ok (pos + length (put_head m (word_of_nat (length x))) + length x, b)"
    using assms(2) by (auto simp: validate_body_def)
qed

lemma passes_simple:
  assumes "depth \<le> MAX_CBOR_NESTING_DEPTH" and "enc_payload v = [i]" and "payload_items v = 1"
    and "drop_bit 5 i = 7" and "20 \<le> i AND 0x1f" and "i AND 0x1f \<le> 22"
  shows "passes_at depth v"
  unfolding passes_at_def
proof (intro allI impI)
  fix bs pos rest budget
  assume "drop pos bs = enc_payload v @ rest" and b: "payload_items v \<le> budget"
  then have "byte_at bs pos = Some i" by (simp add: byte_at_drop assms(2))
  moreover from b obtain b' where "budget = Suc b'" using assms(3) by (cases budget) auto
  ultimately show "validate_commitment_value bs pos depth budget
      = Ok (pos + length (enc_payload v), budget - payload_items v)"
    using assms by (auto simp: validate_commitment_value_Ok_iff validate_simple_or_float_def)
qed

lemma passes_float:
  assumes "depth \<le> MAX_CBOR_NESTING_DEPTH" and "f64_is_finite n"
  shows "passes_at depth (PFloat n)"
  unfolding passes_at_def
proof (intro allI impI)
  fix bs pos rest budget
  assume d: "drop pos bs = enc_payload (PFloat n) @ rest" and b: "payload_items (PFloat n) \<le> budget"
  from b obtain b' where "budget = Suc b'" by (cases budget) auto
  with validate_float_complete [OF assms(2) d] assms(1)
  show "validate_commitment_value bs pos depth budget
      = Ok (pos + length (enc_payload (PFloat n)), budget - payload_items (PFloat n))"
    by (auto simp: validate_commitment_value_Ok_iff simp del: enc_payload.simps)
qed

lemma canonical_payload_passes:
  "canonical_payload v \<Longrightarrow> depth + payload_height v \<le> MAX_CBOR_NESTING_DEPTH \<Longrightarrow> passes_at depth v"
proof (induction v arbitrary: depth rule: enc_payload.induct)
  case (1 n)
  then show ?case by (intro passes_scalar [of depth 0 _ n "[]"]) (simp_all add: validate_body_def)
next
  case (2 n)
  then show ?case by (intro passes_scalar [of depth 1 _ n "[]"]) (simp_all add: validate_body_def)
next
  case (3 x)
  then show ?case by (intro passes_string [of depth 2 x]) (simp_all add: cbor_bytes_def)
next
  case (4 s)
  then show ?case
    by (intro passes_string [of depth 3 "str_bytes s"]) (simp_all add: cbor_text_def text_ok_def)
next
  case (5 vs)
  have d: "depth \<le> MAX_CBOR_NESTING_DEPTH" using 5 by simp
  have "depth + fold max (map (Suc \<circ> payload_height) vs) 0 \<le> MAX_CBOR_NESTING_DEPTH" using 5 by simp
  then have "\<forall>v \<in> set vs. depth + Suc (payload_height v) \<le> MAX_CBOR_NESTING_DEPTH"
    unfolding add_fold_max_le [OF d] by simp
  then have "\<forall>v \<in> set vs. passes_at (depth + 1) v" using 5 by (simp add: list_all_iff)
  with 5 d show ?case by (intro passes_array) simp_all
next
  case (6 es)
  have d: "depth \<le> MAX_CBOR_NESTING_DEPTH" using 6 by simp
  have "depth + fold max (map (\<lambda>e. Suc (payload_height (snd e))) es) 0 \<le> MAX_CBOR_NESTING_DEPTH"
    using 6 by (simp add: case_prod_unfold)
  then have h: "\<forall>e \<in> set es. depth + Suc (payload_height (snd e)) \<le> MAX_CBOR_NESTING_DEPTH"
    unfolding add_fold_max_le [OF d] .
  have "\<forall>(k, v) \<in> set es. passes_at (depth + 1) v"
    using 6 h by (force simp: list_all_iff)
  with 6 d show ?case by (intro passes_map) simp_all
next
  case (7 b)
  then show ?case by (intro passes_simple [where i = "if b then 0xF5 else 0xF4"]) (cases b; simp)+
next
  case 8
  then show ?case by (intro passes_simple [where i = "0xF6"]) simp_all
next
  case (9 n)
  then show ?case by (intro passes_float) simp_all
qed

lemma canonical_payload_validates:
  assumes "canonical_payload v" and "payload_height v \<le> MAX_CBOR_NESTING_DEPTH"
  shows "validate_commitment_value (enc_payload v) 0 0 (for_input (enc_payload v))
    = Ok (length (enc_payload v), length (enc_payload v) - payload_items v)"
proof -
  have "passes_at 0 v" using assms by (intro canonical_payload_passes) simp_all
  then have "drop 0 (enc_payload v) = enc_payload v @ [] \<longrightarrow> payload_items v \<le> length (enc_payload v) \<longrightarrow>
      validate_commitment_value (enc_payload v) 0 0 (length (enc_payload v))
        = Ok (0 + length (enc_payload v), length (enc_payload v) - payload_items v)"
    unfolding passes_at_def by blast
  with payload_items_le_length [OF assms(1)] show ?thesis by (simp add: for_input_def)
qed

section \<open>Properties\<close>

text \<open>C5: The payload validator accepts a whole input, with the budget of that input, exactly when
  it is the deterministic encoding of a canonical payload value (no tags, text keys in
  deterministic order, shortest heads, finite floats at their shortest exact width) nested at most
  32 deep.\<close>

theorem validator_accepts_exactly_canonical_payloads:
  "(\<exists>budget'. validate_commitment_value bs 0 0 (for_input bs) = Ok (length bs, budget')) \<longleftrightarrow>
     (\<exists>v. bs = enc_payload v \<and> canonical_payload v \<and> payload_height v \<le> MAX_CBOR_NESTING_DEPTH)"
proof
  assume "\<exists>budget'. validate_commitment_value bs 0 0 (for_input bs) = Ok (length bs, budget')"
  then obtain b v where "accepted_as bs 0 0 (for_input bs) (length bs, b) v"
    using accepts_always unfolding accepts_at_def by blast
  then show "\<exists>v. bs = enc_payload v \<and> canonical_payload v \<and> payload_height v \<le> MAX_CBOR_NESTING_DEPTH"
    by (auto simp: accepted_as_def subslice_full)
next
  assume "\<exists>v. bs = enc_payload v \<and> canonical_payload v \<and> payload_height v \<le> MAX_CBOR_NESTING_DEPTH"
  then show "\<exists>budget'. validate_commitment_value bs 0 0 (for_input bs) = Ok (length bs, budget')"
    using canonical_payload_validates by blast
qed

end
