(* ===== verification/Ledger_Json.thy ===== *)
theory Ledger_Json
  imports Vtl_Record "HOL-Library.Product_Lexorder"
begin

unbundle bit_operations_syntax

text \<open>
  Deterministic CBOR from JSON values (\<open>crates/trackone-ledger/src/c_cbor.rs\<close>) and the canonical
  JSON projection (\<open>c_json.rs\<close>).  A JSON value is the data type of the JSON library: a number is an
  unsigned 64-bit integer, a negative 64-bit integer or a binary64 float; an object is the list of
  its entries, whose keys are distinct.  The writer is shown to produce exactly the encodings the
  commitment validator accepts.
\<close>

section \<open>Definitions\<close>

datatype json_number = PosInt u64 | NegInt u64 | JFloat u64

datatype json =
    JNull
  | JBool bool
  | JNumber json_number
  | JString string
  | JArray "json list"
  | JObject "(string \<times> json) list"

definition as_u64 :: "json_number \<Rightarrow> u64 option" where
  "as_u64 num = (case num of PosInt n \<Rightarrow> Some n | _ \<Rightarrow> None)"

definition as_i64 :: "json_number \<Rightarrow> u64 option" where
  "as_i64 num = (case num of
       PosInt n \<Rightarrow> if n \<le> 0x7FFFFFFFFFFFFFFF then Some n else None
     | NegInt n \<Rightarrow> Some n
     | JFloat _ \<Rightarrow> None)"

definition as_f64 :: "json_number \<Rightarrow> u64 option" where
  "as_f64 num = (case num of JFloat v \<Rightarrow> Some v | _ \<Rightarrow> None)"

definition json_major_u64 :: "u8 \<Rightarrow> u64 \<Rightarrow> bytes" where
  "json_major_u64 major n =
     (if n < 24 then [push_bit 5 major OR ucast n]
      else if n \<le> 0xff then [push_bit 5 major OR 24, ucast n]
      else if n \<le> 0xffff then (push_bit 5 major OR 25) # to_be_bytes (ucast n :: u16)
      else if n \<le> 0xffffffff then (push_bit 5 major OR 26) # to_be_bytes (ucast n :: u32)
      else (push_bit 5 major OR 27) # to_be_bytes n)"

definition json_cbor_uint :: "u64 \<Rightarrow> bytes" where
  "json_cbor_uint n = json_major_u64 0 n"

definition json_cbor_nint :: "u64 \<Rightarrow> bytes" where
  "json_cbor_nint n = json_major_u64 1 (word_of_int (-1 - sint n))"

definition json_cbor_i64 :: "u64 \<Rightarrow> bytes" where
  "json_cbor_i64 n = (if 0 \<le> sint n then json_cbor_uint n else json_cbor_nint n)"

definition json_cbor_text :: "string \<Rightarrow> bytes" where
  "json_cbor_text s = json_major_u64 3 (word_of_nat (length s)) @ str_bytes s"

definition json_cbor_array_len :: "nat \<Rightarrow> bytes" where
  "json_cbor_array_len n = json_major_u64 4 (word_of_nat n)"

definition json_cbor_map_len :: "nat \<Rightarrow> bytes" where
  "json_cbor_map_len n = json_major_u64 5 (word_of_nat n)"

definition encode_number :: "json_number \<Rightarrow> (bytes, ledger_error) result" where
  "encode_number num = (case as_u64 num of
       Some u \<Rightarrow> Ok (json_cbor_uint u)
     | None \<Rightarrow> (case as_i64 num of
           Some i \<Rightarrow> Ok (json_cbor_i64 i)
         | None \<Rightarrow> (case as_f64 num of
               Some f \<Rightarrow> cbor_float f
             | None \<Rightarrow> Err UnsupportedNumber)))"

definition key_rank :: "string \<times> 'v \<Rightarrow> nat \<times> bytes" where
  "key_rank e = (length (str_bytes (fst e)), str_bytes (fst e))"

fun concat_results :: "(bytes, 'e) result list \<Rightarrow> (bytes, 'e) result" where
  "concat_results [] = Ok []"
| "concat_results (r # rs) =
     and_then r (\<lambda>x. and_then (concat_results rs) (\<lambda>xs. Ok (x @ xs)))"

function encode_value :: "json \<Rightarrow> (bytes, ledger_error) result" where
  "encode_value JNull = Ok [0xF6]"
| "encode_value (JBool b) = Ok [if b then 0xF5 else 0xF4]"
| "encode_value (JNumber num) = encode_number num"
| "encode_value (JString s) = Ok (json_cbor_text s)"
| "encode_value (JArray items) =
     and_then (concat_results (map encode_value items)) (\<lambda>body.
       Ok (json_cbor_array_len (length items) @ body))"
| "encode_value (JObject entries) =
     (let entries = sort_key key_rank entries in
      and_then (concat_results (map (\<lambda>(key, item).
          and_then (encode_value item) (\<lambda>x. Ok (json_cbor_text key @ x))) entries)) (\<lambda>body.
        Ok (json_cbor_map_len (length entries) @ body)))"
  by pat_completeness auto
termination
  by (relation "measure size") (auto simp: size_list_estimation' less_Suc_eq_le)

definition json_canonical_cbor_bytes :: "json \<Rightarrow> (bytes, ledger_error) result" where
  "json_canonical_cbor_bytes value = encode_value value"

function canonicalize_value :: "json \<Rightarrow> json" where
  "canonicalize_value (JObject entries) =
     JObject (map (\<lambda>(k, v). (k, canonicalize_value v)) (sort_key fst entries))"
| "canonicalize_value (JArray items) = JArray (map canonicalize_value items)"
| "canonicalize_value JNull = JNull"
| "canonicalize_value (JBool b) = JBool b"
| "canonicalize_value (JNumber n) = JNumber n"
| "canonicalize_value (JString s) = JString s"
  by pat_completeness auto
termination
  by (relation "measure size") (auto simp: size_list_estimation' less_Suc_eq_le)

text \<open>What the JSON library guarantees of a value: strings are UTF-8 and shorter than the address
  space, object keys are distinct.\<close>

fun json_ok :: "json \<Rightarrow> bool" where
  "json_ok (JString s) \<longleftrightarrow> text_ok s"
| "json_ok (JArray items) \<longleftrightarrow> length items < 2 ^ 63 \<and> list_all json_ok items"
| "json_ok (JObject entries) \<longleftrightarrow> length entries < 2 ^ 63 \<and> distinct (map fst entries)
     \<and> list_all (\<lambda>(k, v). text_ok k \<and> json_ok v) entries"
| "json_ok _ \<longleftrightarrow> True"

fun json_height :: "json \<Rightarrow> nat" where
  "json_height (JArray items) = fold max (map (Suc \<circ> json_height) items) 0"
| "json_height (JObject entries) = fold max (map (\<lambda>(k, v). Suc (json_height v)) entries) 0"
| "json_height _ = 0"

text \<open>The JSON library has no infinity and no NaN.\<close>

fun json_finite :: "json \<Rightarrow> bool" where
  "json_finite (JNumber num) \<longleftrightarrow> (case num of JFloat v \<Rightarrow> f64_is_finite v | _ \<Rightarrow> True)"
| "json_finite (JArray items) \<longleftrightarrow> list_all json_finite items"
| "json_finite (JObject entries) \<longleftrightarrow> list_all (\<lambda>(k, v). json_finite v) entries"
| "json_finite _ \<longleftrightarrow> True"

section \<open>The third head writer\<close>

lemma json_major_u64_eq: "json_major_u64 = put_head"
proof (intro ext)
  fix m :: u8 and n :: u64
  have "n < 24 \<longleftrightarrow> n \<le> 23" by (auto simp: word_less_nat_alt word_le_nat_alt)
  then show "json_major_u64 m n = put_head m n"
    by (simp add: json_major_u64_def put_head_def Let_def)
qed

interpretation json_head: head_encoder json_major_u64
  unfolding json_major_u64_eq by (rule vtl_head.head_encoder_axioms)

section \<open>Key order\<close>

lemma raw_key_length: "length (cbor_text k) = Suc (head_width (length k)) + length k"
  if "length k < 2 ^ 64"
  using that by (simp add: cbor_text_def unat_u64_of_nat)

lemma head_width_mono: "a \<le> b \<Longrightarrow> head_width a \<le> head_width b"
  by (auto simp: head_width_def)

lemma list_less_append: "(xs @ ys < xs @ zs) = (ys < zs)" for ys zs :: bytes
  by (induction xs) simp_all

lemma key_rank_key_less:
  assumes "text_ok a" and "text_ok b" and "key_rank (a, x) < key_rank (b, y)"
  shows "key_less a b"
proof (cases "length a = length b")
  case True
  with assms(3) have "str_bytes a < str_bytes b" by (simp add: key_rank_def)
  then have "cbor_text a < cbor_text b" using True by (simp add: cbor_text_def list_less_append)
  then show ?thesis using True by (simp add: key_less_def key_out_of_order_def raw_key_length cbor_text_def not_le)
next
  case False
  with assms(3) have "length a < length b" by (auto simp: key_rank_def)
  moreover have "length a < 2 ^ 64" "length b < 2 ^ 64" using assms(1,2) by (simp_all add: text_ok_def)
  ultimately have "length (cbor_text a) < length (cbor_text b)"
    using head_width_mono [of "length a" "length b"] by (simp add: raw_key_length)
  then show ?thesis by (simp add: key_less_def key_out_of_order_def)
qed

lemma key_rank_inj: "key_rank e = key_rank f \<longleftrightarrow> fst e = fst f"
  by (auto simp: key_rank_def)

lemma sorted_keys_in_order:
  assumes "distinct (map fst es)" and "list_all (\<lambda>(k, v). text_ok k) es"
  shows "successively key_less (map fst (sort_key key_rank es))"
proof -
  let ?s = "sort_key key_rank es"
  have "sorted (map key_rank ?s)" by simp
  moreover have "distinct (map key_rank ?s)"
  proof -
    have "distinct (map fst ?s)"
      using assms(1) mset_eq_imp_distinct_iff [of "map fst ?s" "map fst es"] by simp
    then show ?thesis by (auto simp: distinct_map inj_on_def key_rank_inj)
  qed
  ultimately have "sorted_wrt (<) (map key_rank ?s)" by (simp add: strict_sorted_iff)
  then have "sorted_wrt (\<lambda>e f. key_rank e < key_rank f) ?s" by (simp add: sorted_wrt_map)
  then have "sorted_wrt (\<lambda>e f. key_less (fst e) (fst f)) ?s"
    by (rule sorted_wrt_mono_rel [rotated])
      (use assms(2) key_rank_key_less in \<open>fastforce simp: list_all_iff\<close>)
  then show ?thesis by (simp add: successively_if_sorted_wrt sorted_wrt_map)
qed

section \<open>The writer and the validator agree\<close>

text \<open>The payload a JSON value denotes.\<close>

definition payload_of_number :: "json_number \<Rightarrow> payload" where
  "payload_of_number num = (case num of
       PosInt n \<Rightarrow> PUint n
     | NegInt n \<Rightarrow> if 0 \<le> sint n then PUint n else PNint (word_of_int (-1 - sint n))
     | JFloat v \<Rightarrow> PFloat v)"

function payload_of :: "json \<Rightarrow> payload" where
  "payload_of JNull = PNull"
| "payload_of (JBool b) = PBool b"
| "payload_of (JNumber num) = payload_of_number num"
| "payload_of (JString s) = PText s"
| "payload_of (JArray items) = PArray (map payload_of items)"
| "payload_of (JObject entries) =
     PMap (map (\<lambda>(k, v). (k, payload_of v)) (sort_key key_rank entries))"
  by pat_completeness auto
termination
  by (relation "measure size") (auto simp: size_list_estimation' less_Suc_eq_le)

lemma concat_results_Ok_iff:
  "concat_results (map f xs) = Ok bs \<longleftrightarrow>
     (\<forall>x \<in> set xs. is_ok (f x)) \<and> bs = concat (map (\<lambda>x. case f x of Inr y \<Rightarrow> y | Inl _ \<Rightarrow> []) xs)"
proof (induction xs arbitrary: bs)
  case (Cons x xs)
  then show ?case by (cases "f x") (auto simp: and_then_Ok_iff)
qed auto

lemma encode_number_total: "json_finite (JNumber num) \<Longrightarrow> is_ok (encode_number num)"
  by (cases num) (auto simp: encode_number_def as_u64_def as_i64_def as_f64_def cbor_float_def Let_def
      split: option.splits)

lemma encode_value_total: "json_finite j \<Longrightarrow> is_ok (encode_value j)"
proof (induction j rule: encode_value.induct)
  case (3 num)
  then show ?case by (simp add: encode_number_total)
next
  case (5 items)
  then show ?case by (auto simp: is_ok_iff and_then_Ok_iff concat_results_Ok_iff list_all_iff)
next
  case (6 entries)
  then show ?case
    by (force simp: is_ok_iff and_then_Ok_iff concat_results_Ok_iff list_all_iff Let_def)
qed simp_all

lemma encode_number_payload:
  assumes "encode_number num = Ok bs"
  shows "bs = enc_payload (payload_of_number num) \<and> canonical_payload (payload_of_number num)"
  using assms canonical_float_bytes_Ok
  by (cases num) (auto simp: encode_number_def as_u64_def as_i64_def as_f64_def payload_of_number_def
      json_cbor_uint_def json_cbor_i64_def json_cbor_nint_def json_major_u64_eq canonical_float_bytes_def)

lemma encode_value_payload:
  "encode_value j = Ok bs \<Longrightarrow> json_ok j \<Longrightarrow>
     bs = enc_payload (payload_of j) \<and> canonical_payload (payload_of j)"
proof (induction j arbitrary: bs rule: encode_value.induct)
  case (3 num)
  then show ?case using encode_number_payload by simp
next
  case (4 s)
  then show ?case by (simp add: json_cbor_text_def json_major_u64_eq cbor_text_def)
next
  case (5 items)
  have it: "encode_value x = Ok (enc_payload (payload_of x)) \<and> canonical_payload (payload_of x)"
    if "x \<in> set items" for x
    using 5 that by (auto simp: and_then_Ok_iff concat_results_Ok_iff is_ok_iff list_all_iff)
  then have "concat (map (\<lambda>x. case encode_value x of Inr y \<Rightarrow> y | Inl _ \<Rightarrow> []) items)
      = concat (map enc_payload (map payload_of items))"
    by (auto intro!: arg_cong [of _ _ concat])
  with 5 it show ?case
    by (auto simp: and_then_Ok_iff concat_results_Ok_iff json_cbor_array_len_def json_major_u64_eq
        cbor_array_def list_all_iff)
next
  case (6 entries)
  let ?es = "sort_key key_rank entries"
  let ?f = "\<lambda>(key, item). and_then (encode_value item) (\<lambda>x. Ok (json_cbor_text key @ x))"
  from 6(2) obtain body where body: "concat_results (map ?f ?es) = Ok body"
    and bs: "bs = json_cbor_map_len (length ?es) @ body" by (auto simp: and_then_Ok_iff Let_def)
  have it: "encode_value v = Ok (enc_payload (payload_of v)) \<and> canonical_payload (payload_of v)"
    if "(k, v) \<in> set entries" for k v
  proof -
    from body that have "is_ok (?f (k, v))" by (force simp: concat_results_Ok_iff)
    then obtain x where "encode_value v = Ok x" by (auto simp: is_ok_iff and_then_Ok_iff)
    with 6 that show ?thesis by (auto simp: list_all_iff)
  qed
  then have "map (\<lambda>e. case ?f e of Inr y \<Rightarrow> y | Inl _ \<Rightarrow> []) ?es
      = map (\<lambda>(k, v). cbor_text k @ enc_payload v) (map (\<lambda>(k, v). (k, payload_of v)) ?es)"
    by (auto simp: json_cbor_text_def json_major_u64_eq cbor_text_def)
  with body have "body = concat (map (\<lambda>(k, v). cbor_text k @ enc_payload v)
      (map (\<lambda>(k, v). (k, payload_of v)) ?es))"
    by (simp add: concat_results_Ok_iff)
  moreover have "successively key_less (map fst (map (\<lambda>(k, v). (k, payload_of v)) ?es))"
    using sorted_keys_in_order [of entries] 6(3)
    by (auto simp: list_all_iff comp_def case_prod_unfold)
  moreover have "list_all (\<lambda>(k, v). text_ok k \<and> canonical_payload v)
      (map (\<lambda>(k, v). (k, payload_of v)) ?es)"
    using it 6(3) by (auto simp: list_all_iff)
  ultimately show ?case
    using bs 6(3) by (simp add: json_cbor_map_len_def json_major_u64_eq cbor_map_def)
qed auto

lemma payload_height_of: "payload_height (payload_of j) \<le> m \<longleftrightarrow> json_height j \<le> m"
proof (induction j arbitrary: m rule: payload_of.induct)
  case (3 num)
  then show ?case by (cases num) (simp_all add: payload_of_number_def)
next
  case (5 items)
  have "Suc (payload_height (payload_of x)) \<le> m \<longleftrightarrow> Suc (json_height x) \<le> m" if "x \<in> set items" for x
    using 5 [OF that] by (cases m) simp_all
  then show ?case by (auto simp: fold_max_le)
next
  case (6 entries)
  have "Suc (payload_height (payload_of v)) \<le> m \<longleftrightarrow> Suc (json_height v) \<le> m"
    if "(k, v) \<in> set entries" for k v
    using 6 that by (cases m) auto
  then show ?case by (force simp: fold_max_le)
qed simp_all

section \<open>Canonical JSON\<close>

lemma sort_key_rank_sorted_fst:
  assumes "distinct (map fst es)" and "\<And>e. fst (g e) = fst e"
  shows "sort_key key_rank (map g (sort_key fst es)) = map g (sort_key key_rank es)"
proof (rule sort_key_inj_key_eq)
  show "mset (map g (sort_key fst es)) = mset (map g (sort_key key_rank es))" by simp
  show "inj_on key_rank (set (map g (sort_key fst es)))"
  proof (rule inj_onI)
    fix x y
    assume "x \<in> set (map g (sort_key fst es))" "y \<in> set (map g (sort_key fst es))"
      and "key_rank x = key_rank y"
    then obtain e f where ef: "e \<in> set es" "f \<in> set es" "x = g e" "y = g f" "fst e = fst f"
      using assms(2) by (auto simp: key_rank_inj)
    then have "e = f" using assms(1) by (metis distinct_map inj_onD)
    with ef show "x = y" by simp
  qed
  have "map key_rank (map g (sort_key key_rank es)) = map key_rank (sort_key key_rank es)"
    using assms(2) by (simp add: key_rank_def)
  then show "sorted (map key_rank (map g (sort_key key_rank es)))" by (simp only: sorted_sort_key)
qed

lemma encode_canonicalized: "json_ok j \<Longrightarrow> encode_value (canonicalize_value j) = encode_value j"
proof (induction j rule: canonicalize_value.induct)
  case (1 entries)
  let ?g = "\<lambda>(k, v). (k, canonicalize_value v)"
  let ?f = "\<lambda>(key, item). and_then (encode_value item) (\<lambda>x. Ok (json_cbor_text key @ x))"
  have s: "sort_key key_rank (map ?g (sort_key fst entries)) = map ?g (sort_key key_rank entries)"
    using 1 by (intro sort_key_rank_sorted_fst) (auto split: prod.splits)
  have "map ?f (map ?g (sort_key key_rank entries)) = map ?f (sort_key key_rank entries)"
    using 1 by (auto simp: list_all_iff)
  with s show ?case by (simp add: Let_def del: map_map)
next
  case (2 items)
  then have "map encode_value (map canonicalize_value items) = map encode_value items"
    by (auto simp: list_all_iff)
  then show ?case by (simp del: map_map)
qed simp_all

section \<open>Properties\<close>

definition example_json :: json where
  "example_json = JObject
     [(''bb'', JNumber (NegInt (- 500))),
      (''a'', JArray [JBool True, JNumber (JFloat 0x3FF8000000000000), JNumber (JFloat 0x3FB999999999999A)]),
      (''z'', JObject [(''y'', JNull), (''x'', JString ''ok'')])]"

lemma example_json_ok: "json_ok example_json"
  by (simp add: example_json_def text_ok_def utf8_valid_ascii)

text \<open>C29: The JSON-to-CBOR writer succeeds on every JSON value, and what it produces for a value
  nested at most 32 deep is accepted by the commitment validator in full: key order, shortest
  integers and shortest exact floats all meet the validator's rules.\<close>

theorem json_writer_output_validates:
  assumes "json_ok j" and "json_finite j" and "json_height j \<le> MAX_CBOR_NESTING_DEPTH"
  shows "\<exists>bs budget. json_canonical_cbor_bytes j = Ok bs
    \<and> validate_commitment_value bs 0 0 (for_input bs) = Ok (length bs, budget)"
proof -
  obtain bs where bs: "encode_value j = Ok bs"
    using encode_value_total [OF assms(2)] by (auto simp: is_ok_iff)
  with assms(1) have "bs = enc_payload (payload_of j) \<and> canonical_payload (payload_of j)"
    by (intro encode_value_payload)
  moreover have "payload_height (payload_of j) \<le> MAX_CBOR_NESTING_DEPTH"
    using assms(3) by (simp add: payload_height_of)
  ultimately show ?thesis
    using bs canonical_payload_validates by (auto simp: json_canonical_cbor_bytes_def)
qed

theorem json_writer_output_validates_witness:
  "\<exists>bs budget. json_canonical_cbor_bytes example_json = Ok bs
    \<and> validate_commitment_value bs 0 0 (for_input bs) = Ok (length bs, budget)"
proof (rule json_writer_output_validates [OF example_json_ok])
  show "json_finite example_json" by code_simp
  show "json_height example_json \<le> MAX_CBOR_NESTING_DEPTH" by code_simp
qed

text \<open>The commitment bytes of a JSON value do not depend on how its objects list their keys:
  sorting all keys with the canonical JSON projection first gives the same bytes, or the same
  error.\<close>

lemma json_commitment_ignores_key_order:
  assumes "json_ok j"
  shows "json_canonical_cbor_bytes (canonicalize_value j) = json_canonical_cbor_bytes j"
  using encode_canonicalized [OF assms] by (simp add: json_canonical_cbor_bytes_def)

end
