(* ===== verification/Ledger_Hex.thy ===== *)
theory Ledger_Hex
  imports Trackone_Prelude
begin

unbundle bit_operations_syntax

text \<open>
  Hexadecimal helpers of the ledger crate (\<open>crates/trackone-ledger/src/lib.rs\<close>) and the field
  checks of the segment profile that use them (\<open>vtl.rs\<close>): the printer \<open>hex_lower\<close>, the
  normaliser \<open>normalize_hex64\<close> with its two errors, and \<open>valid_hex\<close>.
\<close>

section \<open>Definitions\<close>

datatype hex_error =
    InvalidHexLength nat nat
  | InvalidHexCharacter nat byte

definition HEX :: string where
  "HEX = ''0123456789abcdef''"

fun hex_lower :: "bytes \<Rightarrow> string" where
  "hex_lower [] = []"
| "hex_lower (b # bs) = HEX ! unat (drop_bit 4 b) # HEX ! unat (b AND 0x0f) # hex_lower bs"

definition sha256_hex :: "(bytes \<Rightarrow> bytes) \<Rightarrow> bytes \<Rightarrow> string" where
  "sha256_hex H data = hex_lower (H data)"

definition is_lower_hex :: "byte \<Rightarrow> bool" where
  "is_lower_hex b \<longleftrightarrow> 0x30 \<le> b \<and> b \<le> 0x39 \<or> 0x61 \<le> b \<and> b \<le> 0x66"

definition is_upper_hex :: "byte \<Rightarrow> bool" where
  "is_upper_hex b \<longleftrightarrow> 0x41 \<le> b \<and> b \<le> 0x46"

fun normalize_hex_loop :: "nat \<Rightarrow> bytes \<Rightarrow> (bytes, hex_error) result" where
  "normalize_hex_loop index [] = Ok []"
| "normalize_hex_loop index (b # bs) =
     (if is_lower_hex b then and_then (normalize_hex_loop (index + 1) bs) (\<lambda>out. Ok (b # out))
      else if is_upper_hex b then
        and_then (normalize_hex_loop (index + 1) bs) (\<lambda>out. Ok ((b + 0x20) # out))
      else Err (InvalidHexCharacter index b))"

definition normalize_hex64 :: "string \<Rightarrow> (string, hex_error) result" where
  "normalize_hex64 value =
     (if length value \<noteq> 64 then Err (InvalidHexLength 64 (length value))
      else and_then (normalize_hex_loop 0 (str_bytes value)) (\<lambda>out. Ok (bytes_str out)))"

definition valid_hex :: "string \<Rightarrow> nat \<Rightarrow> bool" where
  "valid_hex value len \<longleftrightarrow> length value = len \<and> list_all is_lower_hex (str_bytes value)"

section \<open>Nibbles\<close>

lemma nibble_high: "unat (drop_bit 4 b) = unat b div 16" for b :: u8
  by (simp add: drop_bit_eq_div unat_div)

lemma nibble_low: "unat (b AND 0x0f) = unat b mod 16" for b :: u8
proof -
  have m: "(0x0f :: u8) = mask 4" by (simp add: mask_eq_exp_minus_1)
  have "unat (b AND 0x0f) = unat (take_bit 4 b)" unfolding m by (simp add: take_bit_eq_mask)
  then show ?thesis by (simp add: take_bit_eq_mod unat_mod)
qed

lemma all_less_16: "(\<forall>n < 16. P n) \<longleftrightarrow> list_all P [0..<16]" for P :: "nat \<Rightarrow> bool"
  by (auto simp: list_all_iff)

lemma HEX_lower: "n < 16 \<Longrightarrow> is_lower_hex (of_char (HEX ! n))"
proof -
  have "\<forall>n < 16. is_lower_hex (of_char (HEX ! n))"
    unfolding all_less_16 by code_simp
  then show "n < 16 \<Longrightarrow> is_lower_hex (of_char (HEX ! n))" by blast
qed

lemma distinct_HEX: "distinct HEX"
  by (simp add: HEX_def)

lemma HEX_inj: "i < 16 \<Longrightarrow> j < 16 \<Longrightarrow> HEX ! i = HEX ! j \<Longrightarrow> i = j"
  using distinct_HEX by (simp add: nth_eq_iff_index_eq HEX_def)

lemma nibble_bounds: "unat (drop_bit 4 b) < 16" "unat (b AND 0x0f) < 16" for b :: u8
  by (simp_all add: nibble_high nibble_low less_mult_imp_div_less)

lemma nibbles_inject:
  fixes b c :: u8
  assumes "HEX ! unat (drop_bit 4 b) = HEX ! unat (drop_bit 4 c)"
    and "HEX ! unat (b AND 0x0f) = HEX ! unat (c AND 0x0f)"
  shows "b = c"
proof -
  have "unat b div 16 = unat c div 16" "unat b mod 16 = unat c mod 16"
    using assms nibble_bounds [of b] nibble_bounds [of c]
    by (simp_all add: HEX_inj flip: nibble_high nibble_low)
  then have "unat b = unat c" by (metis div_mult_mod_eq)
  then show ?thesis by (simp add: word_unat_eq_iff)
qed

section \<open>Printing and normalising\<close>

lemma length_hex_lower [simp]: "length (hex_lower bs) = 2 * length bs"
  by (induction bs rule: hex_lower.induct) simp_all

lemma hex_lower_inject [simp]: "hex_lower xs = hex_lower ys \<longleftrightarrow> xs = ys"
proof (induction xs arbitrary: ys rule: hex_lower.induct)
  case 1
  then show ?case by (cases ys) simp_all
next
  case (2 b bs)
  then show ?case by (cases ys) (auto dest: nibbles_inject)
qed

lemma hex_lower_digits: "list_all is_lower_hex (str_bytes (hex_lower bs))"
  by (induction bs rule: hex_lower.induct) (simp_all add: str_bytes_def HEX_lower nibble_bounds)

lemma valid_hex_hex_lower: "valid_hex (hex_lower bs) (2 * length bs)"
  by (simp add: valid_hex_def hex_lower_digits)

lemma is_lower_hex_ascii: "is_lower_hex b \<Longrightarrow> unat b < 128"
  by (auto simp: is_lower_hex_def word_le_nat_alt)

lemma valid_hex_utf8: "valid_hex s n \<Longrightarrow> utf8_valid (str_bytes s)"
  by (auto simp: valid_hex_def utf8_valid_def utf8_decode_ascii list_all_iff is_lower_hex_ascii)

lemma lowercase_upper_hex: "is_upper_hex b \<Longrightarrow> is_lower_hex (b + 0x20)"
proof -
  assume "is_upper_hex b"
  then have "unat b \<in> {65..70}" by (auto simp: is_upper_hex_def word_le_nat_alt)
  then have "unat (b + 0x20) = unat b + 32" by (simp add: unat_word_ariths)
  with \<open>unat b \<in> {65..70}\<close> show ?thesis by (simp add: is_lower_hex_def word_le_nat_alt)
qed

lemma normalize_hex_loop_lower:
  "list_all is_lower_hex bs \<Longrightarrow> normalize_hex_loop i bs = Ok bs"
  by (induction bs arbitrary: i) simp_all

lemma normalize_hex_loop_Ok:
  "normalize_hex_loop i bs = Ok out \<Longrightarrow> length out = length bs \<and> list_all is_lower_hex out"
  by (induction bs arbitrary: i out)
    (auto simp: and_then_Ok_iff lowercase_upper_hex split: if_splits)

lemma normalize_hex_loop_Err:
  "normalize_hex_loop i bs = Err e \<Longrightarrow>
     \<exists>k < length bs. e = InvalidHexCharacter (i + k) (bs ! k)
       \<and> \<not> is_lower_hex (bs ! k) \<and> \<not> is_upper_hex (bs ! k)
       \<and> (\<forall>j < k. is_lower_hex (bs ! j) \<or> is_upper_hex (bs ! j))"
proof (induction bs arbitrary: i)
  case Nil
  then show ?case by simp
next
  case (Cons b bs)
  show ?case
  proof (cases "is_lower_hex b \<or> is_upper_hex b")
    case True
    with Cons.prems have "normalize_hex_loop (i + 1) bs = Err e"
      by (cases "normalize_hex_loop (i + 1) bs") (auto split: if_splits)
    from Cons.IH [OF this] obtain k where k: "k < length bs"
      "e = InvalidHexCharacter (i + 1 + k) (bs ! k)"
      "\<not> is_lower_hex (bs ! k) \<and> \<not> is_upper_hex (bs ! k)"
      "\<forall>j < k. is_lower_hex (bs ! j) \<or> is_upper_hex (bs ! j)" by blast
    with True show ?thesis by (intro exI [of _ "Suc k"]) (auto simp: less_Suc_eq_0_disj)
  next
    case False
    with Cons.prems show ?thesis by (intro exI [of _ 0]) simp
  qed
qed

end
