(* ===== verification/Vtl_Policy.thy ===== *)
theory Vtl_Policy
  imports Ledger_Hex
begin

text \<open>
  The closure policy of a segment (\<open>crates/trackone-ledger/src/vtl.rs\<close>): its limits, the empty
  mode, their validation with the four configuration errors, and the close reasons a segment may
  name.
\<close>

datatype empty_mode = Emit | Suppress

definition empty_mode_str :: "empty_mode \<Rightarrow> string" where
  "empty_mode_str m = (case m of Emit \<Rightarrow> ''emit'' | Suppress \<Rightarrow> ''suppress'')"

record closure_policy =
  cp_interval_ms :: u64
  cp_batch_record_limit :: u64
  cp_record_limit :: "u64 option"
  cp_size_limit_bytes :: "u64 option"
  cp_empty_mode :: empty_mode

datatype closure_policy_error =
    PolicyInterval
  | PolicyBatchRecordLimit
  | PolicyRecordLimit
  | PolicySizeLimitBytes

definition closure_policy_error_str :: "closure_policy_error \<Rightarrow> string" where
  "closure_policy_error_str e = (case e of
       PolicyInterval \<Rightarrow> ''interval_ms must be positive''
     | PolicyBatchRecordLimit \<Rightarrow> ''batch_record_limit must be a power of two no greater than 2^63''
     | PolicyRecordLimit \<Rightarrow> ''record_limit must be positive''
     | PolicySizeLimitBytes \<Rightarrow> ''size_limit_bytes must be positive'')"

definition MAX_BATCH_RECORD_LIMIT :: u64 where
  "MAX_BATCH_RECORD_LIMIT = 0x8000000000000000"

definition validate_batch_record_limit :: "u64 \<Rightarrow> (unit, closure_policy_error) result" where
  "validate_batch_record_limit limit =
     (if limit = 0 \<or> limit > MAX_BATCH_RECORD_LIMIT \<or> \<not> is_power_of_two limit
      then Err PolicyBatchRecordLimit else Ok ())"

definition policy_validate :: "closure_policy \<Rightarrow> (unit, closure_policy_error) result" where
  "policy_validate p =
     (if cp_interval_ms p = 0 then Err PolicyInterval
      else and_then (validate_batch_record_limit (cp_batch_record_limit p)) (\<lambda>_.
        if cp_record_limit p = Some 0 then Err PolicyRecordLimit
        else if cp_size_limit_bytes p = Some 0 then Err PolicySizeLimitBytes
        else Ok ()))"

definition valid_close_reason :: "string \<Rightarrow> bool" where
  "valid_close_reason value \<longleftrightarrow>
     value \<in> {''interval'', ''reconfigure'', ''record_limit'', ''size_limit'', ''shutdown'',
       ''recovery'', ''manual''}"

section \<open>What validation establishes\<close>

lemma validate_batch_record_limit_Ok_iff:
  "validate_batch_record_limit l = Ok () \<longleftrightarrow> (\<exists>j < 64. unat l = 2 ^ j)"
proof -
  have "unat l = 2 ^ j \<Longrightarrow> j < 64 \<Longrightarrow> l \<noteq> 0 \<and> l \<le> MAX_BATCH_RECORD_LIMIT" for j
    using power_increasing [of j 63 "2 :: nat"]
    by (auto simp: MAX_BATCH_RECORD_LIMIT_def word_le_nat_alt)
  then show ?thesis
    by (auto simp: validate_batch_record_limit_def is_power_of_two_iff not_le)
qed

lemma policy_validate_Ok_iff:
  "policy_validate p = Ok () \<longleftrightarrow>
     cp_interval_ms p \<noteq> 0 \<and> (\<exists>j < 64. unat (cp_batch_record_limit p) = 2 ^ j)
     \<and> cp_record_limit p \<noteq> Some 0 \<and> cp_size_limit_bytes p \<noteq> Some 0"
  by (auto simp: policy_validate_def and_then_Ok_iff
      simp flip: validate_batch_record_limit_Ok_iff split: if_splits)

lemma valid_close_reason_utf8: "valid_close_reason r \<Longrightarrow> utf8_valid (str_bytes r)"
  by (auto simp: valid_close_reason_def utf8_valid_ascii)

lemma empty_mode_str_inject [simp]: "empty_mode_str a = empty_mode_str b \<longleftrightarrow> a = b"
  by (cases a; cases b) (simp_all add: empty_mode_str_def)

end
