(* ===== verification/Vtl_Merkle.thy ===== *)
theory Vtl_Merkle
  imports Vtl_Policy
begin

text \<open>
  The Merkle commitments of the ledger crate.  \<open>vtl/merkle.rs\<close>: domain-separated leaf and node
  hashes, the recursive tree hash \<open>mth\<close> over hash-sorted leaves, aligned batch-subtree roots and
  their composition back into the segment root.  \<open>merkle.rs\<close>: the older level-by-level tree, which
  duplicates the last hash of an odd level.

  SHA-256 is the parameter \<open>H\<close>.  What the lemmas need of it is stated where they need it: that
  digests have 32 bytes, and that it does not collide on the finitely many inputs the two
  computations in question hash.
\<close>

section \<open>Definitions\<close>

record merkle_result =
  mr_root :: bytes
  mr_leaf_hashes :: "bytes list"

definition prefixed_hash :: "(bytes \<Rightarrow> bytes) \<Rightarrow> byte \<Rightarrow> bytes \<Rightarrow> bytes" where
  "prefixed_hash H prefix data = H (prefix # data)"

function mth :: "(bytes \<Rightarrow> bytes) \<Rightarrow> bytes list \<Rightarrow> bytes" where
  "mth H leaves =
     (if length leaves = 0 then H []
      else if length leaves = 1 then leaves ! 0
      else let k = split_point (length leaves);
               left = mth H (take k leaves);
               right = mth H (drop k leaves)
           in H (1 # left @ right))"
  by pat_completeness auto
termination
  by (relation "measure (length \<circ> snd)") (auto simp: min_less_iff_disj split_point_less_length)

declare mth.simps [simp del]

definition merkle_root_from_leaf_hashes :: "(bytes \<Rightarrow> bytes) \<Rightarrow> bytes list \<Rightarrow> bytes" where
  "merkle_root_from_leaf_hashes H leaves = mth H leaves"

definition merkle_root_from_records :: "(bytes \<Rightarrow> bytes) \<Rightarrow> bytes list \<Rightarrow> merkle_result" where
  "merkle_root_from_records H records =
     (let leaf_hashes = sort (map (prefixed_hash H 0) records)
      in \<lparr>mr_root = mth H leaf_hashes, mr_leaf_hashes = leaf_hashes\<rparr>)"

definition batch_roots_from_leaf_hashes ::
  "(bytes \<Rightarrow> bytes) \<Rightarrow> bytes list \<Rightarrow> u64 \<Rightarrow> bytes list option" where
  "batch_roots_from_leaf_hashes H leaf_hashes batch_record_limit =
     (if is_ok (validate_batch_record_limit batch_record_limit)
      then Some (map (mth H) (chunks (unat batch_record_limit) leaf_hashes))
      else None)"

text \<open>
  The recursion runs over values of \<open>u64\<close> whose differences and quotients never wrap, so they are
  naturals here.  A zero limit is refused before the recursion starts.  The code reads
  \<open>roots[0]\<close> before it looks at the length; \<open>range_call\<close> below shows that the list is never empty
  there.
\<close>

function compose_batch_range :: "(bytes \<Rightarrow> bytes) \<Rightarrow> bytes list \<Rightarrow> nat \<Rightarrow> nat \<Rightarrow> bytes option" where
  "compose_batch_range H roots leaf_count limit =
     (if leaf_count \<le> limit \<or> limit = 0 then
        (if length roots = 1 then Some (roots ! 0) else None)
      else
        let split_leaf_count = split_point leaf_count;
            split_root = split_leaf_count div limit
        in if split_root \<le> length roots then
             Option.bind (compose_batch_range H (take split_root roots) split_leaf_count limit) (\<lambda>left.
             Option.bind (compose_batch_range H (drop split_root roots)
                 (leaf_count - split_leaf_count) limit) (\<lambda>right.
               Some (H (1 # left @ right))))
           else None)"
  by pat_completeness auto
termination
  by (relation "measure (\<lambda>(H, roots, n, l). n)") (auto simp: split_point_less)

declare compose_batch_range.simps [simp del]

definition compose_batch_roots :: "(bytes \<Rightarrow> bytes) \<Rightarrow> bytes list \<Rightarrow> u64 \<Rightarrow> u64 \<Rightarrow> bytes option" where
  "compose_batch_roots H batch_roots record_count batch_record_limit =
     (if record_count = 0 then None
      else if \<not> is_ok (validate_batch_record_limit batch_record_limit) then None
      else let expected = 1 + (record_count - 1) div batch_record_limit in
        if length batch_roots \<noteq> unat expected then None
        else compose_batch_range H batch_roots (unat record_count) (unat batch_record_limit))"

text \<open>The calls of \<open>compose_batch_range\<close> that one call makes.\<close>

inductive range_call :: "nat \<Rightarrow> bytes list \<times> nat \<Rightarrow> bytes list \<times> nat \<Rightarrow> bool"
  for limit :: nat and c :: "bytes list \<times> nat" where
  here: "range_call limit c c"
| left: "range_call limit c (roots, n) \<Longrightarrow> limit < n \<Longrightarrow> split_point n div limit \<le> length roots \<Longrightarrow>
    range_call limit c (take (split_point n div limit) roots, split_point n)"
| right: "range_call limit c (roots, n) \<Longrightarrow> limit < n \<Longrightarrow> split_point n div limit \<le> length roots \<Longrightarrow>
    range_call limit c (drop (split_point n div limit) roots, n - split_point n)"

text \<open>The version-1 tree of \<open>merkle.rs\<close>.\<close>

definition hash_pair :: "(bytes \<Rightarrow> bytes) \<Rightarrow> bytes list \<Rightarrow> bytes" where
  "hash_pair H pair =
     (let left = pair ! 0;
          right = (if length pair = 2 then pair ! 1 else pair ! 0)
      in H (left @ right))"

function v1_levels :: "(bytes \<Rightarrow> bytes) \<Rightarrow> bytes list \<Rightarrow> bytes" where
  "v1_levels H level =
     (if 1 < length level then v1_levels H (map (hash_pair H) (chunks 2 level)) else level ! 0)"
  by pat_completeness auto
termination
  by (relation "measure (length \<circ> snd)") (auto simp: length_chunks)

declare v1_levels.simps [simp del]

definition merkle_root_from_sorted_leaf_hashes :: "(bytes \<Rightarrow> bytes) \<Rightarrow> bytes list \<Rightarrow> bytes" where
  "merkle_root_from_sorted_leaf_hashes H hs = (if hs = [] then H [] else v1_levels H hs)"

definition merkle_root_from_leaves :: "(bytes \<Rightarrow> bytes) \<Rightarrow> bytes list \<Rightarrow> merkle_result" where
  "merkle_root_from_leaves H leaves =
     (if leaves = [] then \<lparr>mr_root = H [], mr_leaf_hashes = []\<rparr>
      else let leaf_hashes = sort (map H leaves)
        in \<lparr>mr_root = merkle_root_from_sorted_leaf_hashes H leaf_hashes,
            mr_leaf_hashes = leaf_hashes\<rparr>)"

section \<open>Composition of batch roots\<close>

lemma mth_singleton [simp]: "mth H [x] = x"
  by (simp add: mth.simps [of H "[x]"])

lemma mth_Nil [simp]: "mth H [] = H []"
  by (simp add: mth.simps [of H "[]"])

lemma mth_node:
  "2 \<le> length leaves \<Longrightarrow> mth H leaves =
     H (1 # mth H (take (split_point (length leaves)) leaves)
          @ mth H (drop (split_point (length leaves)) leaves))"
  by (subst mth.simps) (auto simp: Let_def)

lemma compose_batch_range_leaf:
  "leaf_count \<le> limit \<Longrightarrow> compose_batch_range H [r] leaf_count limit = Some r"
  by (subst compose_batch_range.simps) simp

lemma compose_batch_range_node:
  "limit < n \<Longrightarrow> 0 < limit \<Longrightarrow> split_point n div limit \<le> length roots \<Longrightarrow>
   compose_batch_range H roots n limit =
     Option.bind (compose_batch_range H (take (split_point n div limit) roots) (split_point n) limit)
       (\<lambda>left. Option.bind
          (compose_batch_range H (drop (split_point n div limit) roots) (n - split_point n) limit)
          (\<lambda>right. Some (H (1 # left @ right))))"
  by (subst compose_batch_range.simps) (simp add: Let_def)

lemma compose_chunks:
  assumes "leaves \<noteq> []" and "length leaves \<le> 2 ^ 64"
  shows "compose_batch_range H (map (mth H) (chunks (2 ^ j) leaves)) (length leaves) (2 ^ j)
    = Some (mth H leaves)"
  using assms
proof (induction "length leaves" arbitrary: leaves rule: less_induct)
  case less
  let ?n = "length leaves" and ?l = "2 ^ j :: nat"
  show ?case
  proof (cases "?n \<le> ?l")
    case True
    with less.prems show ?thesis by (simp add: chunks_short compose_batch_range_leaf)
  next
    case False
    let ?k = "split_point ?n"
    define L where "L = take ?k leaves"
    define R where "R = drop ?k leaves"
    from False have gt: "?l < ?n" by simp
    then have "Suc 0 < ?n" using less_le_trans [of "Suc 0" "Suc ?l" ?n] by simp
    then have two: "2 \<le> ?n" by simp
    have k: "?k < ?n" using two by (rule split_point_less)
    have dvd: "?l dvd ?k" using gt less.prems(2) by (rule pow2_dvd_split_point)
    have lens: "length L = ?k" "length R = ?n - ?k" using k by (simp_all add: L_def R_def)
    then have ne: "L \<noteq> []" "R \<noteq> []" using k split_point_pos [of ?n] by force+
    have LR: "leaves = L @ R" by (simp add: L_def R_def)
    have ch: "chunks ?l leaves = chunks ?l L @ chunks ?l R"
      unfolding LR using dvd lens by (intro chunks_append_aligned) simp_all
    have lc: "length (chunks ?l L) = ?k div ?l"
      using dvd lens by (simp add: length_chunks_dvd)
    have "compose_batch_range H (map (mth H) (chunks ?l L)) ?k ?l = Some (mth H L)"
      using less.hyps [of L] ne lens k less.prems by simp
    moreover have "compose_batch_range H (map (mth H) (chunks ?l R)) (?n - ?k) ?l = Some (mth H R)"
      using less.hyps [of R] ne lens k less.prems by simp
    ultimately show ?thesis
      using gt two lc
      by (simp add: compose_batch_range_node ch mth_node L_def R_def take_map drop_map)
  qed
qed

lemma expected_roots:
  fixes n l :: u64
  assumes "n \<noteq> 0" and "l \<noteq> 0"
  shows "unat (1 + (n - 1) div l) = (unat n + unat l - 1) div unat l"
proof -
  have n: "0 < unat n" and l: "0 < unat l" using assms by (simp_all add: unat_gt_0)
  have "unat (n - 1) = unat n - 1" using assms(1) by (rule unat_minus_one)
  then have d: "unat ((n - 1) div l) = (unat n - 1) div unat l" by (simp add: unat_div)
  moreover have "(unat n - 1) div unat l \<le> unat n - 1" by (rule div_le_dividend)
  ultimately have "unat ((n - 1) div l) + 1 < 18446744073709551616" using n unat_u64_less [of n] by linarith
  then have "unat (1 + (n - 1) div l) = Suc ((unat n - 1) div unat l)"
    using d by (simp add: unat_word_ariths)
  also have "\<dots> = (unat n - 1 + unat l) div unat l" using l by (simp add: div_add_self2)
  also have "unat n - 1 + unat l = unat n + unat l - 1" using n by simp
  finally show ?thesis .
qed

lemma batch_roots_compose:
  assumes "leaves \<noteq> []" and "length leaves < 2 ^ 64"
    and "batch_roots_from_leaf_hashes H leaves limit = Some roots"
  shows "compose_batch_roots H roots (word_of_nat (length leaves)) limit = Some (mth H leaves)"
    and "length roots = unat (1 + (word_of_nat (length leaves) - 1) div limit)"
proof -
  from assms(3) have ok: "is_ok (validate_batch_record_limit limit)"
    and roots: "roots = map (mth H) (chunks (unat limit) leaves)"
    by (simp_all add: batch_roots_from_leaf_hashes_def split: if_splits)
  from ok obtain j where j: "unat limit = 2 ^ j"
    by (auto simp: is_ok_iff validate_batch_record_limit_Ok_iff)
  then have l: "limit \<noteq> 0" "0 < unat limit" by auto
  let ?n = "word_of_nat (length leaves) :: u64"
  have n: "unat ?n = length leaves" using assms(2) by (rule unat_u64_of_nat)
  with assms(1) have nz: "?n \<noteq> 0" by (metis length_0_conv unat_0)
  show len: "length roots = unat (1 + (?n - 1) div limit)"
    using nz l n roots by (simp add: expected_roots length_chunks)
  show "compose_batch_roots H roots ?n limit = Some (mth H leaves)"
    using compose_chunks [of leaves H j] assms(1,2) ok nz n len
    by (simp add: compose_batch_roots_def Let_def roots j)
qed

section \<open>No root is indexed out of range\<close>

inductive_cases range_callE: "range_call limit c d"

lemma range_call_length:
  assumes "range_call limit (roots, n) (roots', n')" and "limit = 2 ^ j"
    and "0 < n" and "n \<le> 2 ^ 64" and "length roots = (n + limit - 1) div limit"
  shows "0 < n' \<and> n' \<le> 2 ^ 64 \<and> length roots' = (n' + limit - 1) div limit"
  using assms(1)
proof (induction "(roots', n')" arbitrary: roots' n' rule: range_call.induct)
  case here
  then show ?case using assms by simp
next
  case (left rs m)
  then have IH: "0 < m" "m \<le> 2 ^ 64" "length rs = (m + limit - 1) div limit" by simp_all
  from left have "Suc 0 < m" using less_le_trans [of "Suc 0" "Suc limit" m] assms(2) by simp
  then have sp: "split_point m < m" by (intro split_point_less) simp
  have "limit dvd split_point m" using left IH assms(2) by (simp add: pow2_dvd_split_point)
  then obtain q where q: "split_point m = limit * q" by (auto elim: dvdE)
  have "(limit * q + limit - 1) div limit = q"
    using assms(2) by (intro ceil_div_mult) simp
  moreover have "0 < q" using q split_point_pos [of m] by (metis gr0I less_irrefl mult_0_right)
  ultimately show ?case using left IH sp q assms(2) by simp
next
  case (right rs m)
  then have IH: "0 < m" "m \<le> 2 ^ 64" "length rs = (m + limit - 1) div limit" by simp_all
  from right have "Suc 0 < m" using less_le_trans [of "Suc 0" "Suc limit" m] assms(2) by simp
  then have sp: "split_point m < m" by (intro split_point_less) simp
  have "limit dvd split_point m" using right IH assms(2) by (simp add: pow2_dvd_split_point)
  then obtain q where q: "split_point m = limit * q" by (auto elim: dvdE)
  have "m + limit - 1 = (m - limit * q + limit - 1) + limit * q" using sp q by simp
  then have "(m + limit - 1) div limit = (m - limit * q + limit - 1) div limit + q"
    using assms(2) by (metis div_mult_self2 add.commute power_eq_0_iff zero_neq_numeral)
  with right IH sp q assms(2) show ?case by simp
qed

lemma range_call_nonempty:
  assumes "range_call limit (roots, n) (roots', n')" and "limit = 2 ^ j"
    and "0 < n" and "n \<le> 2 ^ 64" and "length roots = (n + limit - 1) div limit"
  shows "roots' \<noteq> []"
proof -
  from range_call_length [OF assms] have "0 < n'" and len: "length roots' = (n' + limit - 1) div limit"
    by simp_all
  then have "limit \<le> n' + limit - 1" by simp
  then have "0 < (n' + limit - 1) div limit" using assms(2) by (simp add: div_greater_zero_iff)
  with len show ?thesis by auto
qed

section \<open>Binding\<close>

text \<open>The byte strings a tree hash computation feeds to SHA-256.\<close>

function mth_inputs :: "(bytes \<Rightarrow> bytes) \<Rightarrow> bytes list \<Rightarrow> bytes set" where
  "mth_inputs H leaves =
     (if length leaves = 0 then {[]}
      else if length leaves = 1 then {}
      else let k = split_point (length leaves) in
        insert (1 # mth H (take k leaves) @ mth H (drop k leaves))
          (mth_inputs H (take k leaves) \<union> mth_inputs H (drop k leaves)))"
  by pat_completeness auto
termination
  by (relation "measure (length \<circ> snd)") (auto simp: min_less_iff_disj split_point_less_length)

declare mth_inputs.simps [simp del]

definition record_tree_inputs :: "(bytes \<Rightarrow> bytes) \<Rightarrow> bytes list \<Rightarrow> bytes set" where
  "record_tree_inputs H records =
     (Cons 0) ` set records \<union> mth_inputs H (sort (map (prefixed_hash H 0) records))"

lemma mth_inputs_node:
  "2 \<le> length leaves \<Longrightarrow> mth_inputs H leaves =
     insert (1 # mth H (take (split_point (length leaves)) leaves)
              @ mth H (drop (split_point (length leaves)) leaves))
       (mth_inputs H (take (split_point (length leaves)) leaves)
        \<union> mth_inputs H (drop (split_point (length leaves)) leaves))"
  by (subst mth_inputs.simps) (auto simp: Let_def)

lemma length_mth:
  "(\<And>x. length (H x) = 32) \<Longrightarrow> list_all (\<lambda>l. length l = 32) leaves \<Longrightarrow> length (mth H leaves) = 32"
  by (subst mth.simps) (auto simp: Let_def list_all_iff)

text \<open>
  The root of a tree over leaf hashes is the hash of one of three disjoint kinds of input: the
  empty string, a string that starts with 0 (a leaf), a string that starts with 1 (a node).
\<close>

definition leaf_set :: "(bytes \<Rightarrow> bytes) \<Rightarrow> bytes set \<Rightarrow> bytes list \<Rightarrow> bool" where
  "leaf_set H S leaves \<longleftrightarrow> (\<forall>l \<in> set leaves. \<exists>r. l = H (0 # r) \<and> 0 # r \<in> S)"

lemma leaf_set_sub: "leaf_set H S leaves \<Longrightarrow> leaf_set H S (take k leaves) \<and> leaf_set H S (drop k leaves)"
  by (auto simp: leaf_set_def dest: in_set_takeD in_set_dropD)

lemma mth_preimage:
  assumes "leaf_set H S leaves" and "mth_inputs H leaves \<subseteq> S"
  obtains (empty) "leaves = []" "mth H leaves = H []" "[] \<in> S"
    | (leaf) r where "leaves = [H (0 # r)]" "mth H leaves = H (0 # r)" "0 # r \<in> S"
    | (node) L R where "leaves = L @ R" "L \<noteq> []" "R \<noteq> []" "mth H leaves = H (1 # mth H L @ mth H R)"
        "1 # mth H L @ mth H R \<in> S" "mth_inputs H L \<subseteq> S" "mth_inputs H R \<subseteq> S"
        "leaf_set H S L" "leaf_set H S R"
proof -
  consider "leaves = []" | l where "leaves = [l]" | "2 \<le> length leaves"
    by (cases leaves; cases "tl leaves") auto
  then show thesis
  proof cases
    case 1
    then show ?thesis using assms by (intro empty) (simp_all add: mth_inputs.simps [of H "[]"])
  next
    case (2 l)
    then show ?thesis using assms leaf by (auto simp: leaf_set_def)
  next
    case 3
    let ?k = "split_point (length leaves)"
    have "?k < length leaves" using 3 by (rule split_point_less)
    moreover have "0 < ?k" by simp
    ultimately have "take ?k leaves \<noteq> []" "drop ?k leaves \<noteq> []" using 3 by auto
    with 3 assms leaf_set_sub [OF assms(1), of ?k] show ?thesis
      by (intro node [of "take ?k leaves" "drop ?k leaves"]) (simp_all add: mth_node mth_inputs_node)
  qed
qed

lemma mth_binding:
  assumes inj: "inj_on H S" and len: "\<And>x. length (H x) = 32"
    and "leaf_set H S xs" and "mth_inputs H xs \<subseteq> S"
    and "leaf_set H S ys" and "mth_inputs H ys \<subseteq> S"
    and "mth H xs = mth H ys"
  shows "xs = ys"
  using assms(3-)
proof (induction "length xs" arbitrary: xs ys rule: less_induct)
  case less
  have len_mth: "length (mth H zs) = 32" if "leaf_set H S zs" for zs
    using that by (intro length_mth) (auto simp: len leaf_set_def list_all_iff)
  note eqD = inj_onD [OF inj]
  from less.prems(1,2) show ?case
  proof (cases rule: mth_preimage)
    case empty
    with less.prems(3,4) show ?thesis
      by (cases rule: mth_preimage) (use less.prems(5) in \<open>auto dest: eqD\<close>)
  next
    case (leaf r)
    with less.prems(3,4) show ?thesis
      by (cases rule: mth_preimage) (use less.prems(5) in \<open>auto dest: eqD\<close>)
  next
    case x: (node L R)
    from less.prems(3,4) show ?thesis
    proof (cases rule: mth_preimage)
      case y: (node L' R')
      from x y less.prems(5) have "mth H L @ mth H R = mth H L' @ mth H R'"
        by (auto dest: eqD)
      then have "mth H L = mth H L'" "mth H R = mth H R'"
        using x y by (simp_all add: len_mth)
      then have "L = L'" "R = R'"
        using x y less.hyps [of L L'] less.hyps [of R R'] by simp_all
      with x y show ?thesis by simp
    qed (use x less.prems(5) in \<open>auto dest: eqD\<close>)
  qed
qed

lemma record_tree_binding:
  assumes len: "\<And>x. length (H x) = 32"
    and inj: "inj_on H (record_tree_inputs H xs \<union> record_tree_inputs H ys)"
    and eq: "mr_root (merkle_root_from_records H xs) = mr_root (merkle_root_from_records H ys)"
  shows "mset xs = mset ys"
proof -
  let ?S = "record_tree_inputs H xs \<union> record_tree_inputs H ys"
  let ?h = "prefixed_hash H 0"
  have leaves: "leaf_set H ?S (sort (map ?h zs))" if "Cons 0 ` set zs \<subseteq> ?S" for zs
    using that by (auto simp: leaf_set_def prefixed_hash_def)
  have sub: "Cons 0 ` set xs \<subseteq> ?S" "Cons 0 ` set ys \<subseteq> ?S"
    "mth_inputs H (sort (map ?h xs)) \<subseteq> ?S" "mth_inputs H (sort (map ?h ys)) \<subseteq> ?S"
    by (auto simp: record_tree_inputs_def)
  have "sort (map ?h xs) = sort (map ?h ys)"
  proof (rule mth_binding [OF inj len])
    show "mth H (sort (map ?h xs)) = mth H (sort (map ?h ys))"
      using eq by (simp add: merkle_root_from_records_def Let_def)
  qed (use sub leaves in simp_all)
  then have "image_mset ?h (mset xs) = image_mset ?h (mset ys)"
    by (metis mset_map mset_sort)
  moreover have "inj_on ?h (set xs \<union> set ys)"
  proof (rule inj_onI)
    fix a b
    assume ab: "a \<in> set xs \<union> set ys" "b \<in> set xs \<union> set ys" and eq: "?h a = ?h b"
    from eq have "H (0 # a) = H (0 # b)" by (simp add: prefixed_hash_def)
    then have "0 # a = 0 # b"
      by (rule inj_onD [OF inj]) (use ab in \<open>auto simp: record_tree_inputs_def\<close>)
    then show "a = b" by simp
  qed
  ultimately show ?thesis
    using image_mset_eq_image_mset_plusD [of ?h "mset xs" "mset ys" "{#}"] by auto
qed

section \<open>The version-1 tree\<close>

lemma v1_step: "1 < length level \<Longrightarrow> v1_levels H level = v1_levels H (map (hash_pair H) (chunks 2 level))"
  by (subst v1_levels.simps) simp

lemma v1_duplicate_last:
  assumes "xs \<noteq> []" and "even (length xs)"
  shows "v1_levels H (xs @ [x]) = v1_levels H (xs @ [x, x])"
proof -
  have "chunks 2 (xs @ [x]) = chunks 2 xs @ [[x]]" and "chunks 2 (xs @ [x, x]) = chunks 2 xs @ [[x, x]]"
    using assms(2) by (simp_all add: chunks_append_aligned chunks_short)
  then show ?thesis using assms(1) by (simp add: v1_step hash_pair_def)
qed

section \<open>Properties\<close>

text \<open>C22: The aligned batch roots formed from the leaf hashes of a segment compose back to exactly
  the root of the one Merkle tree over all leaves, for every batch limit the policy admits and
  every non-empty leaf list whose count fits a \<open>u64\<close>; and the number of batch roots is the one
  \<open>compose_batch_roots\<close> expects.\<close>

theorem compose_of_batch_roots_is_segment_root:
  assumes "leaves \<noteq> []" and "length leaves < 2 ^ 64"
    and "validate_batch_record_limit limit = Ok ()"
  shows "Option.bind (batch_roots_from_leaf_hashes H leaves limit)
      (\<lambda>roots. compose_batch_roots H roots (word_of_nat (length leaves)) limit)
    = Some (merkle_root_from_leaf_hashes H leaves)"
proof -
  from assms(3) obtain roots where "batch_roots_from_leaf_hashes H leaves limit = Some roots"
    by (simp add: batch_roots_from_leaf_hashes_def)
  with assms(1,2) show ?thesis
    by (simp add: batch_roots_compose(1) merkle_root_from_leaf_hashes_def)
qed

definition pad_digest :: "bytes \<Rightarrow> bytes" where
  "pad_digest x = take 32 (x @ replicate 32 0)"

theorem compose_of_batch_roots_is_segment_root_witness:
  "Option.bind (batch_roots_from_leaf_hashes pad_digest [[1], [2], [3], [4], [5]] 2)
      (\<lambda>roots. compose_batch_roots pad_digest roots 5 2)
    = Some (merkle_root_from_leaf_hashes pad_digest [[1], [2], [3], [4], [5]])"
proof -
  have "validate_batch_record_limit 2 = Ok ()" by code_simp
  then show ?thesis
    using compose_of_batch_roots_is_segment_root [of "[[1], [2], [3], [4], [5]]" 2 pad_digest] by simp
qed

text \<open>Composition never reads the first root of an empty list: every recursive call made below
  \<open>compose_batch_roots\<close>, once its cardinality check has passed, is on a non-empty list of roots
  (\<open>(roots.len() == 1).then_some(roots[0])\<close> would panic on an empty one).\<close>

lemma compose_batch_roots_never_panics:
  assumes "record_count \<noteq> 0" and "validate_batch_record_limit limit = Ok ()"
    and "length roots = unat (1 + (record_count - 1) div limit)"
    and "range_call (unat limit) (roots, unat record_count) (roots', n')"
  shows "roots' \<noteq> []"
proof -
  from assms(2) obtain j where "unat limit = 2 ^ j" by (auto simp: validate_batch_record_limit_Ok_iff)
  moreover from this have "limit \<noteq> 0" by auto
  moreover have "unat record_count \<le> 2 ^ 64" by (simp add: less_imp_le)
  ultimately show ?thesis
    using assms by (intro range_call_nonempty [OF assms(4)]) (simp_all add: expected_roots unat_gt_0)
qed

text \<open>C23: The commitment to a set of records is exactly a commitment to their multiset: the roots of
  two record lists agree if and only if one list is a reordering of the other, provided SHA-256
  has 32-byte digests and does not collide on the strings these two computations hash (records
  prefixed with 0, nodes prefixed with 1, and the empty string).\<close>

theorem record_root_commits_to_multiset:
  assumes "\<forall>x. length (H x) = 32"
    and "inj_on H (record_tree_inputs H xs \<union> record_tree_inputs H ys)"
  shows "mr_root (merkle_root_from_records H xs) = mr_root (merkle_root_from_records H ys)
    \<longleftrightarrow> mset xs = mset ys"
proof
  assume "mset xs = mset ys"
  then have "mset (map (prefixed_hash H 0) xs) = mset (map (prefixed_hash H 0) ys)" by simp
  then have "sort (map (prefixed_hash H 0) xs) = sort (map (prefixed_hash H 0) ys)"
    by (intro properties_for_sort) simp_all
  then show "mr_root (merkle_root_from_records H xs) = mr_root (merkle_root_from_records H ys)"
    by (simp add: merkle_root_from_records_def)
qed (use assms record_tree_binding in blast)

theorem record_root_commits_to_multiset_witness:
  "mr_root (merkle_root_from_records pad_digest [[7, 1], [7, 2]])
     = mr_root (merkle_root_from_records pad_digest [[7, 2], [7, 1]])"
proof -
  have len: "\<forall>x. length (pad_digest x) = 32" by (auto simp: pad_digest_def min_def)
  have "record_tree_inputs pad_digest [[7, 1], [7, 2]] \<union> record_tree_inputs pad_digest [[7, 2], [7, 1]]
    = set [[0, 7, 1], [0, 7, 2], 1 # pad_digest [0, 7, 1] @ pad_digest [0, 7, 2]]"
    by code_simp
  moreover have "distinct (map pad_digest [[0, 7, 1], [0, 7, 2], 1 # pad_digest [0, 7, 1] @ pad_digest [0, 7, 2]])"
    by code_simp
  ultimately have "inj_on pad_digest (record_tree_inputs pad_digest [[7, 1], [7, 2]]
      \<union> record_tree_inputs pad_digest [[7, 2], [7, 1]])"
    by (simp only: distinct_map)
  then show ?thesis
    using record_root_commits_to_multiset [OF len, of "[[7, 1], [7, 2]]" "[[7, 2], [7, 1]]"] by simp
qed

text \<open>The version-1 tree, which repeats the last hash of an odd level, does not commit to the
  number of leaves: an odd list of at least three sorted leaf hashes has the root of the list with
  its last hash repeated.\<close>

lemma v1_root_ignores_repeated_last_leaf:
  assumes "xs \<noteq> []" and "even (length xs)"
  shows "merkle_root_from_sorted_leaf_hashes H (xs @ [x])
    = merkle_root_from_sorted_leaf_hashes H (xs @ [x, x])"
  using v1_duplicate_last [OF assms] by (simp add: merkle_root_from_sorted_leaf_hashes_def)

end
