(* ===== verification/Vtl_Segment.thy ===== *)
theory Vtl_Segment
  imports Vtl_Cbor Vtl_Merkle
begin

unbundle bit_operations_syntax

text \<open>
  Segment records and their authoritative artifact (\<open>crates/trackone-ledger/src/vtl.rs\<close>): the
  invariant check \<open>validate_detailed\<close>, the canonical encoder, the strict decoder with its error
  categories, the constructors of epoch and successor segments, and the permissive reader that
  only recovers the profile identifier.
\<close>

section \<open>Definitions\<close>

definition COMMITMENT_PROFILE_ID :: string where
  "COMMITMENT_PROFILE_ID = ''c08ade4e-1785-4eb6-9648-b7003d76288d''"

definition ZERO_SHA256 :: bytes where
  "ZERO_SHA256 = replicate 32 0"

record segment_record =
  sr_commitment_profile_id :: string
  sr_ledger_id :: string
  sr_segment_number :: u64
  sr_closure_policy :: closure_policy
  sr_close_reason :: string
  sr_prev_segment_sha256 :: bytes
  sr_record_count :: u64
  sr_batch_roots :: "bytes list"
  sr_segment_root :: bytes

record segment_chain_position =
  scp_ledger_id :: string
  scp_segment_number :: u64
  scp_predecessor_sha256 :: bytes

datatype segment_invariant_error =
    SegmentHexField
  | SegmentIdentityOrClosurePolicy
  | EpochPredecessorNotZero
  | EmptySegment
  | BatchRootCardinality
  | SegmentRootMismatch

definition invariant_code :: "segment_invariant_error \<Rightarrow> string" where
  "invariant_code e = (case e of
       SegmentHexField \<Rightarrow> ''segment-hex-field''
     | SegmentIdentityOrClosurePolicy \<Rightarrow> ''segment-identity-or-closure-policy''
     | EpochPredecessorNotZero \<Rightarrow> ''epoch-predecessor-not-zero''
     | EmptySegment \<Rightarrow> ''empty-segment''
     | BatchRootCardinality \<Rightarrow> ''batch-root-cardinality''
     | SegmentRootMismatch \<Rightarrow> ''segment-root-mismatch'')"

definition invariant_message :: "segment_invariant_error \<Rightarrow> string" where
  "invariant_message e = (case e of
       SegmentHexField \<Rightarrow> ''segment hex field is invalid''
     | SegmentIdentityOrClosurePolicy \<Rightarrow> ''segment identity or closure policy is invalid''
     | EpochPredecessorNotZero \<Rightarrow> ''epoch segment must use zero predecessor''
     | EmptySegment \<Rightarrow> ''empty segment is invalid''
     | BatchRootCardinality \<Rightarrow> ''batch root cardinality is invalid''
     | SegmentRootMismatch \<Rightarrow> ''segment root does not match composed batch roots'')"

definition invariant_from_message :: "string \<Rightarrow> segment_invariant_error option" where
  "invariant_from_message message =
     (if message = ''segment hex field is invalid'' then Some SegmentHexField
      else if message = ''segment identity or closure policy is invalid''
        then Some SegmentIdentityOrClosurePolicy
      else if message = ''epoch segment must use zero predecessor''
        then Some EpochPredecessorNotZero
      else if message = ''empty segment is invalid'' then Some EmptySegment
      else if message = ''batch root cardinality is invalid'' then Some BatchRootCardinality
      else if message = ''segment root does not match composed batch roots''
        then Some SegmentRootMismatch
      else None)"

definition invariant_error :: "segment_decode_error \<Rightarrow> segment_invariant_error option" where
  "invariant_error e = (case e of Invariant message \<Rightarrow> invariant_from_message message | _ \<Rightarrow> None)"

datatype segment_construction_error =
    InvalidPredecessor segment_decode_error
  | SegmentNumberExhausted
  | ConstructionInvariant segment_invariant_error

definition validate_detailed ::
  "(bytes \<Rightarrow> bytes) \<Rightarrow> segment_record \<Rightarrow> (unit, segment_invariant_error) result" where
  "validate_detailed H s =
     (if \<not> valid_hex (sr_ledger_id s) 32 then Err SegmentHexField
      else if sr_commitment_profile_id s \<noteq> COMMITMENT_PROFILE_ID
        \<or> \<not> is_ok (policy_validate (sr_closure_policy s))
        \<or> \<not> valid_close_reason (sr_close_reason s)
      then Err SegmentIdentityOrClosurePolicy
      else if sr_segment_number s = 0 \<and> sr_prev_segment_sha256 s \<noteq> ZERO_SHA256
      then Err EpochPredecessorNotZero
      else if sr_record_count s = 0 then
        (if sr_batch_roots s \<noteq> [] \<or> sr_segment_root s \<noteq> H []
           \<or> cp_empty_mode (sr_closure_policy s) \<noteq> Emit
             \<and> sr_close_reason s \<notin> {''shutdown'', ''recovery''}
         then Err EmptySegment else Ok ())
      else
        let expected_roots =
              1 + (sr_record_count s - 1) div cp_batch_record_limit (sr_closure_policy s) in
        if length (sr_batch_roots s) \<noteq> unat expected_roots then Err BatchRootCardinality
        else if compose_batch_roots H (sr_batch_roots s) (sr_record_count s)
            (cp_batch_record_limit (sr_closure_policy s)) \<noteq> Some (sr_segment_root s)
        then Err SegmentRootMismatch
        else Ok ())"

definition validate :: "(bytes \<Rightarrow> bytes) \<Rightarrow> segment_record \<Rightarrow> (unit, string) result" where
  "validate H s = map_err invariant_message (validate_detailed H s)"

definition encode_optional :: "u64 option \<Rightarrow> bytes" where
  "encode_optional v = (case v of Some v \<Rightarrow> cbor_uint v | None \<Rightarrow> cbor_null)"

definition encode_policy :: "closure_policy \<Rightarrow> bytes" where
  "encode_policy p = cbor_map 6
     (cbor_key ''version'' @ cbor_uint 1
      @ cbor_key ''empty_mode'' @ cbor_text (empty_mode_str (cp_empty_mode p))
      @ cbor_key ''interval_ms'' @ cbor_uint (cp_interval_ms p)
      @ cbor_key ''record_limit'' @ encode_optional (cp_record_limit p)
      @ cbor_key ''size_limit_bytes'' @ encode_optional (cp_size_limit_bytes p)
      @ cbor_key ''batch_record_limit'' @ cbor_uint (cp_batch_record_limit p))"

definition canonical_cbor_bytes ::
  "(bytes \<Rightarrow> bytes) \<Rightarrow> segment_record \<Rightarrow> (bytes, string) result" where
  "canonical_cbor_bytes H s =
     and_then (validate H s) (\<lambda>_.
       Ok (cbor_map 10
         (cbor_key ''version'' @ cbor_uint 1
          @ cbor_key ''ledger_id'' @ cbor_text (sr_ledger_id s)
          @ cbor_key ''batch_roots''
          @ cbor_array (word_of_nat (length (sr_batch_roots s)))
              (concat (map cbor_bytes (sr_batch_roots s)))
          @ cbor_key ''close_reason'' @ cbor_text (sr_close_reason s)
          @ cbor_key ''record_count'' @ cbor_uint (sr_record_count s)
          @ cbor_key ''segment_root'' @ cbor_bytes (sr_segment_root s)
          @ cbor_key ''closure_policy'' @ encode_policy (sr_closure_policy s)
          @ cbor_key ''segment_number'' @ cbor_uint (sr_segment_number s)
          @ cbor_key ''prev_segment_sha256'' @ cbor_bytes (sr_prev_segment_sha256 s)
          @ cbor_key ''commitment_profile_id'' @ cbor_text (sr_commitment_profile_id s))))"

definition segment_sha256 :: "(bytes \<Rightarrow> bytes) \<Rightarrow> segment_record \<Rightarrow> (bytes, string) result" where
  "segment_sha256 H s = and_then (canonical_cbor_bytes H s) (\<lambda>bs. Ok (H bs))"

type_synonym field_map = "(string, cbor_value) btree"

definition into_map :: "cbor_value \<Rightarrow> field_map decode_result" where
  "into_map value = (case value of
       CborMap entries \<Rightarrow> Ok (bt_collect [] entries)
     | _ \<Rightarrow> Err (InvalidField ''segment artifact must be a CBOR map''))"

definition take_field :: "field_map \<Rightarrow> string \<Rightarrow> (cbor_value \<times> field_map) decode_result" where
  "take_field flds name =
     and_then (ok_or (bt_get name flds) (MissingField name)) (\<lambda>v. Ok (v, bt_remove name flds))"

definition take_text :: "field_map \<Rightarrow> string \<Rightarrow> (string \<times> field_map) decode_result" where
  "take_text flds name =
     and_then (take_field flds name) (\<lambda>(v, flds).
       case v of CborText value \<Rightarrow> Ok (value, flds) | _ \<Rightarrow> Err (InvalidField name))"

definition take_uint :: "field_map \<Rightarrow> string \<Rightarrow> (u64 \<times> field_map) decode_result" where
  "take_uint flds name =
     and_then (take_field flds name) (\<lambda>(v, flds).
       case v of CborUint value \<Rightarrow> Ok (value, flds) | _ \<Rightarrow> Err (InvalidField name))"

definition as_sha256 :: "string \<Rightarrow> cbor_value \<Rightarrow> bytes decode_result" where
  "as_sha256 name v = (case v of
       CborBytes value \<Rightarrow> if length value = 32 then Ok value else Err (InvalidField name)
     | _ \<Rightarrow> Err (InvalidField name))"

definition take_sha256 :: "field_map \<Rightarrow> string \<Rightarrow> (bytes \<times> field_map) decode_result" where
  "take_sha256 flds name =
     and_then (take_field flds name) (\<lambda>(v, flds).
     and_then (as_sha256 name v) (\<lambda>value. Ok (value, flds)))"

fun as_sha256_list :: "string \<Rightarrow> cbor_value list \<Rightarrow> bytes list decode_result" where
  "as_sha256_list name [] = Ok []"
| "as_sha256_list name (item # items) =
     and_then (as_sha256 name item) (\<lambda>value.
     and_then (as_sha256_list name items) (\<lambda>values. Ok (value # values)))"

definition take_sha256_array :: "field_map \<Rightarrow> string \<Rightarrow> (bytes list \<times> field_map) decode_result" where
  "take_sha256_array flds name =
     and_then (take_field flds name) (\<lambda>(v, flds).
       case v of
         CborArray items \<Rightarrow> and_then (as_sha256_list name items) (\<lambda>values. Ok (values, flds))
       | _ \<Rightarrow> Err (InvalidField name))"

definition optional_uint :: "field_map \<Rightarrow> string \<Rightarrow> (u64 option \<times> field_map) decode_result" where
  "optional_uint flds name =
     and_then (take_field flds name) (\<lambda>(v, flds).
       case v of
         CborNull \<Rightarrow> Ok (None, flds)
       | CborUint value \<Rightarrow> Ok (Some value, flds)
       | _ \<Rightarrow> Err (InvalidField name))"

definition no_more_fields :: "field_map \<Rightarrow> unit decode_result" where
  "no_more_fields flds = (case flds of [] \<Rightarrow> Ok () | (field, _) # _ \<Rightarrow> Err (UnexpectedField field))"

definition decode_policy :: "cbor_value \<Rightarrow> closure_policy decode_result" where
  "decode_policy value =
     and_then (into_map value) (\<lambda>flds.
     and_then (take_uint flds ''version'') (\<lambda>(version, flds).
     if version \<noteq> 1 then Err (InvalidField ''closure policy version must be 1'') else
     and_then (take_uint flds ''interval_ms'') (\<lambda>(interval_ms, flds).
     and_then (take_uint flds ''batch_record_limit'') (\<lambda>(batch_record_limit, flds).
     and_then (optional_uint flds ''record_limit'') (\<lambda>(record_limit, flds).
     and_then (optional_uint flds ''size_limit_bytes'') (\<lambda>(size_limit_bytes, flds).
     and_then (take_text flds ''empty_mode'') (\<lambda>(mode, flds).
     and_then (if mode = ''emit'' then Ok Emit
         else if mode = ''suppress'' then Ok Suppress
         else Err (InvalidField ''invalid empty_mode'')) (\<lambda>empty_mode.
     and_then (no_more_fields flds) (\<lambda>_.
     let policy = \<lparr>cp_interval_ms = interval_ms, cp_batch_record_limit = batch_record_limit,
           cp_record_limit = record_limit, cp_size_limit_bytes = size_limit_bytes,
           cp_empty_mode = empty_mode\<rparr> in
     and_then (map_err (\<lambda>e. InvalidField (case e of
           PolicyInterval \<Rightarrow> ''closure policy limits must be positive''
         | PolicyBatchRecordLimit \<Rightarrow> ''closure policy limits must be positive''
         | PolicyRecordLimit \<Rightarrow> ''record_limit''
         | PolicySizeLimitBytes \<Rightarrow> ''size_limit_bytes'')) (policy_validate policy)) (\<lambda>_.
       Ok policy))))))))))"

definition decode_segment_record ::
  "(bytes \<Rightarrow> bytes) \<Rightarrow> bytes \<Rightarrow> segment_record decode_result" where
  "decode_segment_record H bs =
     and_then (parse_cbor_value bs 0 0 (for_input bs)) (\<lambda>(value, pos, budget).
     if pos \<noteq> length bs then Err (Malformed ''segment CBOR has trailing bytes'') else
     and_then (into_map value) (\<lambda>flds.
     and_then (take_uint flds ''version'') (\<lambda>(version, flds).
     if version \<noteq> 1 then Err (InvalidField ''segment version must be 1'') else
     and_then (take_text flds ''commitment_profile_id'') (\<lambda>(profile, flds).
     if profile \<noteq> COMMITMENT_PROFILE_ID
     then Err (InvalidField ''unsupported commitment profile'') else
     and_then (take_text flds ''ledger_id'') (\<lambda>(ledger_id, flds).
     and_then (take_uint flds ''segment_number'') (\<lambda>(segment_number, flds).
     and_then (take_field flds ''closure_policy'') (\<lambda>(policy_value, flds).
     and_then (decode_policy policy_value) (\<lambda>closure_policy.
     and_then (take_text flds ''close_reason'') (\<lambda>(close_reason, flds).
     and_then (take_sha256 flds ''prev_segment_sha256'') (\<lambda>(prev_segment_sha256, flds).
     and_then (take_uint flds ''record_count'') (\<lambda>(record_count, flds).
     and_then (take_sha256_array flds ''batch_roots'') (\<lambda>(batch_roots, flds).
     and_then (take_sha256 flds ''segment_root'') (\<lambda>(segment_root, flds).
     and_then (no_more_fields flds) (\<lambda>_.
     let record = \<lparr>sr_commitment_profile_id = profile, sr_ledger_id = ledger_id,
           sr_segment_number = segment_number, sr_closure_policy = closure_policy,
           sr_close_reason = close_reason, sr_prev_segment_sha256 = prev_segment_sha256,
           sr_record_count = record_count, sr_batch_roots = batch_roots,
           sr_segment_root = segment_root\<rparr> in
     and_then (map_err (\<lambda>e. Invariant (invariant_message e)) (validate_detailed H record)) (\<lambda>_.
     and_then (map_err Invariant (canonical_cbor_bytes H record)) (\<lambda>canonical.
       if canonical \<noteq> bs
       then Err (NonCanonical ''segment CBOR does not round-trip canonically'')
       else Ok record))))))))))))))))"

definition new_at_position ::
  "(bytes \<Rightarrow> bytes) \<Rightarrow> segment_chain_position \<Rightarrow> closure_policy \<Rightarrow> string \<Rightarrow> u64 \<Rightarrow> bytes list \<Rightarrow> bytes
     \<Rightarrow> (segment_record, segment_construction_error) result" where
  "new_at_position H position closure_policy close_reason record_count batch_roots segment_root =
     (let segment = \<lparr>sr_commitment_profile_id = COMMITMENT_PROFILE_ID,
            sr_ledger_id = scp_ledger_id position,
            sr_segment_number = scp_segment_number position,
            sr_closure_policy = closure_policy, sr_close_reason = close_reason,
            sr_prev_segment_sha256 = scp_predecessor_sha256 position,
            sr_record_count = record_count, sr_batch_roots = batch_roots,
            sr_segment_root = segment_root\<rparr> in
      and_then (map_err ConstructionInvariant (validate_detailed H segment)) (\<lambda>_. Ok segment))"

definition new_epoch ::
  "(bytes \<Rightarrow> bytes) \<Rightarrow> string \<Rightarrow> closure_policy \<Rightarrow> string \<Rightarrow> u64 \<Rightarrow> bytes list \<Rightarrow> bytes
     \<Rightarrow> (segment_record, segment_construction_error) result" where
  "new_epoch H ledger_id =
     new_at_position H \<lparr>scp_ledger_id = ledger_id, scp_segment_number = 0,
       scp_predecessor_sha256 = ZERO_SHA256\<rparr>"

definition new_successor ::
  "(bytes \<Rightarrow> bytes) \<Rightarrow> bytes \<Rightarrow> closure_policy \<Rightarrow> string \<Rightarrow> u64 \<Rightarrow> bytes list \<Rightarrow> bytes
     \<Rightarrow> (segment_record, segment_construction_error) result" where
  "new_successor H predecessor_bytes closure_policy close_reason record_count batch_roots segment_root =
     and_then (map_err InvalidPredecessor (decode_segment_record H predecessor_bytes)) (\<lambda>predecessor.
     and_then (ok_or (checked_add (sr_segment_number predecessor) 1) SegmentNumberExhausted)
       (\<lambda>segment_number.
     new_at_position H \<lparr>scp_ledger_id = sr_ledger_id predecessor,
         scp_segment_number = segment_number,
         scp_predecessor_sha256 = H predecessor_bytes\<rparr>
       closure_policy close_reason record_count batch_roots segment_root))"

text \<open>The permissive reader of the profile identifier.\<close>

definition get_range :: "bytes \<Rightarrow> nat \<Rightarrow> nat \<Rightarrow> bytes option" where
  "get_range bs i j = (if i \<le> j \<and> j \<le> length bs then Some (subslice bs i j) else None)"

definition read_permissive_head :: "bytes \<Rightarrow> nat \<Rightarrow> ((u8 \<times> u64) \<times> nat) option" where
  "read_permissive_head bs pos =
     Option.bind (byte_at bs pos) (\<lambda>initial.
     let ai = initial AND 0x1f; pos = pos + 1 in
     Option.bind
       (if ai \<le> 23 then Some (ucast ai :: u64)
        else if ai = 24 then map_option ucast (byte_at bs pos)
        else if ai = 25 then
          map_option (\<lambda>part. ucast (from_be_bytes part :: u16)) (get_range bs pos (pos + 2))
        else if ai = 26 then
          map_option (\<lambda>part. ucast (from_be_bytes part :: u32)) (get_range bs pos (pos + 4))
        else if ai = 27 then map_option from_be_bytes (get_range bs pos (pos + 8))
        else None) (\<lambda>argument.
     let width = (if ai \<le> 23 then 0 else if ai = 24 then 1 else if ai = 25 then 2
                  else if ai = 26 then 4 else 8) in
     Some ((drop_bit 5 initial, argument), pos + width)))"

definition read_permissive_text :: "bytes \<Rightarrow> nat \<Rightarrow> (string \<times> nat) option" where
  "read_permissive_text bs pos =
     Option.bind (read_permissive_head bs pos) (\<lambda>((major, len), pos).
     if major \<noteq> 3 then None
     else let end = pos + unat len in
       Option.bind (get_range bs pos end) (\<lambda>raw.
         if utf8_valid raw then Some (bytes_str raw, end) else None))"

function skip_permissive_item :: "bytes \<Rightarrow> nat \<Rightarrow> nat \<Rightarrow> nat option"
  and skip_permissive_items :: "bytes \<Rightarrow> nat \<Rightarrow> nat \<Rightarrow> nat \<Rightarrow> nat option"
where
  "skip_permissive_item bs pos depth =
     (if depth > MAX_CBOR_NESTING_DEPTH then None
      else Option.bind (read_permissive_head bs pos) (\<lambda>((major, len), pos).
        if major = 0 \<or> major = 1 \<or> major = 7 then Some pos
        else if major = 2 \<or> major = 3 then
          (let pos = pos + unat len in if pos \<le> length bs then Some pos else None)
        else if major = 4 then skip_permissive_items bs pos (depth + 1) (unat len)
        else if major = 5 then skip_permissive_items bs pos (depth + 1) (2 * unat len)
        else if major = 6 then skip_permissive_item bs pos (depth + 1)
        else None))"
| "skip_permissive_items bs pos depth 0 = Some pos"
| "skip_permissive_items bs pos depth (Suc n) =
     Option.bind (skip_permissive_item bs pos depth) (\<lambda>pos.
       skip_permissive_items bs pos depth n)"
  by pat_completeness auto
termination
  by (relation "inv_image (less_than <*lex*> less_than)
      (\<lambda>x. case x of
          Inl (bs, pos, depth) \<Rightarrow> (34 - depth, 0)
        | Inr (bs, pos, depth, n) \<Rightarrow> (34 - depth, Suc n))")
    (auto simp: MAX_CBOR_NESTING_DEPTH_def)

declare skip_permissive_item.simps [simp del]

fun extract_text_loop :: "bytes \<Rightarrow> string \<Rightarrow> nat \<Rightarrow> nat \<Rightarrow> string option" where
  "extract_text_loop bs member_name pos 0 = None"
| "extract_text_loop bs member_name pos (Suc n) =
     Option.bind (read_permissive_text bs pos) (\<lambda>(key, pos).
     if key = member_name then map_option fst (read_permissive_text bs pos)
     else Option.bind (skip_permissive_item bs pos 0) (\<lambda>pos.
       extract_text_loop bs member_name pos n))"

definition extract_text_map_member :: "bytes \<Rightarrow> string \<Rightarrow> string option" where
  "extract_text_map_member bs member_name =
     Option.bind (read_permissive_head bs 0) (\<lambda>((major, entries), pos).
     if major \<noteq> 5 then None else extract_text_loop bs member_name pos (unat entries))"

definition decode_segment_profile_id :: "bytes \<Rightarrow> string decode_result" where
  "decode_segment_profile_id bs =
     ok_or (extract_text_map_member bs ''commitment_profile_id'')
       (MissingField ''commitment_profile_id'')"

section \<open>Field maps\<close>

lemma into_map_lookup:
  assumes "into_map (CborMap es) = Ok m"
  shows "bt_get k m = map_of (rev es) k" and "fst ` set m = fst ` set es"
proof -
  have m: "m = bt_collect [] es" using assms by (simp add: into_map_def)
  then show "bt_get k m = map_of (rev es) k" by (simp add: bt_get_def map_of_bt_collect)
  have "dom (map_of m) = dom (map_of (rev es))" by (simp add: m map_of_bt_collect)
  then show "fst ` set m = fst ` set es" by (simp add: dom_map_of_conv_image_fst)
qed

lemma keys_bt_remove [simp]: "fst ` set (bt_remove k m) = fst ` set m - {k}"
  by (auto simp: bt_remove_def)

lemma no_more_fields_Ok_iff: "no_more_fields m = Ok () \<longleftrightarrow> fst ` set m = {}"
  by (cases m) (auto simp: no_more_fields_def)

lemma no_more_fields_removed:
  "fst ` set m \<subseteq> set ks \<Longrightarrow> no_more_fields (fold bt_remove ks m) = Ok ()"
proof -
  have "fst ` set (fold bt_remove ks m) = fst ` set m - set ks" by (induction ks arbitrary: m) auto
  then show "fst ` set m \<subseteq> set ks \<Longrightarrow> no_more_fields (fold bt_remove ks m) = Ok ()"
    by (simp add: no_more_fields_Ok_iff)
qed

lemmas take_defs = take_uint_def take_text_def take_sha256_def take_sha256_array_def
  optional_uint_def take_field_def

lemma as_sha256_list_ok:
  "list_all (\<lambda>r. length r = 32) rs \<Longrightarrow> as_sha256_list name (map CborBytes rs) = Ok rs"
  by (induction rs) (simp_all add: as_sha256_def)

lemma as_sha256_Ok_iff: "as_sha256 name v = Ok x \<longleftrightarrow> v = CborBytes x \<and> length x = 32"
  by (auto simp: as_sha256_def split: cbor_value.splits)

lemma as_sha256_list_Ok:
  "as_sha256_list name vs = Ok rs \<Longrightarrow> list_all (\<lambda>r. length r = 32) rs"
  by (induction vs arbitrary: rs) (auto simp: and_then_Ok_iff as_sha256_Ok_iff)

section \<open>The artifact as a CBOR value\<close>

definition optional_value :: "u64 option \<Rightarrow> cbor_value" where
  "optional_value v = (case v of Some v \<Rightarrow> CborUint v | None \<Rightarrow> CborNull)"

definition policy_value :: "closure_policy \<Rightarrow> cbor_value" where
  "policy_value p = CborMap
     [(''version'', CborUint 1),
      (''empty_mode'', CborText (empty_mode_str (cp_empty_mode p))),
      (''interval_ms'', CborUint (cp_interval_ms p)),
      (''record_limit'', optional_value (cp_record_limit p)),
      (''size_limit_bytes'', optional_value (cp_size_limit_bytes p)),
      (''batch_record_limit'', CborUint (cp_batch_record_limit p))]"

definition segment_value :: "segment_record \<Rightarrow> cbor_value" where
  "segment_value s = CborMap
     [(''version'', CborUint 1),
      (''ledger_id'', CborText (sr_ledger_id s)),
      (''batch_roots'', CborArray (map CborBytes (sr_batch_roots s))),
      (''close_reason'', CborText (sr_close_reason s)),
      (''record_count'', CborUint (sr_record_count s)),
      (''segment_root'', CborBytes (sr_segment_root s)),
      (''closure_policy'', policy_value (sr_closure_policy s)),
      (''segment_number'', CborUint (sr_segment_number s)),
      (''prev_segment_sha256'', CborBytes (sr_prev_segment_sha256 s)),
      (''commitment_profile_id'', CborText (sr_commitment_profile_id s))]"

text \<open>The field types of the Rust structure: hashes are 32-byte arrays.\<close>

definition wf_segment :: "segment_record \<Rightarrow> bool" where
  "wf_segment s \<longleftrightarrow> length (sr_prev_segment_sha256 s) = 32 \<and> length (sr_segment_root s) = 32
     \<and> list_all (\<lambda>r. length r = 32) (sr_batch_roots s)"

lemma enc_optional_value [simp]: "enc_value (optional_value v) = encode_optional v"
  by (cases v) (simp_all add: optional_value_def encode_optional_def)

lemma enc_policy_value [simp]: "enc_value (policy_value p) = encode_policy p"
  by (simp add: policy_value_def encode_policy_def)

lemma canonical_cbor_bytes_Ok_iff:
  "canonical_cbor_bytes H s = Ok bs \<longleftrightarrow> validate_detailed H s = Ok () \<and> bs = enc_value (segment_value s)"
proof -
  have "concat (map enc_value (map CborBytes rs)) = concat (map cbor_bytes rs)" for rs
    by (induction rs) simp_all
  then show ?thesis
    by (auto simp: canonical_cbor_bytes_def validate_def segment_value_def and_then_Ok_iff)
qed

lemma policy_keys:
  "successively key_less [''version'', ''empty_mode'', ''interval_ms'', ''record_limit'',
     ''size_limit_bytes'', ''batch_record_limit'']"
  by code_simp

lemma segment_keys:
  "successively key_less [''version'', ''ledger_id'', ''batch_roots'', ''close_reason'',
     ''record_count'', ''segment_root'', ''closure_policy'', ''segment_number'',
     ''prev_segment_sha256'', ''commitment_profile_id'']"
  by code_simp

lemma text_ok_ascii: "list_all (\<lambda>c. (of_char c :: nat) < 128) s \<Longrightarrow> length s < 2 ^ 64 \<Longrightarrow> text_ok s"
  by (simp add: text_ok_def utf8_valid_ascii)

lemma canonical_optional_value [simp]:
  "canonical_value (optional_value v)" "value_height (optional_value v) = 0"
  by (cases v; simp add: optional_value_def)+

lemma canonical_policy_value [simp]: "canonical_value (policy_value p)" "value_height (policy_value p) = 1"
proof -
  have "text_ok (empty_mode_str m)" for m
    by (cases m) (simp_all add: empty_mode_str_def text_ok_ascii)
  then show "canonical_value (policy_value p)"
    using policy_keys by (simp add: policy_value_def text_ok_ascii del: successively.simps)
qed (simp add: policy_value_def)

lemma decode_policy_value:
  assumes "policy_validate p = Ok ()"
  shows "decode_policy (policy_value p) = Ok p"
proof -
  obtain es where es: "policy_value p = CborMap es" by (simp add: policy_value_def)
  obtain m where m: "into_map (policy_value p) = Ok m" by (simp add: policy_value_def into_map_def)
  note look = into_map_lookup [OF m [unfolded policy_value_def]]
  have mode: "(if empty_mode_str x = ''emit'' then Ok Emit
      else if empty_mode_str x = ''suppress'' then Ok Suppress
      else Err (InvalidField ''invalid empty_mode'')) = Ok x" for x
    by (cases x) (simp_all add: empty_mode_str_def)
  have opt: "(case optional_value v of CborNull \<Rightarrow> Ok (None, f) | CborUint value \<Rightarrow> Ok (Some value, f)
      | _ \<Rightarrow> Err e) = Ok (v, f)" for v :: "u64 option" and f :: field_map and e :: segment_decode_error
    by (cases v) (simp_all add: optional_value_def)
  have fin: "no_more_fields (fold bt_remove [''version'', ''interval_ms'', ''batch_record_limit'',
      ''record_limit'', ''size_limit_bytes'', ''empty_mode''] m) = Ok ()"
    by (rule no_more_fields_removed) (simp add: look(2))
  have p: "\<lparr>cp_interval_ms = cp_interval_ms p, cp_batch_record_limit = cp_batch_record_limit p,
      cp_record_limit = cp_record_limit p, cp_size_limit_bytes = cp_size_limit_bytes p,
      cp_empty_mode = cp_empty_mode p\<rparr> = p" by simp
  show ?thesis
    using assms by (simp add: decode_policy_def m take_defs look mode opt fin [simplified] p Let_def
        cong: and_then_weak_cong)
qed

section \<open>Round trip of the artifact\<close>

lemma validate_detailed_Ok:
  assumes "validate_detailed H s = Ok ()"
  shows "valid_hex (sr_ledger_id s) 32" and "sr_commitment_profile_id s = COMMITMENT_PROFILE_ID"
    and "policy_validate (sr_closure_policy s) = Ok ()" and "valid_close_reason (sr_close_reason s)"
    and "sr_segment_number s = 0 \<Longrightarrow> sr_prev_segment_sha256 s = ZERO_SHA256"
    and "length (sr_batch_roots s) < 2 ^ 64"
  using assms
  by (auto simp: validate_detailed_def is_ok_iff Let_def split: if_splits)

lemma canonical_segment_value:
  assumes v: "validate_detailed H s = Ok ()" and wf: "wf_segment s"
  shows "canonical_value (segment_value s)" and "value_height (segment_value s) \<le> MAX_CBOR_NESTING_DEPTH"
proof -
  note ok = validate_detailed_Ok [OF v]
  have "text_ok (sr_ledger_id s)" "text_ok (sr_close_reason s)" "text_ok COMMITMENT_PROFILE_ID"
    using ok valid_hex_utf8 [OF ok(1)] valid_close_reason_utf8 [OF ok(4)]
    by (auto simp: text_ok_def valid_hex_def valid_close_reason_def COMMITMENT_PROFILE_ID_def
        utf8_valid_ascii)
  moreover have "list_all canonical_value (map CborBytes (sr_batch_roots s))"
    using wf by (auto simp: wf_segment_def list_all_iff)
  ultimately show "canonical_value (segment_value s)"
    using ok wf segment_keys
    by (simp add: segment_value_def text_ok_ascii wf_segment_def del: successively.simps)
  have "fold max (map (Suc \<circ> value_height) (map CborBytes rs)) 0 \<le> 1" for rs
    by (auto simp: fold_max_le)
  then show "value_height (segment_value s) \<le> MAX_CBOR_NESTING_DEPTH"
    by (auto simp: segment_value_def MAX_CBOR_NESTING_DEPTH_def intro: order_trans)
qed

lemma decode_of_encode:
  assumes v: "validate_detailed H s = Ok ()" and wf: "wf_segment s"
  shows "decode_segment_record H (enc_value (segment_value s)) = Ok s"
proof -
  let ?bs = "enc_value (segment_value s)"
  note ok = validate_detailed_Ok [OF v]
  obtain b where p: "parse_cbor_value ?bs 0 0 (for_input ?bs) = Ok (segment_value s, length ?bs, b)"
    using parse_cbor_value_complete [of "segment_value s" 0 0 ?bs "[]" "for_input ?bs"]
      canonical_segment_value [OF v wf] items_le_length [of "segment_value s"]
    by (simp add: for_input_def)
  obtain m where m: "into_map (segment_value s) = Ok m" by (simp add: segment_value_def into_map_def)
  note look = into_map_lookup [OF m [unfolded segment_value_def]]
  have fin: "no_more_fields (fold bt_remove [''version'', ''commitment_profile_id'', ''ledger_id'',
      ''segment_number'', ''closure_policy'', ''close_reason'', ''prev_segment_sha256'',
      ''record_count'', ''batch_roots'', ''segment_root''] m) = Ok ()"
    by (rule no_more_fields_removed) (simp add: look(2))
  have enc: "canonical_cbor_bytes H s = Ok ?bs" using v by (simp add: canonical_cbor_bytes_Ok_iff)
  have s: "\<lparr>sr_commitment_profile_id = COMMITMENT_PROFILE_ID, sr_ledger_id = sr_ledger_id s,
      sr_segment_number = sr_segment_number s, sr_closure_policy = sr_closure_policy s,
      sr_close_reason = sr_close_reason s, sr_prev_segment_sha256 = sr_prev_segment_sha256 s,
      sr_record_count = sr_record_count s, sr_batch_roots = sr_batch_roots s,
      sr_segment_root = sr_segment_root s\<rparr> = s"
    using ok(2) by simp
  show ?thesis
    using wf unfolding decode_segment_record_def p
    by (simp add: m take_defs look ok(2) decode_policy_value [OF ok(3)] as_sha256_def
        as_sha256_list_ok fin [simplified] s v enc wf_segment_def Let_def cong: and_then_weak_cong)
qed

lemma decode_segment_record_Ok:
  assumes "decode_segment_record H bs = Ok s"
  shows "canonical_cbor_bytes H s = Ok bs" and "validate_detailed H s = Ok ()" and "wf_segment s"
proof -
  show enc: "canonical_cbor_bytes H s = Ok bs"
    using assms unfolding decode_segment_record_def
    by (auto simp: and_then_Ok_iff Let_def split: if_splits)
  then show "validate_detailed H s = Ok ()" by (simp add: canonical_cbor_bytes_Ok_iff)
  show "wf_segment s"
    using assms unfolding decode_segment_record_def
    by (auto simp: and_then_Ok_iff Let_def take_sha256_def take_sha256_array_def as_sha256_Ok_iff
        wf_segment_def split: if_splits cbor_value.splits dest: as_sha256_list_Ok)
qed

section \<open>Constructors and chains\<close>

lemma new_at_position_Ok_iff:
  "new_at_position H pos pol reason n roots rt = Ok s \<longleftrightarrow>
     validate_detailed H s = Ok () \<and>
     s = \<lparr>sr_commitment_profile_id = COMMITMENT_PROFILE_ID, sr_ledger_id = scp_ledger_id pos,
       sr_segment_number = scp_segment_number pos, sr_closure_policy = pol,
       sr_close_reason = reason, sr_prev_segment_sha256 = scp_predecessor_sha256 pos,
       sr_record_count = n, sr_batch_roots = roots, sr_segment_root = rt\<rparr>"
  by (auto simp: new_at_position_def Let_def and_then_Ok_iff)

lemma new_successor_Ok:
  assumes "new_successor H pred pol reason n roots rt = Ok s"
  obtains p where "decode_segment_record H pred = Ok p" "validate_detailed H s = Ok ()"
    "unat (sr_segment_number s) = Suc (unat (sr_segment_number p))"
    "sr_ledger_id s = sr_ledger_id p" "sr_prev_segment_sha256 s = H pred"
proof -
  from assms obtain p k where p: "decode_segment_record H pred = Ok p"
    and k: "checked_add (sr_segment_number p) 1 = Some k"
    and s: "new_at_position H \<lparr>scp_ledger_id = sr_ledger_id p, scp_segment_number = k,
      scp_predecessor_sha256 = H pred\<rparr> pol reason n roots rt = Ok s"
    by (auto simp: new_successor_def and_then_Ok_iff ok_or_Ok_iff)
  with unat_checked_add [OF k] show thesis
    by (intro that [of p]) (auto simp: new_at_position_Ok_iff)
qed

text \<open>The artifacts of one ledger, newest first, each written from its constructor's result.  The
  field widths of the Rust structure (\<open>wf_segment\<close>) are part of the typing.\<close>

inductive segment_chain :: "(bytes \<Rightarrow> bytes) \<Rightarrow> bytes list \<Rightarrow> bool" for H :: "bytes \<Rightarrow> bytes" where
  epoch: "new_epoch H ledger_id pol reason n roots rt = Ok s \<Longrightarrow> wf_segment s \<Longrightarrow>
    canonical_cbor_bytes H s = Ok bs \<Longrightarrow> segment_chain H [bs]"
| successor: "segment_chain H (pred # older) \<Longrightarrow>
    new_successor H pred pol reason n roots rt = Ok s \<Longrightarrow> wf_segment s \<Longrightarrow>
    canonical_cbor_bytes H s = Ok bs \<Longrightarrow> segment_chain H (bs # pred # older)"

inductive_cases segment_chain_ConsE: "segment_chain H (bs # older)"

lemma decode_canonical_bytes:
  "canonical_cbor_bytes H s = Ok bs \<Longrightarrow> wf_segment s \<Longrightarrow> decode_segment_record H bs = Ok s"
  by (auto simp: canonical_cbor_bytes_Ok_iff decode_of_encode)

text \<open>What a chain says of its newest artifact.\<close>

lemma segment_chain_head:
  assumes "segment_chain H (bs # older)"
  shows "\<exists>s. decode_segment_record H bs = Ok s \<and> unat (sr_segment_number s) = length older
    \<and> (older = [] \<longrightarrow> sr_prev_segment_sha256 s = ZERO_SHA256)
    \<and> (\<forall>pred rest. older = pred # rest \<longrightarrow> sr_prev_segment_sha256 s = H pred
       \<and> (\<exists>p. decode_segment_record H pred = Ok p \<and> sr_ledger_id s = sr_ledger_id p))"
  using assms
proof (induction "bs # older" arbitrary: bs older rule: segment_chain.induct)
  case (epoch ledger_id pol reason n roots rt s bs)
  then have "decode_segment_record H bs = Ok s" by (simp add: decode_canonical_bytes)
  with epoch show ?case by (auto simp: new_epoch_def new_at_position_Ok_iff)
next
  case (successor pred rest pol reason n roots rt s bs)
  then have s: "decode_segment_record H bs = Ok s" by (simp add: decode_canonical_bytes)
  from successor(3) obtain p where p: "decode_segment_record H pred = Ok p"
    "unat (sr_segment_number s) = Suc (unat (sr_segment_number p))"
    "sr_ledger_id s = sr_ledger_id p" "sr_prev_segment_sha256 s = H pred"
    by (rule new_successor_Ok)
  moreover have "unat (sr_segment_number p) = length rest" using successor(2) p(1) by auto
  ultimately show ?case using s by auto
qed

lemma segment_chain_Cons: "segment_chain H (bs # pred # older) \<Longrightarrow> segment_chain H (pred # older)"
  by (auto elim: segment_chain_ConsE)

lemma segment_chain_linked:
  assumes "segment_chain H bss" and "i < length bss"
  shows "\<exists>s. decode_segment_record H (bss ! i) = Ok s
    \<and> unat (sr_segment_number s) = length bss - 1 - i
    \<and> (Suc i = length bss \<longrightarrow> sr_prev_segment_sha256 s = ZERO_SHA256)
    \<and> (Suc i < length bss \<longrightarrow> sr_prev_segment_sha256 s = H (bss ! Suc i)
       \<and> (\<exists>p. decode_segment_record H (bss ! Suc i) = Ok p \<and> sr_ledger_id s = sr_ledger_id p))"
  using assms
proof (induction bss arbitrary: i rule: list.induct)
  case Nil
  then show ?case by simp
next
  case (Cons bs older)
  show ?case
  proof (cases i)
    case 0
    with segment_chain_head [OF Cons.prems(1)] show ?thesis by (cases older) auto
  next
    case (Suc j)
    with Cons.prems obtain pred rest where older: "older = pred # rest" by (cases older) auto
    with Cons.prems(1) have "segment_chain H older" by (auto dest: segment_chain_Cons)
    with Cons.IH [of j] Cons.prems(2) Suc show ?thesis by simp
  qed
qed

lemma segment_chain_unique:
  assumes "segment_chain H (bs # xs)" and "segment_chain H (bs # ys)"
    and "inj_on H (set xs \<union> set ys)"
  shows "xs = ys"
  using assms
proof (induction xs arbitrary: bs ys rule: list.induct)
  case Nil
  with segment_chain_head [OF Nil.prems(1)] segment_chain_head [OF Nil.prems(2)] show ?case by auto
next
  case (Cons x xs)
  obtain s where s: "decode_segment_record H bs = Ok s"
    "unat (sr_segment_number s) = length (x # xs)" "sr_prev_segment_sha256 s = H x"
    using segment_chain_head [OF Cons.prems(1)] by blast
  moreover from s have s': "unat (sr_segment_number s) = length ys"
    "\<forall>pred rest. ys = pred # rest \<longrightarrow> sr_prev_segment_sha256 s = H pred"
    using segment_chain_head [OF Cons.prems(2)] s(1) by auto
  ultimately obtain y zs where ys: "ys = y # zs" by (cases ys) auto
  with s s' have "H x = H y" by simp
  then have "x = y" by (rule inj_onD [OF Cons.prems(3)]) (simp_all add: ys)
  moreover have "xs = zs"
    using Cons.prems ys \<open>x = y\<close>
    by (intro Cons.IH [of x]) (auto dest: segment_chain_Cons intro: inj_on_subset)
  ultimately show ?case using ys by simp
qed

section \<open>The permissive reader agrees with the strict one\<close>

lemma read_permissive_head_strict:
  "read_typed_argument bs pos = Ok r \<Longrightarrow> read_permissive_head bs pos = Some r"
  unfolding read_typed_argument_def read_permissive_head_def read_cbor_argument_def Let_def
  by (auto simp: and_then_Ok_iff ok_or_Ok_iff read_part_Ok_iff get_range_def byte_at_def subslice_Suc
      split: if_splits)

lemma read_permissive_text_strict:
  assumes "parse_cbor_value bs pos depth b = Ok (CborText k, pos', b')"
  shows "read_permissive_text bs pos = Some (k, pos')"
proof -
  from assms obtain major len p x where h: "read_typed_argument bs pos = Ok ((major, len), p)"
    and body: "parse_body bs depth x major len p = Ok (CborText k, pos', b')"
    by (auto simp: parse_cbor_value_eq and_then_Ok_iff split: if_splits)
  from body show ?thesis
    by (cases rule: parse_body_sound)
      (use read_permissive_head_strict [OF h] in
        \<open>auto simp: read_permissive_text_def Let_def read_slice_Ok_iff get_range_def\<close>)
qed

definition skips_at :: "nat \<Rightarrow> bool" where
  "skips_at depth \<longleftrightarrow> (\<forall>bs pos b v pos' b'.
     parse_cbor_value bs pos depth b = Ok (v, pos', b') \<longrightarrow>
     skip_permissive_item bs pos depth = Some pos')"

lemma skips_atD:
  "skips_at depth \<Longrightarrow> parse_cbor_value bs pos depth b = Ok (v, pos', b') \<Longrightarrow>
     skip_permissive_item bs pos depth = Some pos'"
  unfolding skips_at_def by blast

lemma skip_items_strict:
  assumes "skips_at depth" and "parse_items bs pos depth b n = Ok (vs, pos', b')"
  shows "skip_permissive_items bs pos depth n = Some pos'"
  using assms(2)
proof (induction n arbitrary: pos b vs)
  case (Suc n)
  then obtain v p c ws where v: "parse_cbor_value bs pos depth b = Ok (v, p, c)"
    and ws: "parse_items bs p depth c n = Ok (ws, pos', b')"
    by (auto simp: and_then_Ok_iff)
  from skips_atD [OF assms(1) v] Suc.IH [OF ws] show ?case by simp
qed simp

lemma skip_entries_strict:
  assumes "skips_at depth" and "parse_entries bs pos depth b n prev = Ok (es, pos', b')"
  shows "skip_permissive_items bs pos depth (2 * n) = Some pos'"
  using assms(2)
proof (induction n arbitrary: pos b es prev)
  case (Suc n)
  then obtain k p c v q d prev' fs where k: "parse_cbor_value bs pos depth b = Ok (k, p, c)"
    and v: "parse_cbor_value bs p depth c = Ok (v, q, d)"
    and fs: "parse_entries bs q depth d n prev' = Ok (fs, pos', b')"
    by (auto simp: and_then_Ok_iff Let_def split: if_splits cbor_value.splits)
  from skips_atD [OF assms(1) k] skips_atD [OF assms(1) v] Suc.IH [OF fs] show ?case by simp
qed simp

lemma skips_step:
  assumes IH: "skips_at (depth + 1)"
  shows "skips_at depth"
  unfolding skips_at_def
proof (intro allI impI)
  fix bs pos b v pos' b'
  assume "parse_cbor_value bs pos depth b = Ok (v, pos', b')"
  then obtain c major len p where d: "\<not> MAX_CBOR_NESTING_DEPTH < depth"
    and h: "read_typed_argument bs pos = Ok ((major, len), p)"
    and body: "parse_body bs depth c major len p = Ok (v, pos', b')"
    by (auto simp: parse_cbor_value_eq and_then_Ok_iff split: if_splits)
  note ph = read_permissive_head_strict [OF h]
  from body show "skip_permissive_item bs pos depth = Some pos'"
    by (cases rule: parse_body_sound)
      (use d ph skip_items_strict [OF IH] skip_entries_strict [OF IH] in
        \<open>auto simp: skip_permissive_item.simps [of bs pos] read_slice_Ok_iff\<close>)
qed

lemma skips_always: "skips_at depth"
proof (induction "MAX_CBOR_NESTING_DEPTH + 1 - depth" arbitrary: depth)
  case 0
  then show ?case by (simp add: skips_at_def parse_cbor_value_eq)
next
  case (Suc k)
  then have "skips_at (depth + 1)" by simp
  then show ?case by (rule skips_step)
qed

lemma skip_encoded_value:
  assumes "canonical_value v" and "depth + value_height v \<le> MAX_CBOR_NESTING_DEPTH"
    and "drop pos bs = enc_value v @ rest"
  shows "skip_permissive_item bs pos depth = Some (pos + length (enc_value v))"
  by (rule skips_atD [OF skips_always parse_cbor_value_complete [OF assms order_refl]])

lemma read_encoded_text:
  assumes "text_ok k" and "drop pos bs = cbor_text k @ rest"
  shows "read_permissive_text bs pos = Some (k, pos + length (cbor_text k))"
proof -
  have "parse_cbor_value bs pos 0 1 = Ok (CborText k, pos + length (cbor_text k), 0)"
    using parse_cbor_value_complete [of "CborText k" 0 pos bs rest 1] assms by simp
  then show ?thesis by (rule read_permissive_text_strict)
qed

lemma extract_text_encoded:
  assumes "list_all (\<lambda>(k, v). text_ok k \<and> canonical_value v \<and> value_height v \<le> MAX_CBOR_NESTING_DEPTH) es"
    and "drop pos bs = concat (map (\<lambda>(k, v). cbor_key k @ enc_value v) es) @ rest"
    and "map_of es name = Some (CborText txt)"
  shows "extract_text_loop bs name pos (length es) = Some txt"
  using assms
proof (induction es arbitrary: pos)
  case (Cons e es)
  obtain k v where e: "e = (k, v)" by (cases e)
  let ?r = "concat (map (\<lambda>(k, v). cbor_key k @ enc_value v) es) @ rest"
  from Cons.prems(2) e have d: "drop pos bs = cbor_text k @ (enc_value v @ ?r)" by (simp add: cbor_key_def)
  then have k: "read_permissive_text bs pos = Some (k, pos + length (cbor_text k))"
    using Cons.prems(1) e by (intro read_encoded_text) simp_all
  note d2 = drop_eq_append_next [OF d]
  show ?case
  proof (cases "k = name")
    case True
    with Cons.prems e have "v = CborText txt" "text_ok txt" by simp_all
    with d2 k True show ?thesis by (simp add: read_encoded_text)
  next
    case False
    have "skip_permissive_item bs (pos + length (cbor_text k)) 0
        = Some (pos + length (cbor_text k) + length (enc_value v))"
      using Cons.prems e by (intro skip_encoded_value [OF _ _ d2]) simp_all
    moreover have "extract_text_loop bs name (pos + length (cbor_text k) + length (enc_value v))
        (length es) = Some txt"
      using Cons.prems e False by (intro Cons.IH drop_eq_append_next [OF d2]) simp_all
    ultimately show ?thesis using k False by simp
  qed
qed simp

lemma profile_id_of_encoded_segment:
  assumes v: "validate_detailed H s = Ok ()" and wf: "wf_segment s"
  shows "decode_segment_profile_id (enc_value (segment_value s)) = Ok (sr_commitment_profile_id s)"
proof -
  obtain es where es: "segment_value s = CborMap es" by (simp add: segment_value_def)
  let ?bs = "enc_value (CborMap es)" and ?n = "word_of_nat (length es) :: u64"
  let ?body = "concat (map (\<lambda>(k, v). cbor_key k @ enc_value v) es)"
  note c = canonical_segment_value [OF v wf, unfolded es]
  then have len: "unat ?n = length es" by (simp add: unat_u64_of_nat)
  have d: "drop 0 ?bs = put_head 5 ?n @ ?body" by (simp add: cbor_map_def)
  have h: "read_permissive_head ?bs 0 = Some ((5, ?n), 0 + length (put_head 5 ?n))"
    by (intro read_permissive_head_strict read_typed_argument_put_head [OF _ d]) simp
  have member: "map_of es ''commitment_profile_id'' = Some (CborText (sr_commitment_profile_id s))"
    using es by (auto simp: segment_value_def)
  have "\<forall>(k, v) \<in> set es. Suc (value_height v) \<le> MAX_CBOR_NESTING_DEPTH"
    using c(2) by (auto simp: fold_max_le)
  then have "list_all (\<lambda>(k, v). text_ok k \<and> canonical_value v
      \<and> value_height v \<le> MAX_CBOR_NESTING_DEPTH) es"
    using c(1) by (auto simp: list_all_iff)
  moreover have "drop (0 + length (put_head 5 ?n)) ?bs = ?body @ []"
    using drop_eq_append_next [OF d] by simp
  ultimately have "extract_text_loop ?bs ''commitment_profile_id'' (0 + length (put_head 5 ?n)) (length es)
      = Some (sr_commitment_profile_id s)"
    using member by (rule extract_text_encoded)
  with h len show ?thesis
    by (simp add: es decode_segment_profile_id_def extract_text_map_member_def del: enc_value.simps)
qed

lemma invariant_from_message_message [simp]: "invariant_from_message (invariant_message e) = Some e"
  by (cases e) (simp_all add: invariant_from_message_def invariant_message_def)

section \<open>A concrete chain\<close>

definition example_policy :: closure_policy where
  "example_policy = \<lparr>cp_interval_ms = 1000, cp_batch_record_limit = 2, cp_record_limit = None,
     cp_size_limit_bytes = Some 4096, cp_empty_mode = Emit\<rparr>"

definition example_segment :: "u64 \<Rightarrow> bytes \<Rightarrow> segment_record" where
  "example_segment n prev = \<lparr>sr_commitment_profile_id = COMMITMENT_PROFILE_ID,
     sr_ledger_id = ''00112233445566778899aabbccddeeff'', sr_segment_number = n,
     sr_closure_policy = example_policy, sr_close_reason = ''interval'',
     sr_prev_segment_sha256 = prev, sr_record_count = 0, sr_batch_roots = [],
     sr_segment_root = pad_digest []\<rparr>"

definition example_epoch :: bytes where
  "example_epoch = enc_value (segment_value (example_segment 0 ZERO_SHA256))"

definition example_next :: bytes where
  "example_next = enc_value (segment_value (example_segment 1 (pad_digest example_epoch)))"

lemma example_valid:
  "n \<noteq> 0 \<or> prev = ZERO_SHA256 \<Longrightarrow> validate_detailed pad_digest (example_segment n prev) = Ok ()"
proof -
  have "valid_hex ''00112233445566778899aabbccddeeff'' 32" by code_simp
  moreover have "policy_validate example_policy = Ok ()" by code_simp
  ultimately show "n \<noteq> 0 \<or> prev = ZERO_SHA256 \<Longrightarrow> validate_detailed pad_digest (example_segment n prev) = Ok ()"
    by (auto simp: validate_detailed_def example_segment_def valid_close_reason_def example_policy_def)
qed

lemma length_pad_digest [simp]: "length (pad_digest x) = 32"
  by (auto simp: pad_digest_def min_def)

lemma example_wf: "length prev = 32 \<Longrightarrow> wf_segment (example_segment n prev)"
  by (simp add: wf_segment_def example_segment_def)

lemma example_epoch_decodes:
  "decode_segment_record pad_digest example_epoch = Ok (example_segment 0 ZERO_SHA256)"
  unfolding example_epoch_def
  by (intro decode_of_encode example_valid example_wf) (simp_all add: ZERO_SHA256_def)

lemma example_chain: "segment_chain pad_digest [example_next, example_epoch]"
proof (rule segment_chain.successor)
  have v: "validate_detailed pad_digest (example_segment 0 ZERO_SHA256) = Ok ()"
    by (simp add: example_valid)
  then have "new_epoch pad_digest ''00112233445566778899aabbccddeeff'' example_policy ''interval'' 0 []
      (pad_digest []) = Ok (example_segment 0 ZERO_SHA256)"
    by (simp add: new_epoch_def new_at_position_Ok_iff) (simp add: example_segment_def)
  then show "segment_chain pad_digest [example_epoch]"
    by (rule segment_chain.epoch)
      (use v in \<open>simp_all add: example_wf ZERO_SHA256_def canonical_cbor_bytes_Ok_iff example_epoch_def\<close>)
  let ?s = "example_segment 1 (pad_digest example_epoch)"
  have v1: "validate_detailed pad_digest ?s = Ok ()" by (simp add: example_valid)
  have "sr_segment_number (example_segment 0 ZERO_SHA256) = 0"
    "sr_ledger_id (example_segment 0 ZERO_SHA256) = ''00112233445566778899aabbccddeeff''"
    by (simp_all add: example_segment_def)
  then show "new_successor pad_digest example_epoch example_policy ''interval'' 0 [] (pad_digest []) = Ok ?s"
    using v1 by (simp add: new_successor_def example_epoch_decodes checked_add_def new_at_position_Ok_iff)
      (simp add: example_segment_def)
  show "wf_segment ?s" by (simp add: example_wf)
  show "canonical_cbor_bytes pad_digest ?s = Ok example_next"
    using v1 by (simp add: canonical_cbor_bytes_Ok_iff example_next_def)
qed

text \<open>An epoch segment with one record: version 1, an eight-byte device, \<open>fc\<close> and times zero, no device time,
  kind zero, payload zero.\<close>

definition example_record :: bytes where
  "example_record = [0x87, 1, 0x48, 0, 0, 0, 0, 0, 0, 0, 1, 0, 0, 0xf6, 0, 0]"

definition disclosed_segment :: segment_record where
  "disclosed_segment = (example_segment 0 ZERO_SHA256)\<lparr>sr_close_reason := ''manual'', sr_record_count := 1,
     sr_batch_roots := [prefixed_hash pad_digest 0 example_record], sr_segment_root := prefixed_hash pad_digest 0 example_record\<rparr>"

definition disclosed_artifact :: bytes where
  "disclosed_artifact = enc_value (segment_value disclosed_segment)"

lemma disclosed_decodes: "decode_segment_record pad_digest disclosed_artifact = Ok disclosed_segment"
  unfolding disclosed_artifact_def
proof (rule decode_of_encode)
  have "valid_hex ''00112233445566778899aabbccddeeff'' 32" "policy_validate example_policy = Ok ()"
    "is_ok (validate_batch_record_limit 2)" by code_simp+
  then show "validate_detailed pad_digest disclosed_segment = Ok ()"
    by (simp add: validate_detailed_def disclosed_segment_def example_segment_def valid_close_reason_def
        example_policy_def compose_batch_roots_def compose_batch_range.simps)
  show "wf_segment disclosed_segment"
    by (simp add: disclosed_segment_def wf_segment_def example_segment_def ZERO_SHA256_def prefixed_hash_def)
qed

section \<open>Properties\<close>

text \<open>C2: The strict decoder accepts exactly what the encoder writes: an artifact decodes to a
  segment if and only if the segment has the field widths of the Rust structure and encoding it
  succeeds with exactly these bytes.  So no two artifacts decode to one segment, every segment
  that passes validation has an artifact that decodes back to it, and nothing else is accepted.\<close>

theorem decode_accepts_exactly_encoded_segments:
  "decode_segment_record H bs = Ok s \<longleftrightarrow> wf_segment s \<and> canonical_cbor_bytes H s = Ok bs"
  using decode_segment_record_Ok decode_canonical_bytes by blast

text \<open>In every chain of artifacts built by the constructors (newest first), every artifact
  decodes; segment numbers count down to 0 without gaps; the oldest names the zero digest as its
  predecessor, every other one the SHA-256 of the artifact before it; and the ledger identifier
  never changes along the chain.\<close>

lemma chain_is_numbered_and_linked:
  assumes "segment_chain H artifacts" and "i < length artifacts"
  shows "\<exists>s. decode_segment_record H (artifacts ! i) = Ok s
    \<and> unat (sr_segment_number s) = length artifacts - 1 - i
    \<and> (Suc i = length artifacts \<longrightarrow> sr_prev_segment_sha256 s = ZERO_SHA256)
    \<and> (Suc i < length artifacts \<longrightarrow> sr_prev_segment_sha256 s = H (artifacts ! Suc i)
       \<and> (\<exists>p. decode_segment_record H (artifacts ! Suc i) = Ok p \<and> sr_ledger_id s = sr_ledger_id p))"
  using assms by (rule segment_chain_linked)

text \<open>C28: The newest artifact fixes the whole history: two chains that end in the same artifact are
  the same list of artifacts, provided SHA-256 does not collide on the artifacts of the two
  histories.\<close>

theorem newest_artifact_fixes_history:
  assumes "segment_chain H (newest # xs)" and "segment_chain H (newest # ys)"
    and "inj_on H (set xs \<union> set ys)"
  shows "xs = ys"
  using assms by (rule segment_chain_unique)

theorem newest_artifact_fixes_history_witness:
  "segment_chain pad_digest [example_next, example_epoch] \<and> [example_epoch] = [example_epoch]"
  using newest_artifact_fixes_history [OF example_chain example_chain] example_chain by simp

text \<open>On every artifact the strict decoder accepts, the permissive reader reports the profile
  identifier the segment carries.\<close>

lemma profile_id_of_accepted_artifact:
  assumes "decode_segment_record H bs = Ok s"
  shows "decode_segment_profile_id bs = Ok (sr_commitment_profile_id s)"
proof -
  note ok = decode_segment_record_Ok [OF assms]
  then have "bs = enc_value (segment_value s)" by (simp add: canonical_cbor_bytes_Ok_iff)
  with ok show ?thesis by (simp add: profile_id_of_encoded_segment)
qed

end
