(* ===== verification/Rust_Std.thy ===== *)
theory Rust_Std
  imports Trackone_Prelude
begin

text \<open>
  More of the Rust standard library: paths of a POSIX target (\<open>std::path\<close>), splitting and trimming of
  text.  A path is its string; where the code compares or resolves paths it is the list of its
  components, since two paths are equal when their components are.
\<close>

section \<open>Text\<close>

fun split_on :: "char \<Rightarrow> string \<Rightarrow> string list" where
  "split_on c [] = [[]]"
| "split_on c (x # xs) =
     (if x = c then [] # split_on c xs
      else (case split_on c xs of [] \<Rightarrow> [[x]] | p # ps \<Rightarrow> (x # p) # ps))"

definition utf8_encode_char :: "nat \<Rightarrow> bytes" where
  "utf8_encode_char c = map word_of_nat
     (if c < 128 then [c]
      else if c < 2048 then [192 + c div 64, 128 + c mod 64]
      else if c < 65536 then [224 + c div 4096, 128 + c div 64 mod 64, 128 + c mod 64]
      else [240 + c div 262144, 128 + c div 4096 mod 64, 128 + c div 64 mod 64, 128 + c mod 64])"

definition trim_list :: "('a \<Rightarrow> bool) \<Rightarrow> 'a list \<Rightarrow> 'a list" where
  "trim_list blank xs = rev (dropWhile blank (rev (dropWhile blank xs)))"

text \<open>\<open>str::trim\<close> of a text given by its UTF-8 bytes.\<close>

definition trim_text :: "bytes \<Rightarrow> bytes option" where
  "trim_text bs = map_option (\<lambda>cs. concat (map utf8_encode_char (trim_list char_is_whitespace cs))) (utf8_decode bs)"

text \<open>\<open>[u8]::trim_ascii\<close>: space, tab, line feed, form feed, carriage return.\<close>

definition is_ascii_whitespace :: "byte \<Rightarrow> bool" where
  "is_ascii_whitespace b \<longleftrightarrow> b \<in> {0x20, 0x09, 0x0A, 0x0C, 0x0D}"

definition trim_ascii :: "bytes \<Rightarrow> bytes" where
  "trim_ascii bs = trim_list is_ascii_whitespace bs"

section \<open>Paths\<close>

text \<open>\<open>Path::components\<close>: a leading \<open>.\<close> is kept, other empty and \<open>.\<close> parts are dropped.\<close>

datatype path_component = RootDir | CurDir | ParentDir | NormalPart string

definition part_components :: "string \<Rightarrow> path_component list" where
  "part_components part =
     (if part = [] \<or> part = ''.'' then [] else if part = ''..'' then [ParentDir] else [NormalPart part])"

definition is_absolute :: "string \<Rightarrow> bool" where
  "is_absolute path \<longleftrightarrow> take 1 path = ''/''"

definition path_components :: "string \<Rightarrow> path_component list" where
  "path_components path =
     (let parts = split_on CHR ''/'' path in
      (if is_absolute path then [RootDir] else if hd parts = ''.'' then [CurDir] else [])
      @ concat (map part_components parts))"

definition is_normal :: "path_component \<Rightarrow> bool" where
  "is_normal c = (case c of NormalPart _ \<Rightarrow> True | _ \<Rightarrow> False)"

text \<open>The reversed path without the trailing slashes and dots that are no components.\<close>

fun strip_trailing :: "string \<Rightarrow> string" where
  "strip_trailing (CHR ''/'' # r) = strip_trailing r"
| "strip_trailing (CHR ''.'' # CHR ''/'' # r) = strip_trailing r"
| "strip_trailing r = r"

definition not_slash :: "char \<Rightarrow> bool" where
  "not_slash c \<longleftrightarrow> c \<noteq> CHR ''/''"

text \<open>\<open>Path::file_name\<close>, and what stands before it.\<close>

definition file_name :: "string \<Rightarrow> string option" where
  "file_name path = (let name = rev (takeWhile not_slash (strip_trailing (rev path))) in
     if name \<in> {[], ''.'', ''..''} then None else Some name)"

definition before_file_name :: "string \<Rightarrow> string" where
  "before_file_name path = rev (dropWhile not_slash (strip_trailing (rev path)))"

text \<open>The file name split at its last dot: \<open>Path::file_stem\<close> and \<open>Path::extension\<close>.\<close>

definition not_dot :: "char \<Rightarrow> bool" where
  "not_dot c \<longleftrightarrow> c \<noteq> CHR ''.''"

definition stem_and_extension :: "string \<Rightarrow> string \<times> string option" where
  "stem_and_extension name =
     (let after = rev (takeWhile not_dot (rev name)); before = dropWhile not_dot (rev name) in
      if before = [] \<or> before = ''.'' then (name, None) else (rev (tl before), Some after))"

definition file_stem :: "string \<Rightarrow> string option" where
  "file_stem path = map_option (\<lambda>name. fst (stem_and_extension name)) (file_name path)"

definition extension :: "string \<Rightarrow> string option" where
  "extension path = Option.bind (file_name path) (\<lambda>name. snd (stem_and_extension name))"

text \<open>\<open>PathBuf::set_extension("")\<close>: the path is cut at the end of its stem.\<close>

definition without_extension :: "string \<Rightarrow> string" where
  "without_extension path = (case file_stem path of None \<Rightarrow> path | Some stem \<Rightarrow> before_file_name path @ stem)"

definition path_join :: "string \<Rightarrow> string \<Rightarrow> string" where
  "path_join dir name =
     (if is_absolute name then name
      else if dir = [] \<or> last dir = CHR ''/'' then dir @ name
      else dir @ ''/'' @ name)"

section \<open>Errors and durations\<close>

datatype io_error = NotFound | AlreadyExists | OtherIo

text \<open>\<open>Duration\<close>: whole seconds and nanoseconds below one second.\<close>

type_synonym duration = "u64 \<times> u32"

definition nanos :: "duration \<Rightarrow> nat" where
  "nanos d = unat (fst d) * 1000000000 + unat (snd d)"

definition duration_valid :: "duration \<Rightarrow> bool" where
  "duration_valid d \<longleftrightarrow> unat (snd d) < 1000000000"

definition duration_less :: "duration \<Rightarrow> duration \<Rightarrow> bool" where
  "duration_less a b \<longleftrightarrow> fst a < fst b \<or> fst a = fst b \<and> snd a < snd b"

definition duration_checked_add :: "duration \<Rightarrow> duration \<Rightarrow> duration option" where
  "duration_checked_add a b =
     (let total = nanos a + nanos b; secs = total div 1000000000 in
      if secs < 2 ^ 64 then Some (word_of_nat secs, word_of_nat (total mod 1000000000)) else None)"

text \<open>\<open>{:0w}\<close> of a natural number.\<close>

definition show_nat_padded :: "nat \<Rightarrow> nat \<Rightarrow> string" where
  "show_nat_padded width n = replicate (width - length (show_nat n)) CHR ''0'' @ show_nat n"

text \<open>\<open>str::lines\<close>: pieces up to each line feed, without a carriage return before it; nothing after a final one.\<close>

definition strip_cr :: "string \<Rightarrow> string" where
  "strip_cr line = (if line \<noteq> [] \<and> last line = CHR 0x0D then butlast line else line)"

definition text_lines :: "string \<Rightarrow> string list" where
  "text_lines s =
     (let parts = split_on CHR 0x0A s in
      map strip_cr (butlast parts) @ (if last parts = [] then [] else [last parts]))"

section \<open>Padded decimals\<close>

lemma length_show_nat: "n < 10 ^ Suc k \<Longrightarrow> length (show_nat n) \<le> Suc k"
proof (induction k arbitrary: n)
  case 0
  then show ?case by (subst show_nat.simps) simp
next
  case (Suc k)
  then have "n div 10 < 10 ^ Suc k" by (simp add: div_less_iff_less_mult)
  with Suc.IH have "length (show_nat (n div 10)) \<le> Suc k" by blast
  then show ?case by (subst show_nat.simps) simp
qed

lemma padded_digits: "list_all is_ascii_digit (show_nat_padded width n)"
  using show_nat_digits [of n] by (auto simp: show_nat_padded_def list_all_iff is_ascii_digit_def)

lemma padded_length: "n < 10 ^ Suc k \<Longrightarrow> length (show_nat_padded (Suc k) n) = Suc k"
  using length_show_nat [of n k] by (simp add: show_nat_padded_def)

lemma digits_value_zeros: "digits_value (replicate k CHR ''0'' @ s) = digits_value s"
  by (induction k) (simp_all add: digits_value_def digit_value_def)

lemma digits_value_padded: "digits_value (show_nat_padded width n) = n"
  by (simp add: show_nat_padded_def digits_value_zeros)

lemma digit_eq_iff: "is_ascii_digit c \<Longrightarrow> is_ascii_digit d \<Longrightarrow> c = d \<longleftrightarrow> digit_value c = digit_value d"
  by (metis char_of_digit_value)

lemma digits_value_inject:
  "list_all is_ascii_digit s \<Longrightarrow> list_all is_ascii_digit u \<Longrightarrow> length s = length u \<Longrightarrow> digits_value s = digits_value u \<Longrightarrow> s = u"
proof (induction s arbitrary: u rule: rev_induct)
  case (snoc c s)
  then obtain d v where u: "u = v @ [d]" by (metis length_0_conv rev_exhaust snoc_eq_iff_butlast)
  with snoc.prems have d: "is_ascii_digit c" "is_ascii_digit d" "digit_value c < 10" "digit_value d < 10"
    by (auto dest: digit_value_less)
  have "digits_value s * 10 + digit_value c = digits_value v * 10 + digit_value d"
    using snoc.prems(4) by (simp add: u digits_value_snoc)
  with d have "digits_value s = digits_value v \<and> digit_value c = digit_value d" by presburger
  with d snoc u show ?case by (auto simp: digit_eq_iff)
qed simp

lemma digits_value_bound: "list_all is_ascii_digit s \<Longrightarrow> digits_value s < 10 ^ length s"
proof (induction s rule: rev_induct)
  case (snoc c s)
  then have "digits_value s < 10 ^ length s" "digit_value c < 10" by (auto dest: digit_value_less)
  then show ?case by (simp add: digits_value_snoc)
qed (simp add: digits_value_def)

lemma padded_digits_value:
  assumes "list_all is_ascii_digit s" "length s = Suc k"
  shows "show_nat_padded (Suc k) (digits_value s) = s"
proof (rule digits_value_inject)
  show "digits_value (show_nat_padded (Suc k) (digits_value s)) = digits_value s"
    by (simp add: show_nat_padded_def digits_value_zeros)
  show "length (show_nat_padded (Suc k) (digits_value s)) = length s"
    using padded_length [of "digits_value s" k] digits_value_bound [OF assms(1)] assms(2) by simp
qed (use assms padded_digits in auto)

end
