(* ===== verification/Evidence_Bundle.thy ===== *)
theory Evidence_Bundle
  imports Ledger_Json Vtl_Segment Rust_Std
begin

text \<open>
  The evidence verifier (\<open>apps/trackone-evidence/src/vtl.rs\<close> and \<open>vtl/\<close>): producer manifests, portable
  paths, artifact references, chain and disclosure checks, timestamp evaluation, the verification
  result, and the members of a compacted bundle.  The files of a bundle, the JSON reader and writer of
  manifests and the timestamp verifier are parameters; a JSON result is a value of \<open>Ledger_Json\<close>.
\<close>

section \<open>Errors, manifests and policies\<close>

datatype evidence_error =
    EvIo string
  | EvJson string
  | EvLedger string
  | EvInvalid string
  | EvVerificationFailed string
  | EvGit string

definition evidence_error_display :: "evidence_error \<Rightarrow> string" where
  "evidence_error_display e = (case e of
       EvIo err \<Rightarrow> ''io error: '' @ err
     | EvJson err \<Rightarrow> ''json error: '' @ err
     | EvLedger err \<Rightarrow> ''ledger error: '' @ err
     | EvInvalid msg \<Rightarrow> msg
     | EvVerificationFailed msg \<Rightarrow> msg
     | EvGit msg \<Rightarrow> msg)"

type_synonym 'a evidence_result = "('a, evidence_error) result"

record artifact_ref =
  rf_path :: string
  rf_sha256 :: string

record record_batch_opening =
  ob_batch_number :: string
  ob_records :: "artifact_ref list"

record artifacts =
  at_segment_cbor :: artifact_ref
  at_predecessor_segment_cbor :: "artifact_ref option"
  at_record_batches :: "record_batch_opening list option"
  at_tsa_req :: "artifact_ref option"
  at_tsa_tsr :: "artifact_ref option"
  at_extensions :: "(string, artifact_ref) btree"

definition references :: "artifacts \<Rightarrow> bool \<Rightarrow> artifact_ref list" where
  "references a include_extensions =
     [at_segment_cbor a]
     @ (case at_predecessor_segment_cbor a of None \<Rightarrow> [] | Some r \<Rightarrow> [r])
     @ concat (map ob_records (case at_record_batches a of None \<Rightarrow> [] | Some openings \<Rightarrow> openings))
     @ (case at_tsa_req a of None \<Rightarrow> [] | Some r \<Rightarrow> [r])
     @ (case at_tsa_tsr a of None \<Rightarrow> [] | Some r \<Rightarrow> [r])
     @ (if include_extensions then map snd (at_extensions a) else [])"

record producer_tsa_state =
  pt_status :: string

record anchoring =
  an_tsa :: producer_tsa_state

record manifest =
  mf_version :: u8
  mf_ledger_id :: string
  mf_segment_number :: string
  mf_commitment_profile_id :: string
  mf_disclosure_class :: string
  mf_artifacts :: artifacts
  mf_anchoring :: anchoring
  mf_extensions :: "(string, json) btree option"

datatype verification_scope = PublicRecompute | DisclosedBatchRecompute | AnchorOnly

definition scope_str :: "verification_scope \<Rightarrow> string" where
  "scope_str s = (case s of
       PublicRecompute \<Rightarrow> ''public_recompute''
     | DisclosedBatchRecompute \<Rightarrow> ''disclosed_batch_recompute''
     | AnchorOnly \<Rightarrow> ''anchor_only'')"

definition scope_strength :: "verification_scope \<Rightarrow> nat" where
  "scope_strength s = (case s of PublicRecompute \<Rightarrow> 3 | DisclosedBatchRecompute \<Rightarrow> 2 | AnchorOnly \<Rightarrow> 1)"

definition for_disclosure_class :: "string \<Rightarrow> verification_scope" where
  "for_disclosure_class value =
     (if value = ''A'' then PublicRecompute
      else if value = ''B'' then DisclosedBatchRecompute
      else AnchorOnly)"

record verify_policy =
  vp_tsa_ca_file :: "string option"
  vp_tsa_intermediates_file :: "string option"
  vp_tsa_crls_file :: "string option"
  vp_tsa_policy_oid :: "string option"
  vp_tsa_signer_cert_sha256 :: "string option"
  vp_openssl_binary :: string
  vp_max_future_skew :: "u64 \<times> u32"
  vp_verifier_policy_id :: "string option"
  vp_verifier_policy_artifact :: "string option"
  vp_selected_scope :: "verification_scope option"
  vp_selected_batches :: "u64 set"
  vp_require_claimed_scope :: bool

definition default_verify_policy :: verify_policy where
  "default_verify_policy = \<lparr>vp_tsa_ca_file = None, vp_tsa_intermediates_file = None, vp_tsa_crls_file = None,
     vp_tsa_policy_oid = None, vp_tsa_signer_cert_sha256 = None, vp_openssl_binary = ''openssl'',
     vp_max_future_skew = (0, 0), vp_verifier_policy_id = None, vp_verifier_policy_artifact = None,
     vp_selected_scope = None, vp_selected_batches = {}, vp_require_claimed_scope = False\<rparr>"

record policy_fingerprint =
  pf_version :: u8
  pf_tsa_ca_sha256 :: "string option"
  pf_tsa_intermediates_sha256 :: "string option"
  pf_tsa_crls_sha256 :: "string option"
  pf_tsa_policy_oid :: "string option"
  pf_tsa_signer_cert_sha256 :: "string option"
  pf_openssl_binary :: bytes
  pf_max_future_skew_seconds :: u64
  pf_max_future_skew_nanoseconds :: u32
  pf_verifier_policy_artifact_sha256 :: "string option"
  pf_selected_scope :: "string option"
  pf_selected_batches :: "u64 list"
  pf_require_claimed_scope :: bool

section \<open>Files and paths\<close>

text \<open>
  The world outside: opening the bundle directory, opening an artifact beneath it without following
  links, whether a configured path is a file and its contents; the JSON reader and writer, the
  timestamp verifier (which returns the nonce of a verified response) and the JSON text of a policy
  fingerprint.
\<close>

record evidence_env =
  ee_open_root :: "unit evidence_result"
  ee_manifest :: "bytes evidence_result"
  ee_open_beneath :: "string \<Rightarrow> (bytes, string) result"
  ee_is_file :: "string \<Rightarrow> bool"
  ee_read_file :: "string \<Rightarrow> bytes evidence_result"
  ee_manifest_from_json :: "bytes \<Rightarrow> manifest evidence_result"
  ee_manifest_to_json :: "manifest \<Rightarrow> bytes"
  ee_verify_response :: "bytes \<Rightarrow> bytes \<Rightarrow> verify_policy \<Rightarrow> (bytes option, string) result"
  ee_verify_request :: "bytes \<Rightarrow> bytes \<Rightarrow> bytes option \<Rightarrow> (unit, string) result"
  ee_fingerprint_to_json :: "policy_fingerprint \<Rightarrow> bytes"

definition MANIFEST_NAME :: string where "MANIFEST_NAME = ''segment.verify.json''"
definition MAX_ARCHIVE_MEMBER :: nat where "MAX_ARCHIVE_MEMBER = 67108864"

definition parse_uint64 :: "string \<Rightarrow> u64 option" where
  "parse_uint64 value =
     (if value = [] \<or> value \<noteq> ''0'' \<and> (hd value = CHR ''0'' \<or> \<not> list_all is_ascii_digit value) then None
      else if digits_value value < 2 ^ 64 then Some (word_of_nat (digits_value value)) else None)"

definition validate_portable_path :: "string \<Rightarrow> unit evidence_result" where
  "validate_portable_path path =
     (if path = [] \<or> take 1 path = ''/'' \<or> take 1 path = [CHR 0x5C] \<or> CHR 0x5C \<in> set path
        \<or> CHR '':'' \<in> set path \<or> list_ex char_is_control (str_chars path)
        \<or> list_ex (\<lambda>part. \<not> is_normal part) (path_components path)
        \<or> list_ex (\<lambda>part. part = [] \<or> part = ''.'' \<or> part = ''..'') (split_on CHR ''/'' path)
      then Err (EvInvalid ''manifest path is not portable'') else Ok ())"

definition read_file_bounded_from :: "bytes \<Rightarrow> nat \<Rightarrow> string \<Rightarrow> bytes evidence_result" where
  "read_file_bounded_from content limit label =
     (if length content > limit then Err (EvInvalid (label @ '' exceeds the configured size limit''))
      else Ok content)"

definition read_manifest :: "evidence_env \<Rightarrow> bytes evidence_result" where
  "read_manifest env = and_then (ee_manifest env) (\<lambda>content.
     read_file_bounded_from content MAX_ARCHIVE_MEMBER ''producer manifest'')"

definition read_file_bounded :: "evidence_env \<Rightarrow> string \<Rightarrow> nat \<Rightarrow> string \<Rightarrow> bytes evidence_result" where
  "read_file_bounded env path limit label =
     and_then (ee_read_file env path) (\<lambda>content. read_file_bounded_from content limit label)"

definition safe_read :: "evidence_env \<Rightarrow> string \<Rightarrow> bytes evidence_result" where
  "safe_read env relative =
     and_then (validate_portable_path relative) (\<lambda>_.
     and_then (ee_open_root env) (\<lambda>_.
     and_then (map_err (\<lambda>error. EvInvalid (''cannot safely open artifact '' @ relative @ '': '' @ error))
       (ee_open_beneath env relative)) (\<lambda>content.
     read_file_bounded_from content MAX_ARCHIVE_MEMBER ''bundle artifact'')))"

definition referenced_artifact ::
  "(bytes \<Rightarrow> bytes) \<Rightarrow> evidence_env \<Rightarrow> artifact_ref \<Rightarrow> bytes evidence_result" where
  "referenced_artifact H env reference =
     (if \<not> valid_hex (rf_sha256 reference) 64
      then Err (EvInvalid ''artifact reference SHA-256 is not lowercase hexadecimal'')
      else
        and_then (safe_read env (rf_path reference)) (\<lambda>content.
        if sha256_hex H content \<noteq> rf_sha256 reference
        then Err (EvVerificationFailed ''artifact reference digest mismatch'')
        else Ok content))"

section \<open>Manifest and policy checks\<close>

definition manifest_lexical :: "manifest \<Rightarrow> bool" where
  "manifest_lexical m \<longleftrightarrow>
     valid_hex (mf_ledger_id m) 32 \<and> parse_uint64 (mf_segment_number m) \<noteq> None
     \<and> mf_commitment_profile_id m \<noteq> [] \<and> mf_disclosure_class m \<in> {''A'', ''B'', ''C''}
     \<and> pt_status (an_tsa (mf_anchoring m)) \<in> {''present'', ''pending'', ''unavailable''}"

definition openings_lexical :: "record_batch_opening list \<Rightarrow> bool" where
  "openings_lexical openings \<longleftrightarrow> openings \<noteq> []
     \<and> list_all (\<lambda>opening. ob_records opening \<noteq> [] \<and> parse_uint64 (ob_batch_number opening) \<noteq> None) openings"

fun validate_references :: "artifact_ref list \<Rightarrow> unit evidence_result" where
  "validate_references [] = Ok ()"
| "validate_references (reference # rest) =
     and_then (validate_portable_path (rf_path reference)) (\<lambda>_.
     if \<not> valid_hex (rf_sha256 reference) 64
     then Err (EvInvalid ''artifact reference SHA-256 is not lowercase hexadecimal'')
     else validate_references rest)"

definition parse_manifest :: "evidence_env \<Rightarrow> bytes \<Rightarrow> manifest evidence_result" where
  "parse_manifest env content =
     and_then (ee_manifest_from_json env content) (\<lambda>m.
     if mf_version m \<noteq> 1 then Err (EvInvalid ''producer manifest version must be 1'')
     else if \<not> manifest_lexical m
     then Err (EvInvalid ''producer manifest violates its baseline lexical contract'')
     else if (case at_record_batches (mf_artifacts m) of None \<Rightarrow> False | Some openings \<Rightarrow> \<not> openings_lexical openings)
     then Err (EvInvalid ''record_batches and records must be non-empty and batch_number must be a uint64'')
     else
       and_then (validate_references (references (mf_artifacts m) True)) (\<lambda>_.
       let status = pt_status (an_tsa (mf_anchoring m)) in
       if status = ''present'' \<and> at_tsa_tsr (mf_artifacts m) = None
       then Err (EvInvalid ''present TSA state requires tsa_tsr'')
       else if status \<in> {''pending'', ''unavailable''} \<and> at_tsa_tsr (mf_artifacts m) \<noteq> None
       then Err (EvInvalid ''non-present TSA state must omit tsa_tsr'')
       else Ok m))"

definition validate_verify_policy :: "evidence_env \<Rightarrow> verify_policy \<Rightarrow> unit evidence_result" where
  "validate_verify_policy env policy =
     (if vp_verifier_policy_id policy = Some []
      then Err (EvInvalid ''verifier policy identifier must not be empty'')
      else if (case vp_verifier_policy_artifact policy of None \<Rightarrow> False | Some path \<Rightarrow> \<not> ee_is_file env path)
      then Err (EvInvalid ''verifier policy artifact is not available for hashing'')
      else if vp_selected_batches policy \<noteq> {} \<and> vp_selected_scope policy \<noteq> Some DisclosedBatchRecompute
      then Err (EvInvalid ''selected batches are valid only for disclosed_batch_recompute'')
      else Ok ())"

definition configured_file_sha256 ::
  "(bytes \<Rightarrow> bytes) \<Rightarrow> evidence_env \<Rightarrow> string option \<Rightarrow> string \<Rightarrow> string option evidence_result" where
  "configured_file_sha256 H env path label =
     (case path of
        None \<Rightarrow> Ok None
      | Some path \<Rightarrow> and_then (read_file_bounded env path MAX_ARCHIVE_MEMBER label) (\<lambda>content.
          Ok (Some (sha256_hex H content))))"

definition effective_verifier_policy_id ::
  "(bytes \<Rightarrow> bytes) \<Rightarrow> evidence_env \<Rightarrow> verify_policy \<Rightarrow> string evidence_result" where
  "effective_verifier_policy_id H env policy =
     (case vp_verifier_policy_id policy of
        Some identifier \<Rightarrow> Ok identifier
      | None \<Rightarrow>
          and_then (configured_file_sha256 H env (vp_tsa_ca_file policy) ''RFC 3161 trust anchors'') (\<lambda>ca.
          and_then (configured_file_sha256 H env (vp_tsa_intermediates_file policy) ''RFC 3161 intermediates'')
            (\<lambda>intermediates.
          and_then (configured_file_sha256 H env (vp_tsa_crls_file policy) ''RFC 3161 CRLs'') (\<lambda>crls.
          and_then (configured_file_sha256 H env (vp_verifier_policy_artifact policy) ''verifier policy artifact'')
            (\<lambda>artifact.
          let fingerprint = \<lparr>pf_version = 1, pf_tsa_ca_sha256 = ca, pf_tsa_intermediates_sha256 = intermediates,
            pf_tsa_crls_sha256 = crls, pf_tsa_policy_oid = vp_tsa_policy_oid policy,
            pf_tsa_signer_cert_sha256 = vp_tsa_signer_cert_sha256 policy,
            pf_openssl_binary = str_bytes (vp_openssl_binary policy),
            pf_max_future_skew_seconds = fst (vp_max_future_skew policy),
            pf_max_future_skew_nanoseconds = snd (vp_max_future_skew policy),
            pf_verifier_policy_artifact_sha256 = artifact,
            pf_selected_scope = map_option scope_str (vp_selected_scope policy),
            pf_selected_batches = sorted_list_of_set (vp_selected_batches policy),
            pf_require_claimed_scope = vp_require_claimed_scope policy\<rparr> in
          Ok (''vtl-policy-sha256-'' @ sha256_hex H (ee_fingerprint_to_json env fingerprint)))))))"

section \<open>Conclusions\<close>

record conclusions =
  cl_failures :: "string set"
  cl_chain_status :: "string option"
  cl_tsa_status :: string
  cl_tsa_reason :: "string option"
  cl_scope :: verification_scope

definition conclusions_new :: "verification_scope \<Rightarrow> conclusions" where
  "conclusions_new scope = \<lparr>cl_failures = {}, cl_chain_status = None, cl_tsa_status = ''missing'',
     cl_tsa_reason = None, cl_scope = scope\<rparr>"

definition fail :: "string \<Rightarrow> conclusions \<Rightarrow> conclusions" where
  "fail reason c = c\<lparr>cl_failures := insert reason (cl_failures c)\<rparr>"

definition overall :: "conclusions \<Rightarrow> string" where
  "overall c = (if cl_failures c \<noteq> {} then ''failure''
     else if cl_tsa_status c = ''pending_claim'' then ''incomplete'' else ''success'')"

section \<open>Chain and disclosure\<close>

definition valid_predecessor :: "(bytes \<Rightarrow> bytes) \<Rightarrow> segment_record \<Rightarrow> bytes \<Rightarrow> bool" where
  "valid_predecessor H segment predecessor_bytes =
     (case decode_segment_record H predecessor_bytes of
        Inl _ \<Rightarrow> False
      | Inr predecessor \<Rightarrow>
          sr_ledger_id predecessor = sr_ledger_id segment
          \<and> sr_commitment_profile_id predecessor = sr_commitment_profile_id segment
          \<and> checked_add (sr_segment_number predecessor) 1 = Some (sr_segment_number segment)
          \<and> H predecessor_bytes = sr_prev_segment_sha256 segment)"

definition validate_chain ::
  "(bytes \<Rightarrow> bytes) \<Rightarrow> evidence_env \<Rightarrow> manifest \<Rightarrow> segment_record \<Rightarrow> conclusions \<Rightarrow> conclusions" where
  "validate_chain H env m segment c =
     (if sr_segment_number segment = 0 then
        (if sr_prev_segment_sha256 segment = ZERO_SHA256 then c\<lparr>cl_chain_status := Some ''epoch''\<rparr>
         else fail ''segment_chain_mismatch'' (c\<lparr>cl_chain_status := Some ''failed''\<rparr>))
      else case at_predecessor_segment_cbor (mf_artifacts m) of
          None \<Rightarrow> c\<lparr>cl_chain_status := Some ''predecessor_not_disclosed''\<rparr>
        | Some reference \<Rightarrow>
            (case referenced_artifact H env reference of
               Inl _ \<Rightarrow> fail ''segment_chain_mismatch'' (c\<lparr>cl_chain_status := Some ''failed''\<rparr>)
             | Inr predecessor_bytes \<Rightarrow>
                 if valid_predecessor H segment predecessor_bytes
                 then c\<lparr>cl_chain_status := Some ''validated''\<rparr>
                 else fail ''segment_chain_mismatch'' (c\<lparr>cl_chain_status := Some ''failed''\<rparr>)))"

definition record_failure :: "segment_decode_error \<Rightarrow> string" where
  "record_failure e = (case e of ResourceLimit _ \<Rightarrow> ''verifier_policy_rejection'' | _ \<Rightarrow> ''invalid_canonical_record'')"

fun opening_leaves ::
  "(bytes \<Rightarrow> bytes) \<Rightarrow> evidence_env \<Rightarrow> artifact_ref list \<Rightarrow> string set \<Rightarrow> (bytes list \<times> string set) evidence_result" where
  "opening_leaves H env [] pending = Ok ([], pending)"
| "opening_leaves H env (reference # rest) pending =
     and_then (referenced_artifact H env reference) (\<lambda>record_cbor.
     let pending = (case validate_canonical_record record_cbor of
           Inl error \<Rightarrow> insert (record_failure error) pending | Inr _ \<Rightarrow> pending) in
     and_then (opening_leaves H env rest pending) (\<lambda>(leaves, pending).
     Ok (H (0 # record_cbor) # leaves, pending)))"

definition expected_opening_count :: "segment_record \<Rightarrow> nat \<Rightarrow> u64 \<Rightarrow> u64 option" where
  "expected_opening_count segment batch_count number =
     (if unat number \<ge> batch_count then None
      else if unat number + 1 = batch_count then
        Option.bind (checked_mul number (cp_batch_record_limit (sr_closure_policy segment)))
          (\<lambda>full_before. checked_sub (sr_record_count segment) full_before)
      else Some (cp_batch_record_limit (sr_closure_policy segment)))"

definition count_is :: "u64 option \<Rightarrow> nat \<Rightarrow> bool" where
  "count_is expected actual = (case expected of None \<Rightarrow> False | Some n \<Rightarrow> unat n = actual)"

type_synonym indexed_opening = "u64 \<times> record_batch_opening"

fun index_openings ::
  "nat \<Rightarrow> record_batch_opening list \<Rightarrow> u64 set \<Rightarrow> indexed_opening list \<Rightarrow> conclusions
     \<Rightarrow> u64 set \<times> indexed_opening list \<times> conclusions" where
  "index_openings batch_count [] numbers indexed c = (numbers, indexed, c)"
| "index_openings batch_count (opening # openings) numbers indexed c =
     (case parse_uint64 (ob_batch_number opening) of
        None \<Rightarrow> index_openings batch_count openings numbers indexed (fail ''insufficient_disclosure'' c)
      | Some number \<Rightarrow>
          if unat number \<ge> batch_count \<or> number \<in> numbers
          then index_openings batch_count openings numbers indexed (fail ''insufficient_disclosure'' c)
          else index_openings batch_count openings (insert number numbers) (indexed @ [(number, opening)]) c)"

definition disclosure_shape :: "manifest \<Rightarrow> segment_record \<Rightarrow> record_batch_opening list \<Rightarrow> u64 set \<Rightarrow> bool" where
  "disclosure_shape m segment openings numbers =
     (let batch_count = length (sr_batch_roots segment); cls = mf_disclosure_class m in
      if cls = ''A'' \<and> sr_record_count segment = 0 then openings = []
      else if cls = ''A'' then length openings = batch_count \<and> card numbers = batch_count
      else if cls = ''B'' then batch_count > 1 \<and> openings \<noteq> [] \<and> length openings < batch_count
      else if cls = ''C'' then openings = []
      else False)"

text \<open>The batches to open: \<open>None\<close> where the disclosure is insufficient for the scope.\<close>

definition consumed_batches ::
  "verify_policy \<Rightarrow> manifest \<Rightarrow> verification_scope \<Rightarrow> nat \<Rightarrow> u64 set \<Rightarrow> u64 set option" where
  "consumed_batches policy m scope batch_count numbers =
     (case scope of
        AnchorOnly \<Rightarrow> Some {}
      | PublicRecompute \<Rightarrow> if mf_disclosure_class m \<noteq> ''A'' then None else Some numbers
      | DisclosedBatchRecompute \<Rightarrow>
          let selected = vp_selected_batches policy in
          if batch_count \<le> 1 \<or> mf_disclosure_class m = ''C'' then None
          else if mf_disclosure_class m = ''A'' then
            (if selected = {} \<or> card selected \<ge> batch_count \<or> \<not> selected \<subseteq> numbers then None else Some selected)
          else if selected \<noteq> {} \<and> selected \<noteq> numbers then None else Some numbers)"

fun open_batches ::
  "(bytes \<Rightarrow> bytes) \<Rightarrow> evidence_env \<Rightarrow> segment_record \<Rightarrow> u64 set \<Rightarrow> indexed_opening list
     \<Rightarrow> (nat \<times> bytes list) list \<Rightarrow> conclusions \<Rightarrow> (nat \<times> bytes list) list \<times> conclusions" where
  "open_batches H env segment consume [] opened c = (opened, c)"
| "open_batches H env segment consume ((number, opening) # rest) opened c =
     (if number \<notin> consume then open_batches H env segment consume rest opened c
      else case opening_leaves H env (ob_records opening) {} of
          Inl (EvVerificationFailed _) \<Rightarrow>
            open_batches H env segment consume rest opened (fail ''commitment_mismatch'' c)
        | Inl _ \<Rightarrow> open_batches H env segment consume rest opened (fail ''insufficient_disclosure'' c)
        | Inr (leaves, pending) \<Rightarrow>
            if \<not> count_is (expected_opening_count segment (length (sr_batch_roots segment)) number) (length leaves)
            then open_batches H env segment consume rest opened (fail ''insufficient_disclosure'' c)
            else
              let c = c\<lparr>cl_failures := cl_failures c \<union> pending\<rparr>;
                  leaves = sort leaves;
                  c = (if merkle_root_from_leaf_hashes H leaves \<noteq> sr_batch_roots segment ! unat number
                    then fail ''commitment_mismatch'' c else c) in
              open_batches H env segment consume rest (opened @ [(unat number, leaves)]) c)"

fun check_adjacent :: "(nat \<times> bytes list) list \<Rightarrow> conclusions \<Rightarrow> conclusions" where
  "check_adjacent ((n, leaves) # (n', leaves') # rest) c =
     check_adjacent ((n', leaves') # rest)
       (if n + 1 = n' \<and> leaves \<noteq> [] \<and> leaves' \<noteq> [] \<and> last leaves > hd leaves'
        then fail ''commitment_mismatch'' c else c)"
| "check_adjacent opened c = c"

definition validate_disclosure ::
  "(bytes \<Rightarrow> bytes) \<Rightarrow> evidence_env \<Rightarrow> manifest \<Rightarrow> segment_record \<Rightarrow> verify_policy \<Rightarrow> conclusions
     \<Rightarrow> bool \<times> conclusions" where
  "validate_disclosure H env m segment policy c =
     (let openings = (case at_record_batches (mf_artifacts m) of None \<Rightarrow> [] | Some os \<Rightarrow> os);
          batch_count = length (sr_batch_roots segment);
          (numbers, indexed, c) = index_openings batch_count openings {} [] c in
      if \<not> disclosure_shape m segment openings numbers
      then (False, fail ''insufficient_disclosure'' c)
      else if list_ex (\<lambda>(number, opening). \<not> count_is (expected_opening_count segment batch_count number)
          (length (ob_records opening))) indexed
      then (False, fail ''insufficient_disclosure'' c)
      else case consumed_batches policy m (cl_scope c) batch_count numbers of
          None \<Rightarrow> (False, fail ''insufficient_disclosure'' c)
        | Some consume \<Rightarrow>
            if cl_scope c = AnchorOnly then (True, c)
            else
              let (opened, c) = open_batches H env segment consume indexed [] c;
                  opened = sort_key fst opened;
                  c = check_adjacent opened c;
                  c = (if cl_scope c = PublicRecompute \<and> sr_record_count segment > 0
                      \<and> merkle_root_from_leaf_hashes H (concat (map snd opened)) \<noteq> sr_segment_root segment
                    then fail ''commitment_mismatch'' c else c)
              in (True, c))"

section \<open>Timestamps\<close>

definition missing_timestamp_policy :: "verify_policy \<Rightarrow> string option" where
  "missing_timestamp_policy policy =
     (if vp_tsa_ca_file policy = None then Some ''RFC 3161 trust anchor is not configured''
      else if vp_tsa_crls_file policy = None then Some ''RFC 3161 historical CRL archive is not configured''
      else if vp_tsa_policy_oid policy = None then Some ''RFC 3161 TSA policy OID is not configured''
      else if vp_tsa_signer_cert_sha256 policy = None then Some ''RFC 3161 signer certificate SHA-256 is not configured''
      else None)"

definition verify_timestamp ::
  "evidence_env \<Rightarrow> bytes \<Rightarrow> bytes \<Rightarrow> verify_policy \<Rightarrow> bytes option evidence_result" where
  "verify_timestamp env response artifact_digest policy =
     (case missing_timestamp_policy policy of
        Some reason \<Rightarrow> Err (EvInvalid reason)
      | None \<Rightarrow> map_err EvInvalid (ee_verify_response env response artifact_digest policy))"

definition tsa_outcome :: "string \<Rightarrow> string \<Rightarrow> conclusions \<Rightarrow> conclusions" where
  "tsa_outcome status reason c = c\<lparr>cl_tsa_status := status, cl_tsa_reason := Some reason\<rparr>"

definition check_timestamp_request ::
  "(bytes \<Rightarrow> bytes) \<Rightarrow> evidence_env \<Rightarrow> manifest \<Rightarrow> bytes \<Rightarrow> bytes option \<Rightarrow> unit evidence_result" where
  "check_timestamp_request H env m artifact_digest nonce =
     (case at_tsa_req (mf_artifacts m) of
        Some reference \<Rightarrow> and_then (referenced_artifact H env reference) (\<lambda>request.
          map_err EvInvalid (ee_verify_request env request artifact_digest nonce))
      | None \<Rightarrow> if nonce \<noteq> None then Err (EvInvalid ''nonce-bearing timestamp response requires tsa_req'')
          else Ok ())"

definition evaluate_tsa ::
  "(bytes \<Rightarrow> bytes) \<Rightarrow> evidence_env \<Rightarrow> manifest \<Rightarrow> bytes \<Rightarrow> verify_policy \<Rightarrow> conclusions \<Rightarrow> conclusions" where
  "evaluate_tsa H env m artifact_digest policy c =
     (let status = pt_status (an_tsa (mf_anchoring m)) in
      if status = ''present'' then
        (case at_tsa_tsr (mf_artifacts m) of
           None \<Rightarrow> fail ''channel_failure'' (tsa_outcome ''missing'' ''timestamp response is absent'' c)
         | Some reference \<Rightarrow>
             (case referenced_artifact H env reference of
                Inl (EvVerificationFailed error) \<Rightarrow>
                  fail ''commitment_mismatch'' (fail ''channel_failure'' (tsa_outcome ''failed'' error c))
              | Inl error \<Rightarrow> fail ''channel_failure'' (tsa_outcome ''missing'' (evidence_error_display error) c)
              | Inr response \<Rightarrow>
                  (case missing_timestamp_policy policy of
                     Some reason \<Rightarrow> fail ''verifier_policy_rejection'' (fail ''channel_failure'' (tsa_outcome ''failed'' reason c))
                   | None \<Rightarrow>
                       (case and_then (verify_timestamp env response artifact_digest policy) (\<lambda>nonce.
                           check_timestamp_request H env m artifact_digest nonce) of
                          Inr _ \<Rightarrow> c\<lparr>cl_tsa_status := ''verified''\<rparr>
                        | Inl error \<Rightarrow> fail ''channel_failure'' (tsa_outcome ''failed'' (evidence_error_display error) c)))))
      else if status = ''pending'' then tsa_outcome ''pending_claim'' ''producer_pending_claim'' c
      else fail ''channel_failure'' (tsa_outcome ''missing'' ''timestamp issuance is unavailable'' c))"

section \<open>Verification\<close>

definition json_object :: "(string \<times> json) list \<Rightarrow> json" where
  "json_object entries = JObject (bt_collect [] entries)"

definition json_option :: "string option \<Rightarrow> json" where
  "json_option v = (case v of None \<Rightarrow> JNull | Some s \<Rightarrow> JString s)"

definition result_value ::
  "(bytes \<Rightarrow> bytes) \<Rightarrow> evidence_env \<Rightarrow> bytes \<Rightarrow> manifest \<Rightarrow> bytes \<Rightarrow> string option \<Rightarrow> verify_policy
     \<Rightarrow> conclusions \<Rightarrow> json evidence_result" where
  "result_value H env manifest_bytes m artifact_bytes profile policy c =
     and_then (effective_verifier_policy_id H env policy) (\<lambda>verifier_policy_id.
     and_then (configured_file_sha256 H env (vp_verifier_policy_artifact policy) ''verifier policy artifact'')
       (\<lambda>policy_sha256.
     Ok (json_object (
       [(''artifact_sha256'', JString (sha256_hex H artifact_bytes)),
        (''manifest_sha256'', JString (sha256_hex H manifest_bytes)),
        (''claimed_disclosure_class'', JString (mf_disclosure_class m)),
        (''verification_scope'', JString (scope_str (cl_scope c))),
        (''channels'', json_object [(''tsa'', json_object (
           (''status'', JString (cl_tsa_status c))
           # (if cl_tsa_status c = ''verified'' then [] else [(''reason'', json_option (cl_tsa_reason c))])))]),
        (''verifier_policy_id'', JString verifier_policy_id),
        (''overall'', JString (overall c))]
       @ (case profile of None \<Rightarrow> [] | Some p \<Rightarrow> [(''commitment_profile_id'', JString p)])
       @ (case cl_chain_status c of None \<Rightarrow> [] | Some s \<Rightarrow> [(''chain_status'', JString s)])
       @ (if cl_failures c = {} then []
          else [(''failure_reasons'', JArray (map JString (sorted_list_of_set (cl_failures c))))])
       @ (case policy_sha256 of None \<Rightarrow> [] | Some s \<Rightarrow> [(''verifier_policy_sha256'', JString s)])))))"

definition is_lowercase_uuid :: "string \<Rightarrow> bool" where
  "is_lowercase_uuid value \<longleftrightarrow> length value = 36
     \<and> list_all (\<lambda>(index, byte). if index \<in> {8, 13, 18, 23} then byte = 0x2D else is_lower_hex byte)
         (enumerate 0 (str_bytes value))"

fun check_extensions :: "(bytes \<Rightarrow> bytes) \<Rightarrow> evidence_env \<Rightarrow> artifact_ref list \<Rightarrow> unit evidence_result" where
  "check_extensions H env [] = Ok ()"
| "check_extensions H env (reference # rest) =
     and_then (referenced_artifact H env reference) (\<lambda>_. check_extensions H env rest)"

definition check_segment ::
  "(bytes \<Rightarrow> bytes) \<Rightarrow> evidence_env \<Rightarrow> manifest \<Rightarrow> verify_policy \<Rightarrow> bytes \<Rightarrow> string option \<Rightarrow> conclusions
     \<Rightarrow> bool \<times> conclusions" where
  "check_segment H env m policy artifact_bytes profile c =
     (case decode_segment_record H artifact_bytes of
        Inr segment \<Rightarrow>
          let matches = (sr_ledger_id segment = mf_ledger_id m
                \<and> show_nat (unat (sr_segment_number segment)) = mf_segment_number m
                \<and> sr_commitment_profile_id segment = mf_commitment_profile_id m);
              c = (if matches then c else fail ''commitment_mismatch'' c);
              c = validate_chain H env m segment c in
          if matches then validate_disclosure H env m segment policy c else (False, c)
      | Inl error \<Rightarrow>
          (False,
           if (case profile of None \<Rightarrow> False | Some value \<Rightarrow> is_lowercase_uuid value \<and> value \<noteq> COMMITMENT_PROFILE_ID)
           then fail ''unsupported_commitment_profile'' c
           else case error of
               ResourceLimit _ \<Rightarrow> fail ''verifier_policy_rejection'' c
             | _ \<Rightarrow> fail ''invalid_segment_artifact'' c))"

definition conclude ::
  "(bytes \<Rightarrow> bytes) \<Rightarrow> evidence_env \<Rightarrow> manifest \<Rightarrow> verify_policy \<Rightarrow> bytes \<Rightarrow> conclusions" where
  "conclude H env m policy artifact_bytes =
     (let claimed_scope = for_disclosure_class (mf_disclosure_class m);
          selected_scope = (case vp_selected_scope policy of None \<Rightarrow> claimed_scope | Some s \<Rightarrow> s);
          downscoped = scope_strength selected_scope < scope_strength claimed_scope;
          profile = (case decode_segment_profile_id artifact_bytes of Inl _ \<Rightarrow> None | Inr p \<Rightarrow> Some p);
          c = conclusions_new selected_scope;
          c = (if sha256_hex H artifact_bytes \<noteq> rf_sha256 (at_segment_cbor (mf_artifacts m))
            then fail ''commitment_mismatch'' c else c);
          c = (if (case profile of None \<Rightarrow> False | Some value \<Rightarrow> value \<noteq> mf_commitment_profile_id m)
            then fail ''commitment_mismatch'' c else c);
          (claimed_scope_supported, c) = check_segment H env m policy artifact_bytes profile c;
          c = (if downscoped \<and> vp_require_claimed_scope policy \<and> claimed_scope_supported
            then fail ''scope_not_exercised'' c else c)
      in evaluate_tsa H env m (H artifact_bytes) policy c)"

definition verify_bundle_with_policy ::
  "(bytes \<Rightarrow> bytes) \<Rightarrow> evidence_env \<Rightarrow> verify_policy \<Rightarrow> json evidence_result" where
  "verify_bundle_with_policy H env policy =
     and_then (validate_verify_policy env policy) (\<lambda>_.
     and_then (read_manifest env) (\<lambda>manifest_bytes.
     and_then (parse_manifest env manifest_bytes) (\<lambda>m.
     and_then (check_extensions H env (map snd (at_extensions (mf_artifacts m)))) (\<lambda>_.
     and_then (safe_read env (rf_path (at_segment_cbor (mf_artifacts m)))) (\<lambda>artifact_bytes.
     result_value H env manifest_bytes m artifact_bytes
       (case decode_segment_profile_id artifact_bytes of Inl _ \<Rightarrow> None | Inr p \<Rightarrow> Some p)
       policy (conclude H env m policy artifact_bytes))))))"

definition verify_bundle :: "(bytes \<Rightarrow> bytes) \<Rightarrow> evidence_env \<Rightarrow> json evidence_result" where
  "verify_bundle H env = verify_bundle_with_policy H env default_verify_policy"

section \<open>Compaction\<close>

definition json_member :: "json \<Rightarrow> string \<Rightarrow> json" where
  "json_member v key = (case v of JObject entries \<Rightarrow> (case bt_get key entries of None \<Rightarrow> JNull | Some x \<Rightarrow> x) | _ \<Rightarrow> JNull)"

fun collect_members ::
  "(bytes \<Rightarrow> bytes) \<Rightarrow> evidence_env \<Rightarrow> artifact_ref list \<Rightarrow> (string, bytes) btree \<Rightarrow> (string, bytes) btree evidence_result" where
  "collect_members H env [] members = Ok members"
| "collect_members H env (reference # rest) members =
     and_then (referenced_artifact H env reference) (\<lambda>content.
     collect_members H env rest (bt_insert (rf_path reference) content members))"

text \<open>\<open>compact_bundle\<close> up to the archive it hands its members to.\<close>

definition compact_bundle ::
  "(bytes \<Rightarrow> bytes) \<Rightarrow> evidence_env \<Rightarrow> verify_policy \<Rightarrow> bool \<Rightarrow> (string, bytes) btree evidence_result" where
  "compact_bundle H env policy include_extensions =
     and_then (verify_bundle_with_policy H env policy) (\<lambda>result.
     if json_member result ''overall'' \<noteq> JString ''success''
     then Err (EvVerificationFailed ''compact requires successful baseline verification'')
     else
       and_then (read_manifest env) (\<lambda>manifest_bytes.
       and_then (parse_manifest env manifest_bytes) (\<lambda>m.
       let m = (if include_extensions then m
             else m\<lparr>mf_artifacts := (mf_artifacts m)\<lparr>at_extensions := []\<rparr>, mf_extensions := None\<rparr>) in
       and_then (collect_members H env (references (mf_artifacts m) include_extensions) []) (\<lambda>members.
       Ok (bt_insert MANIFEST_NAME (ee_manifest_to_json env m) members)))))"

end
