(* ===== verification/Gateway_Snapshot.thy ===== *)
theory Gateway_Snapshot
  imports Evidence_Bundle
begin

text \<open>
  Disclosure snapshots (\<open>apps/trackone-gateway-svc/src/snapshot.rs\<close>): what the exporter reads of the store, what
  it checks, which batches it discloses and the files it prepares.  The queries of its read-only transaction
  and the JSON writer of the manifest are parameters; the references and openings of the manifest are the
  records \<open>artifact_ref\<close> and \<open>record_batch_opening\<close>, which both programs declare alike.
\<close>

section \<open>Classes, errors and material\<close>

datatype disclosure_class = ClassA | ClassB | ClassC

datatype export_error =
    ExInvalid string
  | ExAbsent
  | ExPending
  | ExUnavailable
  | ExDatabase string
  | ExIo string

type_synonym 'a export_result = "('a, export_error) result"

definition disclosure_class_parse :: "string \<Rightarrow> disclosure_class export_result" where
  "disclosure_class_parse v =
     (if v = ''A'' then Ok ClassA else if v = ''B'' then Ok ClassB else if v = ''C'' then Ok ClassC
      else Err (ExInvalid ''class must be A, B, or C''))"

definition disclosure_class_str :: "disclosure_class \<Rightarrow> string" where
  "disclosure_class_str c = (case c of ClassA \<Rightarrow> ''A'' | ClassB \<Rightarrow> ''B'' | ClassC \<Rightarrow> ''C'')"

definition export_error_display :: "export_error \<Rightarrow> string" where
  "export_error_display e = (case e of
       ExInvalid message \<Rightarrow> message
     | ExAbsent \<Rightarrow> ''sealed segment was not found''
     | ExPending \<Rightarrow> ''segment has no usable retained timestamp response; queued export is refused''
     | ExUnavailable \<Rightarrow> ''segment has no usable retained timestamp response; failed export is refused''
     | ExDatabase message \<Rightarrow> ''database snapshot failed: '' @ message
     | ExIo error \<Rightarrow> ''snapshot publication failed: '' @ error)"

definition segment_decode_error_display :: "segment_decode_error \<Rightarrow> string" where
  "segment_decode_error_display e = (case e of
       Malformed message \<Rightarrow> message
     | NonCanonical message \<Rightarrow> message
     | ResourceLimit message \<Rightarrow> message
     | MissingField message \<Rightarrow> message
     | InvalidField message \<Rightarrow> message
     | UnexpectedField field \<Rightarrow> ''unexpected segment field: '' @ field
     | Invariant message \<Rightarrow> message)"

record snapshot_material =
  sm_artifact :: bytes
  sm_artifact_sha256 :: string
  sm_predecessor :: "bytes option"
  sm_records :: "bytes list"
  sm_tsa_response :: bytes

record export_artifacts =
  xa_segment_cbor :: artifact_ref
  xa_predecessor_segment_cbor :: "artifact_ref option"
  xa_record_batches :: "record_batch_opening list option"
  xa_tsa_tsr :: artifact_ref

record export_manifest =
  xm_version :: u8
  xm_ledger_id :: string
  xm_segment_number :: string
  xm_commitment_profile_id :: string
  xm_disclosure_class :: string
  xm_artifacts :: export_artifacts
  xm_tsa_status :: string

record prepared_export =
  px_files :: "(string \<times> bytes) list"

section \<open>Reading the store\<close>

text \<open>The statements of the transaction: start, the segment row (artifact, digest, timestamp status, response),
  its records in order, the artifact of a segment, commit.\<close>

record snapshot_db =
  sd_start :: "(unit, string) result"
  sd_segment :: "string \<Rightarrow> u64 \<Rightarrow> ((bytes \<times> string \<times> string \<times> bytes option) option, string) result"
  sd_records :: "string \<Rightarrow> u64 \<Rightarrow> (bytes list, string) result"
  sd_artifact :: "string \<Rightarrow> u64 \<Rightarrow> (bytes option, string) result"
  sd_commit :: "(unit, string) result"

definition read_predecessor :: "snapshot_db \<Rightarrow> string \<Rightarrow> u64 \<Rightarrow> bytes option export_result" where
  "read_predecessor db ledger_id segment_number =
     (if segment_number = 0 then Ok None
      else
        and_then (map_err ExDatabase (sd_artifact db ledger_id (segment_number - 1))) (\<lambda>row.
        and_then (ok_or row (ExInvalid ''immediate predecessor was not found'')) (\<lambda>artifact. Ok (Some artifact))))"

definition read_material :: "snapshot_db \<Rightarrow> string \<Rightarrow> u64 \<Rightarrow> snapshot_material export_result" where
  "read_material db ledger_id segment_number =
     and_then (map_err ExDatabase (sd_start db)) (\<lambda>_.
     and_then (map_err ExDatabase (sd_segment db ledger_id segment_number)) (\<lambda>row.
     and_then (ok_or row ExAbsent) (\<lambda>(artifact, artifact_sha256, status, response).
     if status \<noteq> ''verified'' \<or> (case response of None \<Rightarrow> True | Some r \<Rightarrow> r = [])
     then Err (if status = ''queued'' then ExPending else ExUnavailable)
     else
       and_then (ok_or response ExUnavailable) (\<lambda>response.
       and_then (map_err ExDatabase (sd_records db ledger_id segment_number)) (\<lambda>records.
       and_then (read_predecessor db ledger_id segment_number) (\<lambda>predecessor.
       and_then (map_err ExDatabase (sd_commit db)) (\<lambda>_.
       Ok \<lparr>sm_artifact = artifact, sm_artifact_sha256 = artifact_sha256, sm_predecessor = predecessor,
         sm_records = records, sm_tsa_response = response\<rparr>)))))))"

section \<open>Checking the material\<close>

fun check_retained_records :: "bytes list \<Rightarrow> unit export_result" where
  "check_retained_records [] = Ok ()"
| "check_retained_records (record # rest) =
     and_then (map_err (\<lambda>error. ExInvalid (''retained canonical record is invalid: '' @ segment_decode_error_display error))
       (validate_canonical_record record)) (\<lambda>_.
     check_retained_records rest)"

definition check_export_predecessor ::
  "(bytes \<Rightarrow> bytes) \<Rightarrow> string \<Rightarrow> u64 \<Rightarrow> segment_record \<Rightarrow> bytes option \<Rightarrow> unit export_result" where
  "check_export_predecessor H ledger_id segment_number segment predecessor =
     (case predecessor of
        None \<Rightarrow> Ok ()
      | Some predecessor \<Rightarrow>
          and_then (map_err (\<lambda>error. ExInvalid (''stored predecessor is invalid: '' @ segment_decode_error_display error))
            (decode_segment_record H predecessor)) (\<lambda>predecessor_record.
          if sr_ledger_id predecessor_record \<noteq> ledger_id
            \<or> checked_add (sr_segment_number predecessor_record) 1 \<noteq> Some segment_number
            \<or> H predecessor \<noteq> sr_prev_segment_sha256 segment
          then Err (ExInvalid ''stored predecessor does not match the sealed artifact chain'')
          else Ok ()))"

definition check_material ::
  "(bytes \<Rightarrow> bytes) \<Rightarrow> string \<Rightarrow> u64 \<Rightarrow> snapshot_material \<Rightarrow> segment_record export_result" where
  "check_material H ledger_id segment_number material =
     (if sha256_hex H (sm_artifact material) \<noteq> sm_artifact_sha256 material
      then Err (ExInvalid ''stored artifact bytes do not match the stored artifact digest'')
      else
        and_then (map_err (\<lambda>error. ExInvalid (''stored segment is invalid: '' @ segment_decode_error_display error))
          (decode_segment_record H (sm_artifact material))) (\<lambda>segment.
        if sr_ledger_id segment \<noteq> ledger_id \<or> sr_segment_number segment \<noteq> segment_number
        then Err (ExInvalid ''stored segment identity does not match the requested segment'')
        else if length (sm_records material) \<noteq> unat (sr_record_count segment)
        then Err (ExInvalid ''retained-record count does not match the sealed artifact'')
        else
          and_then (check_retained_records (sm_records material)) (\<lambda>_.
          let computed = merkle_root_from_records H (sm_records material) in
          and_then (ok_or (batch_roots_from_leaf_hashes H (mr_leaf_hashes computed)
              (cp_batch_record_limit (sr_closure_policy segment)))
            (ExInvalid ''stored batch policy is unsupported'')) (\<lambda>batch_roots.
          if mr_root computed \<noteq> sr_segment_root segment \<or> batch_roots \<noteq> sr_batch_roots segment
          then Err (ExInvalid ''retained records do not reproduce the sealed artifact'')
          else
            and_then (check_export_predecessor H ledger_id segment_number segment (sm_predecessor material)) (\<lambda>_.
            Ok segment)))))"

section \<open>Batches and files\<close>

definition disclosed_batches :: "disclosure_class \<Rightarrow> u64 set \<Rightarrow> nat \<Rightarrow> u64 list export_result" where
  "disclosed_batches cls selected_batches batch_count = (case cls of
       ClassA \<Rightarrow> Ok (map word_of_nat [0..<batch_count])
     | ClassB \<Rightarrow>
         if batch_count \<le> 1 \<or> selected_batches = {} \<or> card selected_batches = batch_count
           \<or> (\<exists>number \<in> selected_batches. unat number \<ge> batch_count)
         then Err (ExInvalid ''class B requires a non-empty proper subset of complete batch numbers'')
         else Ok (sorted_list_of_set selected_batches)
     | ClassC \<Rightarrow> Ok [])"

type_synonym occurrence = "bytes \<times> nat \<times> bytes"

definition ordered_occurrences :: "(bytes \<Rightarrow> bytes) \<Rightarrow> bytes list \<Rightarrow> occurrence list" where
  "ordered_occurrences H records =
     sort_key (\<lambda>(digest, ordinal, _). (digest, ordinal))
       (map (\<lambda>(ordinal, record). (H (0 # record), ordinal, record)) (enumerate 0 records))"

definition occurrence_path :: "u64 \<Rightarrow> nat \<Rightarrow> nat \<Rightarrow> string" where
  "occurrence_path batch_number index ordinal =
     ''records/batch-'' @ show_nat_padded 20 (unat batch_number) @ ''/occurrence-'' @ show_nat_padded 20 index
     @ ''-ordinal-'' @ show_nat_padded 20 ordinal @ ''.cbor''"

definition batch_files :: "u64 \<Rightarrow> occurrence list \<Rightarrow> (string \<times> bytes) list" where
  "batch_files batch_number batch =
     map (\<lambda>(index, _, ordinal, record). (occurrence_path batch_number index ordinal, record)) (enumerate 0 batch)"

definition file_reference :: "(bytes \<Rightarrow> bytes) \<Rightarrow> string \<times> bytes \<Rightarrow> artifact_ref" where
  "file_reference H f = \<lparr>rf_path = fst f, rf_sha256 = sha256_hex H (snd f)\<rparr>"

fun export_batches ::
  "(bytes \<Rightarrow> bytes) \<Rightarrow> nat \<Rightarrow> occurrence list \<Rightarrow> u64 list \<Rightarrow> (string \<times> bytes) list \<Rightarrow> record_batch_opening list
     \<Rightarrow> ((string \<times> bytes) list \<times> record_batch_opening list) export_result" where
  "export_batches H batch_limit ordered [] files openings = Ok (files, openings)"
| "export_batches H batch_limit ordered (batch_number # rest) files openings =
     (let start = unat batch_number * batch_limit in
      if start \<ge> 2 ^ 64 then Err (ExInvalid ''batch offset overflow'')
      else
        let stop = min (start + batch_limit) (length ordered) in
        if start > stop then Err (ExInvalid ''selected batch is incomplete'')
        else
          let batch = subslice ordered start stop;
              members = batch_files batch_number batch in
          export_batches H batch_limit ordered rest (files @ members)
            (openings @ [\<lparr>ob_batch_number = show_nat (unat batch_number), ob_records = map (file_reference H) members\<rparr>]))"

definition snapshot_manifest ::
  "(bytes \<Rightarrow> bytes) \<Rightarrow> string \<Rightarrow> u64 \<Rightarrow> disclosure_class \<Rightarrow> segment_record \<Rightarrow> snapshot_material
     \<Rightarrow> record_batch_opening list \<Rightarrow> export_manifest" where
  "snapshot_manifest H ledger_id segment_number cls segment material openings =
     \<lparr>xm_version = 1, xm_ledger_id = ledger_id, xm_segment_number = show_nat (unat segment_number),
       xm_commitment_profile_id = sr_commitment_profile_id segment,
       xm_disclosure_class = disclosure_class_str cls,
       xm_artifacts = \<lparr>
         xa_segment_cbor = \<lparr>rf_path = ''segment.cbor'', rf_sha256 = sm_artifact_sha256 material\<rparr>,
         xa_predecessor_segment_cbor =
           map_option (\<lambda>content. file_reference H (''predecessor.cbor'', content)) (sm_predecessor material),
         xa_record_batches = (if openings = [] then None else Some openings),
         xa_tsa_tsr = file_reference H (''timestamp.tsr'', sm_tsa_response material)\<rparr>,
       xm_tsa_status = ''present''\<rparr>"

definition prepare_export ::
  "(bytes \<Rightarrow> bytes) \<Rightarrow> (export_manifest \<Rightarrow> (bytes, string) result) \<Rightarrow> string \<Rightarrow> u64 \<Rightarrow> disclosure_class \<Rightarrow> u64 set
     \<Rightarrow> snapshot_material \<Rightarrow> prepared_export export_result" where
  "prepare_export H to_json ledger_id segment_number cls selected_batches material =
     (if cls \<noteq> ClassB \<and> selected_batches \<noteq> {}
      then Err (ExInvalid ''--batch is valid only with disclosure class B'')
      else
        and_then (check_material H ledger_id segment_number material) (\<lambda>segment.
        and_then (disclosed_batches cls selected_batches (length (sr_batch_roots segment))) (\<lambda>disclosed.
        let ordered = ordered_occurrences H (sm_records material);
            batch_limit = unat (cp_batch_record_limit (sr_closure_policy segment)) in
        and_then (export_batches H batch_limit ordered disclosed [(''segment.cbor'', sm_artifact material)] []) (\<lambda>(files, openings).
        let files = files @ (case sm_predecessor material of None \<Rightarrow> [] | Some content \<Rightarrow> [(''predecessor.cbor'', content)]);
            files = files @ [(''timestamp.tsr'', sm_tsa_response material)] in
        and_then (map_err ExInvalid (to_json (snapshot_manifest H ledger_id segment_number cls segment material openings))) (\<lambda>content.
        Ok \<lparr>px_files = files @ [(MANIFEST_NAME, content)]\<rparr>)))))"

definition prepare_snapshot ::
  "(bytes \<Rightarrow> bytes) \<Rightarrow> (export_manifest \<Rightarrow> (bytes, string) result) \<Rightarrow> snapshot_db \<Rightarrow> string \<Rightarrow> u64 \<Rightarrow> disclosure_class
     \<Rightarrow> u64 set \<Rightarrow> prepared_export export_result" where
  "prepare_snapshot H to_json db ledger_id segment_number cls selected_batches =
     and_then (read_material db ledger_id segment_number) (\<lambda>material.
     prepare_export H to_json ledger_id segment_number cls selected_batches material)"

end
