(* ===== verification/Gateway_Producer.thy ===== *)
theory Gateway_Producer
  imports Vtl_Segment Vtl_Record
begin

text \<open>
  The ledger producer of the gateway service (\<open>apps/trackone-gateway-svc/src/producer.rs\<close>): the
  open interval, sealing, admission with idempotency keys, policy updates, shutdown and recovery,
  over a store that commits a whole transition by compare-and-swap.

  The store is a parameter: its operations \<open>load\<close>, \<open>lookup_idempotency\<close> and
  \<open>compare_and_swap\<close> on a store state \<open>'s\<close>.  The locale \<open>ledger_store\<close> states what the trait
  promises; the in-memory store of the source interprets it.  An operation reads the elapsed clock
  once; the reading (the outcome of \<open>now_ms\<close> and the continuity identifier) is an argument.  SHA-256
  is the parameter \<open>H\<close>.  The loop that closes elapsed intervals need not end when an interval is
  zero, so its callers return an option.
\<close>

section \<open>Data\<close>

record open_interval =
  oi_opened_at_ms :: u64
  oi_clock_continuity_id :: "128 word"
  oi_policy :: closure_policy
  oi_records :: "bytes list"
  oi_byte_count :: u64

record producer_state =
  ps_revision :: u64
  ps_active :: bool
  ps_ledger_id :: string
  ps_site_id :: string
  ps_next_segment_number :: u64
  ps_predecessor_cbor :: "bytes option"
  ps_open :: open_interval
  ps_next_policy :: closure_policy

datatype close_reason =
    Recovery | Shutdown | Reconfigure | SizeLimit | RecordLimit | Interval | Manual

definition close_reason_str :: "close_reason \<Rightarrow> string" where
  "close_reason_str r = (case r of
       Recovery \<Rightarrow> ''recovery''
     | Shutdown \<Rightarrow> ''shutdown''
     | Reconfigure \<Rightarrow> ''reconfigure''
     | SizeLimit \<Rightarrow> ''size_limit''
     | RecordLimit \<Rightarrow> ''record_limit''
     | Interval \<Rightarrow> ''interval''
     | Manual \<Rightarrow> ''manual'')"

definition precedence :: "close_reason \<Rightarrow> nat" where
  "precedence r = (case r of
       Recovery \<Rightarrow> 7 | Shutdown \<Rightarrow> 6 | Reconfigure \<Rightarrow> 5 | Manual \<Rightarrow> 4 | SizeLimit \<Rightarrow> 3
     | RecordLimit \<Rightarrow> 2 | Interval \<Rightarrow> 1)"

lemma precedence_inject [simp]: "precedence a = precedence b \<longleftrightarrow> a = b"
  by (cases a; cases b) (simp_all add: precedence_def)

instantiation close_reason :: linorder
begin

definition less_eq_close_reason :: "close_reason \<Rightarrow> close_reason \<Rightarrow> bool" where
  "less_eq_close_reason a b \<longleftrightarrow> precedence a \<le> precedence b"

definition less_close_reason :: "close_reason \<Rightarrow> close_reason \<Rightarrow> bool" where
  "less_close_reason a b \<longleftrightarrow> precedence a < precedence b"

instance
  by standard (auto simp: less_eq_close_reason_def less_close_reason_def)

end

text \<open>\<open>max_by_key\<close> keeps the last of the greatest; precedences differ, so it is the maximum.\<close>

fun highest :: "close_reason list \<Rightarrow> close_reason option" where
  "highest [] = None"
| "highest (r # rs) = Some (case highest rs of None \<Rightarrow> r | Some m \<Rightarrow> max r m)"

record sealed_segment =
  ss_segment_number :: u64
  ss_close_reason :: close_reason
  ss_artifact_cbor :: bytes
  ss_artifact_sha256 :: string
  ss_records :: "bytes list"

datatype record_destination = DestOpen u64 | DestSealed u64 u64

record admitted_record_delta =
  ad_record_cbor :: bytes
  ad_destination :: record_destination

record idempotency_record =
  ir_key :: string
  ir_request_sha256 :: string
  ir_admitted_segment_numbers :: "u64 list"
  ir_state_revision :: u64
  ir_sealed_segment_numbers :: "u64 list"

record ledger_transition =
  lt_previous_open_count :: u64
  lt_admitted_records :: "admitted_record_delta list"
  lt_next_state :: producer_state
  lt_sealed :: "sealed_segment list"
  lt_idempotency :: "idempotency_record option"

record admission_run =
  ar_segment_number :: u64
  ar_record_count :: u64

record admission_outcome =
  ao_state_revision :: u64
  ao_admitted_segment_number :: u64
  ao_admitted_record_count :: u64
  ao_admission_runs :: "admission_run list"
  ao_sealed :: "sealed_segment list"
  ao_sealed_segment_numbers :: "u64 list"
  ao_replayed :: bool

datatype producer_error =
    InvalidConfiguration string
  | InvalidRecord string
  | Clock string
  | ClockDiscontinuity
  | SerialExhausted
  | CounterOverflow string
  | Store string
  | QueueCapacityExhausted
  | StorageCapacityExhausted
  | StorageUnavailable string
  | DatabaseReadOnly
  | TimestampConfiguration string
  | TimestampSubmission string
  | TimestampVerification string
  | TimestampPersistence string
  | ConcurrentWriter
  | IdempotencyConflict
  | Inactive
  | Construction string

type_synonym 'a producer_result = "('a, producer_error) result"

text \<open>The counters of \<open>PipelineEvents\<close> the producer touches; \<open>fetch_add\<close> wraps.\<close>

record pipeline_events =
  ev_sealing_failures :: u64
  ev_recovery_events :: u64
  ev_storage_unavailable :: bool

text \<open>The elapsed clock as one operation reads it.\<close>

record clock_reading =
  cr_now_ms :: "u64 producer_result"
  cr_continuity_id :: "128 word"

record 's ledger_producer =
  lp_store :: 's
  lp_state :: producer_state
  lp_events :: pipeline_events

text \<open>A store: its operations return the result and the store after it.\<close>

record 's store_ops =
  so_load :: "'s \<Rightarrow> producer_state option producer_result"
  so_lookup_idempotency :: "'s \<Rightarrow> string \<Rightarrow> idempotency_record option producer_result"
  so_compare_and_swap :: "'s \<Rightarrow> u64 option \<Rightarrow> ledger_transition \<Rightarrow> unit producer_result \<times> 's"

section \<open>Operations\<close>

definition validate_policy :: "closure_policy \<Rightarrow> unit producer_result" where
  "validate_policy policy =
     map_err (\<lambda>error. InvalidConfiguration (closure_policy_error_str error)) (policy_validate policy)"

text \<open>\<open>Display\<close> of the errors a producer error quotes.\<close>

definition decode_error_display :: "segment_decode_error \<Rightarrow> string" where
  "decode_error_display e = (case e of
       Malformed message \<Rightarrow> message
     | NonCanonical message \<Rightarrow> message
     | ResourceLimit message \<Rightarrow> message
     | MissingField message \<Rightarrow> message
     | InvalidField message \<Rightarrow> message
     | UnexpectedField field \<Rightarrow> ''unexpected segment field: '' @ field
     | Invariant message \<Rightarrow> message)"

definition construction_error_display :: "segment_construction_error \<Rightarrow> string" where
  "construction_error_display e = (case e of
       InvalidPredecessor error \<Rightarrow> ''invalid predecessor segment: '' @ decode_error_display error
     | SegmentNumberExhausted \<Rightarrow> ''segment number is exhausted''
     | ConstructionInvariant error \<Rightarrow> invariant_message error)"

definition construct_segment ::
  "(bytes \<Rightarrow> bytes) \<Rightarrow> producer_state \<Rightarrow> u64 \<Rightarrow> close_reason
     \<Rightarrow> (sealed_segment option \<times> producer_state) producer_result" where
  "construct_segment H state next_opened_at_ms reason =
     (let records = oi_records (ps_open state);
          policy = oi_policy (ps_open state);
          state = state\<lparr>ps_open := (ps_open state)\<lparr>oi_records := [], oi_byte_count := 0,
            oi_policy := ps_next_policy state, oi_opened_at_ms := next_opened_at_ms\<rparr>\<rparr> in
      if records = [] \<and> cp_empty_mode policy = Suppress \<and> reason \<notin> {Shutdown, Recovery}
      then Ok (None, state)
      else if ps_next_segment_number state = - 1 \<and> ps_predecessor_cbor state \<noteq> None
      then Err SerialExhausted
      else
        let merkle = merkle_root_from_records H records in
        and_then (ok_or (batch_roots_from_leaf_hashes H (mr_leaf_hashes merkle)
              (cp_batch_record_limit policy))
            (InvalidConfiguration ''batch_record_limit must be a power of two no greater than 2^63''))
          (\<lambda>batch_roots.
        let record_count = (word_of_nat (length (mr_leaf_hashes merkle)) :: u64) in
        and_then (map_err (\<lambda>error. Construction (construction_error_display error))
            (case ps_predecessor_cbor state of
               Some predecessor \<Rightarrow> new_successor H predecessor policy (close_reason_str reason)
                 record_count batch_roots (mr_root merkle)
             | None \<Rightarrow> new_epoch H (ps_ledger_id state) policy (close_reason_str reason)
                 record_count batch_roots (mr_root merkle)))
          (\<lambda>segment.
        if sr_segment_number segment \<noteq> ps_next_segment_number state then Err ConcurrentWriter
        else
          and_then (map_err Construction (canonical_cbor_bytes H segment)) (\<lambda>artifact_cbor.
          let sealed = \<lparr>ss_segment_number = sr_segment_number segment, ss_close_reason = reason,
                ss_artifact_cbor = artifact_cbor, ss_artifact_sha256 = sha256_hex H artifact_cbor,
                ss_records = records\<rparr> in
          and_then (ok_or (checked_add (ps_next_segment_number state) 1) SerialExhausted) (\<lambda>n.
            Ok (Some sealed, state\<lparr>ps_predecessor_cbor := Some artifact_cbor,
              ps_next_segment_number := n\<rparr>))))))"

definition seal_open ::
  "(bytes \<Rightarrow> bytes) \<Rightarrow> pipeline_events \<Rightarrow> producer_state \<Rightarrow> u64 \<Rightarrow> close_reason
     \<Rightarrow> (sealed_segment option \<times> producer_state) producer_result \<times> pipeline_events" where
  "seal_open H ev state next_opened_at_ms reason =
     (let result = construct_segment H state next_opened_at_ms reason in
      (result, if is_ok result then ev
        else ev\<lparr>ev_sealing_failures := ev_sealing_failures ev + 1\<rparr>))"

definition push_opt :: "'a list \<Rightarrow> 'a option \<Rightarrow> 'a list" where
  "push_opt xs x = (case x of None \<Rightarrow> xs | Some v \<Rightarrow> xs @ [v])"

partial_function (option) close_expired_loop ::
  "(bytes \<Rightarrow> bytes) \<Rightarrow> u64 \<Rightarrow> pipeline_events \<Rightarrow> producer_state \<Rightarrow> sealed_segment list
     \<Rightarrow> ((producer_state \<times> sealed_segment list) producer_result \<times> pipeline_events) option" where
  "close_expired_loop H now ev state sealed =
     (case checked_sub now (oi_opened_at_ms (ps_open state)) of
        None \<Rightarrow> Some (Err ClockDiscontinuity, ev)
      | Some elapsed \<Rightarrow>
          if elapsed < cp_interval_ms (oi_policy (ps_open state)) then Some (Ok (state, sealed), ev)
          else
            (case checked_add (oi_opened_at_ms (ps_open state))
                (cp_interval_ms (oi_policy (ps_open state))) of
               None \<Rightarrow> Some (Err ClockDiscontinuity, ev)
             | Some boundary \<Rightarrow>
                 (case seal_open H ev state boundary Interval of
                    (Inl e, ev) \<Rightarrow> Some (Inl e, ev)
                  | (Inr (segment, state), ev) \<Rightarrow>
                      close_expired_loop H now ev state (push_opt sealed segment))))"

declare close_expired_loop.simps [code]

definition close_expired ::
  "(bytes \<Rightarrow> bytes) \<Rightarrow> pipeline_events \<Rightarrow> producer_state \<Rightarrow> u64
     \<Rightarrow> ((producer_state \<times> sealed_segment list) producer_result \<times> pipeline_events) option" where
  "close_expired H ev state now = close_expired_loop H now ev state []"

definition safe_now :: "producer_state \<Rightarrow> clock_reading \<Rightarrow> u64 producer_result" where
  "safe_now state clock =
     (if \<not> ps_active state then Err Inactive
      else and_then (cr_now_ms clock) (\<lambda>now.
        if oi_clock_continuity_id (ps_open state) \<noteq> cr_continuity_id clock
          \<or> now < oi_opened_at_ms (ps_open state)
        then Err ClockDiscontinuity else Ok now))"

definition readiness_state :: "producer_state \<Rightarrow> clock_reading \<Rightarrow> string" where
  "readiness_state state clock = (case safe_now state clock of
       Inr _ \<Rightarrow> ''ready''
     | Inl Inactive \<Rightarrow> ''inactive''
     | Inl ClockDiscontinuity \<Rightarrow> ''recovery_required''
     | Inl _ \<Rightarrow> ''clock_unavailable'')"

definition commit ::
  "'s store_ops \<Rightarrow> 's ledger_producer \<Rightarrow> producer_state \<Rightarrow> sealed_segment list
     \<Rightarrow> idempotency_record option \<Rightarrow> admitted_record_delta list
     \<Rightarrow> unit producer_result \<times> 's ledger_producer" where
  "commit ops p next sealed admission admitted_records =
     (let expected = ps_revision (lp_state p) in
      case checked_add expected 1 of
        None \<Rightarrow> (Err (CounterOverflow ''state revision''), p)
      | Some revision \<Rightarrow>
          let next = next\<lparr>ps_revision := revision\<rparr>;
              transition = \<lparr>lt_previous_open_count =
                  word_of_nat (length (oi_records (ps_open (lp_state p)))),
                lt_admitted_records = admitted_records, lt_next_state = next, lt_sealed = sealed,
                lt_idempotency = admission\<rparr> in
          case so_compare_and_swap ops (lp_store p) (Some expected) transition of
            (Inl error, store) \<Rightarrow>
              let ev = lp_events p;
                  ev = (case error of StorageUnavailable _ \<Rightarrow> ev\<lparr>ev_storage_unavailable := True\<rparr>
                    | _ \<Rightarrow> ev);
                  ev = (if sealed \<noteq> [] \<and> error \<notin> {QueueCapacityExhausted, StorageCapacityExhausted}
                    then ev\<lparr>ev_sealing_failures := ev_sealing_failures ev + 1\<rparr> else ev)
              in (Err error, p\<lparr>lp_store := store, lp_events := ev\<rparr>)
          | (Inr _, store) \<Rightarrow>
              (Ok (), p\<lparr>lp_store := store, lp_state := next,
                lp_events := (lp_events p)\<lparr>ev_storage_unavailable := False\<rparr>\<rparr>))"

definition transition ::
  "(bytes \<Rightarrow> bytes) \<Rightarrow> 's store_ops \<Rightarrow> 's ledger_producer \<Rightarrow> clock_reading \<Rightarrow> u64
     \<Rightarrow> close_reason option \<Rightarrow> closure_policy option
     \<Rightarrow> sealed_segment list producer_result \<times> 's ledger_producer" where
  "transition H ops p clock now requested replacement_policy =
     (if \<not> ps_active (lp_state p) then (Err Inactive, p)
      else
        let next = lp_state p;
            (sealing, ev) = (case requested of
                None \<Rightarrow> (Ok (None, next), lp_events p)
              | Some reason \<Rightarrow> seal_open H (lp_events p) next now reason);
            p = p\<lparr>lp_events := ev\<rparr> in
        case sealing of
          Inl e \<Rightarrow> (Err e, p)
        | Inr (segment, next) \<Rightarrow>
            let sealed = push_opt [] segment;
                next = (if requested = Some Shutdown then next\<lparr>ps_active := False\<rparr> else next);
                next = (case replacement_policy of
                    None \<Rightarrow> next
                  | Some policy \<Rightarrow> next\<lparr>ps_next_policy := policy,
                      ps_open := (ps_open next)\<lparr>oi_policy := policy\<rparr>\<rparr>);
                next = next\<lparr>ps_open := (ps_open next)\<lparr>oi_opened_at_ms := now,
                  oi_clock_continuity_id := cr_continuity_id clock\<rparr>\<rparr> in
            case commit ops p next sealed None [] of
              (Inl e, p) \<Rightarrow> (Err e, p)
            | (Inr _, p) \<Rightarrow> (Ok sealed, p))"

definition recover ::
  "(bytes \<Rightarrow> bytes) \<Rightarrow> 's store_ops \<Rightarrow> 's ledger_producer \<Rightarrow> clock_reading
     \<Rightarrow> sealed_segment list producer_result \<times> 's ledger_producer" where
  "recover H ops p clock =
     (if \<not> ps_active (lp_state p) then (Err Inactive, p)
      else case cr_now_ms clock of
          Inl e \<Rightarrow> (Err e, p)
        | Inr now \<Rightarrow>
            (case transition H ops p clock now (Some Recovery) None of
               (Inl e, p) \<Rightarrow> (Err e, p)
             | (Inr sealed, p) \<Rightarrow> (Ok sealed, p\<lparr>lp_events :=
                 (lp_events p)\<lparr>ev_recovery_events := ev_recovery_events (lp_events p) + 1\<rparr>\<rparr>)))"

definition reactivate ::
  "'s store_ops \<Rightarrow> 's ledger_producer \<Rightarrow> clock_reading \<Rightarrow> unit producer_result \<times> 's ledger_producer" where
  "reactivate ops p clock =
     (if ps_active (lp_state p) then (Ok (), p)
      else case cr_now_ms clock of
          Inl e \<Rightarrow> (Err e, p)
        | Inr now \<Rightarrow>
            let next = lp_state p;
                next = next\<lparr>ps_active := True, ps_open := (ps_open next)\<lparr>oi_opened_at_ms := now,
                  oi_clock_continuity_id := cr_continuity_id clock\<rparr>\<rparr> in
            commit ops p next [] None [])"

definition update_policy ::
  "(bytes \<Rightarrow> bytes) \<Rightarrow> 's store_ops \<Rightarrow> 's ledger_producer \<Rightarrow> clock_reading \<Rightarrow> closure_policy \<Rightarrow> bool
     \<Rightarrow> sealed_segment list producer_result \<times> 's ledger_producer" where
  "update_policy H ops p clock policy immediate =
     (case validate_policy policy of
        Inl e \<Rightarrow> (Err e, p)
      | Inr _ \<Rightarrow>
          (case safe_now (lp_state p) clock of
             Inl e \<Rightarrow> (Err e, p)
           | Inr now \<Rightarrow>
               if immediate then transition H ops p clock now (Some Reconfigure) (Some policy)
               else
                 (case commit ops p ((lp_state p)\<lparr>ps_next_policy := policy\<rparr>) [] None [] of
                    (Inl e, p) \<Rightarrow> (Err e, p)
                  | (Inr _, p) \<Rightarrow> (Ok [], p))))"

definition close ::
  "(bytes \<Rightarrow> bytes) \<Rightarrow> 's store_ops \<Rightarrow> 's ledger_producer \<Rightarrow> clock_reading \<Rightarrow> close_reason
     \<Rightarrow> sealed_segment list producer_result \<times> 's ledger_producer" where
  "close H ops p clock reason =
     (case safe_now (lp_state p) clock of
        Inl e \<Rightarrow> (Err e, p)
      | Inr now \<Rightarrow> transition H ops p clock now (Some reason) None)"

definition seal_expired_intervals ::
  "(bytes \<Rightarrow> bytes) \<Rightarrow> 's store_ops \<Rightarrow> 's ledger_producer \<Rightarrow> clock_reading
     \<Rightarrow> (sealed_segment list producer_result \<times> 's ledger_producer) option" where
  "seal_expired_intervals H ops p clock =
     (case safe_now (lp_state p) clock of
        Inl e \<Rightarrow> Some (Err e, p)
      | Inr now \<Rightarrow>
          let open = ps_open (lp_state p) in
          if now - oi_opened_at_ms open < cp_interval_ms (oi_policy open) then Some (Ok [], p)
          else
            Option.bind (close_expired H (lp_events p) (lp_state p) now) (\<lambda>(r, ev).
            let p = p\<lparr>lp_events := ev\<rparr> in
            Some (case r of
                Inl e \<Rightarrow> (Err e, p)
              | Inr (next, sealed) \<Rightarrow>
                  if oi_opened_at_ms (ps_open next) \<noteq> oi_opened_at_ms open then
                    (case commit ops p next sealed None [] of
                       (Inl e, p) \<Rightarrow> (Err e, p)
                     | (Inr _, p) \<Rightarrow> (Ok sealed, p))
                  else (Ok sealed, p))))"

fun admission_runs_loop :: "admission_run list \<Rightarrow> u64 list \<Rightarrow> admission_run list producer_result" where
  "admission_runs_loop runs [] = Ok runs"
| "admission_runs_loop runs (n # ns) =
     (if runs \<noteq> [] \<and> ar_segment_number (last runs) = n then
        (case checked_add (ar_record_count (last runs)) 1 of
           None \<Rightarrow> Err (CounterOverflow ''admission run'')
         | Some c \<Rightarrow> admission_runs_loop (butlast runs @ [(last runs)\<lparr>ar_record_count := c\<rparr>]) ns)
      else admission_runs_loop (runs @ [\<lparr>ar_segment_number = n, ar_record_count = 1\<rparr>]) ns)"

definition admission_runs :: "u64 list \<Rightarrow> admission_run list producer_result" where
  "admission_runs segment_numbers = admission_runs_loop [] segment_numbers"

definition starts_with :: "'a list \<Rightarrow> 'a list \<Rightarrow> bool" where
  "starts_with xs ys \<longleftrightarrow> take (length ys) xs = ys"

fun record_deltas_loop ::
  "u64 list \<Rightarrow> (u64, u64) btree \<Rightarrow> u64 \<Rightarrow> (bytes \<times> u64) list \<Rightarrow> admitted_record_delta list producer_result" where
  "record_deltas_loop sealed_numbers sealed_ordinals open_ordinal [] = Ok []"
| "record_deltas_loop sealed_numbers sealed_ordinals open_ordinal ((record_cbor, n) # rest) =
     (if n \<in> set sealed_numbers then
        let ordinal = (case bt_get n sealed_ordinals of None \<Rightarrow> 0 | Some o' \<Rightarrow> o') in
        and_then (ok_or (checked_add ordinal 1) (CounterOverflow ''sealed record'')) (\<lambda>next.
        and_then (record_deltas_loop sealed_numbers (bt_insert n next sealed_ordinals) open_ordinal rest)
          (\<lambda>ds. Ok (\<lparr>ad_record_cbor = record_cbor, ad_destination = DestSealed n ordinal\<rparr> # ds)))
      else
        and_then (ok_or (checked_add open_ordinal 1) (CounterOverflow ''open record'')) (\<lambda>next.
        and_then (record_deltas_loop sealed_numbers sealed_ordinals next rest)
          (\<lambda>ds. Ok (\<lparr>ad_record_cbor = record_cbor, ad_destination = DestOpen open_ordinal\<rparr> # ds))))"

definition record_deltas ::
  "producer_state \<Rightarrow> producer_state \<Rightarrow> sealed_segment list \<Rightarrow> bytes list \<Rightarrow> u64 list
     \<Rightarrow> admitted_record_delta list producer_result" where
  "record_deltas previous next sealed records segment_numbers =
     (let sealed_numbers = map ss_segment_number sealed;
          previous_records = oi_records (ps_open previous);
          previous_was_sealed = (previous_records \<noteq> []
            \<and> list_ex (\<lambda>segment. starts_with (ss_records segment) previous_records) sealed);
          sealed_ordinals = (if previous_records \<noteq> [] \<and> previous_was_sealed
            then [(ps_next_segment_number previous, word_of_nat (length previous_records))] else []);
          admitted_open_count =
            length (filter (\<lambda>number. number = ps_next_segment_number next) segment_numbers) in
      if admitted_open_count \<le> length (oi_records (ps_open next)) then
        record_deltas_loop sealed_numbers sealed_ordinals
          (word_of_nat (length (oi_records (ps_open next)) - admitted_open_count))
          (zip records segment_numbers)
      else Err ConcurrentWriter)"

text \<open>The admission loop: one record into the open interval, then the two limits.\<close>

definition limit_reason :: "open_interval \<Rightarrow> close_reason option" where
  "limit_reason interval =
     (let record_limit = (case cp_record_limit (oi_policy interval) of None \<Rightarrow> False
            | Some limit \<Rightarrow> unat limit \<le> length (oi_records interval));
          size_limit = (case cp_size_limit_bytes (oi_policy interval) of None \<Rightarrow> False
            | Some limit \<Rightarrow> limit \<le> oi_byte_count interval) in
      highest ((if size_limit then [SizeLimit] else []) @ (if record_limit then [RecordLimit] else [])))"

definition admit_one ::
  "(bytes \<Rightarrow> bytes) \<Rightarrow> u64 \<Rightarrow> pipeline_events \<Rightarrow> producer_state \<Rightarrow> bytes
     \<Rightarrow> (sealed_segment option \<times> producer_state) producer_result \<times> pipeline_events" where
  "admit_one H now ev next record_cbor =
     (case checked_add (oi_byte_count (ps_open next)) (word_of_nat (length record_cbor)) of
        None \<Rightarrow> (Err (CounterOverflow ''interval byte''), ev)
      | Some byte_count \<Rightarrow>
          let next = next\<lparr>ps_open := (ps_open next)\<lparr>oi_byte_count := byte_count,
                oi_records := oi_records (ps_open next) @ [record_cbor]\<rparr>\<rparr> in
          case limit_reason (ps_open next) of
            None \<Rightarrow> (Ok (None, next), ev)
          | Some reason \<Rightarrow> seal_open H ev next now reason)"

fun admit_loop ::
  "(bytes \<Rightarrow> bytes) \<Rightarrow> u64 \<Rightarrow> pipeline_events \<Rightarrow> producer_state \<Rightarrow> sealed_segment list \<Rightarrow> u64 list
     \<Rightarrow> bytes list \<Rightarrow> (producer_state \<times> sealed_segment list \<times> u64 list) producer_result \<times> pipeline_events" where
  "admit_loop H now ev next sealed numbers [] = (Ok (next, sealed, numbers), ev)"
| "admit_loop H now ev next sealed numbers (record_cbor # records) =
     (case admit_one H now ev next record_cbor of
        (Inl e, ev) \<Rightarrow> (Err e, ev)
      | (Inr (segment, next'), ev) \<Rightarrow>
          admit_loop H now ev next' (push_opt sealed segment)
            (numbers @ [ps_next_segment_number next]) records)"

fun validate_records :: "nat \<Rightarrow> bytes list \<Rightarrow> unit producer_result" where
  "validate_records index [] = Ok ()"
| "validate_records index (record_cbor # records) =
     and_then (map_err (\<lambda>error. InvalidRecord
         (''record '' @ show_nat index @ '': '' @ decode_error_display error))
       (validate_canonical_record record_cbor)) (\<lambda>_.
       validate_records (index + 1) records)"

definition admission_record ::
  "(string \<times> string) option \<Rightarrow> producer_state \<Rightarrow> sealed_segment list \<Rightarrow> u64 list
     \<Rightarrow> idempotency_record option producer_result" where
  "admission_record idempotency next sealed numbers =
     (case idempotency of
        None \<Rightarrow> Ok None
      | Some (key, request_sha256) \<Rightarrow>
          and_then (ok_or (checked_add (ps_revision next) 1) (CounterOverflow ''state revision''))
            (\<lambda>revision. Ok (Some \<lparr>ir_key = key, ir_request_sha256 = request_sha256,
              ir_admitted_segment_numbers = numbers, ir_state_revision = revision,
              ir_sealed_segment_numbers = map ss_segment_number sealed\<rparr>)))"

definition finish_admission ::
  "'s store_ops \<Rightarrow> 's ledger_producer \<Rightarrow> bytes list \<Rightarrow> (string \<times> string) option
     \<Rightarrow> producer_state \<Rightarrow> sealed_segment list \<Rightarrow> u64 list
     \<Rightarrow> admission_outcome producer_result \<times> 's ledger_producer" where
  "finish_admission ops p records idempotency next sealed numbers =
     (case (and_then (admission_runs numbers) (\<lambda>runs.
            and_then (record_deltas (lp_state p) next sealed records numbers) (\<lambda>deltas.
            and_then (admission_record idempotency next sealed numbers) (\<lambda>admission.
              Ok (runs, deltas, admission))))) of
        Inl e \<Rightarrow> (Err e, p)
      | Inr (runs, deltas, admission) \<Rightarrow>
          (case commit ops p next sealed admission deltas of
             (Inl e, p) \<Rightarrow> (Err e, p)
           | (Inr _, p) \<Rightarrow>
               (Ok \<lparr>ao_state_revision = ps_revision (lp_state p),
                  ao_admitted_segment_number = hd numbers,
                  ao_admitted_record_count = word_of_nat (length numbers),
                  ao_admission_runs = runs, ao_sealed = sealed,
                  ao_sealed_segment_numbers = map ss_segment_number sealed,
                  ao_replayed = False\<rparr>, p)))"

definition admit_batch_inner ::
  "(bytes \<Rightarrow> bytes) \<Rightarrow> 's store_ops \<Rightarrow> 's ledger_producer \<Rightarrow> clock_reading \<Rightarrow> bytes list
     \<Rightarrow> (string \<times> string) option \<Rightarrow> (admission_outcome producer_result \<times> 's ledger_producer) option" where
  "admit_batch_inner H ops p clock records idempotency =
     (if \<not> ps_active (lp_state p) then Some (Err Inactive, p)
      else if records = [] then Some (Err (InvalidRecord ''record batch must not be empty''), p)
      else
        case (and_then (validate_records 0 records) (\<lambda>_. safe_now (lp_state p) clock)) of
          Inl e \<Rightarrow> Some (Err e, p)
        | Inr now \<Rightarrow>
            Option.bind (close_expired H (lp_events p) (lp_state p) now) (\<lambda>(r, ev).
            Some (case r of
                Inl e \<Rightarrow> (Err e, p\<lparr>lp_events := ev\<rparr>)
              | Inr (next, sealed) \<Rightarrow>
                  (case admit_loop H now ev next sealed [] records of
                     (Inl e, ev) \<Rightarrow> (Err e, p\<lparr>lp_events := ev\<rparr>)
                   | (Inr (next, sealed, numbers), ev) \<Rightarrow>
                       finish_admission ops (p\<lparr>lp_events := ev\<rparr>) records idempotency
                         next sealed numbers))))"

definition admit ::
  "(bytes \<Rightarrow> bytes) \<Rightarrow> 's store_ops \<Rightarrow> 's ledger_producer \<Rightarrow> clock_reading \<Rightarrow> bytes
     \<Rightarrow> (admission_outcome producer_result \<times> 's ledger_producer) option" where
  "admit H ops p clock record_cbor = admit_batch_inner H ops p clock [record_cbor] None"

definition valid_idempotency_key :: "string \<Rightarrow> bool" where
  "valid_idempotency_key key \<longleftrightarrow>
     \<not> (key = [] \<or> length key > 255 \<or> list_ex char_is_control (str_chars key))"

definition replayed_outcome :: "idempotency_record \<Rightarrow> admission_outcome producer_result" where
  "replayed_outcome existing =
     and_then (admission_runs (ir_admitted_segment_numbers existing)) (\<lambda>runs.
       Ok \<lparr>ao_state_revision = ir_state_revision existing,
         ao_admitted_segment_number =
           (case ir_admitted_segment_numbers existing of [] \<Rightarrow> 0 | n # _ \<Rightarrow> n),
         ao_admitted_record_count = word_of_nat (length (ir_admitted_segment_numbers existing)),
         ao_admission_runs = runs, ao_sealed = [],
         ao_sealed_segment_numbers = ir_sealed_segment_numbers existing,
         ao_replayed = True\<rparr>)"

definition admit_batch_idempotent_digest ::
  "(bytes \<Rightarrow> bytes) \<Rightarrow> 's store_ops \<Rightarrow> 's ledger_producer \<Rightarrow> clock_reading \<Rightarrow> string \<Rightarrow> bytes list
     \<Rightarrow> string \<Rightarrow> (admission_outcome producer_result \<times> 's ledger_producer) option" where
  "admit_batch_idempotent_digest H ops p clock key records digest =
     (if \<not> valid_idempotency_key key
      then Some (Err (InvalidConfiguration ''idempotency key must contain 1..255 non-control characters''), p)
      else case so_lookup_idempotency ops (lp_store p) key of
          Inl e \<Rightarrow> Some (Err e, p)
        | Inr (Some existing) \<Rightarrow>
            if ir_request_sha256 existing \<noteq> digest then Some (Err IdempotencyConflict, p)
            else Some (replayed_outcome existing, p)
        | Inr None \<Rightarrow> admit_batch_inner H ops p clock records (Some (key, digest)))"

definition admit_idempotent ::
  "(bytes \<Rightarrow> bytes) \<Rightarrow> 's store_ops \<Rightarrow> 's ledger_producer \<Rightarrow> clock_reading \<Rightarrow> string \<Rightarrow> bytes
     \<Rightarrow> (admission_outcome producer_result \<times> 's ledger_producer) option" where
  "admit_idempotent H ops p clock key record_cbor =
     (if \<not> valid_idempotency_key key
      then Some (Err (InvalidConfiguration ''idempotency key must contain 1..255 non-control characters''), p)
      else admit_batch_idempotent_digest H ops p clock key [record_cbor] (sha256_hex H record_cbor))"

definition admit_batch_idempotent ::
  "(bytes \<Rightarrow> bytes) \<Rightarrow> 's store_ops \<Rightarrow> 's ledger_producer \<Rightarrow> clock_reading \<Rightarrow> string \<Rightarrow> bytes list
     \<Rightarrow> bytes \<Rightarrow> (admission_outcome producer_result \<times> 's ledger_producer) option" where
  "admit_batch_idempotent H ops p clock key records canonical_envelope =
     admit_batch_idempotent_digest H ops p clock key records (sha256_hex H canonical_envelope)"

definition default_events :: pipeline_events where
  "default_events = \<lparr>ev_sealing_failures = 0, ev_recovery_events = 0, ev_storage_unavailable = False\<rparr>"

definition initial_state ::
  "string \<Rightarrow> string \<Rightarrow> closure_policy \<Rightarrow> clock_reading \<Rightarrow> u64 \<Rightarrow> producer_state" where
  "initial_state ledger_id site_id policy clock now =
     \<lparr>ps_revision = 0, ps_active = True, ps_ledger_id = ledger_id, ps_site_id = site_id,
      ps_next_segment_number = 0, ps_predecessor_cbor = None,
      ps_open = \<lparr>oi_opened_at_ms = now, oi_clock_continuity_id = cr_continuity_id clock,
        oi_policy = policy, oi_records = [], oi_byte_count = 0\<rparr>,
      ps_next_policy = policy\<rparr>"

definition open_or_create ::
  "'s store_ops \<Rightarrow> 's \<Rightarrow> clock_reading \<Rightarrow> string \<Rightarrow> string \<Rightarrow> closure_policy
     \<Rightarrow> 's ledger_producer producer_result \<times> 's" where
  "open_or_create ops store clock ledger_id site_id policy =
     (case validate_policy policy of
        Inl e \<Rightarrow> (Err e, store)
      | Inr _ \<Rightarrow>
          if length ledger_id \<noteq> 32 \<or> site_id = [] then
            (Err (InvalidConfiguration
              ''ledger_id must be 16-byte lowercase hex and site_id must be non-empty''), store)
          else
            (case so_load ops store of
               Inl e \<Rightarrow> (Err e, store)
             | Inr (Some state) \<Rightarrow>
                 (case (and_then (validate_policy (oi_policy (ps_open state))) (\<lambda>_.
                     and_then (validate_policy (ps_next_policy state)) (\<lambda>_.
                       if ps_ledger_id state \<noteq> ledger_id \<or> ps_site_id state \<noteq> site_id
                       then Err (InvalidConfiguration
                         ''configured ledger_id and site_id do not match existing ledger state'')
                       else Ok ()))) of
                    Inl e \<Rightarrow> (Err e, store)
                  | Inr _ \<Rightarrow>
                      let producer = \<lparr>lp_store = store, lp_state = state, lp_events = default_events\<rparr> in
                      if \<not> ps_active state then
                        (case reactivate ops producer clock of
                           (Inl e, producer) \<Rightarrow> (Err e, lp_store producer)
                         | (Inr _, producer) \<Rightarrow> (Ok producer, lp_store producer))
                      else (Ok producer, store))
             | Inr None \<Rightarrow>
                 (case cr_now_ms clock of
                    Inl e \<Rightarrow> (Err e, store)
                  | Inr now \<Rightarrow>
                      let state = initial_state ledger_id site_id policy clock now in
                      (case so_compare_and_swap ops store None
                          \<lparr>lt_previous_open_count = 0, lt_admitted_records = [],
                           lt_next_state = state, lt_sealed = [], lt_idempotency = None\<rparr> of
                         (Inl e, store) \<Rightarrow> (Err e, store)
                       | (Inr _, store) \<Rightarrow>
                           (Ok \<lparr>lp_store = store, lp_state = state, lp_events = default_events\<rparr>,
                            store)))))"

section \<open>The in-memory store\<close>

record memory_ledger_store =
  ms_state :: "producer_state option"
  ms_sealed :: "(u64, sealed_segment) btree"
  ms_idempotency :: "(string, idempotency_record) btree"
  ms_transitions :: "ledger_transition list"

definition memory_compare_and_swap ::
  "memory_ledger_store \<Rightarrow> u64 option \<Rightarrow> ledger_transition \<Rightarrow> unit producer_result \<times> memory_ledger_store" where
  "memory_compare_and_swap m expected_revision t =
     (if map_option ps_revision (ms_state m) \<noteq> expected_revision then (Err ConcurrentWriter, m)
      else if list_ex (\<lambda>segment. bt_get (ss_segment_number segment) (ms_sealed m) \<noteq> None) (lt_sealed t)
      then (Err ConcurrentWriter, m)
      else if (case lt_idempotency t of None \<Rightarrow> False
          | Some admission \<Rightarrow> bt_get (ir_key admission) (ms_idempotency m) \<noteq> None)
      then (Err ConcurrentWriter, m)
      else
        (Ok (), m\<lparr>ms_state := Some (lt_next_state t),
          ms_sealed := bt_collect (ms_sealed m) (map (\<lambda>s. (ss_segment_number s, s)) (lt_sealed t)),
          ms_idempotency := (case lt_idempotency t of None \<Rightarrow> ms_idempotency m
            | Some admission \<Rightarrow> bt_insert (ir_key admission) admission (ms_idempotency m)),
          ms_transitions := ms_transitions m @ [t]\<rparr>))"

definition memory_store :: "memory_ledger_store store_ops" where
  "memory_store = \<lparr>so_load = (\<lambda>m. Ok (ms_state m)),
     so_lookup_idempotency = (\<lambda>m key. Ok (bt_get key (ms_idempotency m))),
     so_compare_and_swap = memory_compare_and_swap\<rparr>"

end
