(* ===== verification/Gateway_Ledger.thy ===== *)
theory Gateway_Ledger
  imports Gateway_Producer
begin

text \<open>
  What the producer of \<open>Gateway_Producer\<close> keeps.  An operation, seen from outside, interleaves
  admissions into the open interval with sealings of it; the step relation \<open>run\<close> is that
  interleaving, and what it preserves (no record lost, duplicated or reordered; numbering; the hash
  chain; the limits of the open interval) is proved on it by rule induction.  The locale
  \<open>ledger_store\<close> is the contract of the store.
\<close>

section \<open>Sealing\<close>

abbreviation open_records :: "producer_state \<Rightarrow> bytes list" where
  "open_records st \<equiv> oi_records (ps_open st)"

text \<open>The state after a sealing: the open interval is reset.\<close>

definition reset_open :: "producer_state \<Rightarrow> u64 \<Rightarrow> producer_state" where
  "reset_open st t = st\<lparr>ps_open := (ps_open st)\<lparr>oi_records := [], oi_byte_count := 0,
     oi_policy := ps_next_policy st, oi_opened_at_ms := t\<rparr>\<rparr>"

text \<open>The segment a sealing constructs, from the same state.\<close>

definition sealed_record :: "(bytes \<Rightarrow> bytes) \<Rightarrow> producer_state \<Rightarrow> close_reason \<Rightarrow> segment_record \<Rightarrow> bool" where
  "sealed_record H st reason s \<longleftrightarrow>
     (\<exists>roots. batch_roots_from_leaf_hashes H (mr_leaf_hashes (merkle_root_from_records H (open_records st)))
         (cp_batch_record_limit (oi_policy (ps_open st))) = Some roots
       \<and> (case ps_predecessor_cbor st of
            Some predecessor \<Rightarrow> new_successor H predecessor (oi_policy (ps_open st))
              (close_reason_str reason) (word_of_nat (length (open_records st))) roots
              (mr_root (merkle_root_from_records H (open_records st)))
          | None \<Rightarrow> new_epoch H (ps_ledger_id st) (oi_policy (ps_open st)) (close_reason_str reason)
              (word_of_nat (length (open_records st))) roots
              (mr_root (merkle_root_from_records H (open_records st)))) = Ok s)"

lemma length_leaf_hashes [simp]:
  "length (mr_leaf_hashes (merkle_root_from_records H rs)) = length rs"
  by (simp add: merkle_root_from_records_def Let_def)

text \<open>A sealing that is not skipped, with its own steps only.\<close>

lemma construct_segment_seals:
  assumes "\<not> (open_records st = [] \<and> cp_empty_mode (oi_policy (ps_open st)) = Suppress
      \<and> reason \<notin> {Shutdown, Recovery})"
    and "construct_segment H st t reason = Ok (seg, st')"
  shows "\<exists>s bs n. seg = Some \<lparr>ss_segment_number = sr_segment_number s, ss_close_reason = reason,
        ss_artifact_cbor = bs, ss_artifact_sha256 = sha256_hex H bs, ss_records = open_records st\<rparr>
    \<and> st' = (reset_open st t)\<lparr>ps_predecessor_cbor := Some bs, ps_next_segment_number := n\<rparr>
    \<and> sealed_record H st reason s \<and> canonical_cbor_bytes H s = Ok bs
    \<and> sr_segment_number s = ps_next_segment_number st
    \<and> checked_add (ps_next_segment_number st) 1 = Some n"
proof -
  let ?m = "merkle_root_from_records H (open_records st)" and ?pol = "oi_policy (ps_open st)"
  let ?n = "word_of_nat (length (open_records st)) :: u64"
  from assms(2) obtain roots s bs n where
    roots: "batch_roots_from_leaf_hashes H (mr_leaf_hashes ?m) (cp_batch_record_limit ?pol) = Some roots"
    and s: "(case ps_predecessor_cbor st of
        Some predecessor \<Rightarrow> new_successor H predecessor ?pol (close_reason_str reason) ?n roots (mr_root ?m)
      | None \<Rightarrow> new_epoch H (ps_ledger_id st) ?pol (close_reason_str reason) ?n roots (mr_root ?m)) = Ok s"
    and num: "sr_segment_number s = ps_next_segment_number st"
    and bs: "canonical_cbor_bytes H s = Ok bs"
    and n: "checked_add (ps_next_segment_number st) 1 = Some n"
    and r: "seg = Some \<lparr>ss_segment_number = sr_segment_number s, ss_close_reason = reason,
        ss_artifact_cbor = bs, ss_artifact_sha256 = sha256_hex H bs, ss_records = open_records st\<rparr>"
      "st' = (reset_open st t)\<lparr>ps_predecessor_cbor := Some bs, ps_next_segment_number := n\<rparr>"
    unfolding construct_segment_def Let_def if_not_P [OF assms(1)]
    by (auto simp: and_then_Ok_iff ok_or_Ok_iff reset_open_def cong: option.case_cong split: if_splits)
  from roots s have "sealed_record H st reason s" by (auto simp: sealed_record_def)
  with num bs n r show ?thesis by blast
qed

lemma construct_segment_Ok:
  assumes "construct_segment H st t reason = Ok (seg, st')"
  obtains
    (skipped) "seg = None" "st' = reset_open st t" "open_records st = []"
      "cp_empty_mode (oi_policy (ps_open st)) = Suppress" "reason \<notin> {Shutdown, Recovery}"
  | (sealed) s bs n where
      "seg = Some \<lparr>ss_segment_number = sr_segment_number s, ss_close_reason = reason,
        ss_artifact_cbor = bs, ss_artifact_sha256 = sha256_hex H bs, ss_records = open_records st\<rparr>"
      "st' = (reset_open st t)\<lparr>ps_predecessor_cbor := Some bs, ps_next_segment_number := n\<rparr>"
      "sealed_record H st reason s" "canonical_cbor_bytes H s = Ok bs"
      "sr_segment_number s = ps_next_segment_number st"
      "checked_add (ps_next_segment_number st) 1 = Some n"
proof (cases "open_records st = [] \<and> cp_empty_mode (oi_policy (ps_open st)) = Suppress
    \<and> reason \<notin> {Shutdown, Recovery}")
  case True
  with assms skipped show thesis by (simp add: construct_segment_def Let_def reset_open_def)
next
  case False
  from construct_segment_seals [OF this assms] sealed show thesis by blast
qed

section \<open>Interleavings of admissions and sealings\<close>

definition push_record :: "producer_state \<Rightarrow> bytes \<Rightarrow> u64 \<Rightarrow> producer_state" where
  "push_record st x byte_count = st\<lparr>ps_open := (ps_open st)\<lparr>oi_byte_count := byte_count,
     oi_records := open_records st @ [x]\<rparr>\<rparr>"

inductive run ::
  "(bytes \<Rightarrow> bytes) \<Rightarrow> producer_state \<Rightarrow> bytes list \<Rightarrow> u64 list \<Rightarrow> sealed_segment list \<Rightarrow> producer_state \<Rightarrow> bool"
  for H :: "bytes \<Rightarrow> bytes" and st0 :: producer_state where
  start: "run H st0 [] [] [] st0"
| seal: "run H st0 admitted numbers sealed st \<Longrightarrow> construct_segment H st t reason = Ok (seg, st') \<Longrightarrow>
    run H st0 admitted numbers (push_opt sealed seg) st'"
| push: "run H st0 admitted numbers sealed st \<Longrightarrow>
    checked_add (oi_byte_count (ps_open st)) (word_of_nat (length x)) = Some c \<Longrightarrow>
    run H st0 (admitted @ [x]) (numbers @ [ps_next_segment_number st]) sealed (push_record st x c)"

lemma push_opt_simps [simp]: "push_opt xs None = xs" "push_opt xs (Some x) = xs @ [x]"
  by (simp_all add: push_opt_def)

lemma reset_open_simps [simp]:
  "open_records (reset_open st t) = []" "oi_byte_count (ps_open (reset_open st t)) = 0"
  "oi_policy (ps_open (reset_open st t)) = ps_next_policy st"
  "oi_opened_at_ms (ps_open (reset_open st t)) = t"
  "oi_clock_continuity_id (ps_open (reset_open st t)) = oi_clock_continuity_id (ps_open st)"
  "ps_revision (reset_open st t) = ps_revision st" "ps_active (reset_open st t) = ps_active st"
  "ps_ledger_id (reset_open st t) = ps_ledger_id st" "ps_site_id (reset_open st t) = ps_site_id st"
  "ps_next_segment_number (reset_open st t) = ps_next_segment_number st"
  "ps_predecessor_cbor (reset_open st t) = ps_predecessor_cbor st"
  "ps_next_policy (reset_open st t) = ps_next_policy st"
  by (simp_all add: reset_open_def)

lemma push_record_simps [simp]:
  "open_records (push_record st x c) = open_records st @ [x]"
  "oi_byte_count (ps_open (push_record st x c)) = c"
  "oi_policy (ps_open (push_record st x c)) = oi_policy (ps_open st)"
  "oi_opened_at_ms (ps_open (push_record st x c)) = oi_opened_at_ms (ps_open st)"
  "oi_clock_continuity_id (ps_open (push_record st x c)) = oi_clock_continuity_id (ps_open st)"
  "ps_revision (push_record st x c) = ps_revision st" "ps_active (push_record st x c) = ps_active st"
  "ps_ledger_id (push_record st x c) = ps_ledger_id st" "ps_site_id (push_record st x c) = ps_site_id st"
  "ps_next_segment_number (push_record st x c) = ps_next_segment_number st"
  "ps_predecessor_cbor (push_record st x c) = ps_predecessor_cbor st"
  "ps_next_policy (push_record st x c) = ps_next_policy st"
  by (simp_all add: push_record_def)

text \<open>No record is lost, duplicated or reordered.\<close>

lemma run_conserves:
  "run H st0 admitted numbers sealed st \<Longrightarrow>
     concat (map ss_records sealed) @ open_records st = open_records st0 @ admitted"
proof (induction rule: run.induct)
  case (seal admitted numbers sealed st t reason seg st')
  from seal(2) seal.IH show ?case by (cases rule: construct_segment_Ok) auto
qed auto

lemma run_keeps:
  "run H st0 admitted numbers sealed st \<Longrightarrow>
     ps_revision st = ps_revision st0 \<and> ps_active st = ps_active st0 \<and> ps_ledger_id st = ps_ledger_id st0
     \<and> ps_site_id st = ps_site_id st0 \<and> ps_next_policy st = ps_next_policy st0
     \<and> oi_clock_continuity_id (ps_open st) = oi_clock_continuity_id (ps_open st0)"
proof (induction rule: run.induct)
  case (seal admitted numbers sealed st t reason seg st')
  from seal(2) seal.IH show ?case by (cases rule: construct_segment_Ok) auto
qed auto

text \<open>Segments are numbered consecutively from the number the state carries.\<close>

lemma run_numbers:
  "run H st0 admitted numbers sealed st \<Longrightarrow>
     unat (ps_next_segment_number st) = unat (ps_next_segment_number st0) + length sealed
     \<and> (\<forall>i < length sealed. unat (ss_segment_number (sealed ! i)) = unat (ps_next_segment_number st0) + i)"
proof (induction rule: run.induct)
  case (seal admitted numbers sealed st t reason seg st')
  from seal(2) show ?case
  proof (cases rule: construct_segment_Ok)
    case (sealed s bs n)
    with seal.IH unat_checked_add [OF sealed(6)] show ?thesis
      by (auto simp: nth_append less_Suc_eq)
  qed (use seal.IH in simp)
qed auto

text \<open>The record admitted as number \<open>i\<close> of the batch went to the segment its number names.\<close>

lemma run_lengths: "run H st0 admitted numbers sealed st \<Longrightarrow> length numbers = length admitted"
  by (induction rule: run.induct) auto

section \<open>The hash chain\<close>

definition chained :: "(bytes \<Rightarrow> bytes) \<Rightarrow> producer_state \<Rightarrow> bytes list \<Rightarrow> bool" where
  "chained H st history \<longleftrightarrow> unat (ps_next_segment_number st) = length history \<and>
     (case history of
        [] \<Rightarrow> ps_predecessor_cbor st = None
      | newest # _ \<Rightarrow> ps_predecessor_cbor st = Some newest \<and> segment_chain H history
          \<and> (\<exists>s. decode_segment_record H newest = Ok s \<and> sr_ledger_id s = ps_ledger_id st))"

lemma batch_roots_width:
  assumes "\<And>x. length (H x) = 32"
    and "batch_roots_from_leaf_hashes H (mr_leaf_hashes (merkle_root_from_records H rs)) l = Some roots"
  shows "list_all (\<lambda>r. length r = 32) roots" and "length (mr_root (merkle_root_from_records H rs)) = 32"
proof -
  let ?hs = "mr_leaf_hashes (merkle_root_from_records H rs)"
  have hs: "list_all (\<lambda>r. length r = 32) ?hs"
    by (auto simp: merkle_root_from_records_def Let_def prefixed_hash_def assms(1) list_all_iff)
  have "set c \<subseteq> set ?hs" if "c \<in> set (chunks (unat l) ?hs)" for c
  proof (cases "unat l = 0")
    case True
    with that show ?thesis by (simp add: chunks.simps)
  next
    case False
    then have "concat (chunks (unat l) ?hs) = ?hs" by simp
    with that show ?thesis by (metis UN_upper set_concat)
  qed
  then have "list_all (\<lambda>r. length r = 32) c" if "c \<in> set (chunks (unat l) ?hs)" for c
    using that hs by (auto simp: list_all_iff)
  then have "length (mth H c) = 32" if "c \<in> set (chunks (unat l) ?hs)" for c
    using that assms(1) by (intro length_mth) simp_all
  then show "list_all (\<lambda>r. length r = 32) roots"
    using assms(2) by (auto simp: batch_roots_from_leaf_hashes_def list_all_iff split: if_splits)
  show "length (mr_root (merkle_root_from_records H rs)) = 32"
    using length_mth [OF assms(1) hs] by (simp add: merkle_root_from_records_def Let_def)
qed

lemma sealed_record_chain:
  assumes H: "\<And>x. length (H x) = 32" and c: "chained H st history"
    and s: "sealed_record H st reason s" and bs: "canonical_cbor_bytes H s = Ok bs"
  shows "segment_chain H (bs # history)" and "decode_segment_record H bs = Ok s"
    and "sr_ledger_id s = ps_ledger_id st"
    and "sr_segment_root s = mr_root (merkle_root_from_records H (open_records st))"
    and "sr_record_count s = word_of_nat (length (open_records st))"
    and "sr_close_reason s = close_reason_str reason"
    and "batch_roots_from_leaf_hashes H (mr_leaf_hashes (merkle_root_from_records H (open_records st)))
      (cp_batch_record_limit (sr_closure_policy s)) = Some (sr_batch_roots s)"
proof -
  from s obtain roots where
    roots: "batch_roots_from_leaf_hashes H (mr_leaf_hashes (merkle_root_from_records H (open_records st)))
        (cp_batch_record_limit (oi_policy (ps_open st))) = Some roots"
    and new: "(case ps_predecessor_cbor st of
        Some predecessor \<Rightarrow> new_successor H predecessor (oi_policy (ps_open st))
          (close_reason_str reason) (word_of_nat (length (open_records st))) roots
          (mr_root (merkle_root_from_records H (open_records st)))
      | None \<Rightarrow> new_epoch H (ps_ledger_id st) (oi_policy (ps_open st)) (close_reason_str reason)
          (word_of_nat (length (open_records st))) roots
          (mr_root (merkle_root_from_records H (open_records st)))) = Ok s"
    unfolding sealed_record_def by blast
  note w = batch_roots_width [OF H roots]
  have all: "segment_chain H (bs # history) \<and> wf_segment s \<and> sr_ledger_id s = ps_ledger_id st
    \<and> sr_segment_root s = mr_root (merkle_root_from_records H (open_records st))
    \<and> sr_record_count s = word_of_nat (length (open_records st))
    \<and> sr_close_reason s = close_reason_str reason
    \<and> sr_closure_policy s = oi_policy (ps_open st) \<and> sr_batch_roots s = roots"
  proof (cases "ps_predecessor_cbor st")
    case None
    with c have [simp]: "history = []" by (cases history) (simp_all add: chained_def)
    from None new have e: "new_epoch H (ps_ledger_id st) (oi_policy (ps_open st))
      (close_reason_str reason) (word_of_nat (length (open_records st))) roots
      (mr_root (merkle_root_from_records H (open_records st))) = Ok s" by simp
    then have wf: "wf_segment s"
      using w by (auto simp: new_epoch_def new_at_position_Ok_iff wf_segment_def ZERO_SHA256_def)
    with e bs show ?thesis
      by (auto simp: new_epoch_def new_at_position_Ok_iff intro!: segment_chain.epoch [OF e])
  next
    case (Some pred)
    with c obtain rest p where hist: "history = pred # rest" "segment_chain H history"
      "decode_segment_record H pred = Ok p" "sr_ledger_id p = ps_ledger_id st"
      by (cases history) (auto simp: chained_def)
    from Some new have e: "new_successor H pred (oi_policy (ps_open st)) (close_reason_str reason)
      (word_of_nat (length (open_records st))) roots
      (mr_root (merkle_root_from_records H (open_records st))) = Ok s" by simp
    then have fields: "wf_segment s \<and> sr_ledger_id s = sr_ledger_id p
      \<and> sr_segment_root s = mr_root (merkle_root_from_records H (open_records st))
      \<and> sr_record_count s = word_of_nat (length (open_records st))
      \<and> sr_close_reason s = close_reason_str reason
      \<and> sr_closure_policy s = oi_policy (ps_open st) \<and> sr_batch_roots s = roots"
      using w H hist(3)
      by (auto simp: new_successor_def and_then_Ok_iff new_at_position_Ok_iff wf_segment_def)
    with hist e bs show ?thesis by (auto intro: segment_chain.successor)
  qed
  then show "segment_chain H (bs # history)" "sr_ledger_id s = ps_ledger_id st"
    "sr_segment_root s = mr_root (merkle_root_from_records H (open_records st))"
    "sr_record_count s = word_of_nat (length (open_records st))"
    "sr_close_reason s = close_reason_str reason" by simp_all
  show "decode_segment_record H bs = Ok s" using all bs by (simp add: decode_canonical_bytes)
  show "batch_roots_from_leaf_hashes H (mr_leaf_hashes (merkle_root_from_records H (open_records st)))
      (cp_batch_record_limit (sr_closure_policy s)) = Some (sr_batch_roots s)" using all roots by simp
qed

text \<open>A sealed segment describes its own records.\<close>

definition describes :: "(bytes \<Rightarrow> bytes) \<Rightarrow> sealed_segment \<Rightarrow> bool" where
  "describes H seg \<longleftrightarrow> (\<exists>s. decode_segment_record H (ss_artifact_cbor seg) = Ok s
     \<and> sr_segment_number s = ss_segment_number seg
     \<and> sr_segment_root s = mr_root (merkle_root_from_records H (ss_records seg))
     \<and> sr_record_count s = word_of_nat (length (ss_records seg))
     \<and> batch_roots_from_leaf_hashes H (mr_leaf_hashes (merkle_root_from_records H (ss_records seg)))
         (cp_batch_record_limit (sr_closure_policy s)) = Some (sr_batch_roots s)
     \<and> sr_close_reason s = close_reason_str (ss_close_reason seg)
     \<and> ss_artifact_sha256 seg = hex_lower (H (ss_artifact_cbor seg)))"

lemma run_chained:
  assumes H: "\<And>x. length (H x) = 32" and c: "chained H st0 history"
  shows "run H st0 admitted numbers sealed st \<Longrightarrow>
    chained H st (rev (map ss_artifact_cbor sealed) @ history) \<and> list_all (describes H) sealed"
proof (induction rule: run.induct)
  case start
  then show ?case using c by simp
next
  case (seal admitted numbers sealed st t reason seg st')
  let ?h = "rev (map ss_artifact_cbor sealed) @ history"
  from seal.IH have c: "chained H st ?h" by simp
  from seal(2) show ?case
  proof (cases rule: construct_segment_Ok)
    case skipped
    with seal.IH show ?thesis by (simp add: chained_def cong: list.case_cong)
  next
    case (sealed s bs n)
    note ch = sealed_record_chain [OF H c sealed(3,4)]
    from c unat_checked_add [OF sealed(6)] have "unat n = Suc (length ?h)" by (simp add: chained_def)
    with ch sealed seal.IH show ?thesis
      by (auto simp: chained_def describes_def sha256_hex_def)
  qed
next
  case (push admitted numbers sealed st x c)
  then show ?case by (simp add: chained_def cong: list.case_cong)
qed

section \<open>Closing elapsed intervals\<close>

definition intervals_positive :: "producer_state \<Rightarrow> bool" where
  "intervals_positive st \<longleftrightarrow>
     cp_interval_ms (oi_policy (ps_open st)) \<noteq> 0 \<and> cp_interval_ms (ps_next_policy st) \<noteq> 0"

lemma construct_segment_open:
  assumes "construct_segment H st t reason = Ok (seg, st')"
  shows "oi_opened_at_ms (ps_open st') = t" "oi_policy (ps_open st') = ps_next_policy st"
    "ps_next_policy st' = ps_next_policy st" "open_records st' = []" "oi_byte_count (ps_open st') = 0"
  using assms by (cases rule: construct_segment_Ok; simp)+

lemma seal_open_cases:
  "seal_open H ev st t reason = (Inr (seg, st'), ev') \<longleftrightarrow>
     construct_segment H st t reason = Ok (seg, st') \<and> ev' = ev"
  by (auto simp: seal_open_def Let_def)

lemma boundary_advances:
  fixes now opened interval :: u64
  assumes "checked_sub now opened = Some elapsed" and "\<not> elapsed < interval" and "interval \<noteq> 0"
  obtains b where "checked_add opened interval = Some b" "b \<le> now"
    "unat now - unat b < unat now - unat opened"
proof -
  from assms(1) have "unat elapsed = unat now - unat opened" by (rule unat_checked_sub)
  with assms have le: "unat opened + unat interval \<le> unat now" "0 < unat interval" "opened \<le> now"
    by (simp_all add: checked_sub_Some_iff word_less_nat_alt word_le_nat_alt unat_gt_0) linarith+
  have "checked_add opened interval = Some (opened + interval)"
    using le_less_trans [OF le(1) unat_u64_less] by (simp add: checked_add_Some_iff)
  moreover from unat_checked_add [OF this] le
  have "opened + interval \<le> now" "unat now - unat (opened + interval) < unat now - unat opened"
    by (simp_all add: word_le_nat_alt)
  ultimately show thesis by (rule that)
qed

lemma close_expired_loop_returns:
  assumes "intervals_positive st"
  shows "\<exists>r. close_expired_loop H now ev st sealed = Some r"
  using assms
proof (induction "unat now - unat (oi_opened_at_ms (ps_open st))" arbitrary: st ev sealed rule: less_induct)
  case less
  let ?o = "oi_opened_at_ms (ps_open st)" and ?i = "cp_interval_ms (oi_policy (ps_open st))"
  show ?case
  proof (cases "checked_sub now ?o")
    case None
    then show ?thesis by (subst close_expired_loop.simps) simp
  next
    case (Some elapsed)
    show ?thesis
    proof (cases "elapsed < ?i")
      case True
      with Some show ?thesis by (subst close_expired_loop.simps) simp
    next
      case False
      from less.prems have "?i \<noteq> 0" by (simp add: intervals_positive_def)
      with Some False obtain b where b: "checked_add ?o ?i = Some b"
        "unat now - unat b < unat now - unat ?o" by (rule boundary_advances)
      obtain r ev' where s: "seal_open H ev st b Interval = (r, ev')" by (cases "seal_open H ev st b Interval")
      show ?thesis
      proof (cases r)
        case (Inl e)
        with Some False b s show ?thesis by (subst close_expired_loop.simps) simp
      next
        case (Inr x)
        obtain seg st' where x: "x = (seg, st')" by (cases x)
        with s Inr have st': "construct_segment H st b Interval = Ok (seg, st')" by (simp add: seal_open_cases)
        have "\<exists>r. close_expired_loop H now ev' st' (push_opt sealed seg) = Some r"
          using construct_segment_open [OF st'] b(2) less.prems
          by (intro less.hyps) (simp_all add: intervals_positive_def)
        with Some False b s Inr x show ?thesis by (subst close_expired_loop.simps) simp
      qed
    qed
  qed
qed

definition closes ::
  "(bytes \<Rightarrow> bytes) \<Rightarrow> u64 \<Rightarrow> producer_state \<Rightarrow> sealed_segment list
     \<Rightarrow> (producer_state \<times> sealed_segment list) producer_result \<times> pipeline_events \<Rightarrow> bool" where
  "closes H now st sealed r \<longleftrightarrow> (\<forall>st0 admitted numbers st' sealed' ev'.
     r = (Inr (st', sealed'), ev') \<longrightarrow> run H st0 admitted numbers sealed st \<longrightarrow>
     run H st0 admitted numbers sealed' st' \<and> oi_opened_at_ms (ps_open st') \<le> now
     \<and> now - oi_opened_at_ms (ps_open st') < cp_interval_ms (oi_policy (ps_open st')))"

lemma close_expired_loop_closes:
  "close_expired_loop H now ev st sealed = Some r \<Longrightarrow> closes H now st sealed r"
proof (induction rule: close_expired_loop.raw_induct [rotated, consumes 1, case_names step])
  case (step loop H now ev st sealed r)
  show ?case
    unfolding closes_def
  proof (intro allI impI)
    fix st0 admitted numbers st' sealed' ev'
    assume r: "r = (Inr (st', sealed'), ev')" and run: "run H st0 admitted numbers sealed st"
    from step(2) r consider
        (stop) "oi_opened_at_ms (ps_open st) \<le> now" "st' = st" "sealed' = sealed"
          "now - oi_opened_at_ms (ps_open st) < cp_interval_ms (oi_policy (ps_open st))"
      | (more) b seg st1 where "construct_segment H st b Interval = Ok (seg, st1)"
          "loop H now ev st1 (push_opt sealed seg) = Some r"
      by (auto simp: checked_sub_Some_iff seal_open_cases
          split: option.splits if_splits prod.splits sum.splits)
    then show "run H st0 admitted numbers sealed' st' \<and> oi_opened_at_ms (ps_open st') \<le> now
        \<and> now - oi_opened_at_ms (ps_open st') < cp_interval_ms (oi_policy (ps_open st'))"
    proof cases
      case stop
      with run show ?thesis by simp
    next
      case more
      from step(1) [OF more(2)] run.seal [OF run more(1)] r show ?thesis
        unfolding closes_def by blast
    qed
  qed
qed

lemma close_expired_run:
  assumes "close_expired H ev st now = Some (Ok (st', sealed'), ev')"
  shows "run H st [] [] sealed' st'" and "oi_opened_at_ms (ps_open st') \<le> now"
    and "now - oi_opened_at_ms (ps_open st') < cp_interval_ms (oi_policy (ps_open st'))"
  using close_expired_loop_closes [OF assms [unfolded close_expired_def]] run.start [of H st]
  unfolding closes_def by blast+

section \<open>Admission\<close>

lemma admit_one_run:
  assumes "admit_one H now ev st x = (Inr (seg, st'), ev')" and "run H st0 admitted numbers sealed st"
  shows "run H st0 (admitted @ [x]) (numbers @ [ps_next_segment_number st]) (push_opt sealed seg) st'"
proof -
  from assms(1) obtain c where c: "checked_add (oi_byte_count (ps_open st)) (word_of_nat (length x)) = Some c"
    and nx: "case limit_reason (ps_open (push_record st x c)) of
        None \<Rightarrow> seg = None \<and> st' = push_record st x c
      | Some reason \<Rightarrow> construct_segment H (push_record st x c) now reason = Ok (seg, st')"
    by (auto simp: admit_one_def Let_def seal_open_cases push_record_def split: option.splits)
  note p = run.push [OF assms(2) c]
  show ?thesis
  proof (cases "limit_reason (ps_open (push_record st x c))")
    case None
    with p nx show ?thesis by simp
  next
    case (Some reason)
    with nx have "construct_segment H (push_record st x c) now reason = Ok (seg, st')" by simp
    with p show ?thesis by (rule run.seal)
  qed
qed

lemma admit_loop_run:
  assumes "admit_loop H now ev st sealed numbers xs = (Inr (st', sealed', numbers'), ev')"
    and "run H st0 admitted numbers sealed st"
  shows "run H st0 (admitted @ xs) numbers' sealed' st'"
  using assms
proof (induction xs arbitrary: ev st sealed numbers admitted)
  case Nil
  then show ?case by simp
next
  case (Cons x xs)
  from Cons.prems(1) obtain seg st1 ev1 where one: "admit_one H now ev st x = (Inr (seg, st1), ev1)"
    and rest: "admit_loop H now ev1 st1 (push_opt sealed seg)
      (numbers @ [ps_next_segment_number st]) xs = (Inr (st', sealed', numbers'), ev')"
    by (auto split: prod.splits sum.splits)
  from Cons.IH [OF rest admit_one_run [OF one Cons.prems(2)]] show ?case by simp
qed

section \<open>Limits of the open interval\<close>

definition policies_ok :: "producer_state \<Rightarrow> bool" where
  "policies_ok st \<longleftrightarrow> policy_validate (oi_policy (ps_open st)) = Ok ()
     \<and> policy_validate (ps_next_policy st) = Ok ()"

definition within_limits :: "producer_state \<Rightarrow> bool" where
  "within_limits st \<longleftrightarrow> limit_reason (ps_open st) = None"

lemma run_policies: "run H st0 admitted numbers sealed st \<Longrightarrow> policies_ok st0 \<Longrightarrow> policies_ok st"
proof (induction rule: run.induct)
  case (seal admitted numbers sealed st t reason seg st')
  with construct_segment_open [OF seal(2)] show ?case by (simp add: policies_ok_def)
qed (simp_all add: policies_ok_def)

lemma empty_within_limits:
  "policy_validate (oi_policy (ps_open st)) = Ok () \<Longrightarrow> open_records st = [] \<Longrightarrow>
   oi_byte_count (ps_open st) = 0 \<Longrightarrow> within_limits st"
  by (auto simp: within_limits_def limit_reason_def policy_validate_def unat_gt_0 and_then_Ok_iff split: option.splits if_splits)

lemma sealed_within_limits:
  assumes "run H st0 admitted numbers sealed st" and "construct_segment H st t reason = Ok (seg, st')"
    and "policies_ok st0"
  shows "within_limits st'"
  using construct_segment_open [OF assms(2)] run_policies [OF run.seal [OF assms(1,2)] assms(3)]
  by (intro empty_within_limits) (simp_all add: policies_ok_def)

lemma seals_within_limits:
  assumes "run H st0 admitted numbers sealed st"
  shows "admitted = [] \<Longrightarrow> policies_ok st0 \<Longrightarrow> within_limits st0 \<Longrightarrow> within_limits st"
  using assms by (induction rule: run.induct) (auto intro: sealed_within_limits)

lemma admit_loop_within_limits:
  assumes "admit_loop H now ev st sealed numbers xs = (Inr (st', sealed', numbers'), ev')"
    and "policies_ok st" and "within_limits st"
  shows "within_limits st'"
  using assms
proof (induction xs arbitrary: ev st sealed numbers)
  case (Cons x xs)
  from Cons.prems(1) obtain seg st1 ev1 where one: "admit_one H now ev st x = (Inr (seg, st1), ev1)"
    and rest: "admit_loop H now ev1 st1 (push_opt sealed seg)
      (numbers @ [ps_next_segment_number st]) xs = (Inr (st', sealed', numbers'), ev')"
    by (auto split: prod.splits sum.splits)
  from admit_one_run [OF one run.start] Cons.prems(2) have "policies_ok st1" by (rule run_policies)
  moreover from one Cons.prems(2) have "within_limits st1"
  proof (cases "limit_reason (ps_open st1) = None")
    case False
    with one obtain c reason where "construct_segment H (push_record st x c) now reason = Ok (seg, st1)"
      by (auto simp: admit_one_def Let_def seal_open_cases push_record_def split: option.splits)
    from sealed_within_limits [OF run.start this] show ?thesis
      using Cons.prems(2) by (simp add: policies_ok_def)
  qed (simp add: within_limits_def)
  ultimately show ?case using Cons.IH [OF rest] by simp
qed simp

text \<open>An admitted batch, from the state before it to the state that is committed.\<close>

lemma admit_batch_inner_Ok:
  assumes "admit_batch_inner H ops p clock records idem = Some (Ok out, p')"
  obtains nst sealed numbers deltas admission ev where
    "run H (lp_state p) records numbers sealed nst"
    "record_deltas (lp_state p) nst sealed records numbers = Ok deltas"
    "admission_record idem nst sealed numbers = Ok admission"
    "admission_runs numbers = Ok (ao_admission_runs out)"
    "commit ops (p\<lparr>lp_events := ev\<rparr>) nst sealed admission deltas = (Ok (), p')"
    "ao_state_revision out = ps_revision (lp_state p')" "ao_admitted_segment_number out = hd numbers"
    "ao_admitted_record_count out = word_of_nat (length numbers)" "ao_sealed out = sealed"
    "ao_sealed_segment_numbers out = map ss_segment_number sealed" "\<not> ao_replayed out"
    "ps_active (lp_state p)" "records \<noteq> []" "list_all (\<lambda>x. is_ok (validate_canonical_record x)) records"
    "policies_ok (lp_state p) \<longrightarrow> within_limits (lp_state p) \<longrightarrow> within_limits nst"
proof -
  have valid: "validate_records i rs = Ok () \<Longrightarrow> list_all (\<lambda>x. is_ok (validate_canonical_record x)) rs" for i rs
    by (induction i rs rule: validate_records.induct) (auto simp: and_then_Ok_iff)
  have pre: "ps_active (lp_state p)" "records \<noteq> []"
    using assms by (auto simp: admit_batch_inner_def split: if_splits)
  obtain now where now: "and_then (validate_records 0 records) (\<lambda>_. safe_now (lp_state p) clock) = Ok now"
    using assms pre
    by (cases "and_then (validate_records 0 records) (\<lambda>_. safe_now (lp_state p) clock)")
      (auto simp: admit_batch_inner_def)
  obtain nst0 sealed0 ev0 where ce: "close_expired H (lp_events p) (lp_state p) now = Some (Ok (nst0, sealed0), ev0)"
    and al0: "(case admit_loop H now ev0 nst0 sealed0 [] records of
        (Inl e, ev) \<Rightarrow> (Err e, p\<lparr>lp_events := ev\<rparr>)
      | (Inr (nst, sealed, numbers), ev) \<Rightarrow>
          finish_admission ops (p\<lparr>lp_events := ev\<rparr>) records idem nst sealed numbers) = (Ok out, p')"
  proof -
    obtain r ev0 where ce: "close_expired H (lp_events p) (lp_state p) now = Some (r, ev0)"
      using assms pre now by (auto simp: admit_batch_inner_def bind_eq_Some_conv)
    with assms pre now that show thesis by (cases r) (auto simp: admit_batch_inner_def)
  qed
  obtain nst sealed numbers ev where
    al: "admit_loop H now ev0 nst0 sealed0 [] records = (Inr (nst, sealed, numbers), ev)"
    and fin: "finish_admission ops (p\<lparr>lp_events := ev\<rparr>) records idem nst sealed numbers = (Ok out, p')"
  proof -
    obtain r ev where r: "admit_loop H now ev0 nst0 sealed0 [] records = (r, ev)"
      by (cases "admit_loop H now ev0 nst0 sealed0 [] records")
    with al0 that show thesis by (cases r) auto
  qed
  have pv: "validate_records 0 records = Ok ()" using now by (simp add: and_then_Ok_iff)
  have run: "run H (lp_state p) records numbers sealed nst"
    using admit_loop_run [OF al close_expired_run(1) [OF ce]] by simp
  have lim: "policies_ok (lp_state p) \<longrightarrow> within_limits (lp_state p) \<longrightarrow> within_limits nst"
    using admit_loop_within_limits [OF al run_policies [OF close_expired_run(1) [OF ce]]
        seals_within_limits [OF close_expired_run(1) [OF ce] refl]] by blast
  from fin obtain deltas admission runs where
    "admission_runs numbers = Ok runs" "record_deltas (lp_state p) nst sealed records numbers = Ok deltas"
    "admission_record idem nst sealed numbers = Ok admission"
    "commit ops (p\<lparr>lp_events := ev\<rparr>) nst sealed admission deltas = (Ok (), p')"
    "out = \<lparr>ao_state_revision = ps_revision (lp_state p'), ao_admitted_segment_number = hd numbers,
       ao_admitted_record_count = word_of_nat (length numbers), ao_admission_runs = runs,
       ao_sealed = sealed, ao_sealed_segment_numbers = map ss_segment_number sealed, ao_replayed = False\<rparr>"
    by (auto simp: finish_admission_def and_then_Ok_iff split: sum.splits prod.splits)
  with run pre valid [OF pv] lim show thesis by (intro that) simp_all
qed

end
