(* ===== verification/Gateway_Deltas.thy ===== *)
theory Gateway_Deltas
  imports Gateway_Ledger
begin

text \<open>
  The deltas of a transition.  A store that keeps its records in rows writes only what an operation added: the
  transition names, for every admitted record, its segment or the open interval and its ordinal there.  These
  deltas are exact: together with the open records moved to the first sealed segment they give every record of
  every sealed segment and of the next open interval its own place.
\<close>

section \<open>Places\<close>

type_synonym placement = "bytes \<times> record_destination"

definition in_segment :: "u64 \<Rightarrow> nat \<Rightarrow> bytes list \<Rightarrow> placement list" where
  "in_segment n start xs = map (\<lambda>(i, x). (x, DestSealed n (word_of_nat i))) (enumerate start xs)"

definition in_open :: "nat \<Rightarrow> bytes list \<Rightarrow> placement list" where
  "in_open start xs = map (\<lambda>(i, x). (x, DestOpen (word_of_nat i))) (enumerate start xs)"

text \<open>Every record of the sealed segments and of the open interval with its place.\<close>

definition placed :: "sealed_segment list \<Rightarrow> bytes list \<Rightarrow> placement list" where
  "placed sealed current =
     concat (map (\<lambda>g. in_segment (ss_segment_number g) 0 (ss_records g)) sealed) @ in_open 0 current"

definition delta_place :: "admitted_record_delta \<Rightarrow> placement" where
  "delta_place d = (ad_record_cbor d, ad_destination d)"

definition begins_with :: "bytes list \<Rightarrow> sealed_segment list \<Rightarrow> bytes list \<Rightarrow> bool" where
  "begins_with before sealed current \<longleftrightarrow>
     (\<exists>rest. (case sealed of [] \<Rightarrow> current | g # _ \<Rightarrow> ss_records g) = before @ rest)"

text \<open>Every ordinal is below the bound of a \<open>u64\<close>.\<close>

definition ordinals_fit :: "sealed_segment list \<Rightarrow> bytes list \<Rightarrow> bool" where
  "ordinals_fit sealed current \<longleftrightarrow>
     length current < 2 ^ 64 \<and> (\<forall>g \<in> set sealed. length (ss_records g) < 2 ^ 64)"

text \<open>A transition from a state: numbering and predecessor go on, the records that were open come first, and the
  deltas place exactly the others.\<close>

definition delta_consistent ::
  "producer_state \<Rightarrow> sealed_segment list \<Rightarrow> admitted_record_delta list \<Rightarrow> producer_state \<Rightarrow> bool" where
  "delta_consistent st sealed deltas nst \<longleftrightarrow>
     ps_ledger_id nst = ps_ledger_id st
     \<and> unat (ps_next_segment_number nst) = unat (ps_next_segment_number st) + length sealed
     \<and> (\<forall>i < length sealed. unat (ss_segment_number (sealed ! i)) = unat (ps_next_segment_number st) + i)
     \<and> (sealed = [] \<longrightarrow> ps_predecessor_cbor nst = ps_predecessor_cbor st)
     \<and> begins_with (open_records st) sealed (open_records nst)
     \<and> map delta_place deltas = drop (length (open_records st)) (placed sealed (open_records nst))
     \<and> (length (open_records st) < 2 ^ 64 \<longrightarrow> ordinals_fit sealed (open_records nst))"

definition issued :: "producer_state option \<Rightarrow> ledger_transition \<Rightarrow> bool" where
  "issued before t = (case before of
       None \<Rightarrow> lt_sealed t = [] \<and> lt_admitted_records t = [] \<and> lt_idempotency t = None
         \<and> open_records (lt_next_state t) = [] \<and> ps_next_segment_number (lt_next_state t) = 0
     | Some st \<Rightarrow> lt_previous_open_count t = word_of_nat (length (open_records st))
         \<and> delta_consistent st (lt_sealed t) (lt_admitted_records t) (lt_next_state t))"

section \<open>Numbers of a run\<close>

definition numbered :: "sealed_segment list \<Rightarrow> nat \<Rightarrow> u64 \<Rightarrow> u64 list" where
  "numbered sealed k n =
     concat (map (\<lambda>g. replicate (length (ss_records g)) (ss_segment_number g)) sealed) @ replicate k n"

lemma length_numbered: "length (numbered sealed k n) = length (concat (map ss_records sealed)) + k"
  by (simp add: numbered_def length_concat comp_def)

lemma run_places:
  "run H st0 admitted numbers sealed st \<Longrightarrow>
     numbers = drop (length (open_records st0)) (numbered sealed (length (open_records st)) (ps_next_segment_number st))
     \<and> begins_with (open_records st0) sealed (open_records st)
     \<and> (sealed = [] \<longrightarrow> ps_predecessor_cbor st = ps_predecessor_cbor st0)"
proof (induction rule: run.induct)
  case start
  then show ?case by (simp add: numbered_def begins_with_def)
next
  case (seal admitted numbers sealed st t reason seg st')
  from seal(2) show ?case
  proof (cases rule: construct_segment_Ok)
    case skipped
    with seal.IH show ?thesis by (simp add: numbered_def)
  next
    case (sealed s bs n)
    with seal.IH show ?thesis
      by (auto simp: numbered_def begins_with_def split: list.splits)
  qed
next
  case (push admitted numbers sealed st x c)
  have "length (open_records st0) \<le> length (numbered sealed (length (open_records st)) n)" for n
    using run_conserves [OF push(1), THEN arg_cong [where f = length]] by (simp add: length_numbered)
  then have "drop (length (open_records st0)) (numbered sealed (Suc (length (open_records st))) n)
      = drop (length (open_records st0)) (numbered sealed (length (open_records st)) n) @ [n]" for n
    by (simp add: numbered_def replicate_append_same [symmetric] del: replicate_append_same)
  with push.IH show ?case by (auto simp: begins_with_def split: list.splits)
qed

section \<open>Deltas of a run\<close>

abbreviation next_ordinal :: "(u64, u64) btree \<Rightarrow> u64 \<Rightarrow> u64" where
  "next_ordinal ords n \<equiv> (case bt_get n ords of None \<Rightarrow> 0 | Some k \<Rightarrow> k)"

lemma checked_succ: "checked_add (word_of_nat i :: u64) 1 = Some c \<Longrightarrow> c = word_of_nat (Suc i)"
  unfolding checked_add_Some_iff of_nat_Suc by (simp only: add.commute)

lemma checked_succ_less: "checked_add (word_of_nat i :: u64) 1 = Some c \<Longrightarrow> i < 2 ^ 64 \<Longrightarrow> Suc i < 2 ^ 64"
  using unat_checked_add [of "word_of_nat i :: u64" 1 c] unat_u64_less [of c]
  by (simp add: unat_of_nat take_bit_nat_eq_self)

lemma record_deltas_loop_sealed:
  "n \<in> set S \<Longrightarrow> record_deltas_loop S ords k ((x, n) # rest) = Ok ds \<longleftrightarrow>
     (\<exists>after ds1. checked_add (next_ordinal ords n) 1 = Some after
       \<and> record_deltas_loop S (bt_insert n after ords) k rest = Ok ds1
       \<and> ds = \<lparr>ad_record_cbor = x, ad_destination = DestSealed n (next_ordinal ords n)\<rparr> # ds1)"
  by (simp add: Let_def and_then_Ok_iff ok_or_Ok_iff) blast

lemma record_deltas_loop_open:
  "n \<notin> set S \<Longrightarrow> record_deltas_loop S ords k ((x, n) # rest) = Ok ds \<longleftrightarrow>
     (\<exists>after ds1. checked_add k 1 = Some after \<and> record_deltas_loop S ords after rest = Ok ds1
       \<and> ds = \<lparr>ad_record_cbor = x, ad_destination = DestOpen k\<rparr> # ds1)"
  by (simp add: Let_def and_then_Ok_iff ok_or_Ok_iff) blast

text \<open>A block of records of one sealed segment takes the ordinals from where that segment stands.\<close>

lemma deltas_of_segment:
  assumes "record_deltas_loop S ords k (zip xs (replicate (length xs) n) @ rest) = Ok ds" and "n \<in> set S"
    and "next_ordinal ords n = word_of_nat start"
  obtains ords' ds' where "record_deltas_loop S ords' k rest = Ok ds'"
    "map delta_place ds = in_segment n start xs @ map delta_place ds'"
    "\<And>m. m \<noteq> n \<Longrightarrow> bt_get m ords' = bt_get m ords" "start < 2 ^ 64 \<Longrightarrow> start + length xs < 2 ^ 64"
  using assms
proof (induction xs arbitrary: ords start ds thesis)
  case Nil
  then show ?case by (simp add: in_segment_def)
next
  case (Cons x xs)
  have "record_deltas_loop S ords k ((x, n) # zip xs (replicate (length xs) n) @ rest) = Ok ds"
    using Cons.prems(2) by (simp del: record_deltas_loop.simps)
  then obtain after ds1 where after: "checked_add (next_ordinal ords n) 1 = Some after"
    and ds1: "record_deltas_loop S (bt_insert n after ords) k (zip xs (replicate (length xs) n) @ rest) = Ok ds1"
    and ds: "ds = \<lparr>ad_record_cbor = x, ad_destination = DestSealed n (next_ordinal ords n)\<rparr> # ds1"
    unfolding record_deltas_loop_sealed [OF Cons.prems(3)] by blast
  have "next_ordinal (bt_insert n after ords) n = word_of_nat (Suc start)"
    using checked_succ [OF after [unfolded Cons.prems(4)]] by (simp add: bt_get_def)
  from Cons.IH [OF _ ds1 Cons.prems(3) this] obtain ords' ds' where
    loop: "record_deltas_loop S ords' k rest = Ok ds'"
    and places: "map delta_place ds1 = in_segment n (Suc start) xs @ map delta_place ds'"
    and keep: "\<And>m. m \<noteq> n \<Longrightarrow> bt_get m ords' = bt_get m (bt_insert n after ords)"
    and fit: "Suc start < 2 ^ 64 \<Longrightarrow> Suc start + length xs < 2 ^ 64" by blast
  from ds places Cons.prems(4) have "map delta_place ds = in_segment n start (x # xs) @ map delta_place ds'"
    by (simp add: in_segment_def) (simp add: delta_place_def)
  moreover have "start < 2 ^ 64 \<Longrightarrow> start + length (x # xs) < 2 ^ 64"
    using fit checked_succ_less [OF after [unfolded Cons.prems(4)]] by simp
  ultimately show ?case
    using loop keep by (intro Cons.prems(1) [of ords' ds']) (simp_all add: bt_get_def)
qed

lemma deltas_of_open:
  assumes "record_deltas_loop S ords (word_of_nat start) (zip xs (replicate (length xs) n)) = Ok ds" and "n \<notin> set S"
  shows "map delta_place ds = in_open start xs \<and> (start < 2 ^ 64 \<longrightarrow> start + length xs < 2 ^ 64)"
  using assms
proof (induction xs arbitrary: start ds)
  case (Cons x xs)
  have "record_deltas_loop S ords (word_of_nat start) ((x, n) # zip xs (replicate (length xs) n)) = Ok ds"
    using Cons.prems(1) by (simp del: record_deltas_loop.simps)
  then obtain after ds1 where after: "checked_add (word_of_nat start :: u64) 1 = Some after"
    and ds1: "record_deltas_loop S ords after (zip xs (replicate (length xs) n)) = Ok ds1"
    and ds: "ds = \<lparr>ad_record_cbor = x, ad_destination = DestOpen (word_of_nat start)\<rparr> # ds1"
    unfolding record_deltas_loop_open [OF Cons.prems(2)] by blast
  have "after = word_of_nat (Suc start)" by (rule checked_succ [OF after])
  with Cons.IH [of "Suc start" ds1] ds1 Cons.prems(2) ds checked_succ_less [OF after] show ?case
    by (simp add: in_open_def delta_place_def)
qed (simp add: in_open_def)

lemma deltas_of_segments:
  assumes "record_deltas_loop S ords (word_of_nat start)
      (zip (concat (map ss_records gs) @ xs) (numbered gs (length xs) n)) = Ok ds"
    and "distinct (map ss_segment_number gs)" and "set (map ss_segment_number gs) \<subseteq> set S" and "n \<notin> set S"
    and "\<forall>g \<in> set gs. bt_get (ss_segment_number g) ords = None"
  shows "map delta_place ds = concat (map (\<lambda>g. in_segment (ss_segment_number g) 0 (ss_records g)) gs) @ in_open start xs
    \<and> (start < 2 ^ 64 \<longrightarrow> start + length xs < 2 ^ 64) \<and> (\<forall>g \<in> set gs. length (ss_records g) < 2 ^ 64)"
  using assms
proof (induction gs arbitrary: ords ds)
  case Nil
  then show ?case using deltas_of_open [of S ords start xs n ds] by (simp add: numbered_def)
next
  case (Cons g gs)
  have z: "record_deltas_loop S ords (word_of_nat start) (zip (ss_records g) (replicate (length (ss_records g)) (ss_segment_number g))
      @ zip (concat (map ss_records gs) @ xs) (numbered gs (length xs) n)) = Ok ds"
    using Cons.prems(1) by (simp add: numbered_def zip_append1 del: record_deltas_loop.simps)
  have "ss_segment_number g \<in> set S" "next_ordinal ords (ss_segment_number g) = word_of_nat 0" using Cons.prems by auto
  from deltas_of_segment [OF z this] obtain ords' ds' where
    ds': "record_deltas_loop S ords' (word_of_nat start) (zip (concat (map ss_records gs) @ xs) (numbered gs (length xs) n)) = Ok ds'"
      "map delta_place ds = in_segment (ss_segment_number g) 0 (ss_records g) @ map delta_place ds'"
    and keep: "\<And>m. m \<noteq> ss_segment_number g \<Longrightarrow> bt_get m ords' = bt_get m ords"
    and "(0::nat) < 2 ^ 64 \<Longrightarrow> 0 + length (ss_records g) < 2 ^ 64" by blast
  then have fit: "length (ss_records g) < 2 ^ 64" by simp
  have "\<forall>h \<in> set gs. bt_get (ss_segment_number h) ords' = None"
    using Cons.prems(2,5) keep by (metis distinct.simps(2) image_eqI list.set_intros(2) list.set_map list.simps(9))
  with Cons.IH [OF ds'(1)] Cons.prems ds'(2) fit show ?case by simp
qed

lemma drop_in_segment: "drop k (in_segment n 0 xs) = in_segment n k (drop k xs)"
  by (rule nth_equalityI) (simp_all add: in_segment_def nth_enumerate_eq add.commute)

lemma drop_in_open: "drop k (in_open 0 xs) = in_open k (drop k xs)"
  by (rule nth_equalityI) (simp_all add: in_open_def nth_enumerate_eq add.commute)

lemma length_in_segment [simp]: "length (in_segment n k xs) = length xs"
  by (simp add: in_segment_def)

lemma numbered_count: "\<forall>g \<in> set gs. ss_segment_number g \<noteq> n \<Longrightarrow> filter (\<lambda>number. number = n) (numbered gs k n) = replicate k n"
  by (induction gs) (auto simp: numbered_def filter_empty_conv)

lemma run_numbers_distinct:
  assumes "run H st0 admitted numbers sealed st"
  shows "distinct (map ss_segment_number sealed)" and "\<forall>g \<in> set sealed. ss_segment_number g \<noteq> ps_next_segment_number st"
proof -
  note n = run_numbers [OF assms]
  then show "distinct (map ss_segment_number sealed)" by (auto simp: distinct_conv_nth) (metis add_left_cancel)
  show "\<forall>g \<in> set sealed. ss_segment_number g \<noteq> ps_next_segment_number st"
    using n by (auto simp: in_set_conv_nth) (metis add_left_cancel less_irrefl)
qed

lemma run_deltas:
  assumes run: "run H st0 admitted numbers sealed st" and d: "record_deltas st0 st sealed admitted numbers = Ok deltas"
  shows "map delta_place deltas = drop (length (open_records st0)) (placed sealed (open_records st))"
    and "length (open_records st0) < 2 ^ 64 \<Longrightarrow> ordinals_fit sealed (open_records st)"
proof -
  let ?k = "length (open_records st0)" and ?n = "ps_next_segment_number st" and ?cur = "open_records st"
  note places = run_places [OF run] and cons = run_conserves [OF run] and dist = run_numbers_distinct [OF run]
  have "map delta_place deltas = drop ?k (placed sealed ?cur) \<and> (?k < 2 ^ 64 \<longrightarrow> ordinals_fit sealed ?cur)"
  proof (cases sealed)
    case Nil
    from cons Nil have a: "admitted = drop ?k ?cur" by simp
    from places Nil have n: "numbers = replicate (length admitted) ?n" by (simp add: numbered_def a)
    have "record_deltas_loop [] [] (word_of_nat ?k) (zip admitted (replicate (length admitted) ?n)) = Ok deltas"
      using d a Nil places cons by (auto simp: record_deltas_def n Let_def begins_with_def)
    from deltas_of_open [OF this] show ?thesis
      using cons [THEN arg_cong [where f = length]] by (simp add: placed_def ordinals_fit_def Nil a drop_in_open)
  next
    case (Cons g gs)
    from places Cons obtain rest where rest: "ss_records g = open_records st0 @ rest" by (auto simp: begins_with_def)
    have a: "admitted = rest @ concat (map ss_records gs) @ ?cur" using cons Cons rest by simp
    have n: "numbers = replicate (length rest) (ss_segment_number g) @ numbered gs (length ?cur) ?n"
      using places Cons rest by (simp add: numbered_def)
    have first: "ss_segment_number g = ps_next_segment_number st0"
      using run_numbers [OF run] Cons by (auto simp: word_unat_eq_iff)
    have "length (filter (\<lambda>number. number = ?n) numbers) = length ?cur"
      using dist(2) Cons by (simp add: n numbered_count)
    define ords where "ords = (if open_records st0 \<noteq> [] then [(ps_next_segment_number st0, word_of_nat ?k :: u64)] else [])"
    have "record_deltas_loop (map ss_segment_number sealed) ords (word_of_nat 0)
        (zip rest (replicate (length rest) (ss_segment_number g))
          @ zip (concat (map ss_records gs) @ ?cur) (numbered gs (length ?cur) ?n)) = Ok deltas"
      using d \<open>length (filter _ numbers) = _\<close> rest
      by (simp add: record_deltas_def Let_def Cons starts_with_def ords_def n a zip_append length_numbered
          del: record_deltas_loop.simps split: if_splits)
    moreover have "next_ordinal ords (ss_segment_number g) = word_of_nat ?k"
      by (simp add: ords_def first bt_get_def)
    ultimately obtain ords' ds where
      ds: "record_deltas_loop (map ss_segment_number sealed) ords' (word_of_nat 0)
        (zip (concat (map ss_records gs) @ ?cur) (numbered gs (length ?cur) ?n)) = Ok ds"
      "map delta_place deltas = in_segment (ss_segment_number g) ?k rest @ map delta_place ds"
      and keep: "\<And>m. m \<noteq> ss_segment_number g \<Longrightarrow> bt_get m ords' = bt_get m ords"
      and fit: "?k < 2 ^ 64 \<Longrightarrow> ?k + length rest < 2 ^ 64"
      using Cons by (elim deltas_of_segment) auto
    have "bt_get (ss_segment_number h) ords' = None" if "h \<in> set gs" for h
    proof -
      have ne: "ss_segment_number h \<noteq> ss_segment_number g" using dist(1) Cons that by (metis distinct.simps(2) image_eqI list.set_map list.simps(9))
      then show ?thesis using keep [OF ne] first by (simp add: ords_def bt_get_def)
    qed
    then have "\<forall>h \<in> set gs. bt_get (ss_segment_number h) ords' = None" by blast
    moreover have "ps_next_segment_number st \<notin> set (map ss_segment_number sealed)" using dist(2) by fastforce
    ultimately have "map delta_place ds = concat (map (\<lambda>g. in_segment (ss_segment_number g) 0 (ss_records g)) gs) @ in_open 0 ?cur
        \<and> ((0::nat) < 2 ^ 64 \<longrightarrow> 0 + length ?cur < 2 ^ 64) \<and> (\<forall>g \<in> set gs. length (ss_records g) < 2 ^ 64)"
      using dist(1) Cons by (intro deltas_of_segments [OF ds(1)]) auto
    with ds(2) fit show ?thesis by (simp add: placed_def ordinals_fit_def Cons rest drop_in_segment)
  qed
  then show "map delta_place deltas = drop ?k (placed sealed ?cur)" "?k < 2 ^ 64 \<Longrightarrow> ordinals_fit sealed ?cur"
    by blast+
qed

lemma ordinals_fit_total:
  "length (concat (map ss_records sealed) @ current) < 2 ^ 64 \<Longrightarrow> ordinals_fit sealed current"
  by (induction sealed) (auto simp: ordinals_fit_def)

lemma run_consistent:
  assumes run: "run H st0 admitted numbers sealed st" and tw: "ps_ledger_id nst = ps_ledger_id st"
      "ps_next_segment_number nst = ps_next_segment_number st" "ps_predecessor_cbor nst = ps_predecessor_cbor st"
      "open_records nst = open_records st"
    and d: "admitted = [] \<and> deltas = [] \<or> record_deltas st0 st sealed admitted numbers = Ok deltas"
  shows "delta_consistent st0 sealed deltas nst"
proof -
  have "map delta_place deltas = drop (length (open_records st0)) (placed sealed (open_records st))
    \<and> (length (open_records st0) < 2 ^ 64 \<longrightarrow> ordinals_fit sealed (open_records st))"
    using d
  proof
    assume "admitted = [] \<and> deltas = []"
    moreover from this have "length (open_records st0) < 2 ^ 64 \<longrightarrow> ordinals_fit sealed (open_records st)"
      using ordinals_fit_total [of sealed "open_records st"] run_conserves [OF run] by simp
    moreover have "length (placed sealed (open_records st)) = length (open_records st0 @ admitted)"
      using run_conserves [OF run, symmetric] by (simp add: placed_def in_open_def length_concat comp_def)
    ultimately show ?thesis by simp
  qed (use run_deltas [OF run] in blast)
  then show ?thesis
    using run_places [OF run] run_numbers [OF run] run_keeps [OF run] tw by (simp add: delta_consistent_def)
qed

end
