(* ===== verification/Gateway_Reachable.thy ===== *)
theory Gateway_Reachable
  imports Gateway_Deltas
begin

text \<open>
  The producer over its lifetime: every public operation as one step, the states reachable from a
  fresh ledger through operations and restarts, and the invariant of those states.  The contract of
  the store is the locale \<open>ledger_store\<close>; the in-memory store of the source interprets it, and the
  properties at the end hold for it.
\<close>

section \<open>Commit\<close>

lemma commit_Ok:
  assumes "commit ops p nst sealed admission deltas = (Ok (), p')"
  obtains revision where "checked_add (ps_revision (lp_state p)) 1 = Some revision"
    "lp_state p' = nst\<lparr>ps_revision := revision\<rparr>"
    "so_compare_and_swap ops (lp_store p) (Some (ps_revision (lp_state p)))
       \<lparr>lt_previous_open_count = word_of_nat (length (open_records (lp_state p))),
        lt_admitted_records = deltas, lt_next_state = nst\<lparr>ps_revision := revision\<rparr>,
        lt_sealed = sealed, lt_idempotency = admission\<rparr> = (Ok (), lp_store p')"
proof (cases "checked_add (ps_revision (lp_state p)) 1")
  case None
  with assms show thesis by (simp add: commit_def)
next
  case (Some revision)
  let ?t = "\<lparr>lt_previous_open_count = word_of_nat (length (open_records (lp_state p))),
        lt_admitted_records = deltas, lt_next_state = nst\<lparr>ps_revision := revision\<rparr>,
        lt_sealed = sealed, lt_idempotency = admission\<rparr>"
  obtain r s where cas: "so_compare_and_swap ops (lp_store p) (Some (ps_revision (lp_state p))) ?t = (r, s)"
    by (cases "so_compare_and_swap ops (lp_store p) (Some (ps_revision (lp_state p))) ?t")
  with Some assms have "r = Ok ()" "lp_state p' = nst\<lparr>ps_revision := revision\<rparr>" "lp_store p' = s"
    by (auto simp: commit_def Let_def split: sum.splits)
  with cas Some show thesis by (intro that [of revision]) simp_all
qed

lemma commit_Err:
  assumes "commit ops p nst sealed admission deltas = (Err e, p')"
  shows "lp_state p' = lp_state p"
    and "lp_store p' = lp_store p \<or> (\<exists>x t e. so_compare_and_swap ops (lp_store p) x t = (Err e, lp_store p'))"
proof -
  have "lp_state p' = lp_state p \<and>
    (lp_store p' = lp_store p \<or> (\<exists>x t e. so_compare_and_swap ops (lp_store p) x t = (Err e, lp_store p')))"
  proof (cases "checked_add (ps_revision (lp_state p)) 1")
    case None
    with assms show ?thesis by (simp add: commit_def)
  next
    case (Some revision)
    let ?t = "\<lparr>lt_previous_open_count = word_of_nat (length (open_records (lp_state p))),
        lt_admitted_records = deltas, lt_next_state = nst\<lparr>ps_revision := revision\<rparr>,
        lt_sealed = sealed, lt_idempotency = admission\<rparr>"
    obtain r s where cas: "so_compare_and_swap ops (lp_store p) (Some (ps_revision (lp_state p))) ?t = (r, s)"
      by (cases "so_compare_and_swap ops (lp_store p) (Some (ps_revision (lp_state p))) ?t")
    with Some assms have "r = Err e" "lp_state p' = lp_state p" "lp_store p' = s"
      by (auto simp: commit_def Let_def split: sum.splits)
    with cas show ?thesis by blast
  qed
  then show "lp_state p' = lp_state p"
    "lp_store p' = lp_store p \<or> (\<exists>x t e. so_compare_and_swap ops (lp_store p) x t = (Err e, lp_store p'))"
    by blast+
qed

section \<open>Operations as steps\<close>

datatype producer_op =
    OpRecover
  | OpReactivate
  | OpUpdatePolicy closure_policy bool
  | OpClose close_reason
  | OpSealExpired
  | OpAdmit bytes
  | OpAdmitIdempotent string bytes
  | OpAdmitBatchIdempotent string "bytes list" bytes

text \<open>A step reports the records it admitted: none, unless it is an admission that is no replay.\<close>

definition report :: "('a \<Rightarrow> bytes list) \<Rightarrow> 'a producer_result \<times> 'p \<Rightarrow> bytes list producer_result \<times> 'p" where
  "report f = (\<lambda>(r, p). (case r of Inl e \<Rightarrow> Inl e | Inr y \<Rightarrow> Inr (f y), p))"

definition fresh :: "bytes list \<Rightarrow> admission_outcome \<Rightarrow> bytes list" where
  "fresh records out = (if ao_replayed out then [] else records)"

abbreviation nothing :: "'a \<Rightarrow> bytes list" where
  "nothing y \<equiv> []"

definition apply_op ::
  "(bytes \<Rightarrow> bytes) \<Rightarrow> 's store_ops \<Rightarrow> clock_reading \<Rightarrow> producer_op \<Rightarrow> 's ledger_producer
     \<Rightarrow> (bytes list producer_result \<times> 's ledger_producer) option" where
  "apply_op H ops clock op p = (case op of
       OpRecover \<Rightarrow> Some (report nothing (recover H ops p clock))
     | OpReactivate \<Rightarrow> Some (report nothing (reactivate ops p clock))
     | OpUpdatePolicy policy immediate \<Rightarrow>
         Some (report nothing (update_policy H ops p clock policy immediate))
     | OpClose reason \<Rightarrow> Some (report nothing (close H ops p clock reason))
     | OpSealExpired \<Rightarrow> map_option (report nothing) (seal_expired_intervals H ops p clock)
     | OpAdmit x \<Rightarrow> map_option (report (fresh [x])) (admit H ops p clock x)
     | OpAdmitIdempotent key x \<Rightarrow>
         map_option (report (fresh [x])) (admit_idempotent H ops p clock key x)
     | OpAdmitBatchIdempotent key xs envelope \<Rightarrow>
         map_option (report (fresh xs)) (admit_batch_idempotent H ops p clock key xs envelope))"

text \<open>What may change between sealing and commit: everything but the records, the numbering and the
  identity of the ledger; a policy only over an empty interval.\<close>

definition tweaked :: "producer_state \<Rightarrow> producer_state \<Rightarrow> bool" where
  "tweaked st st' \<longleftrightarrow> open_records st' = open_records st
     \<and> oi_byte_count (ps_open st') = oi_byte_count (ps_open st)
     \<and> ps_next_segment_number st' = ps_next_segment_number st
     \<and> ps_predecessor_cbor st' = ps_predecessor_cbor st
     \<and> ps_ledger_id st' = ps_ledger_id st \<and> ps_site_id st' = ps_site_id st
     \<and> (policies_ok st \<longrightarrow> policies_ok st')
     \<and> (oi_policy (ps_open st') = oi_policy (ps_open st) \<or> open_records st = [])"

text \<open>An operation that commits: an interleaving from the state before it, adjusted, and swapped in.\<close>

definition committed ::
  "(bytes \<Rightarrow> bytes) \<Rightarrow> 's store_ops \<Rightarrow> 's ledger_producer \<Rightarrow> bytes list \<Rightarrow> 's ledger_producer \<Rightarrow> bool" where
  "committed H ops p admitted p' \<longleftrightarrow>
     (\<exists>numbers sealed admission st nst deltas ev q. run H (lp_state p) admitted numbers sealed st
       \<and> (policies_ok (lp_state p) \<longrightarrow> within_limits (lp_state p) \<longrightarrow> within_limits st)
       \<and> tweaked st nst \<and> delta_consistent (lp_state p) sealed deltas nst
       \<and> commit ops (p\<lparr>lp_events := ev\<rparr>) nst sealed admission deltas = (Ok (), q)
       \<and> lp_state p' = lp_state q \<and> lp_store p' = lp_store q)"

definition untouched :: "'s store_ops \<Rightarrow> 's ledger_producer \<Rightarrow> 's ledger_producer \<Rightarrow> bool" where
  "untouched ops p p' \<longleftrightarrow> lp_state p' = lp_state p
     \<and> (lp_store p' = lp_store p
        \<or> (\<exists>x t e. so_compare_and_swap ops (lp_store p) x t = (Err e, lp_store p')))"

lemma tweaked_refl [simp]: "tweaked st st"
  by (simp add: tweaked_def)

lemma untouched_events [simp]: "untouched ops p (p\<lparr>lp_events := ev\<rparr>)" "untouched ops p p"
  by (simp_all add: untouched_def)

lemma commit_Err_untouched:
  "commit ops (p\<lparr>lp_events := ev\<rparr>) nst sealed admission deltas = (Err e, p') \<Longrightarrow> untouched ops p p'"
  using commit_Err [of ops "p\<lparr>lp_events := ev\<rparr>"] by (auto simp: untouched_def)

lemma committedI:
  "run H (lp_state p) admitted numbers sealed st \<Longrightarrow>
   (policies_ok (lp_state p) \<Longrightarrow> within_limits (lp_state p) \<Longrightarrow> within_limits st) \<Longrightarrow> tweaked st nst \<Longrightarrow>
   delta_consistent (lp_state p) sealed deltas nst \<Longrightarrow>
   commit ops (p\<lparr>lp_events := ev\<rparr>) nst sealed admission deltas = (Ok (), p') \<Longrightarrow>
   committed H ops p admitted p'"
  unfolding committed_def by blast

text \<open>A result of an operation that reports \<open>f\<close>: a failure leaves the state as it was; a success
  either changed nothing or is one commit of an interleaving that admits what is reported.\<close>

definition op_result :: "(bytes \<Rightarrow> bytes) \<Rightarrow> 's store_ops \<Rightarrow> 's ledger_producer \<Rightarrow> ('a \<Rightarrow> bytes list)
    \<Rightarrow> 'a producer_result \<times> 's ledger_producer \<Rightarrow> bool" where
  "op_result H ops p f = (\<lambda>(r, p'). case r of
       Inl _ \<Rightarrow> untouched ops p p'
     | Inr y \<Rightarrow> (untouched ops p p' \<and> f y = []) \<or> committed H ops p (f y) p')"

lemma op_result_commit:
  assumes "run H (lp_state p) [] numbers sealed st"
    and "policies_ok (lp_state p) \<Longrightarrow> within_limits (lp_state p) \<Longrightarrow> within_limits st"
    and "tweaked st nst"
  shows "op_result H ops p nothing (case commit ops (p\<lparr>lp_events := ev\<rparr>) nst sealed admission [] of
      (Inl e, p) \<Rightarrow> (Err e, p) | (Inr _, p) \<Rightarrow> (Ok y, p))"
proof -
  have consistent: "delta_consistent (lp_state p) sealed [] nst"
    using assms(3) by (intro run_consistent [OF assms(1)]) (simp_all add: tweaked_def)
  obtain r q where r: "commit ops (p\<lparr>lp_events := ev\<rparr>) nst sealed admission [] = (r, q)"
    by (cases "commit ops (p\<lparr>lp_events := ev\<rparr>) nst sealed admission []")
  show ?thesis
  proof (cases r)
    case (Inl e)
    with r show ?thesis using commit_Err_untouched [of ops ev p] by (simp add: op_result_def)
  next
    case (Inr u)
    with r have "commit ops (p\<lparr>lp_events := ev\<rparr>) nst sealed admission [] = (Ok (), q)" by simp
    then have "committed H ops p [] q" using assms(1-3) consistent committedI by blast
    with r Inr show ?thesis by (auto simp: op_result_def)
  qed
qed

lemma op_result_Err [simp]:
  "op_result H ops p f (Err e, p)" "op_result H ops p f (Err e, p\<lparr>lp_events := ev\<rparr>)"
  by (simp_all add: op_result_def)

lemma op_result_idle:
  "op_result H ops p nothing (Ok y, p)" "op_result H ops p nothing (Ok y, p\<lparr>lp_events := ev\<rparr>)"
  by (simp_all add: op_result_def)

lemma lp_events_self: "p\<lparr>lp_events := lp_events p\<rparr> = p"
  by simp

definition reopened :: "producer_state \<Rightarrow> close_reason \<Rightarrow> closure_policy option \<Rightarrow> u64 \<Rightarrow> 128 word \<Rightarrow> producer_state" where
  "reopened st reason replacement now cid =
     (let st = (if reason = Shutdown then st\<lparr>ps_active := False\<rparr> else st);
          st = (case replacement of None \<Rightarrow> st
            | Some policy \<Rightarrow> st\<lparr>ps_next_policy := policy, ps_open := (ps_open st)\<lparr>oi_policy := policy\<rparr>\<rparr>)
      in st\<lparr>ps_open := (ps_open st)\<lparr>oi_opened_at_ms := now, oi_clock_continuity_id := cid\<rparr>\<rparr>)"

lemma tweaked_reopened:
  assumes "open_records st = []"
    and "replacement = None \<or> (\<exists>pol. replacement = Some pol \<and> policy_validate pol = Ok ())"
  shows "tweaked st (reopened st reason replacement now cid)"
  using assms by (auto simp: tweaked_def reopened_def Let_def policies_ok_def)

lemma transition_result:
  assumes "replacement = None \<or> (\<exists>pol. replacement = Some pol \<and> policy_validate pol = Ok ())"
  shows "op_result H ops p nothing (transition H ops p clock now (Some reason) replacement)"
proof (cases "ps_active (lp_state p)")
  case False
  then show ?thesis by (simp add: transition_def)
next
  case True
  obtain r ev where r: "seal_open H (lp_events p) (lp_state p) now reason = (r, ev)"
    by (cases "seal_open H (lp_events p) (lp_state p) now reason")
  show ?thesis
  proof (cases r)
    case (Inl e)
    with True r show ?thesis by (simp add: transition_def)
  next
    case (Inr x)
    obtain seg st where x: "x = (seg, st)" by (cases x)
    with r Inr have c: "construct_segment H (lp_state p) now reason = Ok (seg, st)"
      by (simp add: seal_open_cases)
    let ?nst = "reopened st reason replacement now (cr_continuity_id clock)"
    have "transition H ops p clock now (Some reason) replacement
        = (case commit ops (p\<lparr>lp_events := ev\<rparr>) ?nst (push_opt [] seg) None [] of
            (Inl e, p) \<Rightarrow> (Err e, p) | (Inr _, p) \<Rightarrow> (Ok (push_opt [] seg), p))"
      using True r Inr x by (simp add: transition_def reopened_def Let_def)
    then show ?thesis
      using op_result_commit [OF run.seal [OF run.start c] sealed_within_limits [OF run.start c]
          tweaked_reopened [OF _ assms]] construct_segment_open [OF c] by simp
  qed
qed

lemma report_result: "op_result H ops p f r \<Longrightarrow> op_result H ops p id (report f r)"
  by (auto simp: op_result_def report_def split: sum.splits)

lemma recover_result: "op_result H ops p nothing (recover H ops p clock)"
proof -
  have t: "op_result H ops p nothing (transition H ops p clock now (Some Recovery) None)" for now
    by (rule transition_result) simp
  show ?thesis
  proof (cases "cr_now_ms clock")
    case (Inr now)
    obtain r q where "transition H ops p clock now (Some Recovery) None = (r, q)"
      by (cases "transition H ops p clock now (Some Recovery) None")
    with t [of now] Inr show ?thesis
      by (cases r) (auto simp: recover_def op_result_def untouched_def committed_def)
  qed (simp add: recover_def)
qed

lemma reactivate_result: "op_result H ops p nothing (reactivate ops p clock)"
proof (cases "ps_active (lp_state p)")
  case True
  then show ?thesis by (simp add: reactivate_def op_result_idle)
next
  case False
  show ?thesis
  proof (cases "cr_now_ms clock")
    case (Inr now)
    let ?nst = "(lp_state p)\<lparr>ps_active := True, ps_open := (ps_open (lp_state p))\<lparr>oi_opened_at_ms := now,
      oi_clock_continuity_id := cr_continuity_id clock\<rparr>\<rparr>"
    have "tweaked (lp_state p) ?nst" by (simp add: tweaked_def policies_ok_def)
    note res = op_result_commit [OF run.start _ this, where ops = ops and ev = "lp_events p" and admission = None and y = "()" and H = H]
    obtain r q where "commit ops p ?nst [] None [] = (r, q)" by (cases "commit ops p ?nst [] None []")
    with res False Inr show ?thesis by (cases r) (auto simp: reactivate_def)
  qed (use False in \<open>simp add: reactivate_def\<close>)
qed

lemma validate_policy_Ok_iff: "validate_policy pol = Ok () \<longleftrightarrow> policy_validate pol = Ok ()"
  by (simp add: validate_policy_def)

lemma update_policy_result: "op_result H ops p nothing (update_policy H ops p clock policy immediate)"
proof (cases "validate_policy policy")
  case (Inr u)
  then have ok: "policy_validate policy = Ok ()" by (simp add: validate_policy_Ok_iff)
  show ?thesis
  proof (cases "safe_now (lp_state p) clock")
    case now: (Inr now)
    show ?thesis
    proof (cases immediate)
      case True
      with Inr now ok show ?thesis by (simp add: update_policy_def transition_result)
    next
      case False
      have "tweaked (lp_state p) ((lp_state p)\<lparr>ps_next_policy := policy\<rparr>)"
        using ok by (simp add: tweaked_def policies_ok_def)
      from op_result_commit [OF run.start _ this, where ops = ops and ev = "lp_events p" and admission = None and y = "[] :: sealed_segment list" and H = H]
      show ?thesis using False Inr now by (simp add: update_policy_def)
    qed
  qed (use Inr in \<open>simp add: update_policy_def\<close>)
qed (simp add: update_policy_def)

lemma close_result: "op_result H ops p nothing (close H ops p clock reason)"
  by (cases "safe_now (lp_state p) clock") (simp_all add: close_def transition_result)

lemma seal_expired_result:
  assumes "seal_expired_intervals H ops p clock = Some r"
  shows "op_result H ops p nothing r"
proof (cases "safe_now (lp_state p) clock")
  case (Inl e)
  with assms show ?thesis by (auto simp: seal_expired_intervals_def)
next
  case now: (Inr now)
  show ?thesis
  proof (cases "now - oi_opened_at_ms (ps_open (lp_state p)) < cp_interval_ms (oi_policy (ps_open (lp_state p)))")
    case True
    with assms now show ?thesis by (auto simp: seal_expired_intervals_def op_result_idle)
  next
    case False
    obtain c ev where c: "close_expired H (lp_events p) (lp_state p) now = Some (c, ev)"
      using assms now False by (auto simp: seal_expired_intervals_def Let_def bind_eq_Some_conv)
    show ?thesis
    proof (cases c)
      case (Inl e)
      with assms now False c show ?thesis by (auto simp: seal_expired_intervals_def Let_def)
    next
      case (Inr x)
      obtain nst sealed where x: "x = (nst, sealed)" by (cases x)
      with c Inr have run: "run H (lp_state p) [] [] sealed nst" by (auto intro: close_expired_run)
      show ?thesis
        using assms now False c Inr x op_result_commit [OF run seals_within_limits [OF run] tweaked_refl]
        by (auto simp: seal_expired_intervals_def Let_def op_result_idle)
    qed
  qed
qed

lemma admit_batch_inner_result:
  assumes "admit_batch_inner H ops p clock records idem = Some (r, p')"
  shows "op_result H ops p (fresh records) (r, p')"
proof (cases r)
  case (Inr out)
  with assms have "admit_batch_inner H ops p clock records idem = Some (Ok out, p')" by simp
  then obtain nst sealed numbers deltas admission ev where
    run: "run H (lp_state p) records numbers sealed nst"
    and deltas: "record_deltas (lp_state p) nst sealed records numbers = Ok deltas"
    and com: "commit ops (p\<lparr>lp_events := ev\<rparr>) nst sealed admission deltas = (Ok (), p')"
    and out: "\<not> ao_replayed out"
    and lim: "policies_ok (lp_state p) \<longrightarrow> within_limits (lp_state p) \<longrightarrow> within_limits nst"
    by (rule admit_batch_inner_Ok) blast
  have "delta_consistent (lp_state p) sealed deltas nst" using run_consistent [OF run] deltas by blast
  from committedI [OF run _ tweaked_refl this com] lim have "committed H ops p records p'" by blast
  then show ?thesis using Inr out by (simp add: op_result_def fresh_def)
next
  case (Inl e)
  have fin: "finish_admission ops (p\<lparr>lp_events := ev\<rparr>) records idem nst sealed numbers = (Err e, p')
      \<Longrightarrow> untouched ops p p'" for ev nst sealed numbers
    using commit_Err_untouched [of ops ev p]
    by (auto simp: finish_admission_def split: sum.splits prod.splits)
  have loop: "(case admit_loop H now ev0 nst0 sealed0 [] records of
        (Inl e, ev) \<Rightarrow> (Err e, p\<lparr>lp_events := ev\<rparr>)
      | (Inr (nst, sealed, numbers), ev) \<Rightarrow>
          finish_admission ops (p\<lparr>lp_events := ev\<rparr>) records idem nst sealed numbers) = (Err e, p')
      \<Longrightarrow> untouched ops p p'" for now ev0 nst0 sealed0
    using fin by (cases "admit_loop H now ev0 nst0 sealed0 [] records") (auto split: sum.splits)
  have "untouched ops p p'"
  proof (cases "ps_active (lp_state p) \<and> records \<noteq> []")
    case True
    show ?thesis
    proof (cases "and_then (validate_records 0 records) (\<lambda>_. safe_now (lp_state p) clock)")
      case (Inl x)
      with assms True \<open>r = Inl e\<close> show ?thesis by (auto simp: admit_batch_inner_def)
    next
      case (Inr now)
      with assms True obtain c ev where c: "close_expired H (lp_events p) (lp_state p) now = Some (c, ev)"
        by (auto simp: admit_batch_inner_def bind_eq_Some_conv)
      with assms True Inr \<open>r = Inl e\<close> loop show ?thesis
        by (cases c) (auto simp: admit_batch_inner_def)
    qed
  qed (use assms \<open>r = Inl e\<close> in \<open>auto simp: admit_batch_inner_def split: if_splits\<close>)
  with Inl show ?thesis by (simp add: op_result_def)
qed

lemma admit_batch_idempotent_digest_result:
  assumes "admit_batch_idempotent_digest H ops p clock key records digest = Some (r, p')"
  shows "op_result H ops p (fresh records) (r, p')"
  using assms admit_batch_inner_result [of H ops p clock records "Some (key, digest)" r p']
  by (auto simp: admit_batch_idempotent_digest_def op_result_def fresh_def replayed_outcome_def and_then_Ok_iff
      split: if_splits sum.splits option.splits)

lemma apply_op_result:
  assumes "apply_op H ops clock op p = Some r"
  shows "op_result H ops p id r"
proof -
  have a: "op_result H ops p id (report (fresh xs) q)"
    if "admit_batch_idempotent_digest H ops p clock k xs d = Some q" for k xs d q
    using admit_batch_idempotent_digest_result [of H ops p clock k xs d "fst q" "snd q"] that
    by (intro report_result) simp
  show ?thesis
  proof (cases op)
    case (OpAdmit x)
    with assms obtain q where "admit_batch_inner H ops p clock [x] None = Some q" "r = report (fresh [x]) q"
      by (auto simp: apply_op_def admit_def)
    then show ?thesis
      using admit_batch_inner_result [of H ops p clock "[x]" None "fst q" "snd q"] by (simp add: report_result)
  next
    case (OpAdmitIdempotent key x)
    with assms obtain q where q: "admit_idempotent H ops p clock key x = Some q" "r = report (fresh [x]) q"
      by (auto simp: apply_op_def)
    show ?thesis
    proof (cases "valid_idempotency_key key")
      case True
      with q a show ?thesis by (simp add: admit_idempotent_def)
    next
      case False
      with q show ?thesis by (auto simp: admit_idempotent_def report_def)
    qed
  next
    case (OpAdmitBatchIdempotent key xs env)
    with assms a show ?thesis by (auto simp: apply_op_def admit_batch_idempotent_def)
  qed (use assms in \<open>auto simp: apply_op_def intro!: report_result recover_result reactivate_result
      update_policy_result close_result seal_expired_result\<close>)
qed

section \<open>Sequences of operations\<close>

definition reported :: "bytes list producer_result \<Rightarrow> bytes list" where
  "reported r = (case r of Inl _ \<Rightarrow> [] | Inr xs \<Rightarrow> xs)"

text \<open>From one producer to a later one on the same store: operations, failed ones too, and restarts
  that open the store again.  The history is the sequence of the records reported as admitted.\<close>

inductive evolves ::
  "(bytes \<Rightarrow> bytes) \<Rightarrow> 's store_ops \<Rightarrow> 's ledger_producer \<Rightarrow> bytes list \<Rightarrow> 's ledger_producer \<Rightarrow> bool"
  for H :: "bytes \<Rightarrow> bytes" and ops :: "'s store_ops" and p0 :: "'s ledger_producer" where
  refl: "evolves H ops p0 [] p0"
| step: "evolves H ops p0 history p \<Longrightarrow> apply_op H ops clock op p = Some (r, p') \<Longrightarrow>
    evolves H ops p0 (history @ reported r) p'"
| restart: "evolves H ops p0 history p \<Longrightarrow>
    open_or_create ops (lp_store p) clock ledger_id site_id policy = (Ok p', s) \<Longrightarrow> evolves H ops p0 history p'"

definition reachable ::
  "(bytes \<Rightarrow> bytes) \<Rightarrow> 's store_ops \<Rightarrow> 's \<Rightarrow> bytes list \<Rightarrow> 's ledger_producer \<Rightarrow> bool" where
  "reachable H ops s0 history p \<longleftrightarrow> (\<exists>clock ledger_id site_id policy p0 s.
     open_or_create ops s0 clock ledger_id site_id policy = (Ok p0, s) \<and> evolves H ops p0 history p)"

text \<open>What the interleavings of \<open>Gateway_Ledger\<close> give for the adjusted state that is committed.\<close>

definition byte_count_ok :: "producer_state \<Rightarrow> bool" where
  "byte_count_ok st \<longleftrightarrow>
     oi_byte_count (ps_open st) = word_of_nat (sum_list (map length (open_records st)))"

lemma run_byte_count:
  "run H st0 admitted numbers sealed st \<Longrightarrow> byte_count_ok st0 \<Longrightarrow> byte_count_ok st"
proof (induction rule: run.induct)
  case (seal admitted numbers sealed st t reason seg st')
  with construct_segment_open [OF seal(2)] show ?case by (simp add: byte_count_ok_def)
next
  case (push admitted numbers sealed st x c)
  then show ?case by (simp add: byte_count_ok_def checked_add_Some_iff)
qed

lemma limit_reason_eq:
  "oi_records a = oi_records b \<Longrightarrow> oi_byte_count a = oi_byte_count b \<Longrightarrow> oi_policy a = oi_policy b \<Longrightarrow>
   limit_reason a = limit_reason b"
  by (simp only: limit_reason_def)

lemma tweaked_keeps:
  assumes "tweaked st nst"
  shows "chained H st h \<Longrightarrow> chained H (nst\<lparr>ps_revision := n\<rparr>) h"
    and "byte_count_ok st \<Longrightarrow> byte_count_ok (nst\<lparr>ps_revision := n\<rparr>)"
    and "policies_ok st \<Longrightarrow> policies_ok (nst\<lparr>ps_revision := n\<rparr>)"
    and "policies_ok st \<Longrightarrow> byte_count_ok st \<Longrightarrow> within_limits st \<Longrightarrow> within_limits (nst\<lparr>ps_revision := n\<rparr>)"
    and "open_records (nst\<lparr>ps_revision := n\<rparr>) = open_records st"
proof -
  show "chained H st h \<Longrightarrow> chained H (nst\<lparr>ps_revision := n\<rparr>) h"
    using assms by (simp add: tweaked_def chained_def cong: list.case_cong)
  show "byte_count_ok st \<Longrightarrow> byte_count_ok (nst\<lparr>ps_revision := n\<rparr>)"
    "policies_ok st \<Longrightarrow> policies_ok (nst\<lparr>ps_revision := n\<rparr>)"
    "open_records (nst\<lparr>ps_revision := n\<rparr>) = open_records st"
    using assms by (simp_all add: tweaked_def byte_count_ok_def policies_ok_def)
  assume ok: "policies_ok st" "byte_count_ok st" "within_limits st"
  show "within_limits (nst\<lparr>ps_revision := n\<rparr>)"
  proof (cases "open_records st = []")
    case True
    with ok assms show ?thesis
      by (intro empty_within_limits) (simp_all add: tweaked_def byte_count_ok_def policies_ok_def)
  next
    case False
    with assms have "limit_reason (ps_open nst) = limit_reason (ps_open st)"
      by (intro limit_reason_eq) (simp_all add: tweaked_def)
    with ok show ?thesis by (simp add: within_limits_def)
  qed
qed

lemma map_of_numbered:
  fixes num :: "'a \<Rightarrow> 'w::len word"
  shows "(\<And>i. i < length xs \<Longrightarrow> unat (num (xs ! i)) = k + i) \<Longrightarrow>
   map_of (rev (map (\<lambda>g. (num g, g)) xs)) n
     = (if k \<le> unat n \<and> unat n < k + length xs then Some (xs ! (unat n - k)) else None)"
proof (induction xs rule: rev_induct)
  case (snoc x xs)
  from snoc.prems [of "length xs"] have x: "unat (num x) = k + length xs" by simp
  have "map_of (rev (map (\<lambda>g. (num g, g)) xs)) n
     = (if k \<le> unat n \<and> unat n < k + length xs then Some (xs ! (unat n - k)) else None)"
    by (rule snoc.IH) (metis snoc.prems length_append_singleton less_SucI nth_append)
  then show ?case by (auto simp: nth_append word_unat_eq_iff x)
qed auto

section \<open>The contract of the store\<close>

lemma issued_commit:
  "delta_consistent st sealed deltas nst \<Longrightarrow>
   issued (Some st) \<lparr>lt_previous_open_count = word_of_nat (length (open_records st)), lt_admitted_records = deltas,
     lt_next_state = nst\<lparr>ps_revision := n\<rparr>, lt_sealed = sealed, lt_idempotency = a\<rparr>"
  by (simp add: issued_def delta_consistent_def)

text \<open>The views of a store (its state, the admissions it remembers and the segments it holds), what a
  read returns and what a swap does: only over the expected revision, all of a transition that was issued
  for the stored state or nothing, and never over an admission already there.  A store may keep an
  invariant of its own.\<close>

locale ledger_store =
  fixes ops :: "'s store_ops"
    and state_of :: "'s \<Rightarrow> producer_state option"
    and admissions :: "'s \<Rightarrow> string \<Rightarrow> idempotency_record option"
    and segments :: "'s \<Rightarrow> u64 \<Rightarrow> sealed_segment option"
    and sound :: "'s \<Rightarrow> bool"
  assumes load_Ok: "sound s \<Longrightarrow> so_load ops s = Ok x \<Longrightarrow> x = state_of s"
    and lookup_Ok: "sound s \<Longrightarrow> so_lookup_idempotency ops s key = Ok a \<Longrightarrow> a = admissions s key"
    and swap_Err: "sound s \<Longrightarrow> so_compare_and_swap ops s expected t = (Err e, s') \<Longrightarrow>
      sound s' \<and> state_of s' = state_of s \<and> admissions s' = admissions s \<and> segments s' = segments s"
    and swap_revision: "sound s \<Longrightarrow> so_compare_and_swap ops s expected t = (Ok (), s') \<Longrightarrow>
      map_option ps_revision (state_of s) = expected"
    and swap_Ok: "sound s \<Longrightarrow> so_compare_and_swap ops s expected t = (Ok (), s') \<Longrightarrow> issued (state_of s) t \<Longrightarrow>
      sound s' \<and> state_of s' = Some (lt_next_state t)
      \<and> segments s' = segments s ++ map_of (rev (map (\<lambda>g. (ss_segment_number g, g)) (lt_sealed t)))
      \<and> (case lt_idempotency t of None \<Rightarrow> admissions s' = admissions s
         | Some a \<Rightarrow> admissions s (ir_key a) = None \<and> admissions s' = (admissions s)(ir_key a \<mapsto> a))"
begin

definition ledger_inv ::
  "(bytes \<Rightarrow> bytes) \<Rightarrow> bytes list \<Rightarrow> sealed_segment list \<Rightarrow> 's ledger_producer \<Rightarrow> bool" where
  "ledger_inv H history segs p \<longleftrightarrow> sound (lp_store p) \<and> state_of (lp_store p) = Some (lp_state p)
     \<and> policies_ok (lp_state p) \<and> within_limits (lp_state p) \<and> byte_count_ok (lp_state p)
     \<and> chained H (lp_state p) (rev (map ss_artifact_cbor segs)) \<and> list_all (describes H) segs
     \<and> (\<forall>n. segments (lp_store p) n = (if unat n < length segs then Some (segs ! unat n) else None))
     \<and> concat (map ss_records segs) @ open_records (lp_state p) = history"

lemma untouched_views:
  assumes "untouched ops p p'" and "sound (lp_store p)"
  shows "sound (lp_store p')" "lp_state p' = lp_state p" "state_of (lp_store p') = state_of (lp_store p)"
    "admissions (lp_store p') = admissions (lp_store p)" "segments (lp_store p') = segments (lp_store p)"
  using assms swap_Err by (auto simp: untouched_def)

lemma untouched_inv: "untouched ops p p' \<Longrightarrow> ledger_inv H history segs p \<Longrightarrow> ledger_inv H history segs p'"
  using untouched_views [of p p'] by (simp add: ledger_inv_def)

lemma committed_revision:
  assumes "committed H ops p admitted p'" and sound: "sound (lp_store p)"
  shows "map_option ps_revision (state_of (lp_store p)) = Some (ps_revision (lp_state p))"
    and "unat (ps_revision (lp_state p')) = unat (ps_revision (lp_state p)) + 1"
    and "state_of (lp_store p) = Some (lp_state p) \<Longrightarrow> sound (lp_store p') \<and> state_of (lp_store p') = Some (lp_state p')
      \<and> (\<forall>key a. admissions (lp_store p) key = Some a \<longrightarrow> admissions (lp_store p') key = Some a)"
proof -
  from assms(1) obtain nst sealed admission deltas ev q where
    com: "commit ops (p\<lparr>lp_events := ev\<rparr>) nst sealed admission deltas = (Ok (), q)"
    and d: "delta_consistent (lp_state p) sealed deltas nst"
    and q: "lp_state p' = lp_state q" "lp_store p' = lp_store q"
    unfolding committed_def by blast
  from com obtain revision where r: "checked_add (ps_revision (lp_state p)) 1 = Some revision"
    "lp_state q = nst\<lparr>ps_revision := revision\<rparr>"
    "so_compare_and_swap ops (lp_store p) (Some (ps_revision (lp_state p)))
       \<lparr>lt_previous_open_count = word_of_nat (length (open_records (lp_state p))),
        lt_admitted_records = deltas, lt_next_state = nst\<lparr>ps_revision := revision\<rparr>,
        lt_sealed = sealed, lt_idempotency = admission\<rparr> = (Ok (), lp_store q)"
    by (rule commit_Ok) simp
  show "map_option ps_revision (state_of (lp_store p)) = Some (ps_revision (lp_state p))"
    by (rule swap_revision [OF sound r(3)])
  from unat_checked_add [OF r(1)] r(2) q
  show "unat (ps_revision (lp_state p')) = unat (ps_revision (lp_state p)) + 1" by simp
  assume "state_of (lp_store p) = Some (lp_state p)"
  with swap_Ok [OF sound r(3)] issued_commit [OF d] r(2) q
  show "sound (lp_store p') \<and> state_of (lp_store p') = Some (lp_state p')
      \<and> (\<forall>key a. admissions (lp_store p) key = Some a \<longrightarrow> admissions (lp_store p') key = Some a)"
    by (auto split: option.splits if_splits)
qed

lemma committed_inv:
  assumes H: "\<And>x. length (H x) = 32" and inv: "ledger_inv H history segs p"
    and com: "committed H ops p admitted p'"
  obtains numbers sealed st where "run H (lp_state p) admitted numbers sealed st"
    "open_records (lp_state p') = open_records st" "ledger_inv H (history @ admitted) (segs @ sealed) p'"
proof -
  from com obtain numbers sealed admission st nst deltas ev q where
    run: "run H (lp_state p) admitted numbers sealed st"
    and lim: "policies_ok (lp_state p) \<longrightarrow> within_limits (lp_state p) \<longrightarrow> within_limits st"
    and tw: "tweaked st nst" and d: "delta_consistent (lp_state p) sealed deltas nst"
    and com: "commit ops (p\<lparr>lp_events := ev\<rparr>) nst sealed admission deltas = (Ok (), q)"
    and q: "lp_state p' = lp_state q" "lp_store p' = lp_store q"
    unfolding committed_def by blast
  have store: "sound (lp_store p)" "state_of (lp_store p) = Some (lp_state p)"
    using inv by (simp_all add: ledger_inv_def)
  from com obtain revision where r: "lp_state q = nst\<lparr>ps_revision := revision\<rparr>"
    "so_compare_and_swap ops (lp_store p) (Some (ps_revision (lp_state p)))
       \<lparr>lt_previous_open_count = word_of_nat (length (open_records (lp_state p))),
        lt_admitted_records = deltas, lt_next_state = nst\<lparr>ps_revision := revision\<rparr>,
        lt_sealed = sealed, lt_idempotency = admission\<rparr> = (Ok (), lp_store q)"
    by (rule commit_Ok) simp
  from inv have old: "policies_ok (lp_state p)" "within_limits (lp_state p)" "byte_count_ok (lp_state p)"
    "chained H (lp_state p) (rev (map ss_artifact_cbor segs))" "list_all (describes H) segs"
    "concat (map ss_records segs) @ open_records (lp_state p) = history"
    by (simp_all add: ledger_inv_def)
  note keep = tweaked_keeps [OF tw, where n = revision]
  from run_chained [OF H old(4) run] keep(1)
  have ch: "chained H (lp_state p') (rev (map ss_artifact_cbor (segs @ sealed)))"
    "list_all (describes H) (segs @ sealed)"
    using old(5) q r(1) by simp_all
  have "unat (ps_next_segment_number (lp_state p)) = length segs" using old(4) by (simp add: chained_def)
  with run_numbers [OF run] have nums: "i < length sealed \<Longrightarrow> unat (ss_segment_number (sealed ! i)) = length segs + i" for i
    by simp
  have segments: "segments (lp_store p') n
      = (if unat n < length (segs @ sealed) then Some ((segs @ sealed) ! unat n) else None)" for n
  proof -
    have "segments (lp_store p) n = (if unat n < length segs then Some (segs ! unat n) else None)"
      using inv by (simp add: ledger_inv_def)
    then show ?thesis
      using swap_Ok [OF store(1) r(2)] issued_commit [OF d] store(2) map_of_numbered [OF nums, where n = n] q
      by (auto simp: map_add_def nth_append split: option.splits)
  qed
  have recs: "concat (map ss_records (segs @ sealed)) @ open_records (lp_state p') = history @ admitted"
    using run_conserves [OF run] old(6) q r(1) keep(5) by auto
  have "policies_ok st" using run_policies [OF run old(1)] .
  moreover have "byte_count_ok st" using run_byte_count [OF run old(3)] .
  ultimately have "policies_ok (lp_state p')" "byte_count_ok (lp_state p')" "within_limits (lp_state p')"
    using lim old(1,2) keep(2-4) q r(1) by auto
  with ch segments recs committed_revision(3) [OF \<open>committed H ops p admitted p'\<close> store]
  have "ledger_inv H (history @ admitted) (segs @ sealed) p'" by (simp add: ledger_inv_def)
  moreover have "open_records (lp_state p') = open_records st" using keep(5) q r(1) by simp
  ultimately show thesis using run by (intro that)
qed

end

end
