(* ===== verification/Gateway_History.thy ===== *)
theory Gateway_History
  imports Gateway_Reachable
begin

text \<open>
  The life of a ledger on a store that meets the contract \<open>ledger_store\<close>: opening, operations and
  restarts keep the invariant \<open>ledger_inv\<close>; every operation returns; idempotency keys are replayed.
  The in-memory store of \<open>producer.rs\<close> interprets the contract, and the properties of the gateway's
  producer are stated on it.
\<close>

section \<open>Opening\<close>

lemma open_or_create_checks:
  assumes "open_or_create ops s0 clock ledger_id site_id policy = (Ok p, s)"
  obtains st where "validate_policy policy = Ok ()" "length ledger_id = 32" "site_id \<noteq> []" "so_load ops s0 = Ok st"
proof -
  from assms have pol: "validate_policy policy = Ok ()"
    by (cases "validate_policy policy") (simp_all add: open_or_create_def)
  have ids: "length ledger_id = 32 \<and> site_id \<noteq> []"
    by (rule ccontr) (use assms pol in \<open>simp add: open_or_create_def\<close>)
  with assms pol obtain st where "so_load ops s0 = Ok st"
    by (cases "so_load ops s0") (simp_all add: open_or_create_def)
  with pol ids show thesis by (auto intro: that)
qed

context ledger_store
begin

lemma op_result_inv:
  assumes "\<And>x. length (H x) = 32" and "ledger_inv H history segs p" and "op_result H ops p id (r, p')"
  shows "\<exists>sealed. ledger_inv H (history @ reported r) (segs @ sealed) p'"
proof (cases r)
  case (Inl e)
  with assms untouched_inv [OF _ assms(2)] show ?thesis
    by (intro exI [of _ "[]"]) (simp add: op_result_def reported_def)
next
  case (Inr xs)
  with assms(3) consider "untouched ops p p'" "xs = []" | "committed H ops p xs p'"
    by (auto simp: op_result_def)
  then show ?thesis
  proof cases
    case 1
    with Inr untouched_inv [OF _ assms(2)] show ?thesis
      by (intro exI [of _ "[]"]) (simp add: reported_def)
  next
    case 2
    from committed_inv [OF assms(1,2) 2] obtain sealed where
      "ledger_inv H (history @ xs) (segs @ sealed) p'" by metis
    with Inr show ?thesis by (auto simp: reported_def)
  qed
qed

lemma ledger_inv_unique:
  assumes "ledger_inv H history segs p" and "ledger_inv H history' segs' p"
  shows "segs' = segs"
proof (rule nth_equalityI)
  show len: "length segs' = length segs"
    using assms by (simp add: ledger_inv_def chained_def)
  fix i
  assume i: "i < length segs'"
  have "unat (ps_next_segment_number (lp_state p)) = length segs"
    using assms by (simp add: ledger_inv_def chained_def)
  with i len have "unat (word_of_nat i :: u64) = i"
    using unat_u64_less [of "ps_next_segment_number (lp_state p)"] by (simp add: unat_of_nat take_bit_nat_eq_self)
  moreover have "segments (lp_store p) n = (if unat n < length segs then Some (segs ! unat n) else None)"
    "segments (lp_store p) n = (if unat n < length segs' then Some (segs' ! unat n) else None)" for n
    using assms by (simp_all add: ledger_inv_def)
  ultimately show "segs' ! i = segs ! i" using i len by (metis option.inject)
qed

lemma created_inv:
  assumes "state_of s0 = None" and "segments s0 = Map.empty"
    and "open_or_create ops s0 clock ledger_id site_id policy = (Ok p, s)" and "sound s0"
  shows "ledger_inv H [] [] p"
proof -
  from assms(3) obtain st where pol: "validate_policy policy = Ok ()"
    and ids: "length ledger_id = 32" "site_id \<noteq> []" and ld: "so_load ops s0 = Ok st"
    by (rule open_or_create_checks)
  then have [simp]: "st = None" using load_Ok [OF assms(4)] assms(1) by simp
  from assms(3) ld ids obtain now where now: "cr_now_ms clock = Ok now"
    by (cases "cr_now_ms clock") (auto simp: open_or_create_def pol)
  let ?st = "initial_state ledger_id site_id policy clock now"
  let ?t = "\<lparr>lt_previous_open_count = 0, lt_admitted_records = [], lt_next_state = ?st, lt_sealed = [],
    lt_idempotency = None\<rparr>"
  obtain r s1 where swap: "so_compare_and_swap ops s0 None ?t = (r, s1)"
    by (cases "so_compare_and_swap ops s0 None ?t")
  with assms(3) ld ids now have r: "r = Ok ()" "p = \<lparr>lp_store = s1, lp_state = ?st, lp_events = default_events\<rparr>"
    by (auto simp: open_or_create_def pol Let_def split: sum.splits)
  have "issued (state_of s0) ?t" by (simp add: issued_def assms(1) initial_state_def)
  with swap_Ok [OF assms(4) swap [unfolded r(1)]] have "sound s1" "state_of s1 = Some ?st" "segments s1 = Map.empty"
    using assms(2) by simp_all
  moreover have "policies_ok ?st" using pol by (simp add: policies_ok_def initial_state_def validate_policy_Ok_iff)
  moreover from this have "within_limits ?st"
    by (intro empty_within_limits) (simp_all add: policies_ok_def initial_state_def)
  ultimately show ?thesis
    using r by (simp add: ledger_inv_def byte_count_ok_def chained_def initial_state_def)
qed

text \<open>A restart over a ledger finds the state that was committed last.\<close>

lemma reopened_result:
  assumes "state_of s0 = Some st" and "open_or_create ops s0 clock ledger_id site_id policy = (Ok p, s)" and "sound s0"
  shows "op_result H ops \<lparr>lp_store = s0, lp_state = st, lp_events = default_events\<rparr> nothing (Ok (), p)"
    and "ps_ledger_id st = ledger_id"
proof -
  let ?p = "\<lparr>lp_store = s0, lp_state = st, lp_events = default_events\<rparr>"
  from assms(2) obtain st' where pol: "validate_policy policy = Ok ()"
    and ids: "length ledger_id = 32" "site_id \<noteq> []" and ld: "so_load ops s0 = Ok st'"
    by (rule open_or_create_checks)
  then have [simp]: "st' = Some st" using load_Ok [OF assms(3)] assms(1) by simp
  let ?checks = "and_then (validate_policy (oi_policy (ps_open st))) (\<lambda>_.
     and_then (validate_policy (ps_next_policy st)) (\<lambda>_.
       if ps_ledger_id st \<noteq> ledger_id \<or> ps_site_id st \<noteq> site_id
       then Err (InvalidConfiguration
         ''configured ledger_id and site_id do not match existing ledger state'')
       else Ok ()))"
  from assms(2) ld ids have checks: "?checks = Ok ()"
    by (cases ?checks) (auto simp: open_or_create_def pol)
  then show "ps_ledger_id st = ledger_id" by (simp add: and_then_Ok_iff split: if_splits)
  show "op_result H ops ?p nothing (Ok (), p)"
  proof (cases "ps_active st")
    case True
    with assms(2) ld ids checks have "p = ?p" by (auto simp: open_or_create_def pol)
    then show ?thesis by (simp add: op_result_idle)
  next
    case False
    obtain r q where re: "reactivate ops ?p clock = (r, q)" by (cases "reactivate ops ?p clock")
    with False assms(2) ld ids checks have "r = Ok ()" "p = q"
      by (auto simp: open_or_create_def pol Let_def split: sum.splits)
    with reactivate_result [of H ops ?p clock] re show ?thesis by simp
  qed
qed

lemma reopened_inv:
  assumes "\<And>x. length (H x) = 32" and "ledger_inv H history segs p"
    and "open_or_create ops (lp_store p) clock ledger_id site_id policy = (Ok p', s)"
  shows "\<exists>sealed. ledger_inv H history (segs @ sealed) p'"
proof -
  let ?p = "\<lparr>lp_store = lp_store p, lp_state = lp_state p, lp_events = default_events\<rparr>"
  from assms(2) have st: "state_of (lp_store p) = Some (lp_state p)" "ledger_inv H history segs ?p" "sound (lp_store p)"
    by (simp_all add: ledger_inv_def)
  from reopened_result(1) [OF st(1) assms(3) st(3), of H]
  have "op_result H ops ?p id (Ok [], p')" by (simp add: op_result_def)
  from op_result_inv [OF assms(1) st(2) this] show ?thesis by (simp add: reported_def)
qed

lemma evolves_inv:
  assumes "evolves H ops p0 history p" and "\<And>x. length (H x) = 32" and "ledger_inv H [] [] p0"
  shows "\<exists>segs. ledger_inv H history segs p"
  using assms(1)
proof (induction rule: evolves.induct)
  case refl
  then show ?case using assms(3) by blast
next
  case (step history p clock op r p')
  then show ?case using op_result_inv [where H = H, OF assms(2) _ apply_op_result] by blast
next
  case (restart history p clock ledger_id site_id policy p' s)
  then show ?case using reopened_inv [where H = H, OF assms(2)] by blast
qed

lemma reachable_inv:
  assumes "reachable H ops s0 history p" and "\<And>x. length (H x) = 32"
    and "state_of s0 = None" and "segments s0 = Map.empty" and "sound s0"
  obtains segs where "ledger_inv H history segs p"
  using assms evolves_inv created_inv unfolding reachable_def by metis

text \<open>What is remembered of an admission stays.\<close>

lemma evolves_admissions:
  "evolves H ops p0 history p \<Longrightarrow> sound (lp_store p0) \<Longrightarrow> state_of (lp_store p0) = Some (lp_state p0) \<Longrightarrow>
   admissions (lp_store p0) key = Some a \<Longrightarrow>
   sound (lp_store p) \<and> state_of (lp_store p) = Some (lp_state p) \<and> admissions (lp_store p) key = Some a"
proof (induction rule: evolves.induct)
  case (step history p clock op r p')
  from apply_op_result [OF step(2)] consider "untouched ops p p'" | xs where "committed H ops p xs p'"
    by (cases r) (auto simp: op_result_def)
  then show ?case
  proof cases
    case 1
    with step untouched_views [OF 1] show ?thesis by simp
  next
    case 2
    with step committed_revision [OF 2] show ?thesis by blast
  qed
next
  case (restart history p clock ledger_id site_id policy p' s)
  let ?p = "\<lparr>lp_store = lp_store p, lp_state = lp_state p, lp_events = default_events\<rparr>"
  from restart have "state_of (lp_store p) = Some (lp_state p)" "sound (lp_store p)" by blast+
  from reopened_result(1) [OF this(1) restart(2) this(2), of H] consider "untouched ops ?p p'" | "committed H ops ?p [] p'"
    by (auto simp: op_result_def)
  then show ?case
  proof cases
    case 1
    with restart untouched_views [OF 1] show ?thesis by simp
  next
    case 2
    with restart committed_revision(3) [OF 2] show ?thesis by simp
  qed
qed simp

text \<open>A property of stores that every swap keeps holds of every later store.\<close>

lemma op_result_store:
  assumes "op_result H ops p f (r, p')" and "Q (lp_store p)"
    and "\<And>s x t r s'. so_compare_and_swap ops s x t = (r, s') \<Longrightarrow> Q s \<Longrightarrow> Q s'"
  shows "Q (lp_store p')"
proof -
  from assms(1) consider "untouched ops p p'" | xs where "committed H ops p xs p'"
    by (cases r) (auto simp: op_result_def)
  then show ?thesis
  proof cases
    case 1
    with assms(2,3) show ?thesis unfolding untouched_def by metis
  next
    case 2
    then obtain nst sealed admission deltas ev q where
      com: "commit ops (p\<lparr>lp_events := ev\<rparr>) nst sealed admission deltas = (Ok (), q)"
      and q: "lp_store p' = lp_store q"
      unfolding committed_def by blast
    from com obtain x t where "so_compare_and_swap ops (lp_store p) x t = (Ok (), lp_store q)"
      by (rule commit_Ok) simp
    with assms(2,3) q show ?thesis by metis
  qed
qed

lemma evolves_store:
  assumes "evolves H ops p0 history p" and "sound (lp_store p0)" and "state_of (lp_store p0) = Some (lp_state p0)"
    and "Q (lp_store p0)"
    and swap: "\<And>s x t r s'. so_compare_and_swap ops s x t = (r, s') \<Longrightarrow> Q s \<Longrightarrow> Q s'"
  shows "sound (lp_store p) \<and> state_of (lp_store p) = Some (lp_state p) \<and> Q (lp_store p)"
  using assms(1)
proof (induction rule: evolves.induct)
  case refl
  then show ?case using assms by blast
next
  case (step history p clock op r p')
  note res = apply_op_result [OF step(2)]
  from res have "sound (lp_store p') \<and> state_of (lp_store p') = Some (lp_state p')"
    using step.IH untouched_views(1-3) committed_revision(3) by (cases r) (fastforce simp: op_result_def)+
  moreover have "Q (lp_store p')"
    by (rule op_result_store [where Q = Q, OF res]) (use step.IH swap in blast)+
  ultimately show ?case by blast
next
  case (restart history p clock ledger_id site_id policy p' s)
  then have st: "state_of (lp_store p) = Some (lp_state p)" "sound (lp_store p)" by blast+
  note res = reopened_result(1) [OF st(1) restart(2) st(2), of H]
  from res have "sound (lp_store p') \<and> state_of (lp_store p') = Some (lp_state p')"
    using st untouched_views(1-3) committed_revision(3) by (fastforce simp: op_result_def)
  moreover have "Q (lp_store p')"
    by (rule op_result_store [where Q = Q, OF res]) (use restart.IH swap in auto)
  ultimately show ?case by blast
qed

text \<open>A producer whose revision is not the stored one changes nothing.\<close>

lemma stale_untouched:
  assumes "apply_op H ops clock op p = Some (r, p')"
    and "map_option ps_revision (state_of (lp_store p)) \<noteq> Some (ps_revision (lp_state p))" and "sound (lp_store p)"
  shows "untouched ops p p'"
proof -
  have "\<not> committed H ops p xs p'" for xs
    using committed_revision(1) [of H p xs p'] assms(2,3) by blast
  with apply_op_result [OF assms(1)] show ?thesis by (cases r) (simp_all add: op_result_def)
qed

text \<open>What is remembered of a successful admission under a key.\<close>

lemma admission_remembered:
  assumes "admit_batch_idempotent_digest H ops p clock key records digest = Some (Ok out, p')"
    and store: "sound (lp_store p)" "state_of (lp_store p) = Some (lp_state p)"
  obtains a where "admissions (lp_store p') key = Some a" "ir_request_sha256 a = digest"
    "replayed_outcome a = Ok (out\<lparr>ao_sealed := [], ao_replayed := True\<rparr>)"
proof -
  from assms(1) have key: "valid_idempotency_key key"
    by (cases "valid_idempotency_key key") (simp_all add: admit_batch_idempotent_digest_def)
  obtain found where found: "so_lookup_idempotency ops (lp_store p) key = Ok found"
    using assms(1) key by (cases "so_lookup_idempotency ops (lp_store p) key")
      (simp_all add: admit_batch_idempotent_digest_def)
  show thesis
  proof (cases found)
    case (Some a)
    with assms(1) key found have d: "ir_request_sha256 a = digest" and r: "replayed_outcome a = Ok out" and "p' = p"
      by (auto simp: admit_batch_idempotent_digest_def split: if_splits)
    with Some lookup_Ok [OF store(1) found] have "admissions (lp_store p') key = Some a" by simp
    moreover from r have "out\<lparr>ao_sealed := [], ao_replayed := True\<rparr> = out"
      by (auto simp: replayed_outcome_def and_then_Ok_iff)
    ultimately show thesis using d r by (intro that [of a]) simp_all
  next
    case None
    with assms(1) key found have "admit_batch_inner H ops p clock records (Some (key, digest)) = Some (Ok out, p')"
      by (simp add: admit_batch_idempotent_digest_def)
    then obtain nst sealed numbers deltas admission ev where
      run: "run H (lp_state p) records numbers sealed nst"
      and adm: "admission_record (Some (key, digest)) nst sealed numbers = Ok admission"
      and deltas: "record_deltas (lp_state p) nst sealed records numbers = Ok deltas"
      and runs: "admission_runs numbers = Ok (ao_admission_runs out)"
      and com: "commit ops (p\<lparr>lp_events := ev\<rparr>) nst sealed admission deltas = (Ok (), p')"
      and out: "ao_state_revision out = ps_revision (lp_state p')" "ao_admitted_segment_number out = hd numbers"
        "ao_admitted_record_count out = word_of_nat (length numbers)"
        "ao_sealed_segment_numbers out = map ss_segment_number sealed"
      and ne: "records \<noteq> []"
      by (rule admit_batch_inner_Ok) blast
    from adm obtain rev where rev: "checked_add (ps_revision nst) 1 = Some rev"
      and a: "admission = Some \<lparr>ir_key = key, ir_request_sha256 = digest, ir_admitted_segment_numbers = numbers,
        ir_state_revision = rev, ir_sealed_segment_numbers = map ss_segment_number sealed\<rparr>"
      by (auto simp: admission_record_def and_then_Ok_iff ok_or_Ok_iff)
    from com obtain revision where r: "checked_add (ps_revision (lp_state p)) 1 = Some revision"
      "lp_state p' = nst\<lparr>ps_revision := revision\<rparr>"
      "so_compare_and_swap ops (lp_store p) (Some (ps_revision (lp_state p)))
         \<lparr>lt_previous_open_count = word_of_nat (length (open_records (lp_state p))),
          lt_admitted_records = deltas, lt_next_state = nst\<lparr>ps_revision := revision\<rparr>,
          lt_sealed = sealed, lt_idempotency = admission\<rparr> = (Ok (), lp_store p')"
      by (rule commit_Ok) simp
    from run_keeps [OF run] r rev have "ps_revision (lp_state p') = rev" by simp
    moreover from run_lengths [OF run] ne obtain n ns where "numbers = n # ns" by (cases numbers) auto
    moreover have "delta_consistent (lp_state p) sealed deltas nst" using run_consistent [OF run] deltas by blast
    with swap_Ok [OF store(1) r(3)] issued_commit store(2) a have "admissions (lp_store p') key = admission" by simp
    ultimately show thesis
      using a runs out by (intro that) (auto simp: replayed_outcome_def and_then_Ok_iff)
  qed
qed

end

section \<open>Replay\<close>

text \<open>A store whose lookups do not fail.\<close>

locale readable_store = ledger_store +
  assumes lookup_total: "sound s \<Longrightarrow> so_lookup_idempotency ops s key = Ok (admissions s key)"
begin

lemma admission_replays:
  assumes "admit_batch_idempotent_digest H ops p clock key records digest = Some (Ok out, p')"
    and store: "sound (lp_store p)" "state_of (lp_store p) = Some (lp_state p)" and "evolves H ops p' history q"
  shows "admit_batch_idempotent_digest H ops q clock' key records' digest'
    = Some (if digest' = digest then Ok (out\<lparr>ao_sealed := [], ao_replayed := True\<rparr>)
        else Err IdempotencyConflict, q)"
proof -
  from admission_remembered [OF assms(1) store] obtain a where
    a: "admissions (lp_store p') key = Some a" "ir_request_sha256 a = digest"
      "replayed_outcome a = Ok (out\<lparr>ao_sealed := [], ao_replayed := True\<rparr>)" .
  have "valid_idempotency_key key"
    using assms(1) by (cases "valid_idempotency_key key") (simp_all add: admit_batch_idempotent_digest_def)
  have "sound (lp_store p') \<and> state_of (lp_store p') = Some (lp_state p')"
    using admit_batch_idempotent_digest_result [OF assms(1)] store untouched_views(1-3) committed_revision(3)
    by (fastforce simp: op_result_def)
  with evolves_admissions [OF assms(4) _ _ a(1)] have "sound (lp_store q)" "admissions (lp_store q) key = Some a" by blast+
  with a \<open>valid_idempotency_key key\<close> show ?thesis
    by (simp add: admit_batch_idempotent_digest_def lookup_total)
qed

end

section \<open>Every operation returns\<close>

lemma apply_op_returns:
  assumes "policies_ok (lp_state p)"
  shows "\<exists>r p'. apply_op H ops clock op p = Some (r, p')"
proof -
  have pos: "intervals_positive (lp_state p)"
    using assms by (auto simp: policies_ok_def intervals_positive_def policy_validate_def)
  have ce: "\<exists>r ev'. close_expired H ev (lp_state p) now = Some (r, ev')" for ev now
    using close_expired_loop_returns [OF pos] by (metis close_expired_def surj_pair)
  have ab: "\<exists>q. admit_batch_inner H ops p clock records idem = Some q" for records idem
  proof (cases "and_then (validate_records 0 records) (\<lambda>_. safe_now (lp_state p) clock)")
    case (Inr now)
    with ce [of "lp_events p" now] show ?thesis by (auto simp: admit_batch_inner_def)
  qed (simp add: admit_batch_inner_def)
  then have ad: "\<exists>q. admit_batch_idempotent_digest H ops p clock key records digest = Some q" for key records digest
    by (auto simp: admit_batch_idempotent_digest_def split: sum.split option.split)
  have se: "\<exists>q. seal_expired_intervals H ops p clock = Some q"
  proof (cases "safe_now (lp_state p) clock")
    case (Inr now)
    with ce [of "lp_events p" now] show ?thesis by (auto simp: seal_expired_intervals_def Let_def)
  qed (simp add: seal_expired_intervals_def)
  have "apply_op H ops clock op p \<noteq> None"
    using ab ad se
    by (cases op) (auto simp: apply_op_def admit_def admit_idempotent_def admit_batch_idempotent_def)
  then show ?thesis by auto
qed

section \<open>The in-memory store\<close>

definition memory_empty :: memory_ledger_store where
  "memory_empty = \<lparr>ms_state = None, ms_sealed = [], ms_idempotency = [], ms_transitions = []\<rparr>"

lemma memory_swap_cases:
  assumes "memory_compare_and_swap m expected t = (r, m')"
  obtains (refused) "r = Err ConcurrentWriter" "m' = m"
  | (swapped) "r = Ok ()" "map_option ps_revision (ms_state m) = expected"
      "ms_state m' = Some (lt_next_state t)"
      "ms_sealed m' = bt_collect (ms_sealed m) (map (\<lambda>s. (ss_segment_number s, s)) (lt_sealed t))"
      "case lt_idempotency t of None \<Rightarrow> ms_idempotency m' = ms_idempotency m
        | Some a \<Rightarrow> bt_get (ir_key a) (ms_idempotency m) = None
            \<and> ms_idempotency m' = bt_insert (ir_key a) a (ms_idempotency m)"
proof (cases "r = Ok ()")
  case True
  with assms show thesis by (intro swapped) (auto simp: memory_compare_and_swap_def split: if_splits option.splits)
next
  case False
  with assms show thesis by (intro refused) (auto simp: memory_compare_and_swap_def split: if_splits)
qed

interpretation memory: readable_store memory_store ms_state
  "\<lambda>m key. bt_get key (ms_idempotency m)" "\<lambda>m n. bt_get n (ms_sealed m)" "\<lambda>_. True"
proof
  fix s expected t s'
  assume "so_compare_and_swap memory_store s expected t = (Ok (), s')"
  then have "memory_compare_and_swap s expected t = (Ok (), s')" by (simp add: memory_store_def)
  then show "map_option ps_revision (ms_state s) = expected" by (cases rule: memory_swap_cases) simp_all
next
  fix s expected t s'
  assume "so_compare_and_swap memory_store s expected t = (Ok (), s')"
  then have "memory_compare_and_swap s expected t = (Ok (), s')" by (simp add: memory_store_def)
  then show "True \<and> ms_state s' = Some (lt_next_state t)
    \<and> (\<lambda>n. bt_get n (ms_sealed s')) = (\<lambda>n. bt_get n (ms_sealed s))
        ++ map_of (rev (map (\<lambda>g. (ss_segment_number g, g)) (lt_sealed t)))
    \<and> (case lt_idempotency t of
         None \<Rightarrow> (\<lambda>key. bt_get key (ms_idempotency s')) = (\<lambda>key. bt_get key (ms_idempotency s))
       | Some a \<Rightarrow> bt_get (ir_key a) (ms_idempotency s) = None
          \<and> (\<lambda>key. bt_get key (ms_idempotency s')) = (\<lambda>key. bt_get key (ms_idempotency s))(ir_key a \<mapsto> a))"
    by (cases rule: memory_swap_cases)
      (auto simp: bt_get_def map_of_bt_collect fun_eq_iff map_add_def rev_map split: option.splits)
next
  fix s expected t e s'
  assume "so_compare_and_swap memory_store s expected t = (Err e, s')"
  then have "memory_compare_and_swap s expected t = (Err e, s')" by (simp add: memory_store_def)
  then show "True \<and> ms_state s' = ms_state s
    \<and> (\<lambda>key. bt_get key (ms_idempotency s')) = (\<lambda>key. bt_get key (ms_idempotency s))
    \<and> (\<lambda>n. bt_get n (ms_sealed s')) = (\<lambda>n. bt_get n (ms_sealed s))"
    by (cases rule: memory_swap_cases) auto
qed (simp_all add: memory_store_def)

lemma memory_swap_refused:
  "so_compare_and_swap memory_store s expected t = (Err e, s') \<Longrightarrow> s' = s"
  unfolding memory_store_def by (auto elim: memory_swap_cases)

lemma memory_untouched: "untouched memory_store p p' \<Longrightarrow> lp_state p' = lp_state p \<and> lp_store p' = lp_store p"
  using memory_swap_refused unfolding untouched_def by blast

text \<open>The sealed segments in key order are the segments in the order they were sealed.\<close>

definition stored_segments :: "memory_ledger_store ledger_producer \<Rightarrow> sealed_segment list" where
  "stored_segments p = map snd (ms_sealed (lp_store p))"

lemma keyed_by_position:
  fixes m :: "(u64, 'v) btree"
  assumes "sorted_wrt (<) (map fst m)" and "length xs < 2 ^ 64"
    and get: "\<And>n. bt_get n m = (if unat n < length xs then Some (xs ! unat n) else None)"
  shows "map snd m = xs"
proof -
  let ?ks = "map (word_of_nat :: nat \<Rightarrow> u64) [0..<length xs]"
  have ks: "unat (word_of_nat i :: u64) = i" if "i < length xs" for i
    using that assms(2) by (simp add: unat_of_nat take_bit_nat_eq_self)
  have "set (map fst m) = dom (map_of m)" by (simp add: dom_map_of_conv_image_fst)
  also have "\<dots> = {n. unat n < length xs}" using get by (auto simp: bt_get_def dom_def)
  also have "\<dots> = set ?ks"
  proof (intro set_eqI iffI)
    fix n :: u64
    assume "n \<in> {n. unat n < length xs}"
    then show "n \<in> set ?ks" by (auto intro!: image_eqI [of _ _ "unat n"])
  qed (use ks in auto)
  finally have "set (map fst m) = set ?ks" .
  moreover have "sorted_wrt (<) ?ks"
    using ks by (auto simp: sorted_wrt_iff_nth_less word_less_nat_alt)
  ultimately have keys: "map fst m = ?ks"
    using assms(1) by (intro sorted_distinct_set_unique) (simp_all add: strict_sorted_iff)
  have "map snd m = map (\<lambda>k. the (map_of m k)) (map fst m)"
    using assms(1) by (auto simp: strict_sorted_iff intro!: map_cong)
  also have "\<dots> = xs" unfolding keys using get ks by (auto simp: bt_get_def intro!: nth_equalityI)
  finally show ?thesis .
qed

lemma memory_reachable:
  assumes "reachable H memory_store memory_empty history p" and "\<forall>x. length (H x) = 32"
  shows "memory.ledger_inv H history (stored_segments p) p"
proof -
  from assms obtain segs where inv: "memory.ledger_inv H history segs p"
    by (elim memory.reachable_inv) (simp_all add: memory_empty_def bt_get_def fun_eq_iff)
  from assms(1) obtain clock ledger_id site_id policy p0 s where
    op: "open_or_create memory_store memory_empty clock ledger_id site_id policy = (Ok p0, s)"
    and ev: "evolves H memory_store p0 history p"
    unfolding reachable_def by blast
  let ?Q = "\<lambda>m. sorted_wrt (<) (map fst (ms_sealed m))"
  have st0: "ms_state (lp_store p0) = Some (lp_state p0)"
  proof -
    have "memory.ledger_inv H [] [] p0"
      by (rule memory.created_inv [OF _ _ op]) (simp_all add: memory_empty_def bt_get_def fun_eq_iff)
    then show ?thesis by (simp add: memory.ledger_inv_def)
  qed
  have "ms_sealed (lp_store p0) = []"
    using op by (auto simp: open_or_create_def memory_store_def memory_empty_def memory_compare_and_swap_def Let_def
        split: sum.splits if_splits)
  moreover have "?Q s'" if "so_compare_and_swap memory_store s x t = (r, s')" "?Q s" for s x t r s'
    using that by (auto simp: memory_store_def sorted_bt_collect elim!: memory_swap_cases)
  ultimately have "?Q (lp_store p)"
    using memory.evolves_store [where Q = ?Q, OF ev TrueI st0] by simp
  moreover have "length segs < 2 ^ 64"
  proof -
    from inv have "length segs = unat (ps_next_segment_number (lp_state p))"
      by (simp add: memory.ledger_inv_def chained_def)
    then show ?thesis using unat_u64_less [of "ps_next_segment_number (lp_state p)"] by simp
  qed
  ultimately have "stored_segments p = segs"
    unfolding stored_segments_def using inv by (intro keyed_by_position) (simp_all add: memory.ledger_inv_def)
  with inv show ?thesis by simp
qed

end
