(* ===== verification/Gateway_Fleet.thy ===== *)
theory Gateway_Fleet
  imports Gateway_History
begin

text \<open>
  Several producers over one store.  Each keeps the state it last loaded or committed and acts on the shared store, in
  any interleaving; a producer that fell behind is refused by the compare-and-swap, so the records a store holds are
  the records the producers reported, in the order of the operations that reported them.
\<close>

section \<open>Opening\<close>

lemma open_store: "open_or_create ops s clock ledger_id site_id policy = (Ok p, s') \<Longrightarrow> lp_store p = s'"
  by (auto simp: open_or_create_def Let_def split: sum.splits if_splits option.splits prod.splits)

lemma commit_swaps:
  "commit ops p nst sealed a ds = (r, q) \<Longrightarrow> lp_store q = lp_store p \<or>
     (\<exists>x t r'. so_compare_and_swap ops (lp_store p) x t = (r', lp_store q) \<and> (is_ok r' \<longleftrightarrow> is_ok r))"
  by (fastforce simp: commit_def Let_def is_ok_def split: option.splits prod.splits sum.splits)

definition one_swap :: "'s store_ops \<Rightarrow> 's \<Rightarrow> bool \<Rightarrow> 's \<Rightarrow> bool" where
  "one_swap ops s succeeds s' \<longleftrightarrow> s' = s \<or> (\<exists>x t r. so_compare_and_swap ops s x t = (r, s') \<and> (is_ok r \<longleftrightarrow> succeeds))"

lemma one_swap_stay [simp]: "one_swap ops s b s"
  by (simp add: one_swap_def)

lemma one_swap_made: "so_compare_and_swap ops s x t = (r, s') \<Longrightarrow> one_swap ops s (is_ok r) s'"
  unfolding one_swap_def by blast

lemma reactivate_swaps: "reactivate ops p clock = (r, q) \<Longrightarrow> one_swap ops (lp_store p) (is_ok r) (lp_store q)"
  using commit_swaps [of ops p] by (auto simp: reactivate_def one_swap_def Let_def split: if_splits sum.splits)

text \<open>Opening leaves the store as it is or makes one swap.\<close>

lemma open_swaps:
  assumes "open_or_create ops s clock ledger_id site_id policy = (r, s')"
  shows "one_swap ops s (is_ok r) s'"
  using assms
  by (auto simp: open_or_create_def Let_def split: sum.splits if_splits option.splits prod.splits
      dest!: reactivate_swaps one_swap_made)

section \<open>Several producers\<close>

context ledger_store
begin

text \<open>A ledger with the producers that are open on it: each holds the stored state or one of an earlier revision.\<close>

definition fleet_inv :: "(bytes \<Rightarrow> bytes) \<Rightarrow> bytes list \<Rightarrow> 's \<Rightarrow> 's ledger_producer list \<Rightarrow> bool" where
  "fleet_inv H history s ps \<longleftrightarrow>
     state_of s = None \<and> segments s = Map.empty \<and> sound s \<and> history = [] \<and> ps = []
     \<or> (\<exists>segs st ev. ledger_inv H history segs \<lparr>lp_store = s, lp_state = st, lp_events = ev\<rparr>
         \<and> (\<forall>p \<in> set ps. lp_state p = st \<or> unat (ps_revision (lp_state p)) < unat (ps_revision st)))"

lemma ledger_inv_events: "ledger_inv H history segs (p\<lparr>lp_events := ev\<rparr>) \<longleftrightarrow> ledger_inv H history segs p"
  by (simp add: ledger_inv_def)

lemma ledger_inv_rebuild:
  "ledger_inv H history segs p \<Longrightarrow>
   ledger_inv H history segs \<lparr>lp_store = lp_store p, lp_state = lp_state p, lp_events = ev\<rparr>"
  by (simp add: ledger_inv_def)

lemma fleet_inv_views:
  assumes "fleet_inv H history s ps" and "sound s'" "state_of s' = state_of s" "segments s' = segments s"
  shows "fleet_inv H history s' ps"
  using assms by (auto simp: fleet_inv_def ledger_inv_def)

lemma fleet_invI:
  assumes "ledger_inv H history segs \<lparr>lp_store = s, lp_state = st, lp_events = ev\<rparr>"
    and "\<And>p. p \<in> set ps \<Longrightarrow> lp_state p = st \<or> unat (ps_revision (lp_state p)) < unat (ps_revision st)"
  shows "fleet_inv H history s ps"
  using assms unfolding fleet_inv_def by blast

lemma fleet_sound: "fleet_inv H history s ps \<Longrightarrow> sound s"
  by (auto simp: fleet_inv_def ledger_inv_def)

lemma open_refused:
  assumes "open_or_create ops s clock ledger_id site_id policy = (Err e, s')" and "sound s"
  shows "sound s' \<and> state_of s' = state_of s \<and> segments s' = segments s"
proof -
  from open_swaps [OF assms(1)] consider "s' = s" | x t r where "so_compare_and_swap ops s x t = (r, s')" "\<not> is_ok r"
    by (auto simp: one_swap_def)
  then show ?thesis
  proof cases
    case 2
    then obtain e' where "r = Err e'" by (cases r) auto
    with 2 assms(2) swap_Err show ?thesis by blast
  qed (simp add: assms(2))
qed

lemma fleet_join:
  assumes inv: "fleet_inv H history s ps" and "open_or_create ops s clock ledger_id site_id policy = (Ok p, s')"
    and H: "\<And>x. length (H x) = 32"
  shows "fleet_inv H history s' (ps @ [p])"
proof (cases "state_of s")
  case None
  with inv have "segments s = Map.empty" "sound s" "history = []" "ps = []" by (auto simp: fleet_inv_def ledger_inv_def)
  with created_inv [OF None _ assms(2)] have "ledger_inv H history [] p" by simp
  with open_store [OF assms(2)] \<open>ps = []\<close> show ?thesis
    by (auto simp: fleet_inv_def dest: ledger_inv_rebuild)
next
  case (Some st)
  with inv obtain segs ev where old: "ledger_inv H history segs \<lparr>lp_store = s, lp_state = st, lp_events = ev\<rparr>"
    and ps: "\<forall>p \<in> set ps. lp_state p = st \<or> unat (ps_revision (lp_state p)) < unat (ps_revision st)"
    by (auto simp: fleet_inv_def ledger_inv_def)
  let ?p = "\<lparr>lp_store = s, lp_state = st, lp_events = default_events\<rparr>"
  have sound: "sound s" using inv by (rule fleet_sound)
  from reopened_result(1) [OF Some assms(2) sound, of H] consider "untouched ops ?p p" | "committed H ops ?p [] p"
    by (auto simp: op_result_def)
  then have "lp_state p = st \<or> unat (ps_revision st) < unat (ps_revision (lp_state p))"
  proof cases
    case 1
    then show ?thesis by (simp add: untouched_def)
  next
    case 2
    from committed_revision(2) [OF this] sound show ?thesis by simp
  qed
  moreover obtain sealed where "ledger_inv H history (segs @ sealed) p"
    using reopened_inv [OF H old, of clock ledger_id site_id policy p s'] assms(2) by auto
  from ledger_inv_rebuild [OF this] open_store [OF assms(2)]
  have "ledger_inv H history (segs @ sealed) \<lparr>lp_store = s', lp_state = lp_state p, lp_events = ev\<rparr>" by simp
  then show ?thesis by (rule fleet_invI) (use ps calculation in auto)
qed

text \<open>An operation of one of them: it acts on the shared store.\<close>

lemma fleet_act:
  assumes inv: "fleet_inv H history s ps" and i: "i < length ps"
    and op: "apply_op H ops clock op ((ps ! i)\<lparr>lp_store := s\<rparr>) = Some (r, p')" and H: "\<And>x. length (H x) = 32"
  shows "fleet_inv H (history @ reported r) (lp_store p') (ps[i := p'])"
proof -
  let ?p = "(ps ! i)\<lparr>lp_store := s\<rparr>"
  have sound: "sound (lp_store ?p)" using fleet_sound [OF inv] by simp
  from inv i obtain segs st ev where old: "ledger_inv H history segs \<lparr>lp_store = s, lp_state = st, lp_events = ev\<rparr>"
    and ps: "\<forall>p \<in> set ps. lp_state p = st \<or> unat (ps_revision (lp_state p)) < unat (ps_revision st)"
    by (auto simp: fleet_inv_def)
  note res = apply_op_result [OF op]
  show ?thesis
  proof (cases "lp_state ?p = st")
    case True
    with old have "ledger_inv H history segs ?p" by (simp add: ledger_inv_def)
    from op_result_inv [OF H this res] obtain sealed where "ledger_inv H (history @ reported r) (segs @ sealed) p'" ..
    from ledger_inv_rebuild [OF this] have "ledger_inv H (history @ reported r) (segs @ sealed)
      \<lparr>lp_store = lp_store p', lp_state = lp_state p', lp_events = ev\<rparr>" .
    moreover have "lp_state p' = st \<or> unat (ps_revision st) < unat (ps_revision (lp_state p'))"
      using res committed_revision(2) [OF _ sound] True
      by (cases r) (fastforce simp: op_result_def untouched_def)+
    with ps have "\<forall>q \<in> set (ps[i := p']). lp_state q = lp_state p' \<or> unat (ps_revision (lp_state q)) < unat (ps_revision (lp_state p'))"
      by (auto dest!: set_update_subset_insert [THEN subsetD])
    ultimately show ?thesis by (intro fleet_invI) auto
  next
    case False
    with ps i have "unat (ps_revision (lp_state ?p)) < unat (ps_revision st)" by auto
    moreover have "state_of (lp_store ?p) = Some st" using old by (simp add: ledger_inv_def)
    ultimately have stale: "\<not> committed H ops ?p xs p'" for xs
      using committed_revision(1) [of H ?p xs p'] sound by auto
    with res have "untouched ops ?p p'" "reported r = []" by (cases r; simp add: op_result_def reported_def)+
    with untouched_views [OF _ sound] fleet_inv_views [OF inv] have "fleet_inv H (history @ reported r) (lp_store p') ps"
      and "lp_state p' = lp_state (ps ! i)" by auto
    moreover from this i have "lp_state ` set (ps[i := p']) \<subseteq> lp_state ` set ps"
      by (auto dest!: set_update_subset_insert [THEN subsetD])
    ultimately show ?thesis using i unfolding fleet_inv_def by (fastforce simp: image_subset_iff)
  qed
qed

end

text \<open>Producers open on one store, act on it in any order, and are abandoned; a producer keeps its own state between its
  operations and shares the store.\<close>

inductive fleet ::
  "(bytes \<Rightarrow> bytes) \<Rightarrow> 's store_ops \<Rightarrow> 's \<Rightarrow> bytes list \<Rightarrow> 's \<Rightarrow> 's ledger_producer list \<Rightarrow> bool"
  for H :: "bytes \<Rightarrow> bytes" and ops :: "'s store_ops" and s0 :: 's where
  idle: "fleet H ops s0 [] s0 []"
| opened: "fleet H ops s0 history s ps \<Longrightarrow> open_or_create ops s clock ledger_id site_id policy = (Ok p, s') \<Longrightarrow>
    fleet H ops s0 history s' (ps @ [p])"
| refused: "fleet H ops s0 history s ps \<Longrightarrow> open_or_create ops s clock ledger_id site_id policy = (Err e, s') \<Longrightarrow>
    fleet H ops s0 history s' ps"
| acted: "fleet H ops s0 history s ps \<Longrightarrow> i < length ps \<Longrightarrow>
    apply_op H ops clock op ((ps ! i)\<lparr>lp_store := s\<rparr>) = Some (r, p') \<Longrightarrow>
    fleet H ops s0 (history @ reported r) (lp_store p') (ps[i := p'])"

context ledger_store
begin

lemma fleet_reaches:
  assumes "fleet H ops s0 history s ps" and H: "\<And>x. length (H x) = 32"
    and "state_of s0 = None" "segments s0 = Map.empty" "sound s0"
  shows "fleet_inv H history s ps"
  using assms(1)
proof (induction rule: fleet.induct)
  case idle
  then show ?case using assms(3-5) by (simp add: fleet_inv_def)
next
  case (opened history s ps clock ledger_id site_id policy p s')
  then show ?case using fleet_join H by blast
next
  case (refused history s ps clock ledger_id site_id policy e s')
  with open_refused fleet_sound fleet_inv_views show ?case by metis
next
  case (acted history s ps i clock op r p')
  then show ?case using fleet_act H by blast
qed

text \<open>A producer that fell behind reports nothing as admitted.\<close>

lemma stale_reports:
  assumes "apply_op H ops clock op p = Some (r, p')"
    and "map_option ps_revision (state_of (lp_store p)) \<noteq> Some (ps_revision (lp_state p))" and "sound (lp_store p)"
  shows "reported r = []"
proof -
  have "\<not> committed H ops p xs p'" for xs
    using committed_revision(1) [of H p xs p'] assms(2,3) by blast
  with apply_op_result [OF assms(1)] show ?thesis by (cases r) (simp_all add: op_result_def reported_def)
qed

text \<open>A property of stores that every swap keeps.\<close>

lemma fleet_store:
  assumes "fleet H ops s0 history s ps" and "Q s0" and H: "\<And>x. length (H x) = 32"
    and "state_of s0 = None" "segments s0 = Map.empty" "sound s0"
    and swap: "\<And>s x t r s'. so_compare_and_swap ops s x t = (r, s') \<Longrightarrow> Q s \<Longrightarrow> Q s'"
  shows "Q s"
  using assms(1)
proof (induction rule: fleet.induct)
  case (opened history s ps clock ledger_id site_id policy p s')
  with swap show ?case by (auto dest!: open_swaps simp: one_swap_def)
next
  case (refused history s ps clock ledger_id site_id policy e s')
  with swap show ?case by (auto dest!: open_swaps simp: one_swap_def)
next
  case (acted history s ps i clock op r p')
  then show ?case using op_result_store [where Q = Q, OF apply_op_result [OF acted(3)]] swap by simp
qed (rule assms(2))

end

section \<open>The in-memory store\<close>

lemma memory_fleet:
  assumes "fleet H memory_store memory_empty history s ps" and "\<forall>x. length (H x) = 32"
  shows "ms_state s = None \<and> history = [] \<and> ms_sealed s = [] \<and> ps = []
    \<or> (\<exists>st ev. ms_state s = Some st \<and> memory.ledger_inv H history (map snd (ms_sealed s)) \<lparr>lp_store = s, lp_state = st, lp_events = ev\<rparr>
      \<and> (\<forall>p \<in> set ps. lp_state p = st \<or> unat (ps_revision (lp_state p)) < unat (ps_revision st)))"
proof -
  have empty: "ms_state memory_empty = None" "(\<lambda>n. bt_get n (ms_sealed memory_empty)) = Map.empty"
    by (simp_all add: memory_empty_def bt_get_def fun_eq_iff)
  have H: "length (H x) = 32" for x using assms(2) by blast
  have inv: "memory.fleet_inv H history s ps"
    by (rule memory.fleet_reaches [OF assms(1) H empty TrueI])
  let ?Q = "\<lambda>m. sorted_wrt (<) (map fst (ms_sealed m))"
  have "?Q s'" if "so_compare_and_swap memory_store s x t = (r, s')" "?Q s" for s x t r s'
    using that by (auto simp: memory_store_def sorted_bt_collect elim!: memory_swap_cases)
  with memory.fleet_store [where Q = ?Q, OF assms(1) _ H empty TrueI] have sorted: "?Q s" by (simp add: memory_empty_def)
  from inv consider (new) "ms_state s = None" "history = []" "ps = []" "(\<lambda>n. bt_get n (ms_sealed s)) = Map.empty"
    | (ledger) segs st ev where "memory.ledger_inv H history segs \<lparr>lp_store = s, lp_state = st, lp_events = ev\<rparr>"
      "\<forall>p \<in> set ps. lp_state p = st \<or> unat (ps_revision (lp_state p)) < unat (ps_revision st)"
    by (auto simp: memory.fleet_inv_def)
  then show ?thesis
  proof cases
    case new
    then have "ms_sealed s = []" by (cases "ms_sealed s") (auto simp: bt_get_def fun_eq_iff split: if_splits)
    with new show ?thesis by simp
  next
    case ledger
    then have "ms_state s = Some st" and len: "length segs = unat (ps_next_segment_number st)"
      by (simp_all add: memory.ledger_inv_def chained_def)
    have "map snd (ms_sealed s) = segs"
      using sorted len unat_u64_less [of "ps_next_segment_number st"] ledger(1)
      by (intro keyed_by_position) (simp_all add: memory.ledger_inv_def)
    with ledger \<open>ms_state s = Some st\<close> show ?thesis by auto
  qed
qed

text \<open>A store that refuses every write as one with a newer revision does.\<close>

definition refusing_store :: "memory_ledger_store store_ops" where
  "refusing_store = memory_store\<lparr>so_compare_and_swap := (\<lambda>m expected t. (Err ConcurrentWriter, m))\<rparr>"

lemma stale_commit:
  assumes "map_option ps_revision (ms_state (lp_store p)) \<noteq> Some (ps_revision (lp_state p))"
  shows "commit memory_store p = commit refusing_store p"
proof (intro ext)
  fix nst sealed a ds
  have "so_compare_and_swap memory_store (lp_store p) (Some (ps_revision (lp_state p))) t = (Err ConcurrentWriter, lp_store p)"
    "so_compare_and_swap refusing_store (lp_store p) x t = (Err ConcurrentWriter, lp_store p)" for x t
    using assms by (simp_all add: refusing_store_def memory_store_def memory_compare_and_swap_def)
  then show "commit memory_store p nst sealed a ds = commit refusing_store p nst sealed a ds"
    by (cases "checked_add (ps_revision (lp_state p)) 1") (simp_all add: commit_def Let_def)
qed

lemma stale_apply_op:
  assumes "map_option ps_revision (ms_state (lp_store p)) \<noteq> Some (ps_revision (lp_state p))"
  shows "apply_op H memory_store clock op p = apply_op H refusing_store clock op p"
proof -
  have c: "commit memory_store (p\<lparr>lp_events := ev\<rparr>) = commit refusing_store (p\<lparr>lp_events := ev\<rparr>)" "commit memory_store p = commit refusing_store p" for ev
    using assms by (simp_all add: stale_commit)
  have l: "so_lookup_idempotency refusing_store = so_lookup_idempotency memory_store"
    by (simp add: refusing_store_def)
  have t: "transition H memory_store p clock now reason pol = transition H refusing_store p clock now reason pol" for now reason pol
    unfolding transition_def Let_def c by simp
  have a: "admit_batch_inner H memory_store p clock records idem = admit_batch_inner H refusing_store p clock records idem" for records idem
    unfolding admit_batch_inner_def finish_admission_def c by simp
  have d: "admit_batch_idempotent_digest H memory_store p clock key records digest
      = admit_batch_idempotent_digest H refusing_store p clock key records digest" for key records digest
    unfolding admit_batch_idempotent_digest_def a l by simp
  show ?thesis
    unfolding apply_op_def recover_def reactivate_def update_policy_def close_def seal_expired_intervals_def admit_def
      admit_idempotent_def admit_batch_idempotent_def Let_def t a d c by simp
qed

end
