(* ===== verification/Gateway_Properties.thy ===== *)
theory Gateway_Properties
  imports Gateway_Fleet
begin

text \<open>
  The properties of the gateway's producer, on the in-memory store of the source and for every digest
  of 32 bytes: the ledger is an append-only log cut into segments, its artifacts are one hash chain, a
  failed or a stale operation changes nothing, every operation returns, and a keyed admission is
  replayed.
\<close>

section \<open>The abstract log\<close>

text \<open>The specification: batches of records that are closed, and the batch that is open.  A step
  appends a record to the open batch or closes it.\<close>

type_synonym ledger_log = "bytes list list \<times> bytes list"

inductive log_steps :: "ledger_log \<Rightarrow> bytes list \<Rightarrow> ledger_log \<Rightarrow> bool" for start :: ledger_log where
  stay: "log_steps start [] start"
| append: "log_steps start admitted (done_batches, current) \<Longrightarrow> log_steps start (admitted @ [x]) (done_batches, current @ [x])"
| cut: "log_steps start admitted (done_batches, current) \<Longrightarrow> log_steps start admitted (done_batches @ [current], [])"

definition log_of :: "memory_ledger_store ledger_producer \<Rightarrow> ledger_log" where
  "log_of p = (map ss_records (stored_segments p), open_records (lp_state p))"

text \<open>An interleaving of the model is a run of the specification; an empty interval that is suppressed
  is no step of it.\<close>

lemma run_log_steps:
  "run H st0 admitted numbers sealed st \<Longrightarrow>
   log_steps (done_batches, open_records st0) admitted (done_batches @ map ss_records sealed, open_records st)"
proof (induction rule: run.induct)
  case start
  then show ?case by (simp add: log_steps.stay)
next
  case (seal admitted numbers sealed st t reason seg st')
  from seal(2) show ?case
  proof (cases rule: construct_segment_Ok)
    case skipped
    with seal.IH show ?thesis by simp
  next
    case (sealed s bs n)
    with log_steps.cut [OF seal.IH] show ?thesis by simp
  qed
next
  case (push admitted numbers sealed st x c)
  with log_steps.append [OF push.IH, of x] show ?case by simp
qed

section \<open>A concrete ledger\<close>

text \<open>Operations applied in order at one clock reading, all of them successful.\<close>

fun apply_all ::
  "(bytes \<Rightarrow> bytes) \<Rightarrow> 's store_ops \<Rightarrow> clock_reading \<Rightarrow> producer_op list \<Rightarrow> 's ledger_producer
     \<Rightarrow> (bytes list \<times> 's ledger_producer) option" where
  "apply_all H ops clock [] p = Some ([], p)"
| "apply_all H ops clock (op # rest) p =
     (case apply_op H ops clock op p of
        Some (Inr xs, p) \<Rightarrow> map_option (\<lambda>(ys, p). (xs @ ys, p)) (apply_all H ops clock rest p)
      | _ \<Rightarrow> None)"

lemma apply_all_evolves:
  assumes "apply_all H ops clock xs p = Some (added, p')" and "evolves H ops p0 history p"
  shows "evolves H ops p0 (history @ added) p'"
  using assms
proof (induction xs arbitrary: p history added)
  case (Cons op rest)
  from Cons.prems(1) obtain r q where op: "apply_op H ops clock op p = Some (r, q)"
    by (auto split: option.splits)
  from Cons.prems(1) op obtain ys zs where r: "r = Ok ys" "apply_all H ops clock rest q = Some (zs, p')"
    "added = ys @ zs" by (auto split: sum.splits)
  from Cons.IH [OF r(2) evolves.step [OF Cons.prems(2) op]] r show ?case by (simp add: reported_def)
qed simp

definition example_clock :: clock_reading where
  "example_clock = \<lparr>cr_now_ms = Ok 0, cr_continuity_id = 1\<rparr>"

definition example_opened :: "memory_ledger_store ledger_producer producer_result \<times> memory_ledger_store" where
  "example_opened = open_or_create memory_store memory_empty example_clock
     ''00112233445566778899aabbccddeeff'' ''site'' example_policy"

definition example_ops :: "producer_op list" where
  "example_ops = [OpAdmitBatchIdempotent ''key'' [example_record] [1], OpClose Manual]"

definition example_end :: "(bytes list \<times> memory_ledger_store ledger_producer) option" where
  "example_end = (case fst example_opened of Inl _ \<Rightarrow> None
     | Inr p \<Rightarrow> apply_all pad_digest memory_store example_clock example_ops p)"

lemma example_end_evaluates:
  "case example_end of None \<Rightarrow> False
   | Some (history, p) \<Rightarrow> history = [example_record] \<and> map ss_records (stored_segments p) = [[example_record]]
       \<and> map ss_artifact_cbor (stored_segments p) = [disclosed_artifact]
       \<and> open_records (lp_state p) = [] \<and> ps_next_segment_number (lp_state p) = 1"
  by code_simp

lemma example_opens:
  assumes "example_end = Some (history, p)"
  obtains p0 where "reachable pad_digest memory_store memory_empty [] p0"
    "apply_all pad_digest memory_store example_clock example_ops p0 = Some (history, p)"
proof -
  from assms obtain p0 where p0: "fst example_opened = Ok p0"
    and all: "apply_all pad_digest memory_store example_clock example_ops p0 = Some (history, p)"
    by (auto simp: example_end_def split: sum.splits)
  from p0 have "open_or_create memory_store memory_empty example_clock
     ''00112233445566778899aabbccddeeff'' ''site'' example_policy = (Ok p0, snd example_opened)"
    by (simp add: example_opened_def prod_eq_iff)
  with evolves.refl have "reachable pad_digest memory_store memory_empty [] p0"
    unfolding reachable_def by blast
  with all show thesis by (intro that)
qed

text \<open>A second producer opened before the first one acts: it is behind afterwards.\<close>

lemma example_second:
  "case fst example_opened of Inl _ \<Rightarrow> False
   | Inr p \<Rightarrow> (case open_or_create memory_store (lp_store p) example_clock
        ''00112233445566778899aabbccddeeff'' ''site'' example_policy of
       (Inr q, s) \<Rightarrow> s = lp_store p | _ \<Rightarrow> False)"
  by code_simp

lemma apply_all_fleet:
  assumes "apply_all H ops clock xs p = Some (added, p')" and "fleet H ops s0 history (lp_store p) (p # qs)"
  shows "fleet H ops s0 (history @ added) (lp_store p') (p' # qs)"
  using assms
proof (induction xs arbitrary: p history added)
  case (Cons op rest)
  from Cons.prems(1) obtain ys q zs where op: "apply_op H ops clock op p = Some (Ok ys, q)"
    and rest: "apply_all H ops clock rest q = Some (zs, p')" "added = ys @ zs"
    by (auto split: option.splits sum.splits)
  have "fleet H ops s0 (history @ reported (Ok ys)) (lp_store q) ((p # qs)[0 := q])"
    by (rule fleet.acted [OF Cons.prems(2)]) (use op in auto)
  with Cons.IH [OF rest(1), of "history @ ys"] rest(2) show ?case by (simp add: reported_def)
qed simp

lemma example_fleet:
  obtains s p q where "fleet pad_digest memory_store memory_empty [example_record] s [p, q]"
proof -
  from example_end_evaluates obtain p where e: "example_end = Some ([example_record], p)"
    by (auto split: option.splits)
  then obtain p0 where p0: "fst example_opened = Ok p0"
    and all: "apply_all pad_digest memory_store example_clock example_ops p0 = Some ([example_record], p)"
    by (auto simp: example_end_def split: sum.splits)
  from p0 have "open_or_create memory_store memory_empty example_clock
     ''00112233445566778899aabbccddeeff'' ''site'' example_policy = (Ok p0, snd example_opened)"
    by (simp add: example_opened_def prod_eq_iff)
  from fleet.opened [OF fleet.idle this] open_store [OF this]
  have first: "fleet pad_digest memory_store memory_empty [] (lp_store p0) [p0]" by simp
  from example_second p0 obtain q where "open_or_create memory_store (lp_store p0) example_clock
     ''00112233445566778899aabbccddeeff'' ''site'' example_policy = (Ok q, lp_store p0)"
    by (auto split: prod.splits sum.splits)
  from fleet.opened [OF first this] have "fleet pad_digest memory_store memory_empty [] (lp_store p0) [p0, q]" by simp
  from apply_all_fleet [OF all this] show thesis by (intro that) simp
qed

lemma example_reached:
  obtains p where "reachable pad_digest memory_store memory_empty [example_record] p"
    "map ss_records (stored_segments p) = [[example_record]]" "open_records (lp_state p) = []"
    "ps_next_segment_number (lp_state p) = 1" "map ss_artifact_cbor (stored_segments p) = [disclosed_artifact]"
proof -
  from example_end_evaluates obtain p where e: "example_end = Some ([example_record], p)"
    and p: "map ss_records (stored_segments p) = [[example_record]]" "open_records (lp_state p) = []"
      "ps_next_segment_number (lp_state p) = 1" "map ss_artifact_cbor (stored_segments p) = [disclosed_artifact]"
    by (auto split: option.splits)
  obtain p0 where p0: "reachable pad_digest memory_store memory_empty [] p0"
    and all: "apply_all pad_digest memory_store example_clock example_ops p0 = Some ([example_record], p)"
    using e by (rule example_opens)
  with apply_all_evolves [OF all] have "reachable pad_digest memory_store memory_empty [example_record] p"
    unfolding reachable_def by (metis append_Nil)
  with p show thesis by (intro that)
qed

section \<open>Properties\<close>

text \<open>C1: Whatever producers are opened on an empty store, and in whatever order their operations, failures and restarts
  interleave on it, each producer with the state it last knew, the records of the sealed segments in order, followed by
  the records of the stored open interval, are exactly the records that operations reported as admitted, in the order of
  these operations: none is lost, duplicated or reordered.\<close>

theorem ledger_conserves_records:
  assumes "\<forall>x. length (H x) = 32" and "fleet H memory_store memory_empty history s ps"
  shows "concat (map ss_records (map snd (ms_sealed s)))
      @ (case ms_state s of None \<Rightarrow> [] | Some st \<Rightarrow> oi_records (ps_open st)) = history"
  using memory_fleet [OF assms(2,1)] by (auto simp: memory.ledger_inv_def)

theorem ledger_conserves_records_witness:
  "\<exists>s ps. fleet pad_digest memory_store memory_empty [example_record] s ps \<and> length ps = 2
    \<and> concat (map ss_records (map snd (ms_sealed s)))
      @ (case ms_state s of None \<Rightarrow> [] | Some st \<Rightarrow> oi_records (ps_open st)) = [example_record]"
proof -
  obtain s p q where f: "fleet pad_digest memory_store memory_empty [example_record] s [p, q]"
    by (rule example_fleet)
  moreover have "\<forall>x. length (pad_digest x) = 32" by simp
  ultimately show ?thesis using ledger_conserves_records [OF _ f] by (intro exI [of _ s] exI [of _ "[p, q]"]) simp
qed

text \<open>C4: In every reachable state the stored artifacts, newest first, are one hash chain of segments
  numbered from zero, each stored under its number and describing its own records (root, count,
  close reason and artifact digest), and the state carries the newest of them as predecessor.\<close>

theorem ledger_is_one_chain:
  assumes "\<forall>x. length (H x) = 32" and "reachable H memory_store memory_empty history p"
  shows "(stored_segments p = [] \<and> ps_predecessor_cbor (lp_state p) = None
       \<or> segment_chain H (rev (map ss_artifact_cbor (stored_segments p)))
         \<and> ps_predecessor_cbor (lp_state p) = Some (ss_artifact_cbor (last (stored_segments p))))
     \<and> list_all (describes H) (stored_segments p)
     \<and> unat (ps_next_segment_number (lp_state p)) = length (stored_segments p)"
proof -
  have inv: "chained H (lp_state p) (rev (map ss_artifact_cbor (stored_segments p)))"
    "list_all (describes H) (stored_segments p)"
    using memory_reachable [OF assms(2,1)] by (simp_all add: memory.ledger_inv_def)
  then show ?thesis by (cases "stored_segments p" rule: rev_cases) (simp_all add: chained_def)
qed

theorem ledger_is_one_chain_witness:
  "\<exists>p. length (stored_segments p) = 1 \<and> list_all (describes pad_digest) (stored_segments p)
    \<and> segment_chain pad_digest (rev (map ss_artifact_cbor (stored_segments p)))"
proof -
  obtain p where p: "reachable pad_digest memory_store memory_empty [example_record] p"
    "map ss_records (stored_segments p) = [[example_record]]" by (rule example_reached)
  have "length (map ss_records (stored_segments p)) = 1" by (simp only: p(2)) simp
  moreover from this have "stored_segments p \<noteq> []" by auto
  moreover have "\<forall>x. length (pad_digest x) = 32" by simp
  ultimately show ?thesis using ledger_is_one_chain [OF _ p(1)] by (metis length_map)
qed

text \<open>C3: The producer refines the append-only log: each operation that succeeds is a run of appends
  and cuts of the abstract log that appends exactly the records the operation admits, and each one
  that fails leaves the log as it is.\<close>

theorem operation_refines_append_only_log:
  assumes "\<forall>x. length (H x) = 32" and "reachable H memory_store memory_empty history p"
    and "apply_op H memory_store clock op p = Some (r, p')"
  shows "log_steps (log_of p) (reported r) (log_of p')"
proof -
  note inv = memory_reachable [OF assms(2,1)]
  have "reachable H memory_store memory_empty (history @ reported r) p'"
    using assms(2,3) evolves.step unfolding reachable_def by blast
  note inv' = memory_reachable [OF this assms(1)]
  from apply_op_result [OF assms(3)] consider "untouched memory_store p p'" "reported r = []"
    | "committed H memory_store p (reported r) p'"
    by (cases r) (auto simp: op_result_def reported_def)
  then show ?thesis
  proof cases
    case 1
    with memory_untouched have "log_of p' = log_of p" by (simp add: log_of_def stored_segments_def)
    with 1 show ?thesis by (simp add: log_steps.stay)
  next
    case 2
    from memory.committed_inv [OF _ inv 2] assms(1) obtain numbers sealed st where
      run: "run H (lp_state p) (reported r) numbers sealed st"
      and st: "open_records (lp_state p') = open_records st"
      and "memory.ledger_inv H (history @ reported r) (stored_segments p @ sealed) p'"
      by blast
    with memory.ledger_inv_unique [OF inv'] have "stored_segments p' = stored_segments p @ sealed"
      by metis
    with run_log_steps [OF run, of "map ss_records (stored_segments p)"] st show ?thesis by (simp add: log_of_def)
  qed
qed

theorem operation_refines_append_only_log_witness:
  "\<exists>p p' r. apply_op pad_digest memory_store example_clock (OpAdmit example_record) p = Some (r, p')
    \<and> log_steps (log_of p) (reported r) (log_of p')"
proof -
  obtain p where p: "reachable pad_digest memory_store memory_empty [example_record] p"
    by (rule example_reached)
  then have "policies_ok (lp_state p)"
    using memory_reachable [OF p] by (simp add: memory.ledger_inv_def)
  then obtain r p' where
    "apply_op pad_digest memory_store example_clock (OpAdmit example_record) p = Some (r, p')"
    using apply_op_returns by blast
  with operation_refines_append_only_log [OF _ p this] show ?thesis by auto
qed

text \<open>C27: In every reachable state the open interval is below both limits of its policy, and its byte
  count is the number of bytes of its records.\<close>

theorem open_interval_below_limits:
  assumes "\<forall>x. length (H x) = 32" and "reachable H memory_store memory_empty history p"
  shows "(case cp_record_limit (oi_policy (ps_open (lp_state p))) of None \<Rightarrow> True
       | Some l \<Rightarrow> length (oi_records (ps_open (lp_state p))) < unat l)
     \<and> (case cp_size_limit_bytes (oi_policy (ps_open (lp_state p))) of None \<Rightarrow> True
       | Some l \<Rightarrow> oi_byte_count (ps_open (lp_state p)) < l)
     \<and> oi_byte_count (ps_open (lp_state p))
         = word_of_nat (sum_list (map length (oi_records (ps_open (lp_state p)))))"
proof -
  have "within_limits (lp_state p)" "byte_count_ok (lp_state p)"
    using memory_reachable [OF assms(2,1)] by (simp_all add: memory.ledger_inv_def)
  then show ?thesis
    by (auto simp: within_limits_def limit_reason_def byte_count_ok_def split: option.splits if_splits)
qed

theorem open_interval_below_limits_witness:
  "\<exists>p. reachable pad_digest memory_store memory_empty [example_record] p
    \<and> oi_byte_count (ps_open (lp_state p)) = 0"
proof -
  obtain p where p: "reachable pad_digest memory_store memory_empty [example_record] p"
    "open_records (lp_state p) = []" by (rule example_reached)
  from open_interval_below_limits [OF _ p(1)] p show ?thesis by auto
qed

text \<open>C24: An operation that returns an error leaves the producer's state and the store exactly as they
  were, whatever the error and wherever it arises.\<close>

theorem failed_operation_changes_nothing:
  assumes "apply_op H memory_store clock op p = Some (Err e, p')"
  shows "lp_state p' = lp_state p \<and> lp_store p' = lp_store p"
  using apply_op_result [OF assms] memory_untouched by (simp add: op_result_def)

theorem failed_operation_changes_nothing_witness:
  "\<exists>p p' e. apply_op pad_digest memory_store example_clock (OpAdmit [0]) p = Some (Err e, p')
    \<and> lp_store p' = lp_store p"
proof -
  let ?p = "\<lparr>lp_store = memory_empty, lp_state = initial_state ''l'' ''s'' example_policy example_clock 0,
    lp_events = default_events\<rparr>"
  have "\<exists>e. apply_op pad_digest memory_store example_clock (OpAdmit [0]) ?p = Some (Err e, ?p)"
  proof -
    have "case validate_records 0 [[0]] of Inl e \<Rightarrow> True | Inr _ \<Rightarrow> False" by code_simp
    then obtain e where "validate_records 0 [[0]] = Err e" by (auto split: sum.splits)
    then show ?thesis
      by (simp add: apply_op_def admit_def admit_batch_inner_def initial_state_def report_def and_then_def)
  qed
  then obtain e where e: "apply_op pad_digest memory_store example_clock (OpAdmit [0]) ?p = Some (Err e, ?p)"
    by blast
  from failed_operation_changes_nothing [OF e] e show ?thesis by blast
qed



text \<open>C7: In every reachable state every operation returns, with success or an error: the loop that
  closes elapsed intervals ends, because a valid policy has a positive interval.\<close>

theorem every_operation_returns:
  assumes "\<forall>x. length (H x) = 32" and "reachable H memory_store memory_empty history p"
  shows "\<exists>r p'. apply_op H memory_store clock op p = Some (r, p')"
  using memory_reachable [OF assms(2,1)] by (intro apply_op_returns) (simp add: memory.ledger_inv_def)

theorem every_operation_returns_witness:
  "\<exists>p r p'. reachable pad_digest memory_store memory_empty [example_record] p
    \<and> apply_op pad_digest memory_store \<lparr>cr_now_ms = Ok 5000, cr_continuity_id = 1\<rparr> OpSealExpired p = Some (r, p')"
proof -
  obtain p where p: "reachable pad_digest memory_store memory_empty [example_record] p"
    by (rule example_reached)
  with every_operation_returns [OF _ p] show ?thesis by auto
qed

text \<open>C26: Once a batch was admitted under a key, every later admission under that key, after any
  operations and restarts, returns the same outcome marked as replayed when the request digest is the
  same, and a conflict otherwise; it admits nothing and leaves the producer as it is.\<close>

theorem keyed_admission_replays:
  assumes "\<forall>x. length (H x) = 32" and "reachable H memory_store memory_empty history p"
    and "admit_batch_idempotent H memory_store p clock key records envelope = Some (Ok out, p')"
    and "evolves H memory_store p' added q"
  shows "admit_batch_idempotent H memory_store q clock' key records' envelope'
    = Some (if H envelope' = H envelope then Ok (out\<lparr>ao_sealed := [], ao_replayed := True\<rparr>)
        else Err IdempotencyConflict, q)"
proof -
  have "ms_state (lp_store p) = Some (lp_state p)"
    using memory_reachable [OF assms(2,1)] by (simp add: memory.ledger_inv_def)
  moreover have "sha256_hex H envelope' = sha256_hex H envelope \<longleftrightarrow> H envelope' = H envelope"
    by (simp add: sha256_hex_def)
  ultimately show ?thesis
    using memory.admission_replays [OF _ _ _ assms(4)] assms(3) by (simp add: admit_batch_idempotent_def)
qed

theorem keyed_admission_replays_witness:
  "\<exists>q out. admit_batch_idempotent pad_digest memory_store q example_clock ''key'' [] [1]
      = Some (Ok (out\<lparr>ao_sealed := [], ao_replayed := True\<rparr>), q)
    \<and> admit_batch_idempotent pad_digest memory_store q example_clock ''key'' [] [2]
      = Some (Err IdempotencyConflict, q)"
proof -
  from example_end_evaluates obtain h p where e: "example_end = Some (h, p)" by (auto split: option.splits)
  then obtain p0 where p0: "reachable pad_digest memory_store memory_empty [] p0"
    and all: "apply_all pad_digest memory_store example_clock example_ops p0 = Some (h, p)"
    by (rule example_opens)
  from all obtain xs ys p1 where
    a: "apply_op pad_digest memory_store example_clock (OpAdmitBatchIdempotent ''key'' [example_record] [1]) p0
      = Some (Ok xs, p1)"
    and c: "apply_op pad_digest memory_store example_clock (OpClose Manual) p1 = Some (Ok ys, p)"
    by (auto simp: example_ops_def split: option.splits sum.splits)
  from a obtain out where out: "admit_batch_idempotent pad_digest memory_store p0 example_clock ''key''
      [example_record] [1] = Some (Ok out, p1)"
    by (auto simp: apply_op_def report_def split: sum.splits) (metis obj_sumE)
  have "evolves pad_digest memory_store p1 ([] @ reported (Ok ys)) p"
    by (rule evolves.step [OF evolves.refl c])
  note r = keyed_admission_replays [OF _ p0 out this]
  have "pad_digest [2] \<noteq> pad_digest [1]" by code_simp
  with r [of example_clock "[]" "[1]"] r [of example_clock "[]" "[2]"] show ?thesis by auto
qed

end
