(* ===== verification/Evidence_Soundness.thy ===== *)
theory Evidence_Soundness
  imports Evidence_Bundle
begin

text \<open>
  Soundness of the evidence verifier: when a bundle is verified at the public scope without a failure,
  the disclosed records are canonical and their tree has the committed root.  Failures are never
  withdrawn, so clean conclusions mean that every check passed.
\<close>

section \<open>Failures are never withdrawn\<close>

lemma fail_simps [simp]:
  "cl_failures (fail r c) = insert r (cl_failures c)" "cl_scope (fail r c) = cl_scope c"
  "cl_tsa_status (fail r c) = cl_tsa_status c" "cl_chain_status (fail r c) = cl_chain_status c"
  "cl_tsa_reason (fail r c) = cl_tsa_reason c"
  by (simp_all add: fail_def)

lemma index_openings_mono:
  "index_openings k os numbers indexed c = (numbers', indexed', c') \<Longrightarrow>
     cl_failures c \<subseteq> cl_failures c' \<and> cl_scope c' = cl_scope c"
  by (induction k os numbers indexed c rule: index_openings.induct)
    (auto split: option.splits if_splits)

lemma index_openings_clean:
  "index_openings k os numbers indexed c = (numbers', indexed', c') \<Longrightarrow> cl_failures c' = {} \<Longrightarrow>
     c' = c \<and> (\<exists>ns. map (\<lambda>op. parse_uint64 (ob_batch_number op)) os = map Some ns \<and> distinct ns \<and> set ns \<inter> numbers = {}
       \<and> (\<forall>n \<in> set ns. unat n < k) \<and> numbers' = numbers \<union> set ns \<and> indexed' = indexed @ zip ns os)"
proof (induction k os numbers indexed c rule: index_openings.induct)
  case (2 k op os numbers indexed c)
  show ?case
  proof (cases "parse_uint64 (ob_batch_number op)")
    case None
    with 2 index_openings_mono show ?thesis by fastforce
  next
    case (Some n)
    show ?thesis
    proof (cases "unat n \<ge> k \<or> n \<in> numbers")
      case True
      with 2 Some index_openings_mono show ?thesis by fastforce
    next
      case False
      from 2(3)[OF Some False] 2(4,5) Some False obtain ns where
        "c' = c" "map (\<lambda>op. parse_uint64 (ob_batch_number op)) os = map Some ns" "distinct ns"
        "set ns \<inter> insert n numbers = {}" "\<forall>n \<in> set ns. unat n < k"
        "numbers' = insert n numbers \<union> set ns" "indexed' = (indexed @ [(n, op)]) @ zip ns os"
        by auto
      with Some False show ?thesis by (intro conjI exI [of _ "n # ns"]) auto
    qed
  qed
qed auto

lemma check_adjacent_mono: "cl_failures c \<subseteq> cl_failures (check_adjacent l c) \<and> cl_scope (check_adjacent l c) = cl_scope c"
  by (induction l c rule: check_adjacent.induct) auto

lemma sorted_le_last: "sorted xs \<Longrightarrow> x \<in> set xs \<Longrightarrow> x \<le> last xs"
  by (cases xs rule: rev_cases) (auto simp: sorted_append)

lemma check_adjacent_sorted:
  assumes "cl_failures (check_adjacent l c) = {}" and "map fst l = [k..<k + length l]"
    and "\<forall>leaves \<in> snd ` set l. leaves \<noteq> [] \<and> sorted leaves"
  shows "sorted (concat (map snd l))"
  using assms
proof (induction l c arbitrary: k rule: check_adjacent.induct)
  case (1 n leaves n' leaves' rest c)
  have n: "n = k" "n' = Suc k" "map fst ((n', leaves') # rest) = [Suc k..<Suc k + length ((n', leaves') # rest)]"
    using 1(3) by (simp_all add: upt_rec [of k] upt_rec [of "Suc k"] del: upt_Suc)
  let ?c = "if n + 1 = n' \<and> leaves \<noteq> [] \<and> leaves' \<noteq> [] \<and> last leaves > hd leaves'
    then fail ''commitment_mismatch'' c else c"
  from 1(2) have "cl_failures (check_adjacent ((n', leaves') # rest) ?c) = {}" by simp
  moreover from this have le: "last leaves \<le> hd leaves'"
    using check_adjacent_mono [of ?c "(n', leaves') # rest"] n 1(4) by (auto split: if_splits)
  ultimately have s: "sorted (concat (map snd ((n', leaves') # rest)))"
    using 1(1)[OF _ n(3)] 1(4) by auto
  have "x \<le> last leaves" if "x \<in> set leaves" for x
    using that 1(4) by (intro sorted_le_last) auto
  moreover have "hd leaves' \<le> y" if "y \<in> set (concat (map snd ((n', leaves') # rest)))" for y
    using that s 1(4) by (cases leaves') auto
  ultimately show ?case using s le 1(4) by (force simp: sorted_append)
qed simp_all

section \<open>Opened batches\<close>

text \<open>The records a list of references resolves to.\<close>

definition resolves :: "(bytes \<Rightarrow> bytes) \<Rightarrow> evidence_env \<Rightarrow> artifact_ref list \<Rightarrow> bytes list \<Rightarrow> bool" where
  "resolves H env refs records \<longleftrightarrow> list_all2 (\<lambda>reference r. referenced_artifact H env reference = Ok r) refs records"

definition canonical_records :: "bytes list \<Rightarrow> bool" where
  "canonical_records records \<longleftrightarrow> (\<forall>r \<in> set records. is_ok (validate_canonical_record r))"

abbreviation leaf :: "(bytes \<Rightarrow> bytes) \<Rightarrow> bytes \<Rightarrow> bytes" where
  "leaf H \<equiv> prefixed_hash H 0"

lemma opening_leaves_clean:
  "opening_leaves H env refs pending = Ok (leaves, pending') \<Longrightarrow> pending' = {} \<Longrightarrow>
     pending = {} \<and> (\<exists>records. resolves H env refs records \<and> canonical_records records \<and> leaves = map (leaf H) records)"
proof (induction H env refs pending arbitrary: leaves rule: opening_leaves.induct)
  case (2 H env reference rest pending)
  from 2(2) obtain r leaves' where r: "referenced_artifact H env reference = Ok r"
    and rec: "opening_leaves H env rest (case validate_canonical_record r of
        Inl error \<Rightarrow> insert (record_failure error) pending | Inr _ \<Rightarrow> pending) = Ok (leaves', pending')"
    and l: "leaves = H (0 # r) # leaves'"
    by (auto simp: and_then_Ok_iff Let_def)
  from 2(1)[OF r refl rec 2(3)] obtain records where
    p: "(case validate_canonical_record r of Inl error \<Rightarrow> insert (record_failure error) pending | Inr _ \<Rightarrow> pending) = {}"
    and records: "resolves H env rest records" "canonical_records records" "leaves' = map (leaf H) records" by blast
  from p have "is_ok (validate_canonical_record r)" "pending = {}" by (auto split: sum.splits)
  with r records l show ?case
    by (intro conjI exI [of _ "r # records"]) (simp_all add: resolves_def canonical_records_def prefixed_hash_def)
qed (simp add: resolves_def canonical_records_def)

lemma open_batches_mono:
  "open_batches H env segment consume indexed opened c = (opened', c') \<Longrightarrow>
     cl_failures c \<subseteq> cl_failures c' \<and> cl_scope c' = cl_scope c"
  by (induction H env segment consume indexed opened c rule: open_batches.induct)
    (force simp: Let_def split: if_splits sum.splits evidence_error.splits prod.splits)+

text \<open>What a clean opening establishes of one batch.\<close>

definition opened_batch ::
  "(bytes \<Rightarrow> bytes) \<Rightarrow> evidence_env \<Rightarrow> segment_record \<Rightarrow> indexed_opening \<Rightarrow> bytes list \<Rightarrow> bool" where
  "opened_batch H env segment op records \<longleftrightarrow>
     resolves H env (ob_records (snd op)) records \<and> canonical_records records
     \<and> count_is (expected_opening_count segment (length (sr_batch_roots segment)) (fst op)) (length records)
     \<and> mth H (sort (map (leaf H) records)) = sr_batch_roots segment ! unat (fst op)"

lemma open_batches_clean:
  "open_batches H env segment consume indexed opened c = (opened', c') \<Longrightarrow> cl_failures c' = {} \<Longrightarrow>
   fst ` set indexed \<subseteq> consume \<Longrightarrow>
     c' = c \<and> (\<exists>batches. list_all2 (opened_batch H env segment) indexed batches
       \<and> opened' = opened @ map2 (\<lambda>op records. (unat (fst op), sort (map (leaf H) records))) indexed batches)"
proof (induction indexed arbitrary: opened c)
  case (Cons entry rest)
  obtain number op where entry [simp]: "entry = (number, op)" by (cases entry)
  have mem: "number \<in> consume" and sub: "fst ` set rest \<subseteq> consume" using Cons.prems(3) by auto
  show ?case
  proof (cases "opening_leaves H env (ob_records op) {}")
    case (Inl e)
    with Cons.prems mem have "\<exists>r. open_batches H env segment consume rest opened (fail r c) = (opened', c')"
      by (auto split: evidence_error.splits)
    with open_batches_mono Cons.prems(2) show ?thesis by fastforce
  next
    case (Inr r)
    then obtain leaves pending where r: "opening_leaves H env (ob_records op) {} = Ok (leaves, pending)"
      by (cases r) auto
    let ?expected = "expected_opening_count segment (length (sr_batch_roots segment)) number"
    let ?c = "c\<lparr>cl_failures := cl_failures c \<union> pending\<rparr>"
    let ?root = "merkle_root_from_leaf_hashes H (sort leaves) \<noteq> sr_batch_roots segment ! unat number"
    let ?c' = "if ?root then fail ''commitment_mismatch'' ?c else ?c"
    show ?thesis
    proof (cases "count_is ?expected (length leaves)")
      case False
      with Cons.prems(1) mem r
      have "open_batches H env segment consume rest opened (fail ''insufficient_disclosure'' c) = (opened', c')"
        by simp
      with open_batches_mono Cons.prems(2) show ?thesis by fastforce
    next
      case count: True
      with Cons.prems(1) mem r
      have step: "open_batches H env segment consume rest (opened @ [(unat number, sort leaves)]) ?c' = (opened', c')"
        by (simp add: Let_def)
      with open_batches_mono Cons.prems(2) have clean: "cl_failures ?c' = {}" by fastforce
      then have "\<not> ?root" and p: "pending = {}" "cl_failures c = {}" by (auto split: if_splits)
      then have c': "?c' = c" by simp
      from opening_leaves_clean [OF r p(1)] obtain records where
        records: "resolves H env (ob_records op) records" "canonical_records records" "leaves = map (leaf H) records"
        by blast
      obtain batches where "c' = c" "list_all2 (opened_batch H env segment) rest batches"
        "opened' = (opened @ [(unat number, sort leaves)])
            @ map2 (\<lambda>op records. (unat (fst op), sort (map (leaf H) records))) rest batches"
        using Cons.IH [of "opened @ [(unat number, sort leaves)]" c] step Cons.prems(2) sub c' by auto
      moreover have "opened_batch H env segment (number, op) records"
        using records count \<open>\<not> ?root\<close> by (simp add: opened_batch_def merkle_root_from_leaf_hashes_def)
      ultimately show ?thesis
        using records(3) by (intro conjI exI [of _ "records # batches"]) simp_all
    qed
  qed
qed simp

section \<open>Soundness of the public scope\<close>

definition openings_of :: "manifest \<Rightarrow> record_batch_opening list" where
  "openings_of m = (case at_record_batches (mf_artifacts m) of None \<Rightarrow> [] | Some os \<Rightarrow> os)"

text \<open>The records in batch \<open>i\<close> of a segment.\<close>

definition batch_size :: "segment_record \<Rightarrow> nat \<Rightarrow> nat" where
  "batch_size s i = (let l = unat (cp_batch_record_limit (sr_closure_policy s)) in
     min l (unat (sr_record_count s) - i * l))"

lemma segment_batches:
  assumes "validate_detailed H s = Ok ()" and "sr_record_count s \<noteq> 0"
  shows "0 < unat (cp_batch_record_limit (sr_closure_policy s))"
    and "length (sr_batch_roots s) = (unat (sr_record_count s) - 1) div unat (cp_batch_record_limit (sr_closure_policy s)) + 1"
proof -
  let ?l = "cp_batch_record_limit (sr_closure_policy s)"
  from validate_detailed_Ok(3)[OF assms(1)] show l: "0 < unat ?l" by (auto simp: policy_validate_Ok_iff)
  then have nz: "?l \<noteq> 0" by auto
  have "length (sr_batch_roots s) = unat (1 + (sr_record_count s - 1) div ?l)"
    using assms by (auto simp: validate_detailed_def Let_def split: if_splits)
  also have "\<dots> = (unat (sr_record_count s) + unat ?l - 1) div unat ?l" by (rule expected_roots [OF assms(2) nz])
  also have "unat (sr_record_count s) + unat ?l - 1 = unat (sr_record_count s) - 1 + unat ?l"
    using assms(2) unat_gt_0 [of "sr_record_count s"] by linarith
  finally show "length (sr_batch_roots s) = (unat (sr_record_count s) - 1) div unat ?l + 1" using l by simp
qed

lemma expected_opening_count_size:
  assumes "validate_detailed H s = Ok ()" and "sr_record_count s \<noteq> 0" and "unat n < length (sr_batch_roots s)"
  shows "count_is (expected_opening_count s (length (sr_batch_roots s)) n) k \<longleftrightarrow> k = batch_size s (unat n)"
    and "0 < batch_size s (unat n)"
proof -
  let ?l = "unat (cp_batch_record_limit (sr_closure_policy s))" and ?rc = "unat (sr_record_count s)"
  note b = segment_batches [OF assms(1,2)]
  have rc: "0 < ?rc" using assms(2) by (simp add: unat_gt_0)
  have "unat n * ?l \<le> (?rc - 1) div ?l * ?l" using assms(3) b(2) by simp
  also have "\<dots> \<le> ?rc - 1" by (rule div_times_less_eq_dividend)
  finally have below: "unat n * ?l < ?rc" using rc by simp
  then show "0 < batch_size s (unat n)" using b(1) by (simp add: batch_size_def Let_def)
  have small: "unat n * ?l < 18446744073709551616"
    using below unat_u64_less [of "sr_record_count s"] by linarith
  have mul: "checked_mul n (cp_batch_record_limit (sr_closure_policy s))
      = Some (n * cp_batch_record_limit (sr_closure_policy s))"
    "unat (n * cp_batch_record_limit (sr_closure_policy s)) = unat n * ?l"
    using small unat_mult_lem [of n "cp_batch_record_limit (sr_closure_policy s)"] by (simp_all add: checked_mul_def)
  show "count_is (expected_opening_count s (length (sr_batch_roots s)) n) k \<longleftrightarrow> k = batch_size s (unat n)"
  proof (cases "unat n + 1 = length (sr_batch_roots s)")
    case True
    then have "unat n = (?rc - 1) div ?l" using b(2) by simp
    then have "?rc - unat n * ?l \<le> ?l"
      using b(1) dividend_less_div_times [of ?l "?rc - 1"] by (simp add: mult.commute)
    with True assms(3) mul below show ?thesis
      by (auto simp: expected_opening_count_def count_is_def batch_size_def checked_sub_def word_le_nat_alt
          unat_sub Let_def)
  next
    case False
    then have "unat n + 1 \<le> (?rc - 1) div ?l" using assms(3) b(2) by simp
    then have "(unat n + 1) * ?l \<le> (?rc - 1) div ?l * ?l" by (rule mult_le_mono1)
    also have "\<dots> \<le> ?rc - 1" by (rule div_times_less_eq_dividend)
    finally have "?l \<le> ?rc - unat n * ?l" by simp
    with False assms(3) show ?thesis by (auto simp: expected_opening_count_def count_is_def batch_size_def Let_def)
  qed
qed

lemma batch_sizes_sum:
  assumes "k * unat (cp_batch_record_limit (sr_closure_policy s)) \<le> unat (sr_record_count s)
    + unat (cp_batch_record_limit (sr_closure_policy s)) - 1"
  shows "sum_list (map (batch_size s) [0..<k]) = min (unat (sr_record_count s)) (k * unat (cp_batch_record_limit (sr_closure_policy s)))"
  using assms
proof (induction k)
  case (Suc k)
  then show ?case by (auto simp: batch_size_def Let_def min_def)
qed simp

lemma all_batches_cover:
  assumes "validate_detailed H s = Ok ()" and "sr_record_count s \<noteq> 0"
  shows "sum_list (map (batch_size s) [0..<length (sr_batch_roots s)]) = unat (sr_record_count s)"
proof -
  let ?l = "unat (cp_batch_record_limit (sr_closure_policy s))" and ?rc = "unat (sr_record_count s)"
  let ?d = "(?rc - 1) div ?l"
  note b = segment_batches [OF assms]
  have rc: "0 < ?rc" using assms(2) by (simp add: unat_gt_0)
  have "?d * ?l \<le> ?rc - 1" by (rule div_times_less_eq_dividend)
  moreover have "?rc - 1 < ?d * ?l + ?l" using dividend_less_div_times [OF b(1), of "?rc - 1"] by (simp add: add.commute)
  moreover have "(?d + 1) * ?l = ?d * ?l + ?l" by (simp add: algebra_simps)
  ultimately have "(?d + 1) * ?l \<le> ?rc + ?l - 1" "?rc \<le> (?d + 1) * ?l" using rc by linarith+
  with batch_sizes_sum [of "?d + 1" s] show ?thesis unfolding b(2) by (simp del: upt_Suc)
qed

lemma resolves_concat:
  "list_all2 (resolves H env) refs records \<Longrightarrow> resolves H env (concat refs) (concat records)"
  by (induction rule: list_all2_induct) (simp_all add: resolves_def list_all2_appendI)

lemma mset_concat_sort_key: "mset (concat (map snd (sort_key fst xs))) = mset (concat (map snd xs))"
proof -
  have "image_mset mset (mset (map snd (sort_key fst xs))) = image_mset mset (mset (map snd xs))" by simp
  then show ?thesis unfolding mset_concat by (metis mset_map sum_mset_sum_list)
qed

text \<open>All batches are open: distinct numbers below the number of batches, as many as there are.\<close>

lemma sorted_numbers:
  assumes "distinct ns" and "\<forall>n \<in> set ns. unat (n :: u64) < k" and "length ns = k"
  shows "sort (map unat ns) = [0..<k]"
proof -
  have d: "distinct (map unat ns)" using assms(1) by (simp add: distinct_map inj_on_def word_unat_eq_iff)
  have "set (map unat ns) = {0..<k}"
  proof (rule card_subset_eq)
    show "card (set (map unat ns)) = card {0..<k}" using d assms(3) by (metis distinct_card length_map card_atLeastLessThan minus_nat.diff_0)
  qed (use assms(2) in auto)
  then show ?thesis using d by (intro sorted_distinct_set_unique) simp_all
qed

lemma map_fst_sort_key: "distinct (map fst xs) \<Longrightarrow> map fst (sort_key fst xs) = sort (map fst xs)"
  by (intro sorted_distinct_set_unique) (auto simp: distinct_map inj_on_def)

lemma sort_eq_Nil [simp]: "sort xs = [] \<longleftrightarrow> xs = []"
  by (metis length_0_conv length_sort)

lemma all_batches_open:
  assumes seg: "validate_detailed H s = Ok ()" "sr_record_count s \<noteq> 0"
    and ns: "distinct ns" "\<forall>n \<in> set ns. unat n < length (sr_batch_roots s)" "length ns = length (sr_batch_roots s)"
    and os: "length os = length ns" and b: "list_all2 (opened_batch H env s) (zip ns os) batches"
    and opened: "opened = map2 (\<lambda>op records. (unat (fst op), sort (map (leaf H) records))) (zip ns os) batches"
    and adjacent: "cl_failures (check_adjacent (sort_key fst opened) c) = {}"
  shows "resolves H env (concat (map ob_records os)) (concat batches)"
    and "canonical_records (concat batches)"
    and "length (concat batches) = unat (sr_record_count s)"
    and "concat (map snd (sort_key fst opened)) = sort (map (leaf H) (concat batches))"
proof -
  let ?k = "length (sr_batch_roots s)"
  have len: "length batches = length ns" using list_all2_lengthD [OF b] os by simp
  have nth: "opened_batch H env s (ns ! i, os ! i) (batches ! i)" if "i < length ns" for i
    using b that os by (simp add: list_all2_conv_all_nth)
  have "list_all2 (resolves H env) (map ob_records os) batches"
    using nth os len by (simp add: list_all2_conv_all_nth opened_batch_def)
  then show "resolves H env (concat (map ob_records os)) (concat batches)" by (rule resolves_concat)
  have "canonical_records records" if "records \<in> set batches" for records
    using nth len that by (auto simp: in_set_conv_nth [of _ batches] opened_batch_def)
  then show "canonical_records (concat batches)" by (auto simp: canonical_records_def)
  have size: "length (batches ! i) = batch_size s (unat (ns ! i))" "batches ! i \<noteq> []" if "i < length ns" for i
    using nth [OF that] ns(2) that expected_opening_count_size(1) [OF seg, of "ns ! i" "length (batches ! i)"]
      expected_opening_count_size(2) [OF seg, of "ns ! i"]
    by (auto simp: opened_batch_def)
  have fst_opened: "map fst opened = map unat ns" using os len opened by (simp add: list_eq_iff_nth_eq)
  have snd_opened: "map snd opened = map (\<lambda>records. sort (map (leaf H) records)) batches"
    using os len opened by (simp add: list_eq_iff_nth_eq)
  note sorted = sorted_numbers [OF ns(1,2,3)]
  have "map length batches = map (\<lambda>n. batch_size s (unat n)) ns" using size(1) len by (simp add: list_eq_iff_nth_eq)
  then have "length (concat batches) = sum_list (map (batch_size s) (map unat ns))"
    by (simp add: length_concat comp_def)
  also have "\<dots> = sum_mset (image_mset (batch_size s) (mset (map unat ns)))"
    by (simp add: multiset.map_comp flip: sum_mset_sum_list)
  also have "mset (map unat ns) = mset [0..<?k]" by (metis sorted mset_sort)
  also have "sum_mset (image_mset (batch_size s) (mset [0..<?k])) = sum_list (map (batch_size s) [0..<?k])"
    by (simp flip: sum_mset_sum_list)
  also have "\<dots> = unat (sr_record_count s)"
    using all_batches_cover [OF seg] by simp
  finally show "length (concat batches) = unat (sr_record_count s)" .
  have "sorted (concat (map snd (sort_key fst opened)))"
  proof (rule check_adjacent_sorted [OF adjacent])
    have "distinct (map fst opened)" using ns(1) by (simp add: fst_opened distinct_map inj_on_def word_unat_eq_iff)
    then have "map fst (sort_key fst opened) = [0..<?k]" by (simp add: map_fst_sort_key fst_opened sorted)
    moreover from this have "length (sort_key fst opened) = ?k" by (metis length_map length_upt minus_nat.diff_0)
    ultimately show "map fst (sort_key fst opened) = [0..<0 + length (sort_key fst opened)]" by simp
    have "snd ` set opened = (\<lambda>records. sort (map (leaf H) records)) ` set batches"
      using snd_opened by (metis set_map)
    then show "\<forall>leaves \<in> snd ` set (sort_key fst opened). leaves \<noteq> [] \<and> sorted leaves"
      using size(2) len by (auto simp: in_set_conv_nth)
  qed
  moreover have "mset (concat (map snd (sort_key fst opened))) = mset (map (leaf H) (concat batches))"
    unfolding mset_concat_sort_key snd_opened by (induction batches) simp_all
  ultimately show "concat (map snd (sort_key fst opened)) = sort (map (leaf H) (concat batches))"
    by (intro properties_for_sort [symmetric]) simp_all
qed

text \<open>What a clean check of the disclosure at the public scope establishes.\<close>

definition discloses ::
  "(bytes \<Rightarrow> bytes) \<Rightarrow> evidence_env \<Rightarrow> manifest \<Rightarrow> segment_record \<Rightarrow> bytes list \<Rightarrow> bool" where
  "discloses H env m segment records \<longleftrightarrow>
     resolves H env (concat (map ob_records (openings_of m))) records \<and> canonical_records records
     \<and> length records = unat (sr_record_count segment)
     \<and> mr_root (merkle_root_from_records H records) = sr_segment_root segment"

lemma disclosure_sound:
  assumes v: "validate_disclosure H env m segment policy c = (supported, c')" and clean: "cl_failures c' = {}"
    and scope: "cl_scope c = PublicRecompute" and seg: "validate_detailed H segment = Ok ()"
  shows "\<exists>records. discloses H env m segment records"
proof -
  let ?k = "length (sr_batch_roots segment)"
  obtain numbers indexed c1 where idx: "index_openings ?k (openings_of m) {} [] c = (numbers, indexed, c1)"
    by (metis prod_cases3)
  have sc1: "cl_scope c1 = PublicRecompute" using index_openings_mono [OF idx] scope by simp
  have shape: "disclosure_shape m segment (openings_of m) numbers"
    and consume: "consumed_batches policy m PublicRecompute ?k numbers = Some numbers"
    and cls: "mf_disclosure_class m = ''A''"
    using v clean sc1 idx
    by (auto simp: validate_disclosure_def openings_of_def consumed_batches_def Let_def split: if_splits)
  obtain opened c2 where op: "open_batches H env segment numbers indexed [] c1 = (opened, c2)"
    by (metis surj_pair)
  have sc2: "cl_scope c2 = PublicRecompute" using open_batches_mono [OF op] sc1 by simp
  let ?c3 = "check_adjacent (sort_key fst opened) c2"
  have sc3: "cl_scope ?c3 = PublicRecompute" using check_adjacent_mono sc2 by simp
  have c': "c' = (if 0 < sr_record_count segment
      \<and> merkle_root_from_leaf_hashes H (concat (map snd (sort_key fst opened))) \<noteq> sr_segment_root segment
      then fail ''commitment_mismatch'' ?c3 else ?c3)"
    using v clean sc1 sc3 idx op shape consume
    by (auto simp: validate_disclosure_def openings_of_def Let_def split: if_splits)
  then have adj: "cl_failures ?c3 = {}" using clean by (auto split: if_splits)
  then have c2: "cl_failures c2 = {}" using check_adjacent_mono [of c2] by blast
  then have c1: "cl_failures c1 = {}" using open_batches_mono [OF op] by blast
  from index_openings_clean [OF idx c1] obtain ns where
    ns: "map (\<lambda>op. parse_uint64 (ob_batch_number op)) (openings_of m) = map Some ns" "distinct ns"
      "\<forall>n \<in> set ns. unat n < ?k" "numbers = set ns" "indexed = zip ns (openings_of m)" by auto
  have len: "length (openings_of m) = length ns" using ns(1) by (metis length_map)
  show ?thesis
  proof (cases "sr_record_count segment = 0")
    case True
    with shape cls have "openings_of m = []" by (simp add: disclosure_shape_def Let_def)
    moreover have "sr_segment_root segment = H []"
      using seg True by (auto simp: validate_detailed_def split: if_splits)
    ultimately show ?thesis using True
      by (intro exI [of _ "[]"]) (simp add: discloses_def resolves_def canonical_records_def merkle_root_from_records_def mth.simps)
  next
    case False
    with shape cls have k: "length ns = ?k" using len by (simp add: disclosure_shape_def Let_def)
    have "fst ` set indexed \<subseteq> numbers" using ns(4,5) by (auto dest: set_zip_leftD)
    from open_batches_clean [OF op c2 this] obtain batches where
      b: "list_all2 (opened_batch H env segment) (zip ns (openings_of m)) batches"
      "opened = map2 (\<lambda>op records. (unat (fst op), sort (map (leaf H) records))) (zip ns (openings_of m)) batches"
      using ns(5) by auto
    note all = all_batches_open [OF seg False ns(2,3) k len b adj]
    have "merkle_root_from_leaf_hashes H (concat (map snd (sort_key fst opened))) = sr_segment_root segment"
      using c' clean False by (auto simp: word_gt_0 split: if_splits)
    with all show ?thesis
      by (intro exI [of _ "concat batches"])
        (simp add: discloses_def merkle_root_from_records_def merkle_root_from_leaf_hashes_def)
  qed
qed

section \<open>Whole bundles\<close>

lemma validate_chain_mono:
  "cl_failures c \<subseteq> cl_failures (validate_chain H env m segment c)"
  "cl_scope (validate_chain H env m segment c) = cl_scope c"
  by (auto simp: validate_chain_def split: option.splits sum.splits)

lemma evaluate_tsa_mono:
  "cl_failures c \<subseteq> cl_failures (evaluate_tsa H env m digest policy c)"
  "cl_scope (evaluate_tsa H env m digest policy c) = cl_scope c"
  by (auto simp: evaluate_tsa_def tsa_outcome_def Let_def split: option.splits sum.splits evidence_error.splits)

lemma validate_disclosure_mono:
  assumes "validate_disclosure H env m segment policy c = (supported, c')"
  shows "cl_failures c \<subseteq> cl_failures c'"
proof -
  obtain numbers indexed c1 where idx:
    "index_openings (length (sr_batch_roots segment)) (openings_of m) {} [] c = (numbers, indexed, c1)"
    by (metis prod_cases3)
  have "cl_failures c1 \<subseteq> cl_failures c'"
  proof (cases "consumed_batches policy m (cl_scope c1) (length (sr_batch_roots segment)) numbers")
    case None
    with assms idx show ?thesis
      by (auto simp: validate_disclosure_def openings_of_def Let_def split: if_splits)
  next
    case (Some consume)
    obtain opened c2 where op: "open_batches H env segment consume indexed [] c1 = (opened, c2)"
      by (metis surj_pair)
    with assms idx Some open_batches_mono [OF op] check_adjacent_mono [of c2 "sort_key fst opened"] show ?thesis
      by (auto simp: validate_disclosure_def openings_of_def Let_def split: if_splits)
  qed
  with index_openings_mono [OF idx] show ?thesis by blast
qed

definition selected_scope :: "manifest \<Rightarrow> verify_policy \<Rightarrow> verification_scope" where
  "selected_scope m policy =
     (case vp_selected_scope policy of None \<Rightarrow> for_disclosure_class (mf_disclosure_class m) | Some s \<Rightarrow> s)"

text \<open>Clean conclusions: the artifact is the referenced one, decodes to the segment the manifest names,
  its chain and its disclosure were checked without a failure.\<close>

lemma conclude_clean:
  assumes "cl_failures (conclude H env m policy artifact) = {}"
  obtains segment supported c' where "sha256_hex H artifact = rf_sha256 (at_segment_cbor (mf_artifacts m))"
    "decode_segment_record H artifact = Ok segment" "sr_ledger_id segment = mf_ledger_id m"
    "show_nat (unat (sr_segment_number segment)) = mf_segment_number m"
    "sr_commitment_profile_id segment = mf_commitment_profile_id m"
    "validate_disclosure H env m segment policy
       (validate_chain H env m segment (conclusions_new (selected_scope m policy))) = (supported, c')"
    "cl_failures c' = {}"
proof -
  let ?scope = "selected_scope m policy"
  let ?profile = "case decode_segment_profile_id artifact of Inl _ \<Rightarrow> None | Inr p \<Rightarrow> Some p"
  let ?c0 = "conclusions_new ?scope"
  let ?c1 = "if sha256_hex H artifact \<noteq> rf_sha256 (at_segment_cbor (mf_artifacts m)) then fail ''commitment_mismatch'' ?c0 else ?c0"
  let ?c2 = "if (case ?profile of None \<Rightarrow> False | Some value \<Rightarrow> value \<noteq> mf_commitment_profile_id m)
    then fail ''commitment_mismatch'' ?c1 else ?c1"
  obtain supported c3 where seg: "check_segment H env m policy artifact ?profile ?c2 = (supported, c3)"
    by (metis surj_pair)
  have "\<exists>c4. conclude H env m policy artifact = evaluate_tsa H env m (H artifact) policy c4 \<and> cl_failures c3 \<subseteq> cl_failures c4"
    using seg by (auto simp: conclude_def selected_scope_def Let_def)
  then obtain c4 where "conclude H env m policy artifact = evaluate_tsa H env m (H artifact) policy c4"
    and "cl_failures c3 \<subseteq> cl_failures c4" by blast
  then have c3: "cl_failures c3 = {}" using evaluate_tsa_mono(1)[of c4 H env m "H artifact" policy] assms by auto
  then obtain segment where d: "decode_segment_record H artifact = Ok segment"
    using seg by (auto simp: check_segment_def split: sum.splits if_splits segment_decode_error.splits)
  let ?matches = "sr_ledger_id segment = mf_ledger_id m \<and> show_nat (unat (sr_segment_number segment)) = mf_segment_number m
    \<and> sr_commitment_profile_id segment = mf_commitment_profile_id m"
  let ?c2' = "if ?matches then ?c2 else fail ''commitment_mismatch'' ?c2"
  have matches: ?matches
  proof (rule ccontr)
    assume "\<not> ?matches"
    with seg d have "c3 = validate_chain H env m segment (fail ''commitment_mismatch'' ?c2)"
      by (auto simp: check_segment_def Let_def)
    with validate_chain_mono(1)[of "fail ''commitment_mismatch'' ?c2" H env m segment] c3 show False by auto
  qed
  with seg d have v: "validate_disclosure H env m segment policy (validate_chain H env m segment ?c2) = (supported, c3)"
    by (auto simp: check_segment_def Let_def)
  then have "cl_failures ?c2 = {}"
    using validate_disclosure_mono [OF v] c3 validate_chain_mono(1)[of ?c2 H env m segment] by blast
  then have "?c2 = ?c0" and "sha256_hex H artifact = rf_sha256 (at_segment_cbor (mf_artifacts m))"
    by (auto split: if_splits)
  with v d matches c3 that show thesis by simp
qed

end
