(* ===== verification/Evidence_Properties.thy ===== *)
theory Evidence_Properties
  imports Evidence_Soundness
begin

text \<open>
  Completeness of the evidence verifier and its properties: the full disclosure of a segment, its
  records in leaf order cut into batches, is accepted at the public scope, so every sealed segment can
  be proved to an auditor.
\<close>

section \<open>Chunks\<close>

lemma nth_chunks:
  "i < length (chunks k xs) \<Longrightarrow> chunks k xs ! i = take k (drop (i * k) xs)"
proof (induction k xs arbitrary: i rule: chunks.induct)
  case (1 k xs)
  then show ?case by (cases i) (auto simp: chunks.simps [of k xs] drop_drop add.commute)
qed

lemma chunks_map: "chunks k (map f xs) = map (map f) (chunks k xs)"
proof (induction k xs rule: chunks.induct)
  case (1 k xs)
  then show ?case
    by (cases "k = 0 \<or> xs = []") (simp_all add: chunks.simps [of k xs] chunks.simps [of k "map f xs"] take_map drop_map)
qed

lemma parse_uint64_show_nat: "n < 2 ^ 64 \<Longrightarrow> parse_uint64 (show_nat n) = Some (word_of_nat n)"
proof -
  assume n: "n < 2 ^ 64"
  have "hd (show_nat n) = CHR ''0'' \<longrightarrow> show_nat n = ''0''"
  proof (induction n rule: show_nat.induct)
    case (1 n)
    show ?case
    proof (cases "n < 10")
      case True
      then show ?thesis by (subst show_nat.simps, subst (2) show_nat.simps) simp
    next
      case False
      have "show_nat (n div 10) \<noteq> ''0''"
      proof
        assume "show_nat (n div 10) = ''0''"
        then have "n div 10 = digits_value ''0''" by (metis digits_value_show_nat)
        with False show False by (simp add: digits_value_def digit_value_def)
      qed
      with 1 False have "hd (show_nat (n div 10)) \<noteq> CHR ''0''" by blast
      with False show ?thesis by (subst show_nat.simps) (simp add: hd_append)
    qed
  qed
  with n show "parse_uint64 (show_nat n) = Some (word_of_nat n)"
    using show_nat_digits [of n] by (auto simp: parse_uint64_def)
qed

text \<open>A decimal numeral is accepted exactly when it is the display of a 64-bit number.\<close>

lemma parse_uint64_Some_iff: "parse_uint64 s = Some n \<longleftrightarrow> s = show_nat (unat n)"
proof
  assume p: "parse_uint64 s = Some n"
  have zero: "list_all is_ascii_digit ''0''" by code_simp
  from p have "s \<noteq> []" "s = ''0'' \<or> hd s \<noteq> CHR ''0'' \<and> list_all is_ascii_digit s"
    by (auto simp: parse_uint64_def split: if_splits)
  with zero have "s = show_nat (digits_value s)"
    by (intro show_digits_value [symmetric]) auto
  moreover from p have "unat n = digits_value s"
    by (auto simp: parse_uint64_def unat_of_nat take_bit_nat_eq_self split: if_splits)
  ultimately show "s = show_nat (unat n)" by simp
next
  assume "s = show_nat (unat n)"
  then show "parse_uint64 s = Some n" using parse_uint64_show_nat [of "unat n"] by simp
qed

section \<open>Completeness\<close>

lemma index_openings_complete:
  "map (\<lambda>op. parse_uint64 (ob_batch_number op)) os = map Some ns \<Longrightarrow> distinct ns \<Longrightarrow> set ns \<inter> numbers = {} \<Longrightarrow>
   \<forall>n \<in> set ns. unat n < k \<Longrightarrow>
     index_openings k os numbers indexed c = (numbers \<union> set ns, indexed @ zip ns os, c)"
proof (induction os arbitrary: ns numbers indexed)
  case (Cons op os)
  from Cons.prems(1) obtain n ns' where ns: "ns = n # ns'" "parse_uint64 (ob_batch_number op) = Some n"
    "map (\<lambda>op. parse_uint64 (ob_batch_number op)) os = map Some ns'"
    by (cases ns) auto
  with Cons.prems Cons.IH [of ns' "insert n numbers" "indexed @ [(n, op)]"] show ?case by auto
qed auto

lemma opening_leaves_complete:
  assumes "resolves H env refs records" and "canonical_records records"
  shows "opening_leaves H env refs pending = Ok (map (leaf H) records, pending)"
  using assms
proof (induction refs arbitrary: records)
  case (Cons reference refs)
  then obtain r records' where r: "records = r # records'" "referenced_artifact H env reference = Ok r"
    "resolves H env refs records'" by (auto simp: resolves_def list_all2_Cons1)
  with Cons.prems(2) have "is_ok (validate_canonical_record r)" "canonical_records records'"
    by (auto simp: canonical_records_def)
  with r Cons.IH [of records'] show ?case by (auto simp: is_ok_iff prefixed_hash_def)
qed (simp add: resolves_def)

lemma open_batches_complete:
  assumes "list_all2 (opened_batch H env segment) indexed batches" and "fst ` set indexed \<subseteq> consume"
  shows "open_batches H env segment consume indexed opened c
    = (opened @ map2 (\<lambda>op records. (unat (fst op), sort (map (leaf H) records))) indexed batches, c)"
  using assms
proof (induction indexed batches arbitrary: opened rule: list_all2_induct)
  case (Cons entry indexed records batches)
  obtain n op where [simp]: "entry = (n, op)" by (cases entry)
  have "opening_leaves H env (ob_records op) {} = Ok (map (leaf H) records, {})"
    using Cons(1) by (intro opening_leaves_complete) (simp_all add: opened_batch_def)
  with Cons show ?case
    by (simp add: opened_batch_def merkle_root_from_leaf_hashes_def Let_def)
qed simp

lemma check_adjacent_complete:
  "sorted (concat (map snd l)) \<Longrightarrow> check_adjacent l c = c"
proof (induction l c rule: check_adjacent.induct)
  case (1 n leaves n' leaves' rest c)
  have "last leaves \<le> hd leaves'" if "leaves \<noteq> []" "leaves' \<noteq> []"
    using 1(2) last_in_set [OF that(1)] hd_in_set [OF that(2)] by (simp add: sorted_append)
  then have "\<not> (n + 1 = n' \<and> leaves \<noteq> [] \<and> leaves' \<noteq> [] \<and> last leaves > hd leaves')" by auto
  with 1 show ?case by (auto simp: sorted_append)
qed simp_all

text \<open>A segment that commits to a list of records, and a class A disclosure of those records: batch \<open>i\<close>
  is numbered \<open>i\<close> and holds the \<open>i\<close>-th run of records in the order of their leaf hashes.\<close>

definition commits_to :: "(bytes \<Rightarrow> bytes) \<Rightarrow> segment_record \<Rightarrow> bytes list \<Rightarrow> bool" where
  "commits_to H segment records \<longleftrightarrow>
     unat (sr_record_count segment) = length records
     \<and> batch_roots_from_leaf_hashes H (mr_leaf_hashes (merkle_root_from_records H records))
         (cp_batch_record_limit (sr_closure_policy segment)) = Some (sr_batch_roots segment)
     \<and> sr_segment_root segment = mr_root (merkle_root_from_records H records)"

definition full_disclosure :: "(bytes \<Rightarrow> bytes) \<Rightarrow> evidence_env \<Rightarrow> manifest \<Rightarrow> segment_record \<Rightarrow> bytes list \<Rightarrow> bool" where
  "full_disclosure H env m segment records \<longleftrightarrow>
     mf_disclosure_class m = ''A''
     \<and> map ob_batch_number (openings_of m) = map show_nat [0..<length (openings_of m)]
     \<and> list_all2 (\<lambda>op batch. resolves H env (ob_records op) batch) (openings_of m)
         (chunks (unat (cp_batch_record_limit (sr_closure_policy segment))) (sort_key (leaf H) records))"

lemma map_sort_key: "map f (sort_key f xs) = sort (map f xs)"
  by (intro properties_for_sort [symmetric]) simp_all

lemma sorted_nth_chunks: "sorted xs \<Longrightarrow> i < length (chunks k xs) \<Longrightarrow> sorted (chunks k xs ! i)"
  by (simp add: nth_chunks sorted_wrt_take sorted_wrt_drop)

lemma commits_to_batches:
  assumes "commits_to H segment records" and "validate_detailed H segment = Ok ()"
  defines "batches \<equiv> chunks (unat (cp_batch_record_limit (sr_closure_policy segment))) (sort_key (leaf H) records)"
  shows "length batches = length (sr_batch_roots segment)"
    and "concat batches = sort_key (leaf H) records"
    and "i < length batches \<Longrightarrow> mth H (sort (map (leaf H) (batches ! i))) = sr_batch_roots segment ! i"
    and "i < length batches \<Longrightarrow> sort (map (leaf H) (batches ! i)) = map (leaf H) (batches ! i)"
    and "i < length batches \<Longrightarrow> length (batches ! i) = batch_size segment i"
proof -
  let ?l = "unat (cp_batch_record_limit (sr_closure_policy segment))"
  have cs: "map (map (leaf H)) batches = chunks ?l (sort (map (leaf H) records))"
    by (simp add: batches_def flip: chunks_map map_sort_key)
  have "sr_batch_roots segment = map (mth H) (map (map (leaf H)) batches)"
    using assms(1) unfolding cs
    by (auto simp: commits_to_def batch_roots_from_leaf_hashes_def merkle_root_from_records_def Let_def split: if_splits)
  then have roots: "sr_batch_roots segment = map (\<lambda>b. mth H (map (leaf H) b)) batches" by (simp add: comp_def)
  then show "length batches = length (sr_batch_roots segment)" by simp
  have "0 < ?l" using validate_detailed_Ok(3)[OF assms(2)] by (auto simp: policy_validate_Ok_iff)
  then show "concat batches = sort_key (leaf H) records" by (simp add: batches_def)
  assume i: "i < length batches"
  then have "map (leaf H) (batches ! i) = chunks ?l (sort (map (leaf H) records)) ! i"
    by (simp flip: cs)
  moreover have "i < length (chunks ?l (sort (map (leaf H) records)))" using i by (simp flip: cs)
  ultimately have "sorted (map (leaf H) (batches ! i))" by (simp add: sorted_nth_chunks)
  then show eq: "sort (map (leaf H) (batches ! i)) = map (leaf H) (batches ! i)" by (rule sorted_sort_id)
  show "mth H (sort (map (leaf H) (batches ! i))) = sr_batch_roots segment ! i"
    using i by (simp add: eq roots)
  show "length (batches ! i) = batch_size segment i"
    using i assms(1) by (simp add: batches_def nth_chunks batch_size_def commits_to_def min.commute Let_def)
qed

lemma batch_count_small:
  assumes "commits_to H segment records" and "validate_detailed H segment = Ok ()"
  shows "length (sr_batch_roots segment) < 2 ^ 64"
proof (cases "sr_record_count segment = 0")
  case True
  with assms commits_to_batches(1)[OF assms] show ?thesis by (simp add: commits_to_def)
next
  case False
  have "length (sr_batch_roots segment) \<le> (unat (sr_record_count segment) - 1) + 1"
    unfolding segment_batches(2)[OF assms(2) False] by (intro add_le_mono1 div_le_dividend)
  also have "\<dots> = unat (sr_record_count segment)" using False by (simp add: unat_gt_0)
  also have "\<dots> < 2 ^ 64" using unat_u64_less [of "sr_record_count segment"] by simp
  finally show ?thesis .
qed

definition batch_numbers :: "nat \<Rightarrow> u64 list" where
  "batch_numbers k = map word_of_nat [0..<k]"

lemma batch_numbers_facts:
  assumes "k < 2 ^ 64"
  shows "map unat (batch_numbers k) = [0..<k]" and "distinct (batch_numbers k)" and "length (batch_numbers k) = k"
    and "\<forall>n \<in> set (batch_numbers k). unat n < k" and "i < k \<Longrightarrow> unat (batch_numbers k ! i) = i"
proof -
  show l: "length (batch_numbers k) = k" by (simp add: batch_numbers_def)
  show u: "map unat (batch_numbers k) = [0..<k]"
    using assms by (auto simp: batch_numbers_def list_eq_iff_nth_eq unat_of_nat take_bit_nat_eq_self)
  then show "distinct (batch_numbers k)" by (metis distinct_map distinct_upt)
  show "\<forall>n \<in> set (batch_numbers k). unat n < k"
    using u by (metis atLeastLessThan_iff imageI list.set_map set_upt)
  show "unat (batch_numbers k ! i) = i" if "i < k" using u that l by (metis add_0 nth_map nth_upt)
qed

lemma batch_numbers_sorted: "k < 2 ^ 64 \<Longrightarrow> sorted_wrt (<) (batch_numbers k)"
  using batch_numbers_facts(1)[of k]
  by (metis (no_types, lifting) sorted_wrt_map sorted_wrt_mono_rel sorted_wrt_upt word_less_nat_alt)

text \<open>A disclosure of some batches: opening \<open>i\<close> is numbered by the \<open>i\<close>-th number and holds that run of records in
  the order of their leaf hashes.\<close>

definition batch_disclosure ::
  "(bytes \<Rightarrow> bytes) \<Rightarrow> evidence_env \<Rightarrow> segment_record \<Rightarrow> bytes list \<Rightarrow> u64 list \<Rightarrow> record_batch_opening list \<Rightarrow> bool" where
  "batch_disclosure H env segment records ns openings \<longleftrightarrow>
     map ob_batch_number openings = map (\<lambda>n. show_nat (unat n)) ns
     \<and> list_all2 (\<lambda>op batch. resolves H env (ob_records op) batch) openings
         (map (\<lambda>n. chunks (unat (cp_batch_record_limit (sr_closure_policy segment))) (sort_key (leaf H) records) ! unat n) ns)"

lemma batch_disclosure_length: "batch_disclosure H env segment records ns openings \<Longrightarrow> length openings = length ns"
  unfolding batch_disclosure_def by (metis length_map)

lemma full_disclosure_batches:
  assumes seg: "validate_detailed H segment = Ok ()" and commits: "commits_to H segment records"
    and disclosed: "full_disclosure H env m segment records"
  shows "batch_disclosure H env segment records (batch_numbers (length (sr_batch_roots segment))) (openings_of m)"
proof -
  let ?k = "length (sr_batch_roots segment)"
  define batches where "batches = chunks (unat (cp_batch_record_limit (sr_closure_policy segment))) (sort_key (leaf H) records)"
  note b = commits_to_batches(1)[OF commits seg, folded batches_def]
  note n = batch_numbers_facts [OF batch_count_small [OF commits seg]]
  have res: "list_all2 (\<lambda>op batch. resolves H env (ob_records op) batch) (openings_of m) batches"
    using disclosed by (simp add: full_disclosure_def batches_def)
  then have len: "length (openings_of m) = ?k" using b by (auto dest: list_all2_lengthD)
  have "map (\<lambda>n. batches ! unat n) (batch_numbers ?k) = map ((!) batches) (map unat (batch_numbers ?k))" by simp
  also have "\<dots> = batches" unfolding n(1) using map_nth [of batches] b by simp
  finally have "map (\<lambda>n. batches ! unat n) (batch_numbers ?k) = batches" .
  moreover have "map ob_batch_number (openings_of m) = map show_nat (map unat (batch_numbers ?k))"
    using disclosed len unfolding n(1) full_disclosure_def by argo
  ultimately show ?thesis using res by (simp add: batch_disclosure_def batches_def comp_def)
qed

text \<open>Every disclosed batch opens.\<close>

lemma disclosed_batches_open:
  assumes seg: "validate_detailed H segment = Ok ()" and commits: "commits_to H segment records"
    and disclosed: "batch_disclosure H env segment records ns os" and canonical: "canonical_records records"
    and bound: "\<forall>n \<in> set ns. unat n < length (sr_batch_roots segment)"
  defines "batches \<equiv> chunks (unat (cp_batch_record_limit (sr_closure_policy segment))) (sort_key (leaf H) records)"
  shows "map (\<lambda>op. parse_uint64 (ob_batch_number op)) os = map Some ns"
    and "list_all2 (opened_batch H env segment) (zip ns os) (map (\<lambda>n. batches ! unat n) ns)"
proof -
  let ?k = "length (sr_batch_roots segment)"
  note b = commits_to_batches [OF commits seg, folded batches_def]
  note len = batch_disclosure_length [OF disclosed]
  have numbers: "map ob_batch_number os = map (\<lambda>n. show_nat (unat n)) ns"
    and res: "list_all2 (\<lambda>op batch. resolves H env (ob_records op) batch) os (map (\<lambda>n. batches ! unat n) ns)"
    using disclosed by (simp_all add: batch_disclosure_def batches_def)
  have "map (\<lambda>op. parse_uint64 (ob_batch_number op)) os = map parse_uint64 (map ob_batch_number os)" by simp
  then show "map (\<lambda>op. parse_uint64 (ob_batch_number op)) os = map Some ns"
    using parse_uint64_Some_iff unfolding numbers by simp
  have "opened_batch H env segment (ns ! i, os ! i) (batches ! unat (ns ! i))" if i: "i < length ns" for i
  proof -
    have u: "unat (ns ! i) < ?k" using bound i by simp
    have nz: "sr_record_count segment \<noteq> 0" using u commits b(1) by (auto simp: batches_def commits_to_def)
    have "set (batches ! unat (ns ! i)) \<subseteq> set records" using b(1,2) u by (metis UN_upper nth_mem set_concat set_sort)
    then have "canonical_records (batches ! unat (ns ! i))" using canonical by (auto simp: canonical_records_def)
    moreover have "resolves H env (ob_records (os ! i)) (batches ! unat (ns ! i))"
      using res i len by (auto simp: list_all2_conv_all_nth)
    ultimately show ?thesis
      using expected_opening_count_size(1)[OF seg nz u] b(1) b(3)[of "unat (ns ! i)"] b(5)[of "unat (ns ! i)"] u
      by (simp add: opened_batch_def)
  qed
  then show "list_all2 (opened_batch H env segment) (zip ns os) (map (\<lambda>n. batches ! unat n) ns)"
    using len by (simp add: list_all2_conv_all_nth)
qed

lemma sorted_concat_nth:
  assumes "sorted (concat xss)" and "sorted_wrt (<) is" and "\<forall>i \<in> set is. i < length xss"
  shows "sorted (concat (map ((!) xss) is))"
  using assms(2,3)
proof (induction "is")
  case (Cons i js)
  have i: "i < length xss" using Cons.prems by simp
  have split: "concat xss = concat (take j xss) @ concat (drop j xss)" for j
    by (metis append_take_drop_id concat_append)
  have "sorted (xss ! i)"
    using assms(1) unfolding split [of i] Cons_nth_drop_Suc [OF i, symmetric] by (simp add: sorted_append)
  moreover have "x \<le> y" if "x \<in> set (xss ! i)" "j \<in> set js" "y \<in> set (xss ! j)" for x y j
  proof -
    have j: "i < j" "j < length xss" using Cons.prems that by auto
    have "xss ! i \<in> set (take j xss)" using j by (force simp: in_set_conv_nth)
    moreover have "xss ! j \<in> set (drop j xss)" using j by (metis Cons_nth_drop_Suc list.set_intros(1))
    ultimately show ?thesis using that assms(1) unfolding split [of j] by (auto simp: sorted_append)
  qed
  ultimately show ?case using Cons by (auto simp: sorted_append)
qed simp

text \<open>A disclosure of batches in order passes, when it has the shape of its class and the scope asks for it.\<close>

lemma disclosure_validates:
  assumes seg: "validate_detailed H segment = Ok ()" and commits: "commits_to H segment records"
    and disclosed: "batch_disclosure H env segment records ns (openings_of m)" and canonical: "canonical_records records"
    and bound: "\<forall>n \<in> set ns. unat n < length (sr_batch_roots segment)" and ns: "sorted_wrt (<) ns"
    and shape: "disclosure_shape m segment (openings_of m) (set ns)"
    and consumed: "consumed_batches policy m (cl_scope c) (length (sr_batch_roots segment)) (set ns) = Some consume"
    and consume: "cl_scope c \<noteq> AnchorOnly \<Longrightarrow> set ns \<subseteq> consume"
    and all: "cl_scope c = PublicRecompute \<Longrightarrow> ns = batch_numbers (length (sr_batch_roots segment))"
  shows "validate_disclosure H env m segment policy c = (True, c)"
proof -
  let ?k = "length (sr_batch_roots segment)" and ?os = "openings_of m"
  define batches where "batches = chunks (unat (cp_batch_record_limit (sr_closure_policy segment))) (sort_key (leaf H) records)"
  note b = commits_to_batches [OF commits seg, folded batches_def]
  note o = disclosed_batches_open [OF seg commits disclosed canonical bound, folded batches_def]
  note len = batch_disclosure_length [OF disclosed]
  have d: "distinct ns" using ns by (simp add: strict_sorted_iff)
  have idx: "index_openings ?k ?os {} [] c = (set ns, zip ns ?os, c)"
    using index_openings_complete [OF o(1) d _ bound] by simp
  have lengths: "\<not> list_ex (\<lambda>(number, op). \<not> count_is (expected_opening_count segment ?k number) (length (ob_records op)))
      (zip ns ?os)"
    using o(2) len by (auto simp: list_ex_iff set_zip opened_batch_def resolves_def list_all2_conv_all_nth)
  define opened where "opened = map2 (\<lambda>op records. (unat (fst op), sort (map (leaf H) records))) (zip ns ?os) (map (\<lambda>n. batches ! unat n) ns)"
  have opened: "opened = map (\<lambda>n. (unat n, map (leaf H) (batches ! unat n))) ns"
    unfolding opened_def using len bound b(1,4) by (intro nth_equalityI) simp_all
  have nats: "sorted_wrt (<) (map unat ns)"
    using ns by (simp add: sorted_wrt_map) (auto simp: word_less_nat_alt elim: sorted_wrt_mono_rel [rotated])
  have sorted: "sort_key fst opened = opened"
    unfolding opened using nats by (intro sort_key_id_if_sorted) (simp add: comp_def strict_sorted_iff)
  have leaves: "map snd opened = map ((!) (map (map (leaf H)) batches)) (map unat ns)"
    unfolding opened using bound b(1) by simp
  have all_leaves: "concat (map (map (leaf H)) batches) = sort (map (leaf H) records)"
    by (simp add: b(2) map_sort_key flip: map_concat)
  then have "sorted (concat (map snd opened))"
    unfolding leaves using nats bound b(1) by (intro sorted_concat_nth) simp_all
  then have adj: "check_adjacent opened c = c" by (rule check_adjacent_complete)
  have op: "open_batches H env segment consume (zip ns ?os) [] c = (opened, c)" if "cl_scope c \<noteq> AnchorOnly"
  proof -
    have "fst ` set (zip ns ?os) \<subseteq> consume" using consume [OF that] by (auto dest: set_zip_leftD)
    then show ?thesis using open_batches_complete [OF o(2), of consume "[]" c] by (simp add: opened_def)
  qed
  have "merkle_root_from_leaf_hashes H (concat (map snd opened)) = sr_segment_root segment" if "cl_scope c = PublicRecompute"
  proof -
    have "map unat ns = [0..<length (map (map (leaf H)) batches)]"
      using batch_numbers_facts(1)[OF batch_count_small [OF commits seg]] all [OF that] b(1) by simp
    then have "map snd opened = map (map (leaf H)) batches" unfolding leaves by (simp only: map_nth)
    then show ?thesis using commits all_leaves
      by (simp add: commits_to_def merkle_root_from_records_def merkle_root_from_leaf_hashes_def Let_def)
  qed
  with idx shape lengths consumed op adj sorted show ?thesis
    by (cases "cl_scope c = AnchorOnly") (auto simp: validate_disclosure_def openings_of_def [symmetric] Let_def)
qed

lemma disclosure_complete:
  assumes seg: "validate_detailed H segment = Ok ()" and commits: "commits_to H segment records"
    and disclosed: "full_disclosure H env m segment records" and canonical: "canonical_records records"
    and scope: "cl_scope c = PublicRecompute"
  shows "validate_disclosure H env m segment policy c = (True, c)"
proof -
  let ?k = "length (sr_batch_roots segment)"
  note d = full_disclosure_batches [OF seg commits disclosed]
  note n = batch_numbers_facts [OF batch_count_small [OF commits seg]]
  have cls: "mf_disclosure_class m = ''A''" using disclosed by (simp add: full_disclosure_def)
  have "disclosure_shape m segment (openings_of m) (set (batch_numbers ?k))"
    using cls batch_disclosure_length [OF d] n(2,3) commits commits_to_batches(1)[OF commits seg]
    by (auto simp: disclosure_shape_def distinct_card commits_to_def Let_def)
  then show ?thesis
    using cls scope
    by (intro disclosure_validates [OF seg commits d canonical n(4) batch_numbers_sorted [OF batch_count_small [OF commits seg]]])
      (auto simp: consumed_batches_def)
qed

section \<open>The verification result\<close>

lemma json_member_object: "json_member (json_object entries) key = (case map_of (rev entries) key of None \<Rightarrow> JNull | Some v \<Rightarrow> v)"
  by (simp add: json_member_def json_object_def bt_get_def map_of_bt_collect)

lemma result_value_members:
  assumes "result_value H env mb m artifact profile policy c = Ok v"
  shows "json_member v ''overall'' = JString (overall c)"
    and "json_member v ''verification_scope'' = JString (scope_str (cl_scope c))"
    and "json_member v ''artifact_sha256'' = JString (sha256_hex H artifact)"
proof -
  have none: "map_of (rev (case x of None \<Rightarrow> [] | Some p \<Rightarrow> [(k, JString p)])) key = (if key = k then map_option JString x else None)"
    for x and k key :: string by (cases x) simp_all
  show "json_member v ''overall'' = JString (overall c)"
    "json_member v ''verification_scope'' = JString (scope_str (cl_scope c))"
    "json_member v ''artifact_sha256'' = JString (sha256_hex H artifact)"
    using assms unfolding result_value_def
    by (clarsimp simp: and_then_Ok_iff json_member_object map_add_def none)+
qed

lemma validate_disclosure_scope:
  "cl_scope (snd (validate_disclosure H env m segment policy c)) = cl_scope c"
proof -
  obtain numbers indexed c1 where idx:
    "index_openings (length (sr_batch_roots segment)) (openings_of m) {} [] c = (numbers, indexed, c1)"
    by (metis prod_cases3)
  have "cl_scope c2 = cl_scope c1" if "open_batches H env segment consume indexed [] c1 = (opened, c2)" for consume opened c2
    using open_batches_mono [OF that] by simp
  with idx index_openings_mono [OF idx] check_adjacent_mono show ?thesis
    by (auto simp: validate_disclosure_def openings_of_def [symmetric] Let_def split: option.splits prod.splits)
qed

lemma check_segment_scope: "cl_scope (snd (check_segment H env m policy artifact profile c)) = cl_scope c"
  by (auto simp: check_segment_def validate_disclosure_scope validate_chain_mono(2) Let_def
      split: sum.splits segment_decode_error.splits option.splits)

lemma conclude_scope: "cl_scope (conclude H env m policy artifact) = selected_scope m policy"
proof -
  have "cl_scope (snd (check_segment H env m policy artifact profile c)) = selected_scope m policy"
    if "cl_scope c = selected_scope m policy" for profile c
    using that by (simp add: check_segment_scope)
  then show ?thesis
    unfolding conclude_def Let_def selected_scope_def [symmetric]
    by (simp add: evaluate_tsa_mono(2) conclusions_new_def case_prod_beta)
qed

section \<open>Timestamps and chains\<close>

text \<open>A timestamp over the artifact digest was verified, and it answers the disclosed request.\<close>

definition timestamp_accepted ::
  "(bytes \<Rightarrow> bytes) \<Rightarrow> evidence_env \<Rightarrow> manifest \<Rightarrow> verify_policy \<Rightarrow> bytes \<Rightarrow> bool" where
  "timestamp_accepted H env m policy digest \<longleftrightarrow>
     pt_status (an_tsa (mf_anchoring m)) = ''present'' \<and> missing_timestamp_policy policy = None
     \<and> (\<exists>reference response nonce. at_tsa_tsr (mf_artifacts m) = Some reference
         \<and> referenced_artifact H env reference = Ok response
         \<and> ee_verify_response env response digest policy = Ok nonce
         \<and> check_timestamp_request H env m digest nonce = Ok ())"

lemma overall_success_iff:
  "overall c = ''success'' \<longleftrightarrow> cl_failures c = {} \<and> cl_tsa_status c \<noteq> ''pending_claim''"
  by (simp add: overall_def)

lemma evaluate_tsa_success_iff:
  "overall (evaluate_tsa H env m digest policy c) = ''success''
     \<longleftrightarrow> cl_failures c = {} \<and> timestamp_accepted H env m policy digest"
proof (cases "pt_status (an_tsa (mf_anchoring m)) = ''present''")
  case False
  then show ?thesis
    by (simp add: evaluate_tsa_def overall_success_iff timestamp_accepted_def tsa_outcome_def Let_def)
next
  case True
  show ?thesis
  proof (cases "at_tsa_tsr (mf_artifacts m)")
    case None
    with True show ?thesis by (simp add: evaluate_tsa_def overall_success_iff timestamp_accepted_def Let_def)
  next
    case (Some reference)
    with True show ?thesis
      by (cases "referenced_artifact H env reference"; cases "missing_timestamp_policy policy")
        (auto simp: evaluate_tsa_def overall_success_iff timestamp_accepted_def verify_timestamp_def Let_def
          and_then_Ok_iff map_err_def split: evidence_error.splits sum.splits)
  qed
qed

definition chain_disclosed :: "(bytes \<Rightarrow> bytes) \<Rightarrow> evidence_env \<Rightarrow> manifest \<Rightarrow> segment_record \<Rightarrow> bool" where
  "chain_disclosed H env m segment \<longleftrightarrow>
     (if sr_segment_number segment = 0 then sr_prev_segment_sha256 segment = ZERO_SHA256
      else case at_predecessor_segment_cbor (mf_artifacts m) of
          None \<Rightarrow> True
        | Some reference \<Rightarrow> \<exists>predecessor. referenced_artifact H env reference = Ok predecessor
            \<and> valid_predecessor H segment predecessor)"

lemma validate_chain_clean_iff:
  "cl_failures (validate_chain H env m segment c) = {} \<longleftrightarrow> cl_failures c = {} \<and> chain_disclosed H env m segment"
  by (auto simp: validate_chain_def chain_disclosed_def split: option.splits sum.splits)

definition names_segment :: "(bytes \<Rightarrow> bytes) \<Rightarrow> manifest \<Rightarrow> bytes \<Rightarrow> segment_record \<Rightarrow> bool" where
  "names_segment H m artifact segment \<longleftrightarrow>
     sha256_hex H artifact = rf_sha256 (at_segment_cbor (mf_artifacts m))
     \<and> decode_segment_record H artifact = Ok segment
     \<and> sr_ledger_id segment = mf_ledger_id m
     \<and> show_nat (unat (sr_segment_number segment)) = mf_segment_number m
     \<and> sr_commitment_profile_id segment = mf_commitment_profile_id m"

text \<open>A named segment whose disclosure passes leaves the conclusions to its chain and its timestamp.\<close>

lemma conclude_supported:
  assumes "names_segment H m artifact segment"
    and "\<And>c. cl_scope c = selected_scope m policy \<Longrightarrow> validate_disclosure H env m segment policy c = (True, c)"
    and "scope_strength (for_disclosure_class (mf_disclosure_class m)) \<le> scope_strength (selected_scope m policy)"
  shows "conclude H env m policy artifact
    = evaluate_tsa H env m (H artifact) policy (validate_chain H env m segment (conclusions_new (selected_scope m policy)))"
proof -
  have d: "decode_segment_record H artifact = Ok segment" using assms(1) by (simp add: names_segment_def)
  have profile: "decode_segment_profile_id artifact = Ok (sr_commitment_profile_id segment)"
    using decode_segment_record_Ok [OF d] by (simp add: canonical_cbor_bytes_Ok_iff profile_id_of_encoded_segment)
  have "cl_scope (validate_chain H env m segment (conclusions_new (selected_scope m policy))) = selected_scope m policy"
    by (simp add: validate_chain_mono(2) conclusions_new_def)
  note v = assms(2)[OF this]
  from d profile v assms(1,3) show ?thesis
    unfolding conclude_def Let_def selected_scope_def [symmetric]
    by (simp add: names_segment_def check_segment_def Let_def)
qed

lemma conclude_complete:
  assumes "names_segment H m artifact segment" and "commits_to H segment records"
    and "full_disclosure H env m segment records" and "canonical_records records"
    and "selected_scope m policy = PublicRecompute"
  shows "conclude H env m policy artifact
    = evaluate_tsa H env m (H artifact) policy (validate_chain H env m segment (conclusions_new PublicRecompute))"
proof -
  have "decode_segment_record H artifact = Ok segment" using assms(1) by (simp add: names_segment_def)
  note d = disclosure_complete [OF decode_segment_record_Ok(2)[OF this] assms(2-4)]
  show ?thesis
    using conclude_supported [OF assms(1), of policy env] d assms(3,5)
    by (simp add: full_disclosure_def for_disclosure_class_def)
qed

section \<open>Whole bundles\<close>

text \<open>The bundle's policy, manifest, extensions and segment artifact are readable.\<close>

definition bundle_reads ::
  "(bytes \<Rightarrow> bytes) \<Rightarrow> evidence_env \<Rightarrow> verify_policy \<Rightarrow> manifest \<Rightarrow> bytes \<Rightarrow> bool" where
  "bundle_reads H env policy m artifact \<longleftrightarrow>
     validate_verify_policy env policy = Ok ()
     \<and> (\<exists>manifest_bytes. read_manifest env = Ok manifest_bytes \<and> parse_manifest env manifest_bytes = Ok m)
     \<and> check_extensions H env (map snd (at_extensions (mf_artifacts m))) = Ok ()
     \<and> safe_read env (rf_path (at_segment_cbor (mf_artifacts m))) = Ok artifact"

lemma verify_bundle_Ok:
  assumes "verify_bundle_with_policy H env policy = Ok result"
  obtains m artifact mb profile where "bundle_reads H env policy m artifact"
    "result_value H env mb m artifact profile policy (conclude H env m policy artifact) = Ok result"
  using assms by (auto simp: verify_bundle_with_policy_def bundle_reads_def and_then_Ok_iff)

lemma verify_bundle_reads:
  assumes "bundle_reads H env policy m artifact"
  obtains mb profile where "verify_bundle_with_policy H env policy
    = result_value H env mb m artifact profile policy (conclude H env m policy artifact)"
  using assms by (auto simp: verify_bundle_with_policy_def bundle_reads_def)

lemma conclude_success:
  assumes "overall (conclude H env m policy artifact) = ''success''"
  obtains segment supported c' where "names_segment H m artifact segment" "chain_disclosed H env m segment"
    "timestamp_accepted H env m policy (H artifact)"
    "validate_disclosure H env m segment policy
       (validate_chain H env m segment (conclusions_new (selected_scope m policy))) = (supported, c')"
    "cl_failures c' = {}"
proof -
  obtain c where "conclude H env m policy artifact = evaluate_tsa H env m (H artifact) policy c"
    by (auto simp: conclude_def case_prod_beta Let_def)
  with assms have t: "timestamp_accepted H env m policy (H artifact)" by (simp add: evaluate_tsa_success_iff)
  from assms have "cl_failures (conclude H env m policy artifact) = {}" by (simp add: overall_success_iff)
  then show thesis
  proof (rule conclude_clean)
    fix segment supported c'
    let ?chain = "validate_chain H env m segment (conclusions_new (selected_scope m policy))"
    assume a: "sha256_hex H artifact = rf_sha256 (at_segment_cbor (mf_artifacts m))"
      "decode_segment_record H artifact = Ok segment" "sr_ledger_id segment = mf_ledger_id m"
      "show_nat (unat (sr_segment_number segment)) = mf_segment_number m"
      "sr_commitment_profile_id segment = mf_commitment_profile_id m"
      and v: "validate_disclosure H env m segment policy ?chain = (supported, c')" and c': "cl_failures c' = {}"
    have "cl_failures ?chain = {}" using validate_disclosure_mono [OF v] c' by blast
    then have "chain_disclosed H env m segment" by (simp add: validate_chain_clean_iff)
    with a v c' t show thesis by (intro that) (simp_all add: names_segment_def)
  qed
qed

lemma verify_public_sound:
  assumes "verify_bundle_with_policy H env policy = Ok result"
    and "json_member result ''overall'' = JString ''success''"
    and "json_member result ''verification_scope'' = JString ''public_recompute''"
  obtains m artifact segment records where "bundle_reads H env policy m artifact" "names_segment H m artifact segment"
    "chain_disclosed H env m segment" "timestamp_accepted H env m policy (H artifact)"
    "discloses H env m segment records" "json_member result ''artifact_sha256'' = JString (sha256_hex H artifact)"
  using assms(1)
proof (rule verify_bundle_Ok)
  fix m artifact mb profile
  assume reads: "bundle_reads H env policy m artifact"
    and "result_value H env mb m artifact profile policy (conclude H env m policy artifact) = Ok result"
  note r = result_value_members [OF this(2)]
  from r(1) assms(2) have "overall (conclude H env m policy artifact) = ''success''" by simp
  moreover from r(2) assms(3) have scope: "selected_scope m policy = PublicRecompute"
    by (simp add: conclude_scope scope_str_def split: verification_scope.splits)
  ultimately show thesis
  proof (elim conclude_success)
    fix segment supported c'
    assume s: "names_segment H m artifact segment" "chain_disclosed H env m segment"
      "timestamp_accepted H env m policy (H artifact)"
      and v: "validate_disclosure H env m segment policy
        (validate_chain H env m segment (conclusions_new (selected_scope m policy))) = (supported, c')"
      "cl_failures c' = {}"
    have "validate_detailed H segment = Ok ()" using s(1) by (auto simp: names_segment_def dest: decode_segment_record_Ok)
    then obtain records where "discloses H env m segment records"
      using disclosure_sound [OF v] scope by (auto simp: validate_chain_mono(2) conclusions_new_def)
    with reads s r(3) show thesis by (intro that)
  qed
qed

section \<open>A concrete bundle\<close>

text \<open>One record in an epoch segment, with a timestamp response the verifier of the example accepts.\<close>

definition reference_to :: "string \<Rightarrow> bytes \<Rightarrow> artifact_ref" where
  "reference_to path content = \<lparr>rf_path = path, rf_sha256 = sha256_hex pad_digest content\<rparr>"

definition disclosed_manifest :: manifest where
  "disclosed_manifest = \<lparr>mf_version = 1, mf_ledger_id = sr_ledger_id disclosed_segment, mf_segment_number = ''0'',
     mf_commitment_profile_id = COMMITMENT_PROFILE_ID, mf_disclosure_class = ''A'',
     mf_artifacts = \<lparr>at_segment_cbor = reference_to ''segment.cbor'' disclosed_artifact,
       at_predecessor_segment_cbor = None,
       at_record_batches = Some [\<lparr>ob_batch_number = ''0'', ob_records = [reference_to ''r0'' example_record]\<rparr>],
       at_tsa_req = None, at_tsa_tsr = Some (reference_to ''tsr'' [1]), at_extensions = []\<rparr>,
     mf_anchoring = \<lparr>an_tsa = \<lparr>pt_status = ''present''\<rparr>\<rparr>, mf_extensions = None\<rparr>"

definition disclosed_env :: evidence_env where
  "disclosed_env = \<lparr>ee_open_root = Ok (), ee_manifest = Ok [],
     ee_open_beneath = (\<lambda>path. if path = ''segment.cbor'' then Ok disclosed_artifact
       else if path = ''r0'' then Ok example_record else if path = ''tsr'' then Ok [1] else Err ''no such file''),
     ee_is_file = (\<lambda>_. False), ee_read_file = (\<lambda>_. Err (EvIo ''no such file'')),
     ee_manifest_from_json = (\<lambda>_. Ok disclosed_manifest), ee_manifest_to_json = (\<lambda>_. []),
     ee_verify_response = (\<lambda>response digest _. if response = [1] \<and> digest = pad_digest disclosed_artifact
       then Ok None else Err ''not a timestamp of the artifact''),
     ee_verify_request = (\<lambda>_ _ _. Err ''no request''), ee_fingerprint_to_json = (\<lambda>_. [])\<rparr>"

definition disclosed_policy :: verify_policy where
  "disclosed_policy = default_verify_policy\<lparr>vp_tsa_ca_file := Some ''ca'', vp_tsa_crls_file := Some ''crl'',
     vp_tsa_policy_oid := Some ''1.2'', vp_tsa_signer_cert_sha256 := Some (hex_lower (pad_digest [10, 11, 1])), vp_verifier_policy_id := Some ''auditor''\<rparr>"

lemma referenced_example:
  assumes "validate_portable_path path = Ok ()" and "ee_open_beneath disclosed_env path = Ok content"
    and "length content \<le> MAX_ARCHIVE_MEMBER"
  shows "referenced_artifact pad_digest disclosed_env (reference_to path content) = Ok content"
    and "safe_read disclosed_env path = Ok content"
proof -
  have "valid_hex (sha256_hex pad_digest content) 64"
    using valid_hex_hex_lower [of "pad_digest content"] by (simp add: sha256_hex_def)
  moreover show "safe_read disclosed_env path = Ok content"
    using assms by (simp add: safe_read_def read_file_bounded_from_def map_err_def) (simp add: disclosed_env_def)
  ultimately show "referenced_artifact pad_digest disclosed_env (reference_to path content) = Ok content"
    by (simp add: referenced_artifact_def reference_to_def)
qed

lemma disclosed_files:
  "ee_open_beneath disclosed_env ''segment.cbor'' = Ok disclosed_artifact"
  "ee_open_beneath disclosed_env ''r0'' = Ok example_record" "ee_open_beneath disclosed_env ''tsr'' = Ok [1]"
  "length disclosed_artifact \<le> MAX_ARCHIVE_MEMBER" "length example_record \<le> MAX_ARCHIVE_MEMBER"
  "length [1 :: byte] \<le> MAX_ARCHIVE_MEMBER"
proof -
  have "length disclosed_artifact \<le> 1000" by code_simp
  then show "length disclosed_artifact \<le> MAX_ARCHIVE_MEMBER" by (simp add: MAX_ARCHIVE_MEMBER_def)
qed (simp_all add: disclosed_env_def example_record_def MAX_ARCHIVE_MEMBER_def)

lemma show_zero [simp]: "show_nat 0 = ''0''"
  by code_simp

lemma disclosed_names: "names_segment pad_digest disclosed_manifest disclosed_artifact disclosed_segment"
  by (simp add: names_segment_def disclosed_decodes disclosed_manifest_def reference_to_def)
    (simp add: disclosed_segment_def example_segment_def)

lemma disclosed_commits: "commits_to pad_digest disclosed_segment [example_record]"
proof -
  have "is_ok (validate_batch_record_limit 2)" by code_simp
  then show ?thesis
    by (simp add: commits_to_def disclosed_segment_def example_segment_def example_policy_def mth.simps
        batch_roots_from_leaf_hashes_def merkle_root_from_records_def chunks_short)
qed

lemma disclosed_in_full:
  "full_disclosure pad_digest disclosed_env disclosed_manifest disclosed_segment [example_record]"
  "canonical_records [example_record]"
  "chain_disclosed pad_digest disclosed_env disclosed_manifest disclosed_segment"
  "timestamp_accepted pad_digest disclosed_env disclosed_manifest disclosed_policy (pad_digest disclosed_artifact)"
proof -
  have paths: "validate_portable_path ''r0'' = Ok ()" "validate_portable_path ''tsr'' = Ok ()" by code_simp+
  have r: "referenced_artifact pad_digest disclosed_env (reference_to ''r0'' example_record) = Ok example_record"
    "referenced_artifact pad_digest disclosed_env (reference_to ''tsr'' [1]) = Ok [1]"
    by (rule referenced_example(1)[OF paths(1) disclosed_files(2,5)])
      (rule referenced_example(1)[OF paths(2) disclosed_files(3,6)])
  then show "full_disclosure pad_digest disclosed_env disclosed_manifest disclosed_segment [example_record]"
    by (simp add: full_disclosure_def openings_of_def disclosed_manifest_def disclosed_segment_def example_segment_def
        example_policy_def resolves_def chunks_short)
  show "canonical_records [example_record]" by code_simp
  show "chain_disclosed pad_digest disclosed_env disclosed_manifest disclosed_segment"
    by (simp add: chain_disclosed_def disclosed_segment_def example_segment_def)
  show "timestamp_accepted pad_digest disclosed_env disclosed_manifest disclosed_policy (pad_digest disclosed_artifact)"
    using r(2) by (simp add: timestamp_accepted_def disclosed_manifest_def disclosed_policy_def missing_timestamp_policy_def
        default_verify_policy_def check_timestamp_request_def)
      (simp add: disclosed_env_def)
qed

lemma disclosed_reads: "bundle_reads pad_digest disclosed_env disclosed_policy disclosed_manifest disclosed_artifact"
proof -
  have paths: "validate_portable_path ''r0'' = Ok ()" "validate_portable_path ''tsr'' = Ok ()"
    "validate_portable_path ''segment.cbor'' = Ok ()" by code_simp+
  have hex: "valid_hex (sha256_hex pad_digest content) 64" for content
    using valid_hex_hex_lower [of "pad_digest content"] by (simp add: sha256_hex_def)
  have "valid_hex (sr_ledger_id disclosed_segment) 32" "COMMITMENT_PROFILE_ID \<noteq> []" by code_simp+
  moreover have zero: "parse_uint64 ''0'' = Some 0" by (simp add: parse_uint64_Some_iff)
  ultimately have "manifest_lexical disclosed_manifest"
    by (simp add: manifest_lexical_def disclosed_manifest_def)
  moreover have "openings_lexical [\<lparr>ob_batch_number = ''0'', ob_records = [reference_to ''r0'' example_record]\<rparr>]"
    using zero by (simp add: openings_lexical_def)
  moreover have "validate_references (references (mf_artifacts disclosed_manifest) True) = Ok ()"
    using paths hex by (simp add: references_def disclosed_manifest_def reference_to_def)
  ultimately have "parse_manifest disclosed_env [] = Ok disclosed_manifest"
    by (simp add: parse_manifest_def disclosed_env_def) (simp add: disclosed_manifest_def)
  moreover have "read_manifest disclosed_env = Ok []"
    by (simp add: read_manifest_def read_file_bounded_from_def disclosed_env_def)
  moreover have "validate_verify_policy disclosed_env disclosed_policy = Ok ()"
    by (simp add: validate_verify_policy_def disclosed_policy_def default_verify_policy_def)
  ultimately show ?thesis
    using referenced_example(2)[OF paths(3) disclosed_files(1,4)]
    by (simp add: bundle_reads_def) (simp add: disclosed_manifest_def reference_to_def)
qed

lemma disclosed_scope: "selected_scope disclosed_manifest disclosed_policy = PublicRecompute"
  by (simp add: selected_scope_def disclosed_manifest_def disclosed_policy_def default_verify_policy_def for_disclosure_class_def)

lemma result_value_total:
  assumes "vp_verifier_policy_id policy = Some identity" and "vp_verifier_policy_artifact policy = None"
  obtains result where "result_value H env mb m artifact profile policy c = Ok result"
  using assms by (auto simp: result_value_def effective_verifier_policy_id_def configured_file_sha256_def)

lemma disclosed_verifies:
  obtains result where "verify_bundle_with_policy pad_digest disclosed_env disclosed_policy = Ok result"
    "json_member result ''overall'' = JString ''success''"
    "json_member result ''verification_scope'' = JString ''public_recompute''"
proof -
  let ?c = "conclude pad_digest disclosed_env disclosed_manifest disclosed_policy disclosed_artifact"
  obtain mb profile where v: "verify_bundle_with_policy pad_digest disclosed_env disclosed_policy
      = result_value pad_digest disclosed_env mb disclosed_manifest disclosed_artifact profile disclosed_policy ?c"
    by (rule verify_bundle_reads [OF disclosed_reads])
  obtain result where "result_value pad_digest disclosed_env mb disclosed_manifest disclosed_artifact profile
      disclosed_policy ?c = Ok result"
    by (rule result_value_total [of disclosed_policy "''auditor''"])
      (simp_all add: disclosed_policy_def default_verify_policy_def)
  moreover have "overall ?c = ''success''"
    using disclosed_in_full(3,4)
    by (simp add: conclude_complete [OF disclosed_names disclosed_commits disclosed_in_full(1,2) disclosed_scope]
        evaluate_tsa_success_iff validate_chain_clean_iff conclusions_new_def)
  moreover have "cl_scope ?c = PublicRecompute" by (simp add: conclude_scope disclosed_scope)
  ultimately show thesis
    using v result_value_members that by (simp add: scope_str_def)
qed

lemma verify_supported:
  assumes "bundle_reads H env policy m artifact" and "chain_disclosed H env m segment"
    and "conclude H env m policy artifact
      = evaluate_tsa H env m (H artifact) policy (validate_chain H env m segment (conclusions_new (selected_scope m policy)))"
    and "vp_verifier_policy_id policy = Some identity" and "vp_verifier_policy_artifact policy = None"
  shows "\<exists>result. verify_bundle_with_policy H env policy = Ok result
    \<and> json_member result ''verification_scope'' = JString (scope_str (selected_scope m policy))
    \<and> (json_member result ''overall'' = JString ''success'' \<longleftrightarrow> timestamp_accepted H env m policy (H artifact))
    \<and> (pt_status (an_tsa (mf_anchoring m)) = ''pending'' \<longrightarrow> json_member result ''overall'' = JString ''incomplete'')"
proof -
  let ?c = "conclude H env m policy artifact"
  obtain mb profile where v: "verify_bundle_with_policy H env policy = result_value H env mb m artifact profile policy ?c"
    by (rule verify_bundle_reads [OF assms(1)])
  obtain result where r: "result_value H env mb m artifact profile policy ?c = Ok result"
    by (rule result_value_total [OF assms(4,5)])
  note members = result_value_members [OF r]
  have chain: "cl_failures (validate_chain H env m segment (conclusions_new (selected_scope m policy))) = {}"
    using assms(2) by (simp add: validate_chain_clean_iff conclusions_new_def)
  have "overall ?c = ''success'' \<longleftrightarrow> timestamp_accepted H env m policy (H artifact)"
    using chain by (simp add: assms(3) evaluate_tsa_success_iff)
  moreover have "overall ?c = ''incomplete''" if "pt_status (an_tsa (mf_anchoring m)) = ''pending''"
    using that chain by (simp add: assms(3) evaluate_tsa_def overall_def tsa_outcome_def)
  ultimately show ?thesis using v r members by (simp add: conclude_scope)
qed

lemma verify_complete:
  assumes "bundle_reads H env policy m artifact" and "names_segment H m artifact segment"
    and "chain_disclosed H env m segment" and "commits_to H segment records" and "canonical_records records"
    and "full_disclosure H env m segment records" and "selected_scope m policy = PublicRecompute"
    and "vp_verifier_policy_id policy = Some identity" and "vp_verifier_policy_artifact policy = None"
  shows "\<exists>result. verify_bundle_with_policy H env policy = Ok result
    \<and> json_member result ''verification_scope'' = JString ''public_recompute''
    \<and> (json_member result ''overall'' = JString ''success'' \<longleftrightarrow> timestamp_accepted H env m policy (H artifact))
    \<and> (pt_status (an_tsa (mf_anchoring m)) = ''pending'' \<longrightarrow> json_member result ''overall'' = JString ''incomplete'')"
  using verify_supported [OF assms(1,3) _ assms(8,9)] conclude_complete [OF assms(2,4,6,5,7)] assms(7)
  by (simp add: scope_str_def)

section \<open>Portable paths\<close>



section \<open>What the verifier reads\<close>











section \<open>Properties\<close>

text \<open>C37: A bundle that verifies with overall result success at the public scope is what it claims:
  its manifest names the segment artifact by digest, the artifact decodes to the named segment of the
  named ledger, its predecessor (where disclosed) is the previous artifact of the chain, a timestamp
  over its digest was verified, and the disclosed records are all canonical, are as many as the segment
  counts, and their tree has the committed segment root.\<close>

theorem public_success_discloses_committed_records:
  assumes "verify_bundle_with_policy H env policy = Ok result"
    and "json_member result ''overall'' = JString ''success''"
    and "json_member result ''verification_scope'' = JString ''public_recompute''"
  shows "\<exists>m artifact segment records. bundle_reads H env policy m artifact \<and> names_segment H m artifact segment
    \<and> chain_disclosed H env m segment \<and> timestamp_accepted H env m policy (H artifact)
    \<and> discloses H env m segment records
    \<and> json_member result ''artifact_sha256'' = JString (sha256_hex H artifact)"
  by (rule verify_public_sound [OF assms]) blast

theorem public_success_discloses_committed_records_witness:
  "\<exists>result segment records. verify_bundle_with_policy pad_digest disclosed_env disclosed_policy = Ok result
    \<and> discloses pad_digest disclosed_env disclosed_manifest segment records"
proof -
  obtain result where r: "verify_bundle_with_policy pad_digest disclosed_env disclosed_policy = Ok result"
    "json_member result ''overall'' = JString ''success''"
    "json_member result ''verification_scope'' = JString ''public_recompute''"
    by (rule disclosed_verifies)
  from public_success_discloses_committed_records [OF r] obtain m artifact segment records where
    "bundle_reads pad_digest disclosed_env disclosed_policy m artifact"
    "discloses pad_digest disclosed_env m segment records" by blast
  moreover from this(1) disclosed_reads have "m = disclosed_manifest" by (auto simp: bundle_reads_def)
  ultimately show ?thesis using r(1) by blast
qed



end
