(* ===== verification/Ledger_Evidence.thy ===== *)
theory Ledger_Evidence
  imports Gateway_Properties Evidence_Properties
begin

text \<open>
  The gateway's ledger and the evidence verifier together: what the producer seals can be proved to an
  auditor, and what an auditor verified is what the producer sealed.
\<close>

section \<open>Admitted records are canonical\<close>

lemma admitted_canonical:
  assumes "admit_batch_inner H ops p clock records idem = Some (Ok out, p')"
  shows "canonical_records records"
  using assms by (rule admit_batch_inner_Ok) (auto simp: canonical_records_def list_all_iff)

lemma keyed_admission_canonical:
  assumes "admit_batch_idempotent_digest H ops p clock key records digest = Some (Ok out, p')" and "\<not> ao_replayed out"
  shows "canonical_records records"
  using assms admitted_canonical [of H ops p clock records "Some (key, digest)" out p']
  by (auto simp: admit_batch_idempotent_digest_def replayed_outcome_def and_then_Ok_iff
      split: if_splits sum.splits option.splits)

lemma report_canonical:
  assumes "\<And>out q. rq = (Ok out, q) \<Longrightarrow> canonical_records (f out)"
  shows "canonical_records (reported (fst (report f rq)))"
  using assms by (cases rq; cases "fst rq") (auto simp: report_def reported_def canonical_records_def)

lemma report_nothing_canonical: "report nothing rq = (r, p') \<Longrightarrow> canonical_records (reported r)"
  using report_canonical [of rq nothing] by (simp add: canonical_records_def)

lemma reported_canonical:
  assumes "apply_op H ops clock op p = Some (r, p')"
  shows "canonical_records (reported r)"
proof -
  have fresh: "canonical_records (reported r)"
    if "(r, p') = report (fresh xs) rq" "\<And>out q. rq = (Ok out, q) \<Longrightarrow> \<not> ao_replayed out \<Longrightarrow> canonical_records xs" for xs rq
  proof -
    have "canonical_records (fresh xs out)" if "rq = (Ok out, q)" for out q
      using \<open>\<And>out q. rq = (Ok out, q) \<Longrightarrow> \<not> ao_replayed out \<Longrightarrow> canonical_records xs\<close> [OF that]
      by (simp add: fresh_def canonical_records_def)
    then have "canonical_records (reported (fst (report (fresh xs) rq)))" by (rule report_canonical)
    with that(1) show ?thesis by (metis fst_conv)
  qed
  have keyed: "canonical_records (reported r)"
    if "admit_batch_idempotent_digest H ops p clock key xs digest = Some rq" "(r, p') = report (fresh xs) rq" for key xs digest rq
    using that keyed_admission_canonical by (intro fresh) auto
  show ?thesis
  proof (cases op)
    case (OpAdmit x)
    with assms obtain rq where "admit_batch_inner H ops p clock [x] None = Some rq" "(r, p') = report (fresh [x]) rq"
      by (auto simp: apply_op_def admit_def)
    with admitted_canonical show ?thesis by (intro fresh) auto
  next
    case (OpAdmitIdempotent key x)
    with assms show ?thesis
    proof (cases "valid_idempotency_key key")
      case True
      with assms OpAdmitIdempotent show ?thesis by (auto simp: apply_op_def admit_idempotent_def intro: keyed)
    next
      case False
      with assms OpAdmitIdempotent show ?thesis
        by (auto simp: apply_op_def admit_idempotent_def report_def reported_def canonical_records_def)
    qed
  next
    case (OpAdmitBatchIdempotent key xs env)
    with assms show ?thesis by (auto simp: apply_op_def admit_batch_idempotent_def intro: keyed)
  qed (use assms in \<open>auto simp: apply_op_def dest: report_nothing_canonical\<close>)
qed

lemma history_canonical:
  assumes "reachable H ops s0 history p"
  shows "canonical_records history"
proof -
  from assms obtain p0 where "evolves H ops p0 history p" by (auto simp: reachable_def)
  then show ?thesis
  proof (induction rule: evolves.induct)
    case (step history p clock op r p')
    with reported_canonical [OF step(2)] show ?case by (auto simp: canonical_records_def)
  qed (simp_all add: canonical_records_def)
qed

section \<open>Stored segments\<close>

lemma stored_segment:
  assumes H: "\<forall>x. length (H x) = 32" and r: "reachable H memory_store memory_empty history p"
    and s: "seg \<in> set (stored_segments p)" and small: "length (ss_records seg) < 2 ^ 64"
  obtains segment where "decode_segment_record H (ss_artifact_cbor seg) = Ok segment"
    "commits_to H segment (ss_records seg)" "canonical_records (ss_records seg)"
    "ss_artifact_sha256 seg = sha256_hex H (ss_artifact_cbor seg)"
proof -
  have inv: "list_all (describes H) (stored_segments p)"
    "concat (map ss_records (stored_segments p)) @ open_records (lp_state p) = history"
    using memory_reachable [OF r H] by (simp_all add: memory.ledger_inv_def)
  then have "set (ss_records seg) \<subseteq> set history" using s by auto
  with history_canonical [OF r] have c: "canonical_records (ss_records seg)" by (auto simp: canonical_records_def)
  from inv(1) s have "describes H seg" by (auto simp: list_all_iff)
  then obtain segment where "decode_segment_record H (ss_artifact_cbor seg) = Ok segment"
    "sr_segment_root segment = mr_root (merkle_root_from_records H (ss_records seg))"
    "sr_record_count segment = word_of_nat (length (ss_records seg))"
    "batch_roots_from_leaf_hashes H (mr_leaf_hashes (merkle_root_from_records H (ss_records seg)))
       (cp_batch_record_limit (sr_closure_policy segment)) = Some (sr_batch_roots segment)"
    "ss_artifact_sha256 seg = sha256_hex H (ss_artifact_cbor seg)"
    by (auto simp: describes_def sha256_hex_def)
  moreover have "unat (word_of_nat (length (ss_records seg)) :: u64) = length (ss_records seg)"
    using small by (simp add: unat_of_nat take_bit_nat_eq_self)
  ultimately show thesis using c by (intro that) (simp_all only: commits_to_def simp_thms, simp)
qed

text \<open>The stored predecessor of a stored segment is a valid predecessor.\<close>

lemma checked_Suc: "unat (a :: u64) + 1 = unat (b :: u64) \<Longrightarrow> checked_add a 1 = Some b"
  using unsigned_less [of b] by (simp add: checked_add_def word_unat_eq_iff unat_word_ariths)

lemma stored_chain:
  assumes H: "\<forall>x. length (H x) = 32" and r: "reachable H memory_store memory_empty history p"
    and i: "i < length (stored_segments p)"
    and d: "decode_segment_record H (ss_artifact_cbor (stored_segments p ! i)) = Ok segment"
  shows "unat (sr_segment_number segment) = i" and "i = 0 \<Longrightarrow> sr_prev_segment_sha256 segment = ZERO_SHA256"
    and "0 < i \<Longrightarrow> valid_predecessor H segment (ss_artifact_cbor (stored_segments p ! (i - 1)))"
proof -
  let ?bss = "rev (map ss_artifact_cbor (stored_segments p))" and ?n = "length (stored_segments p)"
  have chain: "segment_chain H ?bss"
    using memory_reachable [OF r H] i by (cases ?bss) (auto simp: memory.ledger_inv_def chained_def)
  have pos: "?bss ! (?n - 1 - j) = ss_artifact_cbor (stored_segments p ! j)" if "j < ?n" for j
    using that by (simp add: rev_nth)
  have linked: "\<exists>s. decode_segment_record H (ss_artifact_cbor (stored_segments p ! j)) = Ok s \<and> unat (sr_segment_number s) = j
      \<and> (j = 0 \<longrightarrow> sr_prev_segment_sha256 s = ZERO_SHA256)
      \<and> (0 < j \<longrightarrow> sr_prev_segment_sha256 s = H (ss_artifact_cbor (stored_segments p ! (j - 1)))
         \<and> (\<exists>q. decode_segment_record H (ss_artifact_cbor (stored_segments p ! (j - 1))) = Ok q \<and> sr_ledger_id s = sr_ledger_id q))"
    if "j < ?n" for j
  proof (cases j)
    case 0
    with segment_chain_linked [OF chain, of "?n - 1"] pos [OF that] that show ?thesis by auto
  next
    case (Suc k)
    then have "Suc (?n - 1 - j) = ?n - 1 - k" "Suc (?n - 1 - j) < ?n" "k < ?n" using that by simp_all
    with segment_chain_linked [OF chain, of "?n - 1 - j"] pos [OF that] pos [of k] that Suc show ?thesis by simp
  qed
  from linked [OF i] d show "unat (sr_segment_number segment) = i" "i = 0 \<Longrightarrow> sr_prev_segment_sha256 segment = ZERO_SHA256"
    by auto
  assume "0 < i"
  with linked [OF i] linked [of "i - 1"] i d obtain q where
    q: "decode_segment_record H (ss_artifact_cbor (stored_segments p ! (i - 1))) = Ok q" "sr_ledger_id segment = sr_ledger_id q"
      "unat (sr_segment_number q) = i - 1" "unat (sr_segment_number segment) = i"
      "sr_prev_segment_sha256 segment = H (ss_artifact_cbor (stored_segments p ! (i - 1)))"
    by auto
  moreover have "sr_commitment_profile_id q = sr_commitment_profile_id segment"
    using validate_detailed_Ok(2) [OF decode_segment_record_Ok(2) [OF q(1)]]
      validate_detailed_Ok(2) [OF decode_segment_record_Ok(2) [OF d]] by simp
  ultimately show "valid_predecessor H segment (ss_artifact_cbor (stored_segments p ! (i - 1)))"
    using \<open>0 < i\<close> by (simp add: valid_predecessor_def checked_Suc)
qed

definition stored_predecessor ::
  "(bytes \<Rightarrow> bytes) \<Rightarrow> evidence_env \<Rightarrow> manifest \<Rightarrow> sealed_segment list \<Rightarrow> nat \<Rightarrow> bool" where
  "stored_predecessor H env m segments i \<longleftrightarrow>
     (case at_predecessor_segment_cbor (mf_artifacts m) of
        None \<Rightarrow> True
      | Some reference \<Rightarrow> 0 < i \<longrightarrow> referenced_artifact H env reference = Ok (ss_artifact_cbor (segments ! (i - 1))))"

lemma stored_chain_disclosed:
  assumes "\<forall>x. length (H x) = 32" and "reachable H memory_store memory_empty history p"
    and "i < length (stored_segments p)"
    and "decode_segment_record H (ss_artifact_cbor (stored_segments p ! i)) = Ok segment"
    and "stored_predecessor H env m (stored_segments p) i"
  shows "chain_disclosed H env m segment"
proof -
  have "sr_segment_number segment = 0 \<longleftrightarrow> i = 0" using stored_chain(1) [OF assms(1-4)] by (simp add: word_unat_eq_iff)
  with stored_chain [OF assms(1-4)] assms(5) show ?thesis
    by (auto simp: chain_disclosed_def stored_predecessor_def split: option.splits)
qed

section \<open>A ledger and its bundle\<close>

lemma disclosed_is_stored:
  obtains p seg where "reachable pad_digest memory_store memory_empty [example_record] p" "seg \<in> set (stored_segments p)"
    "ss_artifact_cbor seg = disclosed_artifact" "ss_records seg = [example_record]"
proof -
  obtain p where p: "reachable pad_digest memory_store memory_empty [example_record] p"
    and r: "map ss_records (stored_segments p) = [[example_record]]"
    and a: "map ss_artifact_cbor (stored_segments p) = [disclosed_artifact]" by (rule example_reached)
  obtain seg where "stored_segments p = [seg]" "ss_records seg = [example_record]" using r by auto
  with p a that show thesis by simp
qed

section \<open>Properties\<close>

text \<open>C39: Whatever the gateway sealed can be proved to an auditor: for a segment stored in any reachable
  ledger, take a readable bundle that carries its artifact, names it, discloses its stored records batch
  by batch in leaf order and, where it discloses a predecessor, the artifact stored before it.  Under a
  policy with an identity and no policy artifact, verification at the public scope returns a result at
  that scope, which is success exactly when the policy is complete and the bundle's timestamp response,
  claimed present, verifies over the artifact digest together with its request.\<close>

theorem stored_segment_is_provable:
  assumes "\<forall>x. length (H x) = 32" and "reachable H memory_store memory_empty history p"
    and "i < length (stored_segments p)" and "stored_segments p ! i = seg" and "length (ss_records seg) < 2 ^ 64"
    and "bundle_reads H env policy m (ss_artifact_cbor seg)" and "names_segment H m (ss_artifact_cbor seg) segment"
    and "stored_predecessor H env m (stored_segments p) i" and "full_disclosure H env m segment (ss_records seg)"
    and "selected_scope m policy = PublicRecompute"
    and "vp_verifier_policy_id policy = Some identity" and "vp_verifier_policy_artifact policy = None"
  shows "\<exists>result. verify_bundle_with_policy H env policy = Ok result
    \<and> json_member result ''verification_scope'' = JString ''public_recompute''
    \<and> (json_member result ''overall'' = JString ''success''
         \<longleftrightarrow> timestamp_accepted H env m policy (H (ss_artifact_cbor seg)))"
proof -
  have "seg \<in> set (stored_segments p)" using assms(3,4) by auto
  then obtain s where s: "decode_segment_record H (ss_artifact_cbor seg) = Ok s"
    "commits_to H s (ss_records seg)" "canonical_records (ss_records seg)"
    using stored_segment [OF assms(1,2) _ assms(5)] by blast
  then have "commits_to H segment (ss_records seg)" using assms(7) by (auto simp: names_segment_def)
  moreover have "chain_disclosed H env m segment"
    using stored_chain_disclosed [OF assms(1-3) _ assms(8)] assms(4,7) by (simp add: names_segment_def)
  ultimately show ?thesis using verify_complete [OF assms(6,7) _ _ s(3) assms(9-12)] by blast
qed

theorem stored_segment_is_provable_witness:
  "\<exists>p result. reachable pad_digest memory_store memory_empty [example_record] p
    \<and> map ss_artifact_cbor (stored_segments p) = [disclosed_artifact]
    \<and> verify_bundle_with_policy pad_digest disclosed_env disclosed_policy = Ok result
    \<and> json_member result ''verification_scope'' = JString ''public_recompute''
    \<and> json_member result ''overall'' = JString ''success''"
proof -
  obtain p where p: "reachable pad_digest memory_store memory_empty [example_record] p"
    and r: "map ss_records (stored_segments p) = [[example_record]]"
    and a: "map ss_artifact_cbor (stored_segments p) = [disclosed_artifact]" by (rule example_reached)
  then obtain seg where seg: "stored_segments p = [seg]" "ss_artifact_cbor seg = disclosed_artifact" "ss_records seg = [example_record]"
    by auto
  have "vp_verifier_policy_id disclosed_policy = Some ''auditor''" "vp_verifier_policy_artifact disclosed_policy = None"
    by (simp_all add: disclosed_policy_def default_verify_policy_def)
  moreover have "stored_predecessor pad_digest disclosed_env disclosed_manifest (stored_segments p) 0"
    by (simp add: stored_predecessor_def split: option.split)
  ultimately obtain result where "verify_bundle_with_policy pad_digest disclosed_env disclosed_policy = Ok result"
    "json_member result ''verification_scope'' = JString ''public_recompute''"
    "json_member result ''overall'' = JString ''success''"
    using stored_segment_is_provable [OF _ p, of 0 seg disclosed_env disclosed_policy disclosed_manifest disclosed_segment "''auditor''"]
      seg disclosed_reads disclosed_names disclosed_in_full disclosed_scope by auto
  with p a show ?thesis by (intro exI conjI)
qed

text \<open>C40: What an auditor verified is what the gateway sealed: when a bundle verifies with success at the
  public scope and its result names the artifact digest of a segment stored in a reachable ledger, then
  the records it discloses are exactly the stored records, in some order, unless two of the strings
  hashed for the artifacts and the record trees collide under SHA-256.\<close>

theorem verified_bundle_is_stored_segment:
  assumes "\<forall>x. length (H x) = 32" and "reachable H memory_store memory_empty history p"
    and "seg \<in> set (stored_segments p)" and "length (ss_records seg) < 2 ^ 64"
    and "verify_bundle_with_policy H env policy = Ok result"
    and "json_member result ''overall'' = JString ''success''"
    and "json_member result ''verification_scope'' = JString ''public_recompute''"
    and "json_member result ''artifact_sha256'' = JString (ss_artifact_sha256 seg)"
  shows "\<exists>m artifact segment records. bundle_reads H env policy m artifact \<and> discloses H env m segment records
    \<and> (inj_on H ({artifact, ss_artifact_cbor seg} \<union> record_tree_inputs H records \<union> record_tree_inputs H (ss_records seg))
         \<longrightarrow> artifact = ss_artifact_cbor seg \<and> mset records = mset (ss_records seg))"
  using assms(5-7)
proof (rule verify_public_sound)
  fix m artifact segment records
  assume reads: "bundle_reads H env policy m artifact" and names: "names_segment H m artifact segment"
    and d: "discloses H env m segment records"
    and sha: "json_member result ''artifact_sha256'' = JString (sha256_hex H artifact)"
  obtain s where s: "decode_segment_record H (ss_artifact_cbor seg) = Ok s"
    "commits_to H s (ss_records seg)" "ss_artifact_sha256 seg = sha256_hex H (ss_artifact_cbor seg)"
    using stored_segment [OF assms(1-4)] by blast
  have eq: "H artifact = H (ss_artifact_cbor seg)" using sha assms(8) s(3) by (simp add: sha256_hex_def)
  let ?S = "{artifact, ss_artifact_cbor seg} \<union> record_tree_inputs H records \<union> record_tree_inputs H (ss_records seg)"
  have "artifact = ss_artifact_cbor seg \<and> mset records = mset (ss_records seg)" if inj: "inj_on H ?S"
  proof -
    from inj eq have a: "artifact = ss_artifact_cbor seg" by (auto dest: inj_onD)
    with s(1) names have "segment = s" by (simp add: names_segment_def)
    with d s(2) have "mr_root (merkle_root_from_records H records) = mr_root (merkle_root_from_records H (ss_records seg))"
      by (simp add: discloses_def commits_to_def)
    moreover have "inj_on H (record_tree_inputs H records \<union> record_tree_inputs H (ss_records seg))"
      using inj by (rule inj_on_subset) auto
    ultimately show ?thesis using a record_tree_binding assms(1) by blast
  qed
  with reads d show ?thesis by blast
qed

theorem verified_bundle_is_stored_segment_witness:
  "\<exists>p seg segment records. reachable pad_digest memory_store memory_empty [example_record] p \<and> seg \<in> set (stored_segments p)
    \<and> discloses pad_digest disclosed_env disclosed_manifest segment records"
proof -
  obtain p seg where p: "reachable pad_digest memory_store memory_empty [example_record] p"
    and seg: "seg \<in> set (stored_segments p)" "ss_artifact_cbor seg = disclosed_artifact" "ss_records seg = [example_record]"
    by (rule disclosed_is_stored)
  obtain result where r: "verify_bundle_with_policy pad_digest disclosed_env disclosed_policy = Ok result"
    "json_member result ''overall'' = JString ''success''"
    "json_member result ''verification_scope'' = JString ''public_recompute''"
    by (rule disclosed_verifies)
  have "json_member result ''artifact_sha256'' = JString (ss_artifact_sha256 seg)"
    using r(1)
  proof (rule verify_bundle_Ok)
    fix m artifact mb profile
    assume "bundle_reads pad_digest disclosed_env disclosed_policy m artifact"
      and v: "result_value pad_digest disclosed_env mb m artifact profile disclosed_policy
        (conclude pad_digest disclosed_env m disclosed_policy artifact) = Ok result"
    then have "artifact = disclosed_artifact" using disclosed_reads by (auto simp: bundle_reads_def)
    moreover have "ss_artifact_sha256 seg = sha256_hex pad_digest (ss_artifact_cbor seg)"
      by (rule stored_segment [OF _ p seg(1)]) (simp_all add: seg(3))
    ultimately show ?thesis using result_value_members(3)[OF v] seg(2) by simp
  qed
  from verified_bundle_is_stored_segment [OF _ p seg(1) _ r this] seg(3) obtain m artifact segment records where
    "bundle_reads pad_digest disclosed_env disclosed_policy m artifact" "discloses pad_digest disclosed_env m segment records"
    by auto
  moreover from this(1) disclosed_reads have "m = disclosed_manifest" by (auto simp: bundle_reads_def)
  ultimately show ?thesis using p seg(1) by blast
qed

end
