(* ===== verification/Snapshot_Evidence.thy ===== *)
theory Snapshot_Evidence
  imports Gateway_Snapshot Ledger_Evidence
begin

text \<open>
  Exporter and verifier together: the files the gateway prepares for a segment, of whatever class, verify at the
  scope of that class, so what the gateway publishes can be checked by the auditor's tool.
\<close>

section \<open>Order of occurrences\<close>

lemma map_sort_key_comp: "map g (sort_key (\<lambda>x. f (g x)) xs) = sort_key f (map g xs)"
proof (induction xs)
  case (Cons x xs)
  have "map g (insort_key (\<lambda>x. f (g x)) x ys) = insort_key f (g x) (map g ys)" for ys by (induction ys) auto
  with Cons show ?case by simp
qed simp

text \<open>Sorting by key and position is the stable sort by key.\<close>

lemma sort_by_position:
  fixes key :: "'a \<Rightarrow> 'k::linorder"
  shows "map snd (sort_key (\<lambda>p. (key (snd p), fst p)) (enumerate n xs)) = sort_key key xs"
proof -
  let ?e = "enumerate n xs" and ?f = "\<lambda>p :: nat \<times> 'a. (key (snd p), fst p)"
  let ?s = "sort_key ?f ?e"
  have sorted: "sorted (map ?f ?s)" by simp
  have "sort_key (\<lambda>p. key (snd p)) ?e = ?s"
  proof (rule properties_for_sort_key)
    show "mset ?s = mset ?e" by simp
    show "sorted (map (\<lambda>p. key (snd p)) ?s)"
      using sorted by (auto simp: sorted_map case_prod_beta elim!: sorted_wrt_mono_rel [rotated])
    fix p assume "p \<in> set ?s"
    let ?P = "\<lambda>x. key (snd p) = key (snd x)"
    have "map fst (filter ?P ?s) = map fst (filter ?P ?e)"
    proof (rule sorted_distinct_set_unique)
      have "sorted (map ?f (filter ?P ?s))" using sorted by (rule sorted_filter)
      then show "sorted (map fst (filter ?P ?s))"
        by (auto simp: sorted_map case_prod_beta elim!: sorted_wrt_mono_rel [rotated])
      show "sorted (map fst (filter ?P ?e))" by (rule sorted_filter) simp
      have d: "distinct (map fst ?e)" by simp
      then show "distinct (map fst (filter ?P ?e))" by (rule distinct_map_filter)
      have "mset (map fst ?s) = mset (map fst ?e)" by (simp only: mset_map mset_sort)
      with d have "distinct (map fst ?s)" using mset_eq_imp_distinct_iff by blast
      then show "distinct (map fst (filter ?P ?s))" by (rule distinct_map_filter)
    qed simp
    moreover have "inj_on fst (set ?e)" using distinct_map [of fst ?e] by simp
    ultimately show "filter ?P ?s = filter ?P ?e"
      by (intro map_inj_on [of fst]) (auto intro: inj_on_subset)
  qed
  then show ?thesis using map_sort_key_comp [of snd key ?e] by simp
qed

lemma ordered_records: "map (\<lambda>(_, _, record). record) (ordered_occurrences H records) = sort_key (leaf H) records"
proof -
  let ?g = "\<lambda>(ordinal :: nat, record). (H (0 # record), ordinal, record)"
  have "ordered_occurrences H records = map ?g (sort_key (\<lambda>p. (leaf H (snd p), fst p)) (enumerate 0 records))"
    unfolding ordered_occurrences_def
    by (subst map_sort_key_comp [symmetric]) (simp add: case_prod_beta prefixed_hash_def)
  then show ?thesis using sort_by_position [of "leaf H" 0 records] by (simp add: case_prod_beta comp_def)
qed

section \<open>Portable paths\<close>

lemma split_on_single: "c \<notin> set s \<Longrightarrow> split_on c s = [s]"
  by (induction s) auto

lemma split_on_append: "c \<notin> set s \<Longrightarrow> split_on c (s @ c # t) = s # split_on c t"
  by (induction s) auto

lemma split_on_not_Nil: "split_on c s \<noteq> []"
  by (cases s) (auto split: list.splits)

lemma split_on_three:
  "c \<notin> set s \<Longrightarrow> c \<notin> set t \<Longrightarrow> c \<notin> set u \<Longrightarrow> split_on c (s @ c # t @ c # u) = [s, t, u]"
  by (simp add: split_on_append split_on_single)

lemma portable_pathI:
  assumes parts: "\<forall>part \<in> set (split_on CHR ''/'' path). part \<notin> {[], ''.'', ''..''}"
    and chars: "\<forall>c \<in> set path. 32 \<le> (of_char c :: nat) \<and> (of_char c :: nat) < 127 \<and> c \<noteq> CHR 0x5C \<and> c \<noteq> CHR '':''"
  shows "validate_portable_path path = Ok ()"
proof -
  have "list_all (\<lambda>b. unat b < 128) (str_bytes path)" using chars by (force simp: list_all_iff str_bytes_def unat_of_char)
  then have "str_chars path = map unat (str_bytes path)" by (simp add: str_chars_def utf8_decode_ascii)
  then have control: "\<not> list_ex char_is_control (str_chars path)"
    using chars by (force simp: list_ex_iff char_is_control_def str_bytes_def unat_of_char)
  obtain c rest where path: "path = c # rest" using parts by (cases path) auto
  have slash: "c \<noteq> CHR ''/''"
  proof
    assume "c = CHR ''/''"
    then have "[] \<in> set (split_on CHR ''/'' path)" by (simp add: path)
    with parts show False by blast
  qed
  have "hd (split_on CHR ''/'' path) \<noteq> ''.''"
    using parts hd_in_set [OF split_on_not_Nil] by blast
  moreover have "list_all is_normal (concat (map part_components ps))"
    if "\<forall>part \<in> set ps. part \<notin> {[], ''.'', ''..''}" for ps
    using that by (induction ps) (auto simp: part_components_def is_normal_def)
  ultimately have "list_all is_normal (path_components path)"
    using parts slash path by (simp add: path_components_def is_absolute_def Let_def)
  then have normal: "\<not> list_ex (\<lambda>part. \<not> is_normal part) (path_components path)"
    by (simp add: list_ex_iff list_all_iff)
  have "\<not> list_ex (\<lambda>part. part = [] \<or> part = ''.'' \<or> part = ''..'') (split_on CHR ''/'' path)"
    using parts by (simp add: list_ex_iff)
  moreover have "CHR 0x5C \<notin> set path" "CHR '':'' \<notin> set path" using chars by blast+
  ultimately show ?thesis
    unfolding validate_portable_path_def using control normal slash path by auto
qed

lemma digit_char: "is_ascii_digit c \<Longrightarrow> 32 \<le> (of_char c :: nat) \<and> (of_char c :: nat) < 127 \<and> c \<noteq> CHR 0x5C \<and> c \<noteq> CHR '':'' \<and> c \<noteq> CHR ''/''"
  by (auto simp: is_ascii_digit_def)

lemma padded_chars: "c \<in> set (show_nat_padded width n) \<Longrightarrow> is_ascii_digit c"
  using padded_digits [of width n] by (simp add: list_all_iff)

lemma occurrence_path_parts:
  "split_on CHR ''/'' (occurrence_path n i k) = [''records'', ''batch-'' @ show_nat_padded 20 (unat n),
     ''occurrence-'' @ show_nat_padded 20 i @ ''-ordinal-'' @ show_nat_padded 20 k @ ''.cbor'']"
proof -
  have d: "CHR ''/'' \<notin> set (show_nat_padded 20 x)" for x using padded_chars digit_char by blast
  have "occurrence_path n i k = ''records'' @ CHR ''/'' # (''batch-'' @ show_nat_padded 20 (unat n)) @ CHR ''/''
      # (''occurrence-'' @ show_nat_padded 20 i @ ''-ordinal-'' @ show_nat_padded 20 k @ ''.cbor'')"
    by (simp add: occurrence_path_def)
  then show ?thesis by (simp only:) (rule split_on_three, simp_all add: d)
qed

lemma occurrence_path_portable: "validate_portable_path (occurrence_path n i k) = Ok ()"
proof (rule portable_pathI)
  show "\<forall>part \<in> set (split_on CHR ''/'' (occurrence_path n i k)). part \<notin> {[], ''.'', ''..''}"
    by (simp add: occurrence_path_parts)
  show "\<forall>c \<in> set (occurrence_path n i k). 32 \<le> (of_char c :: nat) \<and> (of_char c :: nat) < 127 \<and> c \<noteq> CHR 0x5C \<and> c \<noteq> CHR '':''"
    by (auto simp: occurrence_path_def dest!: padded_chars digit_char)
qed

lemma export_paths_portable:
  "validate_portable_path ''segment.cbor'' = Ok ()" "validate_portable_path ''predecessor.cbor'' = Ok ()"
  "validate_portable_path ''timestamp.tsr'' = Ok ()"
  by code_simp+

section \<open>Exported batches\<close>

lemma check_retained_records_Ok_iff: "check_retained_records records = Ok () \<longleftrightarrow> canonical_records records"
  by (induction records) (auto simp: canonical_records_def and_then_Ok_iff map_err_Ok_iff is_ok_iff)

lemma check_material_Ok:
  assumes "check_material H ledger_id n material = Ok segment"
  shows "sha256_hex H (sm_artifact material) = sm_artifact_sha256 material"
    and "decode_segment_record H (sm_artifact material) = Ok segment"
    and "sr_ledger_id segment = ledger_id" and "sr_segment_number segment = n"
    and "canonical_records (sm_records material)" and "commits_to H segment (sm_records material)"
    and "check_export_predecessor H ledger_id n segment (sm_predecessor material) = Ok ()"
  using assms
  by (auto simp: check_material_def commits_to_def and_then_Ok_iff map_err_Ok_iff ok_or_Ok_iff Let_def
      check_retained_records_Ok_iff split: if_splits)

definition opening_of :: "(bytes \<Rightarrow> bytes) \<Rightarrow> u64 \<Rightarrow> occurrence list \<Rightarrow> record_batch_opening" where
  "opening_of H n batch = \<lparr>ob_batch_number = show_nat (unat n), ob_records = map (file_reference H) (batch_files n batch)\<rparr>"

lemma chunk_in_range: "0 < k \<Longrightarrow> i < length (chunks k xs) \<Longrightarrow> i * k < length xs"
proof -
  assume "0 < k" "i < length (chunks k xs)"
  then have "Suc i \<le> (length xs + k - 1) div k" by (simp add: length_chunks)
  then have "Suc i * k \<le> length xs + k - 1" using \<open>0 < k\<close> less_eq_div_iff_mult_less_eq by blast
  with \<open>0 < k\<close> show ?thesis by simp
qed

lemma export_batches_eq:
  assumes "0 < l" and "length ordered < 2 ^ 64" and "\<forall>n \<in> set ns. unat n < length (chunks l ordered)"
  shows "export_batches H l ordered ns files openings
    = Ok (files @ concat (map (\<lambda>n. batch_files n (chunks l ordered ! unat n)) ns),
        openings @ map (\<lambda>n. opening_of H n (chunks l ordered ! unat n)) ns)"
  using assms(3)
proof (induction ns arbitrary: files openings)
  case (Cons n ns)
  let ?s = "unat n * l"
  have s: "?s < length ordered" using chunk_in_range [OF assms(1), of "unat n" ordered] Cons.prems by simp
  have "subslice ordered ?s (min (?s + l) (length ordered)) = chunks l ordered ! unat n"
    using Cons.prems s by (cases "?s + l \<le> length ordered") (simp_all add: subslice_def nth_chunks)
  with s assms(2) Cons show ?case by (simp add: Let_def opening_of_def)
qed simp

lemma disclosed_batches_Ok:
  assumes "disclosed_batches cls selected k = Ok ns" and "k < 2 ^ 64"
  shows "\<forall>n \<in> set ns. unat n < k" and "sorted_wrt (<) ns"
    and "cls = ClassA \<Longrightarrow> ns = batch_numbers k"
    and "cls = ClassB \<Longrightarrow> 1 < k \<and> ns \<noteq> [] \<and> length ns < k"
    and "cls = ClassC \<Longrightarrow> ns = []"
proof -
  have fin: "finite selected" by (rule finite)
  have b: "ns = sorted_list_of_set selected \<and> 1 < k \<and> selected \<noteq> {} \<and> card selected \<noteq> k \<and> (\<forall>n \<in> selected. unat n < k)"
    if "cls = ClassB"
    using assms(1) that by (auto simp: disclosed_batches_def split: if_splits)
  show "\<forall>n \<in> set ns. unat n < k"
    using assms b fin batch_numbers_facts(4)[OF assms(2)]
    by (cases cls) (auto simp: disclosed_batches_def batch_numbers_def)
  show "sorted_wrt (<) ns"
    using assms b fin batch_numbers_sorted [OF assms(2)]
    by (cases cls) (auto simp: disclosed_batches_def batch_numbers_def)
  show "cls = ClassA \<Longrightarrow> ns = batch_numbers k" "cls = ClassC \<Longrightarrow> ns = []"
    using assms(1) by (auto simp: disclosed_batches_def batch_numbers_def)
  show "1 < k \<and> ns \<noteq> [] \<and> length ns < k" if "cls = ClassB"
  proof -
    have "unat ` selected \<subseteq> {..<k}" using b [OF that] by auto
    then have "card (unat ` selected) \<le> k" by (metis card_lessThan card_mono finite_lessThan)
    moreover have "card (unat ` selected) = card selected" by (intro card_image inj_onI) (simp add: word_unat_eq_iff)
    ultimately show ?thesis using b [OF that] fin by simp
  qed
qed

text \<open>What an export consists of.\<close>

definition exported_batch :: "(bytes \<Rightarrow> bytes) \<Rightarrow> segment_record \<Rightarrow> bytes list \<Rightarrow> u64 \<Rightarrow> occurrence list" where
  "exported_batch H segment records n =
     chunks (unat (cp_batch_record_limit (sr_closure_policy segment))) (ordered_occurrences H records) ! unat n"

lemma exported_batch_records:
  assumes "unat n < length (chunks (unat (cp_batch_record_limit (sr_closure_policy segment))) (ordered_occurrences H records))"
  shows "map (\<lambda>(_, _, record). record) (exported_batch H segment records n)
    = chunks (unat (cp_batch_record_limit (sr_closure_policy segment))) (sort_key (leaf H) records) ! unat n"
  using assms by (simp add: exported_batch_def chunks_map flip: ordered_records)

lemma map_snd_batch_files: "map snd (batch_files n batch) = map (\<lambda>(_, _, record). record) batch"
proof -
  have "map snd (batch_files n batch) = map (\<lambda>(_, _, record). record) (map snd (enumerate 0 batch))"
    unfolding batch_files_def map_map by (rule map_cong) auto
  then show ?thesis by simp
qed

lemma length_ordered_chunks:
  "length (chunks l (ordered_occurrences H records)) = length (chunks l (sort_key (leaf H) records))"
  by (metis chunks_map length_map ordered_records)

definition exported_openings :: "(bytes \<Rightarrow> bytes) \<Rightarrow> segment_record \<Rightarrow> bytes list \<Rightarrow> u64 list \<Rightarrow> record_batch_opening list" where
  "exported_openings H segment records ns = map (\<lambda>i. opening_of H i (exported_batch H segment records i)) ns"

definition exported_files :: "(bytes \<Rightarrow> bytes) \<Rightarrow> segment_record \<Rightarrow> snapshot_material \<Rightarrow> u64 list \<Rightarrow> bytes \<Rightarrow> (string \<times> bytes) list" where
  "exported_files H segment material ns content =
     (''segment.cbor'', sm_artifact material)
     # concat (map (\<lambda>i. batch_files i (exported_batch H segment (sm_records material) i)) ns)
     @ (case sm_predecessor material of None \<Rightarrow> [] | Some content \<Rightarrow> [(''predecessor.cbor'', content)])
     @ [(''timestamp.tsr'', sm_tsa_response material), (MANIFEST_NAME, content)]"

lemma export_batches_material:
  assumes m: "check_material H ledger_id n material = Ok segment"
    and d: "disclosed_batches cls selected (length (sr_batch_roots segment)) = Ok ns"
  shows "export_batches H (unat (cp_batch_record_limit (sr_closure_policy segment))) (ordered_occurrences H (sm_records material)) ns
      files [] = Ok (files @ concat (map (\<lambda>i. batch_files i (exported_batch H segment (sm_records material) i)) ns),
        exported_openings H segment (sm_records material) ns)"
proof -
  let ?o = "ordered_occurrences H (sm_records material)" and ?l = "unat (cp_batch_record_limit (sr_closure_policy segment))"
  note ok = check_material_Ok [OF m]
  have seg: "validate_detailed H segment = Ok ()" by (rule decode_segment_record_Ok(2)[OF ok(2)])
  have "0 < ?l" using validate_detailed_Ok(3)[OF seg] by (auto simp: policy_validate_Ok_iff)
  moreover have "length ?o < 2 ^ 64"
    using ok(6) unat_u64_less [of "sr_record_count segment"] by (simp add: commits_to_def ordered_occurrences_def)
  moreover have "\<forall>i \<in> set ns. unat i < length (chunks ?l ?o)"
    using disclosed_batches_Ok(1)[OF d batch_count_small [OF ok(6) seg]] commits_to_batches(1)[OF ok(6) seg]
    by (simp add: length_ordered_chunks)
  ultimately show ?thesis
    using export_batches_eq [of ?l ?o ns H] by (simp add: exported_batch_def exported_openings_def)
qed

lemma prepare_export_Ok_iff:
  "prepare_export H to_json ledger_id n cls selected material = Ok export \<longleftrightarrow>
     (cls = ClassB \<or> selected = {})
     \<and> (\<exists>segment ns content. check_material H ledger_id n material = Ok segment
       \<and> disclosed_batches cls selected (length (sr_batch_roots segment)) = Ok ns
       \<and> to_json (snapshot_manifest H ledger_id n cls segment material (exported_openings H segment (sm_records material) ns)) = Ok content
       \<and> export = \<lparr>px_files = exported_files H segment material ns content\<rparr>)"
  unfolding prepare_export_def
  by (auto simp: and_then_Ok_iff map_err_Ok_iff Let_def export_batches_material exported_files_def split: if_splits)

section \<open>Published exports\<close>

text \<open>The reader's view of an exported manifest: no request and no extensions.\<close>

definition reader_manifest :: "export_manifest \<Rightarrow> manifest" where
  "reader_manifest m =
     \<lparr>mf_version = xm_version m, mf_ledger_id = xm_ledger_id m, mf_segment_number = xm_segment_number m,
       mf_commitment_profile_id = xm_commitment_profile_id m, mf_disclosure_class = xm_disclosure_class m,
       mf_artifacts = \<lparr>at_segment_cbor = xa_segment_cbor (xm_artifacts m),
         at_predecessor_segment_cbor = xa_predecessor_segment_cbor (xm_artifacts m),
         at_record_batches = xa_record_batches (xm_artifacts m), at_tsa_req = None,
         at_tsa_tsr = Some (xa_tsa_tsr (xm_artifacts m)), at_extensions = []\<rparr>,
       mf_anchoring = \<lparr>an_tsa = \<lparr>pt_status = xm_tsa_status m\<rparr>\<rparr>, mf_extensions = None\<rparr>"

text \<open>The auditor's file system holds the files of the export, each within the size limit of a bundle member.\<close>

definition serves :: "evidence_env \<Rightarrow> (string \<times> bytes) list \<Rightarrow> bool" where
  "serves env files \<longleftrightarrow> ee_open_root env = Ok ()
     \<and> (\<forall>(path, content) \<in> set files. length content \<le> MAX_ARCHIVE_MEMBER
         \<and> (if path = MANIFEST_NAME then ee_manifest env = Ok content else ee_open_beneath env path = Ok content))"

definition class_scope :: "disclosure_class \<Rightarrow> verification_scope" where
  "class_scope cls = (case cls of ClassA \<Rightarrow> PublicRecompute | ClassB \<Rightarrow> DisclosedBatchRecompute | ClassC \<Rightarrow> AnchorOnly)"

lemma class_scope_str: "for_disclosure_class (disclosure_class_str cls) = class_scope cls"
  by (cases cls) (simp_all add: for_disclosure_class_def disclosure_class_str_def class_scope_def)

lemma served_reference:
  assumes "\<forall>x. length (H x) = 32" and "serves env files" and "(path, content) \<in> set files"
    and "validate_portable_path path = Ok ()" and "path \<noteq> MANIFEST_NAME"
  shows "safe_read env path = Ok content" and "referenced_artifact H env (file_reference H (path, content)) = Ok content"
    and "valid_hex (sha256_hex H content) 64"
proof -
  from assms(2,3,5) have "ee_open_root env = Ok ()" "ee_open_beneath env path = Ok content" "length content \<le> MAX_ARCHIVE_MEMBER"
    by (auto simp: serves_def)
  with assms(4) show r: "safe_read env path = Ok content"
    by (simp add: safe_read_def read_file_bounded_from_def map_err_def)
  show h: "valid_hex (sha256_hex H content) 64"
    using valid_hex_hex_lower [of "H content"] assms(1) by (simp add: sha256_hex_def)
  with r show "referenced_artifact H env (file_reference H (path, content)) = Ok content"
    by (simp add: referenced_artifact_def file_reference_def)
qed

lemma occurrence_path_not_manifest: "occurrence_path n i k \<noteq> MANIFEST_NAME"
  by (simp add: occurrence_path_def MANIFEST_NAME_def)

lemma batch_file_path:
  assumes "f \<in> set (batch_files n batch)"
  shows "validate_portable_path (fst f) = Ok ()" and "fst f \<noteq> MANIFEST_NAME"
  using assms occurrence_path_portable occurrence_path_not_manifest by (auto simp: batch_files_def)

lemma served_batch:
  assumes "\<forall>x. length (H x) = 32" and "serves env files" and "set (batch_files n batch) \<subseteq> set files"
  shows "resolves H env (ob_records (opening_of H n batch)) (map (\<lambda>(_, _, record). record) batch)"
    and "validate_references (ob_records (opening_of H n batch)) = Ok ()"
proof -
  have f: "referenced_artifact H env (file_reference H f) = Ok (snd f)" "validate_portable_path (fst f) = Ok ()"
    "valid_hex (sha256_hex H (snd f)) 64" if "f \<in> set (batch_files n batch)" for f
    using served_reference [OF assms(1,2), of "fst f" "snd f"] batch_file_path [OF that] assms(3) that by auto
  then have "resolves H env (ob_records (opening_of H n batch)) (map snd (batch_files n batch))"
    by (auto simp: resolves_def opening_of_def list_all2_conv_all_nth)
  then show "resolves H env (ob_records (opening_of H n batch)) (map (\<lambda>(_, _, record). record) batch)"
    by (simp only: map_snd_batch_files)
  have "validate_references (map (file_reference H) fs) = Ok ()" if "set fs \<subseteq> set (batch_files n batch)" for fs
    using that f by (induction fs) (auto simp: file_reference_def)
  then show "validate_references (ob_records (opening_of H n batch)) = Ok ()" by (simp add: opening_of_def)
qed

lemma validate_references_append:
  "validate_references (xs @ ys) = Ok () \<longleftrightarrow> validate_references xs = Ok () \<and> validate_references ys = Ok ()"
  by (induction xs) (auto simp: and_then_Ok_iff)

lemma validate_references_concat:
  "validate_references (concat xss) = Ok () \<longleftrightarrow> (\<forall>xs \<in> set xss. validate_references xs = Ok ())"
  by (induction xss) (auto simp: validate_references_append)

text \<open>A published export: its material passed the checks, its batches were chosen for its class, its files are served
  and its manifest reads back.\<close>

definition published_manifest ::
  "(bytes \<Rightarrow> bytes) \<Rightarrow> string \<Rightarrow> u64 \<Rightarrow> disclosure_class \<Rightarrow> segment_record \<Rightarrow> snapshot_material \<Rightarrow> u64 list \<Rightarrow> manifest" where
  "published_manifest H ledger_id n cls segment material ns =
     reader_manifest (snapshot_manifest H ledger_id n cls segment material (exported_openings H segment (sm_records material) ns))"

definition published ::
  "(bytes \<Rightarrow> bytes) \<Rightarrow> evidence_env \<Rightarrow> string \<Rightarrow> u64 \<Rightarrow> disclosure_class \<Rightarrow> u64 set \<Rightarrow> snapshot_material
     \<Rightarrow> segment_record \<Rightarrow> u64 list \<Rightarrow> bool" where
  "published H env ledger_id n cls selected material segment ns \<longleftrightarrow>
     (\<forall>x. length (H x) = 32) \<and> check_material H ledger_id n material = Ok segment
     \<and> disclosed_batches cls selected (length (sr_batch_roots segment)) = Ok ns
     \<and> (\<exists>content. ee_manifest_from_json env content = Ok (published_manifest H ledger_id n cls segment material ns)
       \<and> serves env (exported_files H segment material ns content))"

lemma openings_of_published [simp]:
  "openings_of (published_manifest H ledger_id n cls segment material ns) = exported_openings H segment (sm_records material) ns"
  by (simp add: openings_of_def published_manifest_def reader_manifest_def snapshot_manifest_def)

lemma published_segment:
  assumes "published H env ledger_id n cls selected material segment ns"
  shows "validate_detailed H segment = Ok ()" and "commits_to H segment (sm_records material)"
    and "canonical_records (sm_records material)"
    and "names_segment H (published_manifest H ledger_id n cls segment material ns) (sm_artifact material) segment"
    and "\<forall>i \<in> set ns. unat i < length (sr_batch_roots segment)" and "sorted_wrt (<) ns"
proof -
  have m: "check_material H ledger_id n material = Ok segment"
    and d: "disclosed_batches cls selected (length (sr_batch_roots segment)) = Ok ns"
    using assms by (simp_all add: published_def)
  note ok = check_material_Ok [OF m]
  show v: "validate_detailed H segment = Ok ()" by (rule decode_segment_record_Ok(2)[OF ok(2)])
  show "commits_to H segment (sm_records material)" "canonical_records (sm_records material)" by fact+
  show "names_segment H (published_manifest H ledger_id n cls segment material ns) (sm_artifact material) segment"
    using ok by (simp add: names_segment_def published_manifest_def reader_manifest_def snapshot_manifest_def)
  note d' = disclosed_batches_Ok(1,2)[OF d batch_count_small [OF ok(6) v]]
  show "\<forall>i \<in> set ns. unat i < length (sr_batch_roots segment)" "sorted_wrt (<) ns" by (rule d')+
qed

lemma published_batches:
  assumes p: "published H env ledger_id n cls selected material segment ns"
  defines "openings \<equiv> exported_openings H segment (sm_records material) ns"
  shows "batch_disclosure H env segment (sm_records material) ns openings"
    and "validate_references (concat (map ob_records openings)) = Ok ()"
    and "\<forall>op \<in> set openings. ob_records op \<noteq> [] \<and> parse_uint64 (ob_batch_number op) \<noteq> None"
proof -
  note s = published_segment [OF p]
  let ?b = "exported_batch H segment (sm_records material)"
  let ?r = "\<lambda>i. chunks (unat (cp_batch_record_limit (sr_closure_policy segment))) (sort_key (leaf H) (sm_records material)) ! unat i"
  from p obtain content where served: "serves env (exported_files H segment material ns content)"
    and H: "\<forall>x. length (H x) = 32" by (auto simp: published_def)
  have files: "set (batch_files i (?b i)) \<subseteq> set (exported_files H segment material ns content)" if "i \<in> set ns" for i
    using that by (auto simp: exported_files_def)
  have batch: "map (\<lambda>(_, _, record). record) (?b i) = ?r i" if "i \<in> set ns" for i
    using exported_batch_records s(5) that commits_to_batches(1)[OF s(2,1)] by (simp add: length_ordered_chunks)
  have "resolves H env (ob_records (opening_of H i (?b i))) (?r i)" if "i \<in> set ns" for i
    using served_batch(1)[OF H served files [OF that]] batch [OF that] by simp
  then show "batch_disclosure H env segment (sm_records material) ns openings"
    by (auto simp: batch_disclosure_def openings_def exported_openings_def opening_of_def list_all2_conv_all_nth)
  show "validate_references (concat (map ob_records openings)) = Ok ()"
    using served_batch(2)[OF H served files]
    by (auto simp: validate_references_concat openings_def exported_openings_def)
  have "?b i \<noteq> []" if "i \<in> set ns" for i
  proof -
    have i: "unat i < length (sr_batch_roots segment)" using s(5) that by simp
    then have "sr_record_count segment \<noteq> 0" using s(2) commits_to_batches(1)[OF s(2,1)] by (auto simp: commits_to_def)
    then have "0 < batch_size segment (unat i)" by (rule expected_opening_count_size(2)[OF s(1) _ i])
    then have "?r i \<noteq> []" using commits_to_batches(5)[OF s(2,1), of "unat i"] commits_to_batches(1)[OF s(2,1)] i by auto
    then show ?thesis using batch [OF that] by auto
  qed
  then show "\<forall>op \<in> set openings. ob_records op \<noteq> [] \<and> parse_uint64 (ob_batch_number op) \<noteq> None"
    using parse_uint64_Some_iff
    by (fastforce simp: openings_def exported_openings_def opening_of_def batch_files_def enumerate_eq_zip)
qed

lemma published_chain:
  assumes p: "published H env ledger_id n cls selected material segment ns"
  shows "chain_disclosed H env (published_manifest H ledger_id n cls segment material ns) segment"
proof (cases "sr_segment_number segment = 0")
  case True
  with validate_detailed_Ok(5)[OF published_segment(1)[OF p]] show ?thesis by (simp add: chain_disclosed_def)
next
  case False
  show ?thesis
  proof (cases "sm_predecessor material")
    case None
    with False show ?thesis
      by (simp add: chain_disclosed_def published_manifest_def reader_manifest_def snapshot_manifest_def)
  next
    case (Some predecessor)
    from p obtain content where served: "serves env (exported_files H segment material ns content)"
      and H: "\<forall>x. length (H x) = 32" and m: "check_material H ledger_id n material = Ok segment"
      by (auto simp: published_def)
    have "(''predecessor.cbor'', predecessor) \<in> set (exported_files H segment material ns content)"
      using Some by (simp add: exported_files_def)
    then have "referenced_artifact H env (file_reference H (''predecessor.cbor'', predecessor)) = Ok predecessor"
      by (rule served_reference(2)[OF H served _ export_paths_portable(2)]) (simp add: MANIFEST_NAME_def)
    moreover have "valid_predecessor H segment predecessor"
    proof -
      note ok = check_material_Ok [OF m]
      obtain previous where d: "decode_segment_record H predecessor = Ok previous"
        and c: "sr_ledger_id previous = ledger_id" "checked_add (sr_segment_number previous) 1 = Some n"
          "H predecessor = sr_prev_segment_sha256 segment"
        using ok(7) Some by (auto simp: check_export_predecessor_def and_then_Ok_iff map_err_Ok_iff split: if_splits)
      have "sr_commitment_profile_id previous = sr_commitment_profile_id segment"
        using validate_detailed_Ok(2) decode_segment_record_Ok(2)[OF d] published_segment(1)[OF p] by simp
      with d c ok(3,4) show ?thesis by (simp add: valid_predecessor_def)
    qed
    ultimately show ?thesis
      using False Some
      by (simp add: chain_disclosed_def published_manifest_def reader_manifest_def snapshot_manifest_def)
  qed
qed

lemma published_reads:
  assumes p: "published H env ledger_id n cls selected material segment ns"
    and policy: "validate_verify_policy env policy = Ok ()"
  shows "bundle_reads H env policy (published_manifest H ledger_id n cls segment material ns) (sm_artifact material)"
proof -
  let ?m = "published_manifest H ledger_id n cls segment material ns"
  let ?os = "exported_openings H segment (sm_records material) ns"
  from p obtain content where served: "serves env (exported_files H segment material ns content)"
    and json: "ee_manifest_from_json env content = Ok ?m"
    and H: "\<forall>x. length (H x) = 32" and m: "check_material H ledger_id n material = Ok segment"
    by (auto simp: published_def)
  note ok = check_material_Ok [OF m] and s = published_segment [OF p] and b = published_batches [OF p]
  note fields = published_manifest_def reader_manifest_def snapshot_manifest_def
  have member: "safe_read env path = Ok c \<and> valid_hex (sha256_hex H c) 64"
    if "(path, c) \<in> set (exported_files H segment material ns content)" "validate_portable_path path = Ok ()" "path \<noteq> MANIFEST_NAME"
    for path c using served_reference [OF H served that(1-3)] by simp
  have seg: "safe_read env ''segment.cbor'' = Ok (sm_artifact material)" "valid_hex (sha256_hex H (sm_artifact material)) 64"
    and tsr: "valid_hex (sha256_hex H (sm_tsa_response material)) 64"
    using member [OF _ export_paths_portable(1)] member [OF _ export_paths_portable(3)]
    by (simp_all add: exported_files_def MANIFEST_NAME_def)
  have pred: "valid_hex (sha256_hex H c) 64" if "sm_predecessor material = Some c" for c
    using member [OF _ export_paths_portable(2), of c] that by (simp add: exported_files_def MANIFEST_NAME_def)
  have "COMMITMENT_PROFILE_ID \<noteq> []" by code_simp
  then have lexical: "manifest_lexical ?m"
    using validate_detailed_Ok(1,2)[OF s(1)] ok(3) parse_uint64_Some_iff [of "show_nat (unat n)" n]
    by (cases cls) (simp_all add: manifest_lexical_def fields disclosure_class_str_def)
  have "?os \<noteq> [] \<Longrightarrow> openings_lexical ?os" using b(3) by (simp add: openings_lexical_def list_all_iff)
  moreover have "validate_references (references (mf_artifacts ?m) True) = Ok ()"
    using b(2) seg(2) tsr pred export_paths_portable ok(1)
    by (auto simp: references_def fields file_reference_def validate_references_append split: option.splits)
  ultimately have "parse_manifest env content = Ok ?m"
    using json lexical by (simp add: parse_manifest_def) (simp add: fields)
  moreover have "read_manifest env = Ok content"
    using served by (auto simp: serves_def exported_files_def read_manifest_def read_file_bounded_from_def)
  ultimately show ?thesis
    using policy seg(1) by (auto simp: bundle_reads_def fields)
qed

lemma published_disclosure:
  assumes p: "published H env ledger_id n cls selected material segment ns"
    and "cl_scope c = class_scope cls" and "vp_selected_batches policy = {}"
  shows "validate_disclosure H env (published_manifest H ledger_id n cls segment material ns) segment policy c = (True, c)"
proof -
  let ?m = "published_manifest H ledger_id n cls segment material ns"
  let ?k = "length (sr_batch_roots segment)" and ?os = "exported_openings H segment (sm_records material) ns"
  note s = published_segment [OF p]
  have d: "disclosed_batches cls selected ?k = Ok ns" using p by (simp add: published_def)
  note d = disclosed_batches_Ok [OF d batch_count_small [OF s(2,1)]]
  have len: "length ?os = length ns" by (simp add: exported_openings_def)
  have cls: "mf_disclosure_class ?m = disclosure_class_str cls"
    by (simp add: published_manifest_def reader_manifest_def snapshot_manifest_def)
  have "card (set ns) = length ns" using s(6) by (simp add: strict_sorted_iff distinct_card)
  then have shape: "disclosure_shape ?m segment (openings_of ?m) (set ns)"
    using d(3-5) len cls s(2) commits_to_batches(1)[OF s(2,1)] batch_numbers_facts(3)[OF batch_count_small [OF s(2,1)]]
    by (cases cls) (auto simp: disclosure_shape_def disclosure_class_str_def commits_to_def Let_def)
  have consumed: "consumed_batches policy ?m (cl_scope c) ?k (set ns) = Some (if cls = ClassC then {} else set ns)"
    using cls assms(2,3) d(4) by (cases cls) (simp_all add: consumed_batches_def class_scope_def disclosure_class_str_def)
  show ?thesis
  proof (rule disclosure_validates [OF s(1,2) _ s(3,5,6) shape consumed])
    show "batch_disclosure H env segment (sm_records material) ns (openings_of ?m)"
      using published_batches(1)[OF p] by simp
    show "cl_scope c \<noteq> AnchorOnly \<Longrightarrow> set ns \<subseteq> (if cls = ClassC then {} else set ns)"
      using assms(2) by (cases cls) (simp_all add: class_scope_def)
    show "cl_scope c = PublicRecompute \<Longrightarrow> ns = batch_numbers ?k"
      using assms(2) d(3) by (cases cls) (simp_all add: class_scope_def)
  qed
qed

lemma published_timestamp:
  assumes p: "published H env ledger_id n cls selected material segment ns"
  shows "timestamp_accepted H env (published_manifest H ledger_id n cls segment material ns) policy digest \<longleftrightarrow>
    missing_timestamp_policy policy = None \<and> ee_verify_response env (sm_tsa_response material) digest policy = Ok None"
proof -
  from p obtain content where served: "serves env (exported_files H segment material ns content)"
    and H: "\<forall>x. length (H x) = 32" by (auto simp: published_def)
  have "(''timestamp.tsr'', sm_tsa_response material) \<in> set (exported_files H segment material ns content)"
    by (simp add: exported_files_def)
  then have "referenced_artifact H env (file_reference H (''timestamp.tsr'', sm_tsa_response material)) = Ok (sm_tsa_response material)"
    by (rule served_reference(2)[OF H served _ export_paths_portable(3)]) (simp add: MANIFEST_NAME_def)
  then show ?thesis
    by (auto simp: timestamp_accepted_def check_timestamp_request_def published_manifest_def reader_manifest_def snapshot_manifest_def)
qed

section \<open>Distinct paths\<close>

lemma digits_then_other:
  assumes "list_all is_ascii_digit a" "list_all is_ascii_digit b" "\<not> is_ascii_digit x" "a @ x # s = b @ x # t"
  shows "a = b"
proof -
  have "takeWhile is_ascii_digit (a @ x # s) = a" "takeWhile is_ascii_digit (b @ x # t) = b"
    using assms(1-3) by (simp_all add: takeWhile_append2 list_all_iff)
  with assms(4) show ?thesis by metis
qed

lemma occurrence_path_inject:
  assumes "occurrence_path n i k = occurrence_path n' i' k'"
  shows "n = n'" and "i = i'"
proof -
  from assms have parts: "split_on CHR ''/'' (occurrence_path n i k) = split_on CHR ''/'' (occurrence_path n' i' k')" by simp
  then have "show_nat_padded 20 (unat n) = show_nat_padded 20 (unat n')" by (simp add: occurrence_path_parts)
  then have "unat n = unat n'" by (metis digits_value_padded)
  then show "n = n'" by (simp add: word_unat_eq_iff)
  from parts have "show_nat_padded 20 i @ CHR ''-'' # ''ordinal-'' @ show_nat_padded 20 k @ ''.cbor''
      = show_nat_padded 20 i' @ CHR ''-'' # ''ordinal-'' @ show_nat_padded 20 k' @ ''.cbor''"
    by (simp add: occurrence_path_parts)
  then have "show_nat_padded 20 i = show_nat_padded 20 i'"
    by (rule digits_then_other [OF padded_digits padded_digits, rotated]) (simp add: is_ascii_digit_def)
  then show "i = i'" by (metis digits_value_padded)
qed

lemma batch_paths_distinct: "distinct (map fst (batch_files n batch))"
proof -
  have "map fst (batch_files n batch) = map (\<lambda>(index, _, ordinal, _). occurrence_path n index ordinal) (enumerate 0 batch)"
    by (simp add: batch_files_def case_prod_beta comp_def)
  moreover have "inj_on (\<lambda>(index, _, ordinal, _). occurrence_path n index ordinal) (set (enumerate 0 batch))"
  proof (rule inj_onI)
    fix p q assume "p \<in> set (enumerate 0 batch)" "q \<in> set (enumerate 0 batch)"
      and "(\<lambda>(index, _, ordinal, _). occurrence_path n index ordinal) p = (\<lambda>(index, _, ordinal, _). occurrence_path n index ordinal) q"
    then have "fst p = fst q" using occurrence_path_inject(2) by (auto simp: case_prod_beta)
    with \<open>p \<in> _\<close> \<open>q \<in> _\<close> show "p = q" by (metis distinct_enumerate distinct_map inj_onD map_fst_enumerate distinct_upt)
  qed
  ultimately show ?thesis by (simp add: distinct_map)
qed

lemma exported_paths_distinct:
  assumes "distinct ns"
  shows "distinct (map fst (exported_files H segment material ns content))"
proof -
  let ?b = "exported_batch H segment (sm_records material)"
  have path: "\<exists>i k. p = occurrence_path n i k" if "p \<in> fst ` set (batch_files n batch)" for p n batch
    using that unfolding batch_files_def by fastforce
  have "distinct (map fst (concat (map (\<lambda>i. batch_files i (?b i)) ns)))"
    using assms
  proof (induction ns)
    case (Cons j js)
    have "fst ` set (batch_files j (?b j)) \<inter> fst ` set (batch_files i (?b i)) = {}" if "i \<in> set js" for i
      using path occurrence_path_inject(1) Cons.prems that by (metis disjoint_iff distinct.simps(2))
    then have "fst ` set (batch_files j (?b j)) \<inter> fst ` set (concat (map (\<lambda>i. batch_files i (?b i)) js)) = {}" by auto
    with Cons batch_paths_distinct [of j "?b j"] show ?case
      by (simp only: list.map concat.simps map_append distinct_append set_map distinct.simps simp_thms)
  qed simp
  define paths where "paths = map fst (concat (map (\<lambda>i. batch_files i (?b i)) ns))"
  have "distinct paths" unfolding paths_def by fact
  moreover have r: "hd p = CHR ''r''" if "p \<in> set paths" for p
  proof -
    from that obtain i where "p \<in> fst ` set (batch_files i (?b i))" by (auto simp: paths_def)
    then obtain j k where "p = occurrence_path i j k" using path by blast
    then show ?thesis by (simp add: occurrence_path_def)
  qed
  have "''segment.cbor'' \<notin> set paths" "''predecessor.cbor'' \<notin> set paths" "''timestamp.tsr'' \<notin> set paths"
    "MANIFEST_NAME \<notin> set paths" by (auto dest: r simp: MANIFEST_NAME_def)
  moreover have "map fst (exported_files H segment material ns content) = ''segment.cbor'' # paths
      @ (case sm_predecessor material of None \<Rightarrow> [] | Some _ \<Rightarrow> [''predecessor.cbor'']) @ [''timestamp.tsr'', MANIFEST_NAME]"
    by (simp add: exported_files_def paths_def split: option.split)
  ultimately show ?thesis
    by (cases "sm_predecessor material") (simp_all add: MANIFEST_NAME_def)
qed

section \<open>An example export\<close>

definition snapshot_example :: snapshot_material where
  "snapshot_example = \<lparr>sm_artifact = disclosed_artifact, sm_artifact_sha256 = sha256_hex pad_digest disclosed_artifact,
     sm_predecessor = None, sm_records = [example_record], sm_tsa_response = [1]\<rparr>"

definition snapshot_example_manifest :: export_manifest where
  "snapshot_example_manifest = snapshot_manifest pad_digest (sr_ledger_id disclosed_segment) 0 ClassA disclosed_segment
     snapshot_example (exported_openings pad_digest disclosed_segment [example_record] [0])"

definition snapshot_example_json :: "export_manifest \<Rightarrow> (bytes, string) result" where
  "snapshot_example_json m = (if m = snapshot_example_manifest then Ok [] else Err ''another manifest'')"

definition snapshot_example_env :: evidence_env where
  "snapshot_example_env = disclosed_env\<lparr>
     ee_open_beneath := (\<lambda>path. ok_or (map_of (exported_files pad_digest disclosed_segment snapshot_example [0] []) path) ''no such file''),
     ee_manifest_from_json := (\<lambda>_. Ok (reader_manifest snapshot_example_manifest))\<rparr>"

lemma snapshot_example_checked:
  "check_material pad_digest (sr_ledger_id disclosed_segment) 0 snapshot_example = Ok disclosed_segment"
proof -
  have "unat (sr_record_count disclosed_segment) = 1" "sr_segment_number disclosed_segment = 0"
    by (simp_all add: disclosed_segment_def example_segment_def)
  moreover have "check_retained_records [example_record] = Ok ()"
    using disclosed_in_full(2) by (simp only: check_retained_records_Ok_iff)
  ultimately show ?thesis using disclosed_commits
    by (simp add: check_material_def snapshot_example_def disclosed_decodes commits_to_def
        check_export_predecessor_def Let_def del: check_retained_records.simps)
qed

lemma snapshot_example_prepared:
  "prepare_export pad_digest snapshot_example_json (sr_ledger_id disclosed_segment) 0 ClassA {} snapshot_example
    = Ok \<lparr>px_files = exported_files pad_digest disclosed_segment snapshot_example [0] []\<rparr>"
proof -
  have "length (sr_batch_roots disclosed_segment) = 1" by (simp add: disclosed_segment_def)
  then have "disclosed_batches ClassA {} (length (sr_batch_roots disclosed_segment)) = Ok [0]"
    by (simp add: disclosed_batches_def)
  then show ?thesis
    using snapshot_example_checked
    by (auto simp: prepare_export_Ok_iff snapshot_example_json_def snapshot_example_manifest_def snapshot_example_def)
qed

lemma snapshot_example_served: "serves snapshot_example_env (exported_files pad_digest disclosed_segment snapshot_example [0] [])"
proof -
  let ?files = "exported_files pad_digest disclosed_segment snapshot_example [0] []"
  have "map_of ?files path = Some content" if "(path, content) \<in> set ?files" for path content
    using that exported_paths_distinct [of "[0]"] by (simp add: map_of_is_SomeI)
  moreover have "length content \<le> MAX_ARCHIVE_MEMBER \<and> (path = MANIFEST_NAME \<longrightarrow> content = [])"
    if "(path, content) \<in> set ?files" for path content
  proof -
    have "exported_batch pad_digest disclosed_segment [example_record] 0 = ordered_occurrences pad_digest [example_record]"
      by (simp add: exported_batch_def disclosed_segment_def example_segment_def example_policy_def chunks_short ordered_occurrences_def)
    then show ?thesis
      using that disclosed_files occurrence_path_not_manifest
      by (auto simp: exported_files_def snapshot_example_def ordered_occurrences_def batch_files_def MANIFEST_NAME_def MAX_ARCHIVE_MEMBER_def)
  qed
  ultimately show ?thesis
    by (auto simp: serves_def snapshot_example_env_def disclosed_env_def)
qed

section \<open>Property\<close>

text \<open>C13: Whatever the gateway exports, an auditor can verify: the files of a prepared export have distinct paths,
  and when they are served as they are and the manifest reads back as written, then verification under a policy
  that selects no scope, has an identity and names no policy artifact returns a result at the scope of the
  disclosure class, all records for class A, complete batches for class B, the artifact alone for class C, which is
  success exactly when the policy is complete and the retained response verifies over the digest of the artifact
  as a response without a nonce: a nonce-bearing one needs its request, which no export contains.\<close>

theorem exported_snapshot_verifies:
  assumes "\<forall>x. length (H x) = 32"
    and "prepare_export H to_json ledger_id n cls selected material = Ok export"
    and "serves env (px_files export)"
    and "\<forall>m content. to_json m = Ok content \<longrightarrow> ee_manifest_from_json env content = Ok (reader_manifest m)"
    and "validate_verify_policy env policy = Ok ()" and "vp_selected_scope policy = None"
    and "vp_verifier_policy_id policy = Some identity" and "vp_verifier_policy_artifact policy = None"
  shows "distinct (map fst (px_files export))
    \<and> (\<exists>result. verify_bundle_with_policy H env policy = Ok result
      \<and> json_member result ''verification_scope'' = JString (scope_str (class_scope cls))
      \<and> (json_member result ''overall'' = JString ''success'' \<longleftrightarrow>
           missing_timestamp_policy policy = None
           \<and> ee_verify_response env (sm_tsa_response material) (H (sm_artifact material)) policy = Ok None))"
proof -
  obtain segment ns content where m: "check_material H ledger_id n material = Ok segment"
    and d: "disclosed_batches cls selected (length (sr_batch_roots segment)) = Ok ns"
    and j: "to_json (snapshot_manifest H ledger_id n cls segment material (exported_openings H segment (sm_records material) ns)) = Ok content"
    and x: "px_files export = exported_files H segment material ns content"
    using assms(2) by (auto simp: prepare_export_Ok_iff)
  let ?m = "published_manifest H ledger_id n cls segment material ns"
  have p: "published H env ledger_id n cls selected material segment ns"
    using assms(1,3,4) m d j x by (auto simp: published_def published_manifest_def)
  have scope: "selected_scope ?m policy = class_scope cls" "for_disclosure_class (mf_disclosure_class ?m) = class_scope cls"
    using assms(6) by (simp_all add: selected_scope_def class_scope_str published_manifest_def reader_manifest_def snapshot_manifest_def)
  have "vp_selected_batches policy = {}" using assms(5,6) by (auto simp: validate_verify_policy_def split: if_splits)
  note supported = conclude_supported [OF published_segment(4)[OF p] published_disclosure [OF p _ this]]
  from verify_supported [OF published_reads [OF p assms(5)] published_chain [OF p] supported assms(7,8)] scope
  obtain result where "verify_bundle_with_policy H env policy = Ok result"
    "json_member result ''verification_scope'' = JString (scope_str (class_scope cls))"
    "json_member result ''overall'' = JString ''success'' \<longleftrightarrow> timestamp_accepted H env ?m policy (H (sm_artifact material))"
    by auto
  moreover have "timestamp_accepted H env ?m policy (H (sm_artifact material)) \<longleftrightarrow> missing_timestamp_policy policy = None
      \<and> ee_verify_response env (sm_tsa_response material) (H (sm_artifact material)) policy = Ok None"
    using published_timestamp [OF p] by simp
  moreover have "distinct ns" using published_segment(6)[OF p] by (simp add: strict_sorted_iff)
  ultimately show ?thesis using exported_paths_distinct x by auto
qed

theorem exported_snapshot_verifies_witness:
  "\<exists>export result. prepare_export pad_digest snapshot_example_json (sr_ledger_id disclosed_segment) 0 ClassA {} snapshot_example = Ok export
    \<and> serves snapshot_example_env (px_files export)
    \<and> verify_bundle_with_policy pad_digest snapshot_example_env disclosed_policy = Ok result
    \<and> json_member result ''verification_scope'' = JString ''public_recompute''
    \<and> json_member result ''overall'' = JString ''success''"
proof -
  have "validate_verify_policy snapshot_example_env disclosed_policy = Ok ()" "vp_selected_scope disclosed_policy = None"
    "vp_verifier_policy_id disclosed_policy = Some ''auditor''" "vp_verifier_policy_artifact disclosed_policy = None"
    "missing_timestamp_policy disclosed_policy = None"
    by (simp_all add: validate_verify_policy_def disclosed_policy_def default_verify_policy_def missing_timestamp_policy_def)
  moreover have "\<forall>m content. snapshot_example_json m = Ok content \<longrightarrow>
      ee_manifest_from_json snapshot_example_env content = Ok (reader_manifest m)"
    by (auto simp: snapshot_example_json_def snapshot_example_env_def split: if_splits)
  moreover have "ee_verify_response snapshot_example_env (sm_tsa_response snapshot_example)
      (pad_digest (sm_artifact snapshot_example)) disclosed_policy = Ok None"
    by (simp add: snapshot_example_env_def disclosed_env_def snapshot_example_def)
  ultimately show ?thesis
    using exported_snapshot_verifies [OF _ snapshot_example_prepared, of snapshot_example_env disclosed_policy "''auditor''"]
      snapshot_example_prepared snapshot_example_served
    by (auto simp: class_scope_def scope_str_def)
qed

end
