(* ===== verification/Rfc3161_Time.thy ===== *)
theory Rfc3161_Time
  imports Complex_Main Ledger_Hex Rust_Std
begin

text \<open>
  RFC 3161 timestamps (\<open>crates/trackone-rfc3161/src/lib.rs\<close>), part one: errors, certificate hashes, serial
  numbers, and the signed generation time with its fraction of arbitrary precision.
\<close>

section \<open>Errors\<close>

datatype verification_error =
    InvalidSignerHash
  | VtConfiguration string
  | ResponseTooLarge nat nat
  | VtMalformed string
  | VtStatus byte
  | VtProfile string
  | PolicyMismatch
  | MessageImprintMismatch
  | SignerCertificateMismatch string
  | HistoricalValidation string
  | ProcessTimeout string duration
  | OpenSsl string string
  | VtIo io_error

type_synonym 'a vt_result = "('a, verification_error) result"

definition verification_error_display :: "(io_error \<Rightarrow> string) \<Rightarrow> verification_error \<Rightarrow> string" where
  "verification_error_display io_text e = (case e of
       InvalidSignerHash \<Rightarrow> ''RFC 3161 signer certificate SHA-256 must be 64 lowercase hexadecimal characters''
     | VtConfiguration message \<Rightarrow> ''RFC 3161 policy configuration error: '' @ message
     | ResponseTooLarge actual maximum \<Rightarrow>
         ''RFC 3161 response is '' @ show_nat actual @ '' bytes; maximum is '' @ show_nat maximum
     | VtMalformed message \<Rightarrow> ''malformed RFC 3161 response: '' @ message
     | VtStatus status \<Rightarrow> ''VTL requires PKIStatus.granted (0); TSA returned '' @ show_nat (unat status)
     | VtProfile message \<Rightarrow> ''RFC 3161 response violates the VTL timestamp profile: '' @ message
     | PolicyMismatch \<Rightarrow> ''RFC 3161 TSA policy OID is not accepted by deployment policy''
     | MessageImprintMismatch \<Rightarrow> ''RFC 3161 SHA-256 message imprint mismatch''
     | SignerCertificateMismatch message \<Rightarrow> ''RFC 5816 signer-certificate binding failed: '' @ message
     | HistoricalValidation message \<Rightarrow> ''historical CRL-based path validation failed: '' @ message
     | ProcessTimeout command timeout \<Rightarrow>
         command @ '' exceeded the '' @ show_nat (unat (fst timeout)) @ '' second process timeout''
     | OpenSsl command diagnostic \<Rightarrow> command @ '' failed: '' @ diagnostic
     | VtIo error \<Rightarrow> ''RFC 3161 verification I/O failed: '' @ io_text error)"

section \<open>Signer certificate hashes and serial numbers\<close>

definition signer_sha256_display :: "bytes \<Rightarrow> string" where
  "signer_sha256_display digest = hex_lower digest"

definition radix16_digit :: "char \<Rightarrow> byte option" where
  "radix16_digit c =
     (if CHR ''0'' \<le> c \<and> c \<le> CHR ''9'' then Some (of_char c - 48)
      else if CHR ''a'' \<le> c \<and> c \<le> CHR ''f'' then Some (of_char c - 87)
      else None)"

fun radix16_pairs :: "string \<Rightarrow> bytes vt_result" where
  "radix16_pairs (hi # lo # rest) =
     and_then (ok_or (radix16_digit hi) InvalidSignerHash) (\<lambda>h.
     and_then (ok_or (radix16_digit lo) InvalidSignerHash) (\<lambda>l.
     and_then (radix16_pairs rest) (\<lambda>bs. Ok ((h * 16 + l) # bs))))"
| "radix16_pairs _ = Ok []"

definition signer_sha256_from_str :: "string \<Rightarrow> bytes vt_result" where
  "signer_sha256_from_str v =
     (if length v \<noteq> 64 \<or> \<not> list_all (\<lambda>c. radix16_digit c \<noteq> None) v then Err InvalidSignerHash
      else radix16_pairs v)"

definition MAX_SERIAL_BYTES :: nat where "MAX_SERIAL_BYTES = 20"

definition timestamp_serial_new :: "bytes \<Rightarrow> bytes vt_result" where
  "timestamp_serial_new v =
     (if length v > MAX_SERIAL_BYTES then Err (VtProfile ''TSTInfo serialNumber exceeds the VTL 160-bit limit'')
      else Ok v)"

definition timestamp_serial_as_bytes :: "bytes \<Rightarrow> bytes" where
  "timestamp_serial_as_bytes v = (if v = [] then [0] else v)"

definition timestamp_serial_to_hex :: "bytes \<Rightarrow> string" where
  "timestamp_serial_to_hex v = hex_lower (timestamp_serial_as_bytes v)"

record timestamp_accuracy =
  ta_seconds :: "u64 option"
  ta_millis :: "u16 option"
  ta_micros :: "u16 option"

section \<open>Generation time\<close>

text \<open>\<open>der::DateTime\<close> with its Unix time, made by the parameter \<open>date_time_new\<close> below.\<close>

record date_time =
  dt_year :: nat
  dt_month :: nat
  dt_day :: nat
  dt_hour :: nat
  dt_minutes :: nat
  dt_seconds :: nat
  dt_unix :: u64

record generation_time =
  gt_date_time :: date_time
  gt_fractional_seconds :: "string option"

definition unix_seconds :: "generation_time \<Rightarrow> u64" where
  "unix_seconds t = dt_unix (gt_date_time t)"

definition digit_at :: "string \<Rightarrow> nat \<Rightarrow> char" where
  "digit_at s i = (if i < length s then s ! i else CHR ''0'')"

fun digits_exceed :: "string \<Rightarrow> string \<Rightarrow> nat list \<Rightarrow> bool" where
  "digits_exceed fraction bound [] = False"
| "digits_exceed fraction bound (index # rest) =
     (if digit_at fraction index > digit_at bound index then True
      else if digit_at fraction index < digit_at bound index then False
      else digits_exceed fraction bound rest)"

definition exceeds_unix_duration :: "generation_time \<Rightarrow> duration \<Rightarrow> bool" where
  "exceeds_unix_duration t bound =
     (if unix_seconds t > fst bound then True
      else if unix_seconds t < fst bound then False
      else case gt_fractional_seconds t of
          None \<Rightarrow> False
        | Some fraction \<Rightarrow>
            let bound_fraction = show_nat_padded 9 (unat (snd bound)) in
            digits_exceed fraction bound_fraction [0..<max (length fraction) (length bound_fraction)])"

definition openssl_attime_bounds :: "generation_time \<Rightarrow> (u64 \<times> u64) vt_result" where
  "openssl_attime_bounds t =
     (let whole_second = unix_seconds t in
      and_then (if gt_fractional_seconds t \<noteq> None
          then ok_or (checked_add whole_second 1) (VtMalformed ''TSTInfo genTime upper bound exceeds uint64'')
          else Ok whole_second) (\<lambda>upper_bound. Ok (whole_second, upper_bound)))"

definition to_rfc3339 :: "generation_time \<Rightarrow> string" where
  "to_rfc3339 t =
     (let d = gt_date_time t in
      show_nat_padded 4 (dt_year d) @ ''-'' @ show_nat_padded 2 (dt_month d) @ ''-'' @ show_nat_padded 2 (dt_day d) @ ''T''
      @ show_nat_padded 2 (dt_hour d) @ '':'' @ show_nat_padded 2 (dt_minutes d) @ '':'' @ show_nat_padded 2 (dt_seconds d)
      @ (case gt_fractional_seconds t of None \<Rightarrow> [] | Some fraction \<Rightarrow> ''.'' @ fraction) @ ''Z'')"

datatype der_tag = SequenceTag | BooleanTag | IntegerTag | ObjectIdentifierTag | GeneralizedTimeTag | OtherTag nat

record any_ref =
  ar_tag :: der_tag
  ar_value :: bytes

type_synonym date_time_new = "nat \<Rightarrow> nat \<Rightarrow> nat \<Rightarrow> nat \<Rightarrow> nat \<Rightarrow> nat \<Rightarrow> (date_time, string) result"

definition gen_time_fraction :: "string \<Rightarrow> string option vt_result" where
  "gen_time_fraction fraction =
     (if fraction = [] then Ok None
      else if hd fraction = CHR ''.'' \<and> length fraction > 1 \<and> list_all is_ascii_digit (tl fraction) \<and> last fraction \<noteq> CHR ''0''
      then Ok (Some (tl fraction))
      else Err (VtMalformed ''TSTInfo genTime has a non-canonical fractional part''))"

definition from_generalized_time_der :: "date_time_new \<Rightarrow> any_ref \<Rightarrow> generation_time vt_result" where
  "from_generalized_time_der new v =
     (if ar_tag v \<noteq> GeneralizedTimeTag then Err (VtMalformed ''TSTInfo genTime is not GeneralizedTime'')
      else
        let encoded = bytes_str (ar_value v) in
        if length encoded < 15 \<or> last encoded \<noteq> CHR ''Z''
        then Err (VtMalformed ''TSTInfo genTime must include seconds and use UTC Z form'')
        else
          let whole_seconds = take 14 encoded in
          if \<not> list_all is_ascii_digit whole_seconds
          then Err (VtMalformed ''TSTInfo genTime contains a non-decimal time component'')
          else
            let component = (\<lambda>i n. digits_value (take n (drop i whole_seconds))) in
            and_then (map_err (\<lambda>error. VtMalformed (''invalid TSTInfo genTime: '' @ error))
              (new (component 0 4) (component 4 2) (component 6 2) (component 8 2) (component 10 2) (component 12 2))) (\<lambda>d.
            and_then (gen_time_fraction (drop 14 (butlast encoded))) (\<lambda>fraction.
            Ok \<lparr>gt_date_time = d, gt_fractional_seconds = fraction\<rparr>)))"

section \<open>The instant a generation time denotes\<close>

fun fraction_value :: "string \<Rightarrow> real" where
  "fraction_value [] = 0"
| "fraction_value (c # cs) = (real (digit_value c) + fraction_value cs) / 10"

definition gen_instant :: "generation_time \<Rightarrow> real" where
  "gen_instant t = real (unat (unix_seconds t)) + (case gt_fractional_seconds t of None \<Rightarrow> 0 | Some fraction \<Rightarrow> fraction_value fraction)"

definition instant :: "duration \<Rightarrow> real" where
  "instant d = real (unat (fst d)) + real (unat (snd d)) / 1000000000"

definition fraction_ok :: "generation_time \<Rightarrow> bool" where
  "fraction_ok t \<longleftrightarrow> (case gt_fractional_seconds t of None \<Rightarrow> True
     | Some fraction \<Rightarrow> fraction \<noteq> [] \<and> list_all is_ascii_digit fraction \<and> last fraction \<noteq> CHR ''0'')"

lemma fraction_value_bounds: "list_all is_ascii_digit s \<Longrightarrow> 0 \<le> fraction_value s \<and> fraction_value s < 1"
  by (induction s) (auto dest!: digit_value_less)

lemma fraction_value_positive: "list_all is_ascii_digit s \<Longrightarrow> s \<noteq> [] \<Longrightarrow> last s \<noteq> CHR ''0'' \<Longrightarrow> 0 < fraction_value s"
proof (induction s)
  case (Cons c s)
  show ?case
  proof (cases "s = []")
    case True
    have "digit_value c \<noteq> 0"
    proof
      assume "digit_value c = 0"
      with Cons.prems(1) have "c = char_of (48 :: nat)" using char_of_digit_value [of c] by simp
      moreover have "char_of (48 :: nat) = CHR ''0''" by code_simp
      ultimately show False using Cons.prems(3) True by simp
    qed
    with True show ?thesis by simp
  next
    case False
    with Cons have "0 < fraction_value s" by simp
    then show ?thesis by simp
  qed
qed simp

lemma fraction_value_append: "fraction_value (s @ u) = fraction_value s + fraction_value u / 10 ^ length s"
  by (induction s) (auto simp: field_simps)

lemma fraction_value_zeros: "fraction_value (replicate n CHR ''0'') = 0"
  by (induction n) (auto simp: digit_value_def)

lemma fraction_value_digits: "fraction_value s = real (digits_value s) / 10 ^ length s"
proof (induction s rule: rev_induct)
  case (snoc c s)
  then show ?case by (simp add: fraction_value_append digits_value_snoc field_simps)
qed (simp add: digits_value_def)

lemma digit_less_iff: "is_ascii_digit c \<Longrightarrow> is_ascii_digit d \<Longrightarrow> c < d \<longleftrightarrow> digit_value c < digit_value d"
  by (auto simp: is_ascii_digit_def digit_value_def less_char_def)

text \<open>The loop over positions is a comparison of values, trailing zeroes implied.\<close>

lemma digits_exceed_value:
  assumes "list_all is_ascii_digit s" "list_all is_ascii_digit u" "length s = length u" "length a = length b"
  shows "digits_exceed (a @ s) (b @ u) [length a..<length a + length s] \<longleftrightarrow> fraction_value s > fraction_value u"
  using assms
proof (induction s u arbitrary: a b rule: list_induct2')
  case (4 c s d u)
  have step: "[length a..<length a + length (c # s)] = length a # [length (a @ [c])..<length (a @ [c]) + length s]"
    by (simp add: upt_rec)
  have at: "digit_at (a @ c # s) (length a) = c" "digit_at (b @ d # u) (length a) = d"
    using 4(5) by (simp_all add: digit_at_def nth_append)
  have ih: "digits_exceed ((a @ [c]) @ s) ((b @ [d]) @ u) [length (a @ [c])..<length (a @ [c]) + length s]
      \<longleftrightarrow> fraction_value s > fraction_value u"
    using 4 by (intro "4.IH") auto
  have digits: "is_ascii_digit c" "is_ascii_digit d" using 4 by auto
  have vals: "0 \<le> fraction_value s" "fraction_value s < 1" "0 \<le> fraction_value u" "fraction_value u < 1"
    using 4 fraction_value_bounds by auto
  consider "c > d" | "c < d" | "c = d" by fastforce
  then show ?case
  proof cases
    case 1
    then have "digit_value d + 1 \<le> digit_value c" using digits digit_less_iff by fastforce
    then have "real (digit_value d) + 1 \<le> real (digit_value c)" by linarith
    with 1 vals show ?thesis by (simp only: step digits_exceed.simps at fraction_value.simps) simp
  next
    case 2
    then have "digit_value c + 1 \<le> digit_value d" using digits digit_less_iff by fastforce
    then have "real (digit_value c) + 1 \<le> real (digit_value d)" by linarith
    with 2 vals show ?thesis by (simp only: step digits_exceed.simps at fraction_value.simps) auto
  next
    case 3
    have "digits_exceed (a @ c # s) (b @ d # u) [length a..<length a + length (c # s)]
        = digits_exceed (a @ c # s) (b @ d # u) [length (a @ [c])..<length (a @ [c]) + length s]"
      unfolding step digits_exceed.simps at using 3 by simp
    also have "\<dots> \<longleftrightarrow> fraction_value s > fraction_value u" using ih by (simp only: append_assoc append.simps)
    finally show ?thesis using 3 by (simp only: fraction_value.simps) simp
  qed
qed auto

lemma digit_at_padded: "digit_at (s @ replicate k CHR ''0'') i = digit_at s i"
  by (simp add: digit_at_def nth_append)

lemma digits_exceed_padded:
  "digits_exceed (s @ replicate k CHR ''0'') (u @ replicate m CHR ''0'') is = digits_exceed s u is"
  by (induction "is") (simp_all add: digit_at_padded)

lemma digits_exceed_iff:
  assumes "list_all is_ascii_digit s" "list_all is_ascii_digit u"
  shows "digits_exceed s u [0..<max (length s) (length u)] \<longleftrightarrow> fraction_value s > fraction_value u"
proof -
  let ?n = "max (length s) (length u)"
  let ?s = "s @ replicate (?n - length s) CHR ''0''" and ?u = "u @ replicate (?n - length u) CHR ''0''"
  have "is_ascii_digit CHR ''0''" by (simp add: is_ascii_digit_def)
  then have "list_all is_ascii_digit ?s" "list_all is_ascii_digit ?u" "length ?s = length ?u"
    using assms by (auto simp: list_all_iff)
  from digits_exceed_value [OF this refl, of "[]"] have "digits_exceed ?s ?u [0..<?n] \<longleftrightarrow> fraction_value ?s > fraction_value ?u"
    by simp
  then show ?thesis by (simp add: digits_exceed_padded fraction_value_append fraction_value_zeros)
qed

lemma padded_value: "n < 10 ^ Suc k \<Longrightarrow> fraction_value (show_nat_padded (Suc k) n) = real n / 10 ^ Suc k"
  using length_show_nat [of n k]
  unfolding show_nat_padded_def fraction_value_append fraction_value_zeros fraction_value_digits [of "show_nat n"]
  by (simp add: power_add [symmetric] del: power_Suc)

lemma exceeds_unix_duration_iff:
  assumes "fraction_ok t" "duration_valid bound"
  shows "exceeds_unix_duration t bound \<longleftrightarrow> gen_instant t > instant bound"
proof -
  let ?f = "case gt_fractional_seconds t of None \<Rightarrow> 0 | Some fraction \<Rightarrow> fraction_value fraction"
  have f: "0 \<le> ?f" "?f < 1"
    using assms(1) fraction_value_bounds by (auto simp: fraction_ok_def split: option.splits)
  have n: "unat (snd bound) < 10 ^ Suc 8" "0 \<le> real (unat (snd bound)) / 1000000000" "real (unat (snd bound)) / 1000000000 < 1"
    using assms(2) by (simp_all add: duration_valid_def del: of_nat_unat)
  consider "unat (fst bound) + 1 \<le> unat (unix_seconds t)" | "unat (unix_seconds t) + 1 \<le> unat (fst bound)"
    | "unix_seconds t = fst bound" using word_unat_eq_iff by fastforce
  then show ?thesis
  proof cases
    case 1
    then have "real (unat (fst bound)) + 1 \<le> real (unat (unix_seconds t))" by linarith
    with f n have "gen_instant t > instant bound" unfolding gen_instant_def instant_def by linarith
    moreover from 1 have "exceeds_unix_duration t bound" by (simp add: exceeds_unix_duration_def word_less_nat_alt)
    ultimately show ?thesis by simp
  next
    case 2
    then have "real (unat (unix_seconds t)) + 1 \<le> real (unat (fst bound))" by linarith
    with f n have "\<not> gen_instant t > instant bound" unfolding gen_instant_def instant_def by linarith
    moreover from 2 have "\<not> exceeds_unix_duration t bound" by (simp add: exceeds_unix_duration_def word_less_nat_alt)
    ultimately show ?thesis by simp
  next
    case 3
    show ?thesis
    proof (cases "gt_fractional_seconds t")
      case None
      with 3 n show ?thesis by (simp add: exceeds_unix_duration_def gen_instant_def instant_def)
    next
      case (Some fraction)
      with assms(1) have "list_all is_ascii_digit fraction" by (simp add: fraction_ok_def)
      from digits_exceed_iff [OF this padded_digits] Some 3
      have "exceeds_unix_duration t bound \<longleftrightarrow> fraction_value (show_nat_padded 9 (unat (snd bound))) < fraction_value fraction"
        by (simp add: exceeds_unix_duration_def Let_def)
      moreover have "fraction_value (show_nat_padded 9 (unat (snd bound))) = real (unat (snd bound)) / 1000000000"
        using padded_value [OF n(1)] by (simp del: of_nat_unat)
      ultimately show ?thesis using Some 3 by (simp add: gen_instant_def instant_def del: of_nat_unat)
    qed
  qed
qed

lemma attime_bounds_enclose:
  assumes "fraction_ok t" "openssl_attime_bounds t = Ok (lo, hi)"
  shows "int (unat lo) = \<lfloor>gen_instant t\<rfloor>" "int (unat hi) = \<lceil>gen_instant t\<rceil>"
proof -
  show lo: "int (unat lo) = \<lfloor>gen_instant t\<rfloor>"
    using assms fraction_value_bounds
    by (auto simp: openssl_attime_bounds_def gen_instant_def fraction_ok_def and_then_Ok_iff floor_eq_iff Let_def eq_commute [of "int _"]
        simp del: of_nat_unat split: option.splits if_splits)
  show "int (unat hi) = \<lceil>gen_instant t\<rceil>"
  proof (cases "gt_fractional_seconds t")
    case None
    with assms(2) have "hi = unix_seconds t" by (auto simp: openssl_attime_bounds_def Let_def)
    with None show ?thesis by (simp add: gen_instant_def del: of_nat_unat)
  next
    case (Some fraction)
    with assms(1) have "0 < fraction_value fraction" "fraction_value fraction < 1"
      using fraction_value_positive fraction_value_bounds by (auto simp: fraction_ok_def)
    moreover have "unat hi = unat (unix_seconds t) + 1"
    proof -
      have "checked_add (unix_seconds t) 1 = Some hi"
        using assms(2) Some by (auto simp: openssl_attime_bounds_def and_then_Ok_iff ok_or_Ok_iff Let_def)
      from unat_checked_add [OF this] show ?thesis by simp
    qed
    ultimately have "\<lceil>gen_instant t\<rceil> = int (unat hi)"
      using Some by (intro ceiling_unique) (simp_all add: gen_instant_def del: of_nat_unat)
    then show ?thesis by simp
  qed
qed

lemma gen_time_fraction_ok: "gen_time_fraction s = Ok f \<Longrightarrow>
    (f = None \<and> s = []) \<or> (\<exists>d. f = Some d \<and> s = CHR ''.'' # d \<and> d \<noteq> [] \<and> list_all is_ascii_digit d \<and> last d \<noteq> CHR ''0'')"
  by (cases s) (auto simp: gen_time_fraction_def split: if_splits)

lemma from_generalized_time_fraction: "from_generalized_time_der new v = Ok t \<Longrightarrow> fraction_ok t"
  by (auto simp: from_generalized_time_der_def and_then_Ok_iff Let_def fraction_ok_def split: if_splits dest!: gen_time_fraction_ok)

section \<open>The text of a generation time\<close>

text \<open>\<open>DateTime::new\<close> stores its arguments.\<close>

definition date_time_stores :: "date_time_new \<Rightarrow> bool" where
  "date_time_stores new \<longleftrightarrow> (\<forall>y mo d h mi s dt. new y mo d h mi s = Ok dt \<longrightarrow>
     dt_year dt = y \<and> dt_month dt = mo \<and> dt_day dt = d \<and> dt_hour dt = h \<and> dt_minutes dt = mi \<and> dt_seconds dt = s)"

text \<open>
  The rendered generation time is the signed text with punctuation: every digit of the accepted
  GeneralizedTime, its fraction included, appears unchanged in the RFC 3339 form.
\<close>

lemma rfc3339_keeps_signed_digits:
  assumes "date_time_stores new" and "from_generalized_time_der new v = Ok t" and "e = bytes_str (ar_value v)"
  shows "to_rfc3339 t = take 4 e @ ''-'' @ take 2 (drop 4 e) @ ''-'' @ take 2 (drop 6 e) @ ''T''
    @ take 2 (drop 8 e) @ '':'' @ take 2 (drop 10 e) @ '':'' @ take 2 (drop 12 e) @ drop 14 e"
proof -
  from assms(2,3) obtain dt where len: "15 \<le> length e" and z: "last e = CHR ''Z''" and digits: "list_all is_ascii_digit (take 14 e)"
    and dt: "new (digits_value (take 4 (drop 0 (take 14 e)))) (digits_value (take 2 (drop 4 (take 14 e)))) (digits_value (take 2 (drop 6 (take 14 e))))
      (digits_value (take 2 (drop 8 (take 14 e)))) (digits_value (take 2 (drop 10 (take 14 e)))) (digits_value (take 2 (drop 12 (take 14 e)))) = Ok dt"
    and f: "gen_time_fraction (drop 14 (butlast e)) = Ok (gt_fractional_seconds t)" "gt_date_time t = dt"
    by (auto simp: from_generalized_time_der_def and_then_Ok_iff Let_def split: if_splits)
  have part: "show_nat_padded (Suc k) (digits_value (take (Suc k) (drop i (take 14 e)))) = take (Suc k) (drop i e)" if "i + Suc k \<le> 14" for i k
  proof -
    have eq: "take (Suc k) (drop i (take 14 e)) = take (Suc k) (drop i e)" using that by (simp add: drop_take min_def)
    have "list_all is_ascii_digit (take (Suc k) (drop i (take 14 e)))"
      using digits by (metis append_take_drop_id list_all_append)
    then show ?thesis unfolding eq using that len by (intro padded_digits_value) simp_all
  qed
  have "drop 14 e = drop 14 (butlast e) @ ''Z''"
  proof -
    obtain e' where "e = e' @ ''Z''" using z len by (cases e rule: rev_cases) auto
    with len show ?thesis by simp
  qed
  moreover have "(case gt_fractional_seconds t of None \<Rightarrow> [] | Some fraction \<Rightarrow> ''.'' @ fraction) = drop 14 (butlast e)"
    using gen_time_fraction_ok [OF f(1)] by auto
  ultimately have tail: "(case gt_fractional_seconds t of None \<Rightarrow> [] | Some fraction \<Rightarrow> ''.'' @ fraction) @ ''Z'' = drop 14 e" by simp
  show ?thesis
    using assms(1) dt f(2) part [of 0 3] part [of 4 1] part [of 6 1] part [of 8 1] part [of 10 1] part [of 12 1] tail
    unfolding date_time_stores_def by (simp add: to_rfc3339_def eval_nat_numeral)
qed

section \<open>Signer certificate hashes\<close>

lemma radix16_digit_HEX: "n < 16 \<Longrightarrow> radix16_digit (HEX ! n) = Some (word_of_nat n)"
proof -
  have "\<forall>n < 16. radix16_digit (HEX ! n) = Some (word_of_nat n)" unfolding all_less_16 by code_simp
  then show "n < 16 \<Longrightarrow> radix16_digit (HEX ! n) = Some (word_of_nat n)" by blast
qed

lemma nibbles_join: "word_of_nat (unat b div 16) * 16 + word_of_nat (unat b mod 16) = (b :: byte)"
proof -
  have "word_of_nat (unat b div 16) * 16 + word_of_nat (unat b mod 16) = (word_of_nat (unat b div 16 * 16 + unat b mod 16) :: byte)"
    by (simp only: of_nat_add of_nat_mult of_nat_numeral)
  then show ?thesis unfolding div_mult_mod_eq by simp
qed

lemma radix16_pairs_hex: "radix16_pairs (hex_lower bs) = Ok bs"
proof (induction bs rule: hex_lower.induct)
  case (2 b bs)
  have "radix16_digit (HEX ! unat (drop_bit 4 b)) = Some (word_of_nat (unat b div 16))"
    "radix16_digit (HEX ! unat (b AND 0x0f)) = Some (word_of_nat (unat b mod 16))"
    using radix16_digit_HEX [of "unat b div 16"] radix16_digit_HEX [of "unat b mod 16"] nibble_bounds [of b]
    by (simp_all add: nibble_high nibble_low)
  with 2 show ?case by (simp add: nibbles_join del: of_nat_unat word_of_nat_eq_iff)
qed simp

lemma hex_lower_radix16: "list_all (\<lambda>c. \<exists>d. radix16_digit c = Some d) (hex_lower bs)"
  using radix16_digit_HEX nibble_bounds by (induction bs rule: hex_lower.induct) auto

lemma signer_sha256_round_trip: "length digest = 32 \<Longrightarrow> signer_sha256_from_str (signer_sha256_display digest) = Ok digest"
  by (simp add: signer_sha256_from_str_def signer_sha256_display_def hex_lower_radix16 radix16_pairs_hex)

section \<open>Exact comparison\<close>

text \<open>
  C30: The signed time is compared without rounding.  For every accepted GeneralizedTime, whatever the
  number of its fractional digits, it is found later than a bound exactly when the instant it denotes is
  later, and the two whole seconds given to OpenSSL are its floor and its ceiling.
\<close>

theorem signed_time_is_compared_exactly:
  assumes "from_generalized_time_der new v = Ok t" and "duration_valid bound"
  shows "(exceeds_unix_duration t bound \<longleftrightarrow> instant bound < gen_instant t) \<and>
    (\<forall>lo hi. openssl_attime_bounds t = Ok (lo, hi) \<longrightarrow> int (unat lo) = \<lfloor>gen_instant t\<rfloor> \<and> int (unat hi) = \<lceil>gen_instant t\<rceil>)"
  using exceeds_unix_duration_iff [OF from_generalized_time_fraction [OF assms(1)] assms(2)]
    attime_bounds_enclose [OF from_generalized_time_fraction [OF assms(1)]] by blast

definition example_date_time_new :: date_time_new where
  "example_date_time_new y mo d h mi s = Ok \<lparr>dt_year = y, dt_month = mo, dt_day = d, dt_hour = h, dt_minutes = mi,
     dt_seconds = s, dt_unix = 1700000000\<rparr>"

definition example_gen_time :: any_ref where
  "example_gen_time = \<lparr>ar_tag = GeneralizedTimeTag, ar_value = str_bytes ''20231114221320.0000000001Z''\<rparr>"

definition example_generation_time :: generation_time where
  "example_generation_time = \<lparr>gt_date_time = \<lparr>dt_year = 2023, dt_month = 11, dt_day = 14, dt_hour = 22, dt_minutes = 13,
     dt_seconds = 20, dt_unix = 1700000000\<rparr>, gt_fractional_seconds = Some ''0000000001''\<rparr>"

lemma example_gen_time_parses: "from_generalized_time_der example_date_time_new example_gen_time = Ok example_generation_time"
  by code_simp

theorem signed_time_is_compared_exactly_witness:
  "exceeds_unix_duration example_generation_time (1700000000, 0) \<and> instant (1700000000, 0) < gen_instant example_generation_time"
proof -
  have "0 < fraction_value ''0000000001''" by (rule fraction_value_positive) (simp_all add: is_ascii_digit_def)
  then have "instant (1700000000, 0) < gen_instant example_generation_time"
    by (simp add: instant_def gen_instant_def unix_seconds_def example_generation_time_def)
  with signed_time_is_compared_exactly [OF example_gen_time_parses, of "(1700000000, 0)"] show ?thesis
    by (simp add: duration_valid_def)
qed

end
