(* ===== verification/Rust_Process.thy ===== *)
theory Rust_Process
  imports Rust_Std
begin

text \<open>
  Child processes (\<open>std::process::Child\<close>) as a polling parent sees them.  The child is a parameter: what the
  \<open>n\<close>-th poll reports (\<open>Some success\<close> once it has exited), the nanoseconds elapsed at that poll, whether a kill
  at that poll ends it, and whether it ends by itself when it is left running from there.  A blocking wait for a child
  that neither was ended by a kill nor ends by itself does not return.
\<close>

record child =
  ch_try_wait :: "nat \<Rightarrow> (bool option, io_error) result"
  ch_elapsed :: "nat \<Rightarrow> nat"
  ch_kill_ends :: "nat \<Rightarrow> bool"
  ch_ends_alone :: "nat \<Rightarrow> bool"

text \<open>\<open>Child::kill\<close>: whether the child is ended; its own result is ignored by the callers.\<close>

definition child_kill :: "'a child_scheme \<Rightarrow> nat \<Rightarrow> bool" where
  "child_kill ch n = ch_kill_ends ch n"

text \<open>\<open>Child::wait\<close> of a child that had not exited at the \<open>n\<close>-th poll; \<open>None\<close> when it blocks for ever.\<close>

definition child_wait :: "'a child_scheme \<Rightarrow> bool \<Rightarrow> nat \<Rightarrow> unit option" where
  "child_wait ch killed n = (if killed \<or> ch_ends_alone ch n then Some () else None)"

end
