(* ===== verification/Rfc3161_Process.thy ===== *)
theory Rfc3161_Process
  imports Rfc3161_Time Rust_Process
begin

text \<open>
  RFC 3161 timestamps (\<open>crates/trackone-rfc3161/src/lib.rs\<close>), part two: the OpenSSL process with its bounded
  output, and the PEM text of certificates.  Processes, pipes and base64 are parameters.
\<close>

section \<open>Bounded capture of a pipe\<close>

definition MAX_COMMAND_DIAGNOSTIC_BYTES :: nat where "MAX_COMMAND_DIAGNOSTIC_BYTES = 64 * 1024"

definition TRUNCATED_MARKER :: bytes where
  "TRUNCATED_MARKER = 0x0A # str_bytes ''...[output truncated]''"

text \<open>What successive reads of a pipe return; an empty read, or the end of the list, is the end of the pipe.\<close>

type_synonym pipe = "(bytes, io_error) result list"

fun read_pipe_loop :: "pipe \<Rightarrow> bytes \<Rightarrow> bool \<Rightarrow> (bytes \<times> bool, io_error) result" where
  "read_pipe_loop [] captured truncated = Ok (captured, truncated)"
| "read_pipe_loop (Inl e # reads) captured truncated = Err e"
| "read_pipe_loop (Inr buffer # reads) captured truncated =
     (if buffer = [] then Ok (captured, truncated)
      else
        let available = MAX_COMMAND_DIAGNOSTIC_BYTES - length captured;
            retained = min available (length buffer) in
        read_pipe_loop reads (captured @ take retained buffer) (truncated \<or> retained \<noteq> length buffer))"

definition read_pipe_bounded :: "pipe \<Rightarrow> (bytes, io_error) result" where
  "read_pipe_bounded reads = and_then (read_pipe_loop reads [] False) (\<lambda>(captured, truncated).
     Ok (if truncated then take (MAX_COMMAND_DIAGNOSTIC_BYTES - length TRUNCATED_MARKER) captured @ TRUNCATED_MARKER
         else captured))"

section \<open>Running a command\<close>

record command_line =
  cl_program :: string
  cl_args :: "string list"

text \<open>
  A spawned verifier: its output pipes, whether they were created and their reader threads started, the
  exit status and clock at each poll, whether both readers have finished at each later poll, and whether the
  pipes are closed, so that the readers end, once the process group was killed at a poll.
\<close>

record verifier_process = child +
  vp_stdout :: "pipe option"
  vp_stderr :: "pipe option"
  vp_reader_starts :: "nat \<Rightarrow> bool"
  vp_readers_finished :: "nat \<Rightarrow> bool"
  vp_pipes_close :: "nat \<Rightarrow> bool"

record command_output =
  co_success :: bool
  co_stdout :: bytes
  co_stderr :: bytes

text \<open>\<open>terminate_child\<close> kills the process group; the child is waited for and the reader threads are joined.  What they
  return is ignored, but they may block.\<close>

definition terminate_child :: "verifier_process \<Rightarrow> nat \<Rightarrow> bool" where
  "terminate_child ch n = child_kill ch n"

definition join_readers :: "verifier_process \<Rightarrow> nat \<Rightarrow> unit option" where
  "join_readers ch n = (if vp_pipes_close ch n then Some () else None)"

definition stop_child :: "verifier_process \<Rightarrow> nat \<Rightarrow> unit option" where
  "stop_child ch n = child_wait ch (terminate_child ch n) n"

text \<open>The result reported once these have returned.\<close>

definition after_stop :: "unit option \<Rightarrow> verification_error \<Rightarrow> 'a vt_result option" where
  "after_stop stopped error = (case stopped of None \<Rightarrow> None | Some _ \<Rightarrow> Some (Err error))"

partial_function (option) wait_for_status ::
  "verifier_process \<Rightarrow> string \<Rightarrow> duration \<Rightarrow> nat \<Rightarrow> (bool \<times> nat) vt_result option" where
  "wait_for_status ch label timeout n =
     (case ch_try_wait ch n of
        Inr (Some status) \<Rightarrow> Some (Ok (status, n))
      | Inl error \<Rightarrow> after_stop (Option.bind (stop_child ch n) (\<lambda>_. join_readers ch n)) (VtIo error)
      | Inr None \<Rightarrow>
          if ch_elapsed ch n \<ge> nanos timeout
          then after_stop (Option.bind (stop_child ch n) (\<lambda>_. join_readers ch n)) (ProcessTimeout label timeout)
          else wait_for_status ch label timeout (n + 1))"

text \<open>The child has exited here, so only the readers can block.\<close>

partial_function (option) wait_for_readers ::
  "verifier_process \<Rightarrow> string \<Rightarrow> duration \<Rightarrow> nat \<Rightarrow> unit vt_result option" where
  "wait_for_readers ch label timeout n =
     (if vp_readers_finished ch n then Some (Ok ())
      else if ch_elapsed ch n \<ge> nanos timeout then after_stop (join_readers ch n) (ProcessTimeout label timeout)
      else wait_for_readers ch label timeout (n + 1))"

text \<open>The question mark on a call that may not return.\<close>

definition run_then :: "'a vt_result option \<Rightarrow> ('a \<Rightarrow> 'b vt_result option) \<Rightarrow> 'b vt_result option" where
  "run_then r f = Option.bind r (\<lambda>x. case x of Inl e \<Rightarrow> Some (Err e) | Inr v \<Rightarrow> f v)"

definition run_command ::
  "(command_line \<Rightarrow> (verifier_process, io_error) result) \<Rightarrow> command_line \<Rightarrow> string \<Rightarrow> duration
     \<Rightarrow> command_output vt_result option" where
  "run_command spawn command label timeout =
     (case spawn command of
        Inl error \<Rightarrow> Some (Err (VtIo error))
      | Inr ch \<Rightarrow>
          (case (vp_stdout ch, vp_stderr ch) of
             (Some stdout, Some stderr) \<Rightarrow>
               if \<not> vp_reader_starts ch 0 then after_stop (stop_child ch 0) (VtIo OtherIo)
               else if \<not> vp_reader_starts ch 1
               then after_stop (Option.bind (stop_child ch 0) (\<lambda>_. join_readers ch 0)) (VtIo OtherIo)
               else
                 run_then (wait_for_status ch label timeout 0) (\<lambda>(status, n).
                 run_then (wait_for_readers ch label timeout n) (\<lambda>_.
                 Some
                   (and_then (map_err VtIo (read_pipe_bounded stdout)) (\<lambda>out.
                    and_then (map_err VtIo (read_pipe_bounded stderr)) (\<lambda>err.
                    Ok \<lparr>co_success = status, co_stdout = out, co_stderr = err\<rparr>)))))
           | _ \<Rightarrow> after_stop (stop_child ch 0) (VtIo OtherIo)))"

text \<open>\<open>lossy\<close> is \<open>String::from_utf8_lossy\<close> followed by \<open>trim\<close>.\<close>

definition require_success :: "(bytes \<Rightarrow> string) \<Rightarrow> string \<Rightarrow> command_output \<Rightarrow> unit vt_result" where
  "require_success lossy label out =
     (if co_success out then Ok ()
      else
        let stdout = lossy (co_stdout out); stderr = lossy (co_stderr out) in
        Err (OpenSsl label
          (if stdout \<noteq> [] \<and> stderr \<noteq> [] then ''stdout: '' @ stdout @ ''; stderr: '' @ stderr
           else if stdout \<noteq> [] then ''stdout: '' @ stdout
           else if stderr \<noteq> [] then ''stderr: '' @ stderr
           else ''no diagnostic output'')))"

section \<open>PEM\<close>

record base64_engine =
  b64_encode :: "bytes \<Rightarrow> string"
  b64_decode :: "string \<Rightarrow> (bytes, string) result"

definition pem_begin :: "string \<Rightarrow> string" where
  "pem_begin label = ''-----BEGIN '' @ label @ ''-----''"

definition pem_end :: "string \<Rightarrow> string" where
  "pem_end label = ''-----END '' @ label @ ''-----''"

text \<open>\<open>str::trim\<close>; a Rust string is valid UTF-8.\<close>

definition trim_str :: "string \<Rightarrow> string" where
  "trim_str s = (case trim_text (str_bytes s) of None \<Rightarrow> s | Some bs \<Rightarrow> bytes_str bs)"

fun pem_lines :: "base64_engine \<Rightarrow> string \<Rightarrow> string \<Rightarrow> nat \<Rightarrow> string list \<Rightarrow> string option \<Rightarrow> bytes list
    \<Rightarrow> (string option \<times> bytes list) vt_result" where
  "pem_lines b64 description label maximum [] body blocks = Ok (body, blocks)"
| "pem_lines b64 description label maximum (line # rest) body blocks =
     (if line = pem_begin label then
        (if body \<noteq> None then Err (VtConfiguration (''nested PEM block in '' @ description))
         else pem_lines b64 description label maximum rest (Some []) blocks)
      else if line = pem_end label then
        and_then (ok_or body (VtConfiguration (''PEM end marker without begin marker in '' @ description))) (\<lambda>encoded.
        and_then (map_err (\<lambda>error. VtConfiguration (''invalid PEM base64 in '' @ description @ '': '' @ error))
          (b64_decode b64 encoded)) (\<lambda>block.
        let blocks = blocks @ [block] in
        if length blocks > maximum then
          Err (VtConfiguration (description @ '' contains more than '' @ show_nat maximum @ '' '' @ label @ '' blocks''))
        else pem_lines b64 description label maximum rest None blocks))
      else pem_lines b64 description label maximum rest (map_option (\<lambda>encoded. encoded @ trim_str line) body) blocks)"

definition decode_pem_blocks :: "base64_engine \<Rightarrow> bytes \<Rightarrow> string \<Rightarrow> string \<Rightarrow> nat \<Rightarrow> bytes list vt_result" where
  "decode_pem_blocks b64 content description label maximum =
     (if \<not> utf8_valid content then Err (VtConfiguration (''validation archive '' @ description @ '' is not UTF-8 PEM''))
      else
        and_then (pem_lines b64 description label maximum (text_lines (bytes_str content)) None []) (\<lambda>(body, blocks).
        if body \<noteq> None then Err (VtConfiguration (''unterminated PEM block in '' @ description))
        else if blocks = [] then Err (VtConfiguration (description @ '' contains no '' @ label @ '' blocks''))
        else Ok blocks))"

fun chunks_64 :: "string \<Rightarrow> string list" where
  "chunks_64 s = (if s = [] then [] else take 64 s # chunks_64 (drop 64 s))"

declare chunks_64.simps [simp del]

definition pem_encode :: "base64_engine \<Rightarrow> string \<Rightarrow> bytes \<Rightarrow> string" where
  "pem_encode b64 label content =
     pem_begin label @ [CHR 0x0A] @ concat (map (\<lambda>line. line @ [CHR 0x0A]) (chunks_64 (b64_encode b64 content)))
     @ pem_end label @ [CHR 0x0A]"

section \<open>What a bounded pipe keeps\<close>

fun pipe_data :: "pipe \<Rightarrow> (bytes, io_error) result" where
  "pipe_data [] = Ok []"
| "pipe_data (Inl e # reads) = Err e"
| "pipe_data (Inr buffer # reads) = (if buffer = [] then Ok [] else and_then (pipe_data reads) (\<lambda>rest. Ok (buffer @ rest)))"

lemma read_pipe_loop_eq:
  "length captured \<le> MAX_COMMAND_DIAGNOSTIC_BYTES \<Longrightarrow> read_pipe_loop reads captured truncated =
     and_then (pipe_data reads) (\<lambda>rest. Ok (take MAX_COMMAND_DIAGNOSTIC_BYTES (captured @ rest),
       truncated \<or> length captured + length rest > MAX_COMMAND_DIAGNOSTIC_BYTES))"
proof (induction reads captured truncated rule: read_pipe_loop.induct)
  case (3 buffer reads captured truncated)
  show ?case
  proof (cases "buffer = []")
    case False
    let ?r = "min (MAX_COMMAND_DIAGNOSTIC_BYTES - length captured) (length buffer)"
    have "take MAX_COMMAND_DIAGNOSTIC_BYTES ((captured @ take ?r buffer) @ rest) = take MAX_COMMAND_DIAGNOSTIC_BYTES (captured @ buffer @ rest)"
      for rest using 3(2) by (cases "MAX_COMMAND_DIAGNOSTIC_BYTES - length captured \<le> length buffer") (simp_all add: min_def)
    moreover have "(truncated \<or> ?r \<noteq> length buffer \<or> length (captured @ take ?r buffer) + n > MAX_COMMAND_DIAGNOSTIC_BYTES)
        = (truncated \<or> length captured + (length buffer + n) > MAX_COMMAND_DIAGNOSTIC_BYTES)" for n
      using 3(2) by (auto simp: min_def)
    moreover have "length (captured @ take ?r buffer) \<le> MAX_COMMAND_DIAGNOSTIC_BYTES" using 3(2) by simp
    ultimately show ?thesis using False 3(1)[OF False refl refl] by (cases "pipe_data reads") (simp_all add: Let_def)
  qed (use 3 in simp)
qed simp_all

text \<open>
  The captured output of the verifier process is bounded by 64 KiB: it is the whole output when that
  fits, and otherwise its beginning followed by the truncation marker.
\<close>

lemma captured_output_is_bounded:
  "read_pipe_bounded reads = and_then (pipe_data reads) (\<lambda>output. Ok
     (if length output \<le> MAX_COMMAND_DIAGNOSTIC_BYTES then output
      else take (MAX_COMMAND_DIAGNOSTIC_BYTES - length TRUNCATED_MARKER) output @ TRUNCATED_MARKER))"
  by (cases "pipe_data reads") (auto simp: read_pipe_bounded_def read_pipe_loop_eq min_def)

section \<open>Commands return\<close>

lemma run_then_Ok_iff: "run_then r f = Some (Ok y) \<longleftrightarrow> (\<exists>x. r = Some (Ok x) \<and> f x = Some (Ok y))"
proof (cases r)
  case (Some x)
  then show ?thesis by (cases x) (auto simp: run_then_def)
qed (simp add: run_then_def)

lemma run_then_simps [simp]: "run_then (Some (Ok x)) f = f x" "run_then (Some (Err e)) f = Some (Err e)"
  by (simp_all add: run_then_def)

lemma run_then_returns: "\<exists>x. r = Some x \<Longrightarrow> (\<And>v. \<exists>x. f v = Some x) \<Longrightarrow> \<exists>x. run_then r f = Some x"
  by (auto simp: run_then_def split: sum.splits)

definition process_ends :: "verifier_process \<Rightarrow> duration \<Rightarrow> bool" where
  "process_ends ch timeout \<longleftrightarrow> (\<forall>k. \<exists>n\<ge>k. ch_elapsed ch n \<ge> nanos timeout)
     \<and> (\<forall>n. ch_kill_ends ch n \<and> vp_pipes_close ch n)"

lemma stop_returns:
  assumes "process_ends ch timeout"
  shows "stop_child ch n = Some ()" "join_readers ch n = Some ()"
  using assms by (simp_all add: process_ends_def stop_child_def join_readers_def child_wait_def terminate_child_def child_kill_def)

lemma wait_for_status_returns:
  assumes "k \<le> n" and "ch_elapsed ch n \<ge> nanos timeout" and "process_ends ch timeout"
  shows "\<exists>r. wait_for_status ch label timeout k = Some r"
  using assms(1,2)
proof (induction k rule: inc_induct)
  case base
  then show ?case
    by (subst wait_for_status.simps) (auto simp: after_stop_def stop_returns [OF assms(3)] split: sum.splits option.splits)
next
  case (step k)
  then show ?case
    by (subst wait_for_status.simps) (auto simp: after_stop_def stop_returns [OF assms(3)] split: sum.splits option.splits)
qed

lemma wait_for_readers_returns:
  assumes "k \<le> n" and "ch_elapsed ch n \<ge> nanos timeout" and "process_ends ch timeout"
  shows "\<exists>r. wait_for_readers ch label timeout k = Some r"
  using assms(1,2)
proof (induction k rule: inc_induct)
  case base
  then show ?case by (subst wait_for_readers.simps) (auto simp: after_stop_def stop_returns [OF assms(3)])
next
  case (step k)
  then show ?case by (subst wait_for_readers.simps) (auto simp: after_stop_def stop_returns [OF assms(3)])
qed

lemma run_command_returns:
  assumes "\<And>ch. spawn command = Ok ch \<Longrightarrow> process_ends ch timeout"
  shows "\<exists>r. run_command spawn command label timeout = Some r"
proof (cases "spawn command")
  case (Inr ch)
  from assms [OF Inr] have "\<exists>r. wait_for_status ch label timeout k = Some r" "\<exists>r. wait_for_readers ch label timeout k = Some r" for k
    using wait_for_status_returns [OF _ _ assms [OF Inr]] wait_for_readers_returns [OF _ _ assms [OF Inr]] assms [OF Inr]
    by (metis process_ends_def)+
  then have "\<exists>r. run_then (wait_for_status ch label timeout 0) (\<lambda>(status, n).
      run_then (wait_for_readers ch label timeout n) (\<lambda>_. Some (f status))) = Some r" for f :: "_ \<Rightarrow> command_output vt_result"
    by (intro run_then_returns) (auto intro: run_then_returns)
  with Inr show ?thesis
    by (simp add: run_command_def after_stop_def stop_returns [OF assms [OF Inr]] split: option.splits)
qed (simp add: run_command_def)

section \<open>PEM round trip\<close>

definition pem_plain :: "string \<Rightarrow> bool" where
  "pem_plain s \<longleftrightarrow> list_all (\<lambda>c. 33 \<le> (of_char c :: nat) \<and> (of_char c :: nat) < 127) s"

lemma split_on_no: "c \<notin> set a \<Longrightarrow> split_on c a = [a]"
  by (induction a) auto

lemma split_on_at: "c \<notin> set a \<Longrightarrow> split_on c (a @ c # rest) = a # split_on c rest"
  by (induction a) (auto split: list.splits)

lemma text_lines_of_lines:
  assumes "\<forall>l\<in>set ls. CHR 0x0A \<notin> set l \<and> CHR 0x0D \<notin> set l"
  shows "text_lines (concat (map (\<lambda>l. l @ [CHR 0x0A]) ls)) = ls"
proof -
  have "split_on CHR 0x0A (concat (map (\<lambda>l. l @ [CHR 0x0A]) ls)) = ls @ [[]]" using assms
    by (induction ls) (auto simp: split_on_at)
  moreover have "map strip_cr ls = ls" using assms last_in_set by (intro map_idI) (fastforce simp: strip_cr_def)
  ultimately show ?thesis by (simp add: text_lines_def)
qed

lemma concat_chunks_64: "concat (chunks_64 s) = s"
proof (induction s rule: chunks_64.induct)
  case (1 s)
  then show ?case by (subst chunks_64.simps) simp
qed

lemma chunks_64_subset: "l \<in> set (chunks_64 s) \<Longrightarrow> set l \<subseteq> set s"
  using concat_chunks_64 [of s] by (metis UN_I set_concat subsetI)

lemma trim_list_id: "(\<And>x. x \<in> set xs \<Longrightarrow> \<not> blank x) \<Longrightarrow> trim_list blank xs = xs"
proof -
  assume a: "\<And>x. x \<in> set xs \<Longrightarrow> \<not> blank x"
  then have "dropWhile blank xs = xs" by (cases xs) auto
  moreover from a have "dropWhile blank (rev xs) = rev xs" by (cases xs rule: rev_cases) auto
  ultimately show "trim_list blank xs = xs" by (simp add: trim_list_def)
qed

lemma pem_plain_decodes: "pem_plain s \<Longrightarrow> utf8_decode (str_bytes s) = Some (map of_char s)"
  by (subst utf8_decode_ascii) (auto simp: pem_plain_def str_bytes_def list_all_iff comp_def)

lemma of_char_word: "word_of_nat (of_char c) = (of_char c :: byte)"
  by (metis of_char_of bit_eq_iff of_nat_of_char)

lemma trim_str_plain:
  assumes "pem_plain s"
  shows "trim_str s = s"
proof -
  have "trim_list char_is_whitespace (map of_char s) = map of_char s"
    using assms by (intro trim_list_id) (auto simp: pem_plain_def list_all_iff char_is_whitespace_def)
  moreover have "concat (map utf8_encode_char (map of_char s)) = str_bytes s"
    using assms by (induction s) (auto simp: pem_plain_def utf8_encode_char_def str_bytes_def of_char_word)
  ultimately show ?thesis by (simp add: trim_str_def trim_text_def pem_plain_decodes [OF assms])
qed

lemma pem_lines_body:
  "\<forall>l\<in>set ls. l \<noteq> pem_begin label \<and> l \<noteq> pem_end label \<and> trim_str l = l \<Longrightarrow>
     pem_lines b64 description label maximum (ls @ rest) (Some body) blocks
     = pem_lines b64 description label maximum rest (Some (body @ concat ls)) blocks"
  by (induction ls arbitrary: body) auto

lemma pem_markers_differ: "pem_begin label \<noteq> pem_end label'"
  by (simp add: pem_begin_def pem_end_def)

lemma dash_lines: "CHR ''-'' \<notin> set l \<Longrightarrow> l \<noteq> pem_begin label \<and> l \<noteq> pem_end label"
  by (auto simp: pem_begin_def pem_end_def)

text \<open>The standard engine decodes what it encodes and writes letters, digits, plus, slash and equals signs only.\<close>

definition base64_ok :: "base64_engine \<Rightarrow> bool" where
  "base64_ok b64 \<longleftrightarrow> (\<forall>content. b64_decode b64 (b64_encode b64 content) = Ok content
     \<and> pem_plain (b64_encode b64 content) \<and> CHR ''-'' \<notin> set (b64_encode b64 content))"

definition pem_label :: "string \<Rightarrow> bool" where
  "pem_label label \<longleftrightarrow> list_all (\<lambda>c. 32 \<le> (of_char c :: nat) \<and> (of_char c :: nat) < 127) label"

text \<open>A PEM document written for some bytes decodes, under its label, to exactly those bytes.\<close>

lemma decode_pem_encoded:
  assumes "base64_ok b64" and "pem_label label" and "1 \<le> maximum"
  shows "decode_pem_blocks b64 (str_bytes (pem_encode b64 label content)) description label maximum = Ok [content]"
proof -
  let ?enc = "b64_encode b64 content"
  let ?ls = "pem_begin label # chunks_64 ?enc @ [pem_end label]"
  have doc: "pem_encode b64 label content = concat (map (\<lambda>l. l @ [CHR 0x0A]) ?ls)" by (simp add: pem_encode_def)
  have enc: "pem_plain ?enc" "CHR ''-'' \<notin> set ?enc" "b64_decode b64 ?enc = Ok content" using assms(1) by (auto simp: base64_ok_def)
  have chunk: "pem_plain l \<and> CHR ''-'' \<notin> set l" if "l \<in> set (chunks_64 ?enc)" for l
    using chunks_64_subset [OF that] enc by (auto simp: pem_plain_def list_all_iff)
  have marks: "list_all (\<lambda>c. 32 \<le> (of_char c :: nat) \<and> (of_char c :: nat) < 127) (pem_begin label)"
    "list_all (\<lambda>c. 32 \<le> (of_char c :: nat) \<and> (of_char c :: nat) < 127) (pem_end label)"
    using assms(2) by (simp_all add: pem_label_def pem_begin_def pem_end_def)
  have ascii: "32 \<le> (of_char c :: nat) \<and> (of_char c :: nat) < 127" if "l \<in> set ?ls" "c \<in> set l" for l c
  proof -
    consider "l = pem_begin label" | "l = pem_end label" | "l \<in> set (chunks_64 ?enc)" using \<open>l \<in> set ?ls\<close> by auto
    then show ?thesis
    proof cases
      case 3
      with chunk [OF 3] that(2) have "33 \<le> (of_char c :: nat) \<and> (of_char c :: nat) < 127" by (simp add: pem_plain_def list_all_iff)
      then show ?thesis by simp
    qed (use marks that(2) in \<open>auto simp: list_all_iff\<close>)
  qed
  have "\<forall>l\<in>set ?ls. CHR 0x0A \<notin> set l \<and> CHR 0x0D \<notin> set l"
  proof (intro ballI conjI notI)
    fix l assume l: "l \<in> set ?ls"
    show False if "CHR 0x0A \<in> set l" using ascii [OF l that] by simp
    show False if "CHR 0x0D \<in> set l" using ascii [OF l that] by simp
  qed
  then have lines: "text_lines (pem_encode b64 label content) = ?ls" unfolding doc by (rule text_lines_of_lines)
  have "\<forall>c\<in>set (pem_encode b64 label content). (of_char c :: nat) < 128"
  proof
    fix c assume "c \<in> set (pem_encode b64 label content)"
    then obtain l where "l \<in> set ?ls" "c \<in> set (l @ [CHR 0x0A])" unfolding doc set_concat set_map by blast
    then show "(of_char c :: nat) < 128" using ascii [of l c] by fastforce
  qed
  then have valid: "utf8_valid (str_bytes (pem_encode b64 label content))" by (intro utf8_valid_ascii) (simp add: list_all_iff)
  have body: "\<forall>l\<in>set (chunks_64 ?enc). l \<noteq> pem_begin label \<and> l \<noteq> pem_end label \<and> trim_str l = l"
    using chunk dash_lines trim_str_plain by blast
  show ?thesis
    using valid enc(3) assms(3)
    by (simp add: decode_pem_blocks_def lines pem_lines_body [OF body] concat_chunks_64 pem_markers_differ [symmetric])
qed

definition hex_engine :: base64_engine where
  "hex_engine = \<lparr>b64_encode = hex_lower, b64_decode = (\<lambda>s. map_err (\<lambda>_. []) (radix16_pairs s))\<rparr>"

lemma hex_engine_ok: "base64_ok hex_engine"
proof -
  have "33 \<le> (of_char c :: nat) \<and> (of_char c :: nat) < 127 \<and> c \<noteq> CHR ''-''" if "radix16_digit c \<noteq> None" for c
    using that by (auto simp: radix16_digit_def less_eq_char_def split: if_splits)
  then have "33 \<le> (of_char c :: nat) \<and> (of_char c :: nat) < 127 \<and> c \<noteq> CHR ''-''" if "c \<in> set (hex_lower bs)" for c bs
    using hex_lower_radix16 [of bs] that by (auto simp: list_all_iff)
  then have "pem_plain (hex_lower bs) \<and> CHR ''-'' \<notin> set (hex_lower bs)" for bs
    by (auto simp: pem_plain_def list_all_iff)
  then show ?thesis by (simp add: base64_ok_def hex_engine_def radix16_pairs_hex)
qed

end
