(* ===== verification/Rfc3161_Verify.thy ===== *)
theory Rfc3161_Verify
  imports Rfc3161_Process
begin

text \<open>
  RFC 3161 timestamps (\<open>crates/trackone-rfc3161/src/lib.rs\<close>), part three: extraction of the token's fields, the
  VTL profile, the historical validation archive, and the verification of responses and requests.  The DER,
  CMS and X.509 readers, the file system and the spawned OpenSSL process are parameters; a wait on a process
  may not return, which is the value \<open>None\<close>.
\<close>

section \<open>Decoded structures\<close>

type_synonym oid = string

definition ID_SIGNED_DATA :: oid where "ID_SIGNED_DATA = ''1.2.840.113549.1.7.2''"
definition ID_CT_TST_INFO :: oid where "ID_CT_TST_INFO = ''1.2.840.113549.1.9.16.1.4''"
definition ID_AA_SIGNING_CERTIFICATE_V2 :: oid where "ID_AA_SIGNING_CERTIFICATE_V2 = ''1.2.840.113549.1.9.16.2.47''"
definition ID_AA_SIGNING_CERTIFICATE :: oid where "ID_AA_SIGNING_CERTIFICATE = ''1.2.840.113549.1.9.16.2.12''"
definition ID_SHA256 :: oid where "ID_SHA256 = ''2.16.840.1.101.3.4.2.1''"
definition ID_CE_SUBJECT_KEY_IDENTIFIER :: oid where "ID_CE_SUBJECT_KEY_IDENTIFIER = ''2.5.29.14''"
definition ID_CE_DELTA_CRL_INDICATOR :: oid where "ID_CE_DELTA_CRL_INDICATOR = ''2.5.29.27''"
definition ID_CE_ISSUING_DISTRIBUTION_POINT :: oid where "ID_CE_ISSUING_DISTRIBUTION_POINT = ''2.5.29.28''"

definition DEFAULT_MAX_RESPONSE_BYTES :: nat where "DEFAULT_MAX_RESPONSE_BYTES = 1024 * 1024"
definition DEFAULT_COMMAND_TIMEOUT :: duration where "DEFAULT_COMMAND_TIMEOUT = (15, 0)"
definition MAX_CERTIFICATES :: nat where "MAX_CERTIFICATES = 8"
definition MAX_SIGNED_ATTRIBUTES :: nat where "MAX_SIGNED_ATTRIBUTES = 32"
definition MAX_ARCHIVE_CRLS :: nat where "MAX_ARCHIVE_CRLS = 16"
definition MAX_ARCHIVE_BYTES :: nat where "MAX_ARCHIVE_BYTES = 8 * 1024 * 1024"

text \<open>What the code reads of the certificates, revocation lists and CMS structures of the libraries.\<close>

record certificate =
  cf_issuer :: bytes
  cf_subject :: bytes
  cf_serial_number :: bytes
  cf_extensions :: "(oid \<times> bytes) list option"

record revoked_cert =
  rv_serial_number :: bytes
  rv_revocation_date :: duration

record certificate_list =
  cr_issuer :: bytes
  cr_this_update :: duration
  cr_next_update :: "duration option"
  cr_revoked_certificates :: "revoked_cert list option"
  cr_extensions :: "(oid \<times> bytes) list option"

datatype signer_identifier = IssuerAndSerialNumber bytes bytes | SubjectKeyIdentifier bytes

datatype certificate_choice = CertificateChoice certificate | OtherChoice

record cms_attribute =
  at_oid :: oid
  at_values :: "any_ref list"

record signer_info =
  si_sid :: signer_identifier
  si_signed_attrs :: "cms_attribute list option"

record signed_data =
  sd_econtent_type :: oid
  sd_econtent :: "any_ref option"
  sd_certificates :: "certificate_choice list option"
  sd_signer_infos :: "signer_info list"

record content_info =
  ci_content_type :: oid
  ci_content :: any_ref

record message_imprint =
  mi_hash_algorithm :: oid
  mi_hashed_message :: bytes

record ess_cert_id_v2 =
  ec_hash_algorithm :: "oid option"
  ec_cert_hash :: bytes

section \<open>The libraries and the system\<close>

text \<open>A DER reader is what is left to read; a \<open>der::Error\<close> is its text.\<close>

type_synonym reader = bytes
type_synonym 'a der = "('a, string) result"

record der_codec =
  dc_any_from_der :: "bytes \<Rightarrow> any_ref der"
  dc_open_sequence :: "any_ref \<Rightarrow> reader der"
  dc_finish :: "reader \<Rightarrow> unit der"
  dc_peek :: "reader \<Rightarrow> der_tag der"
  dc_any :: "reader \<Rightarrow> (any_ref \<times> reader) der"
  dc_u8 :: "reader \<Rightarrow> (byte \<times> reader) der"
  dc_bool :: "reader \<Rightarrow> (bool \<times> reader) der"
  dc_oid :: "reader \<Rightarrow> (oid \<times> reader) der"
  dc_uint :: "reader \<Rightarrow> (bytes \<times> reader) der"
  dc_imprint :: "reader \<Rightarrow> (message_imprint \<times> reader) der"
  dc_accuracy :: "reader \<Rightarrow> (timestamp_accuracy \<times> reader) der"
  dc_content_info :: "reader \<Rightarrow> (content_info \<times> reader) der"
  dc_extensions_0 :: "reader \<Rightarrow> ((oid \<times> bytes) list option \<times> reader) der"
  dc_value_error :: "der_tag \<Rightarrow> string"
  dc_signed_data :: "any_ref \<Rightarrow> signed_data der"
  dc_octet_string :: "any_ref \<Rightarrow> bytes der"
  dc_signing_certificate_v2 :: "any_ref \<Rightarrow> ess_cert_id_v2 list der"
  dc_cert_from_der :: "bytes \<Rightarrow> certificate der"
  dc_cert_to_der :: "certificate \<Rightarrow> bytes der"
  dc_crl_from_der :: "bytes \<Rightarrow> certificate_list der"
  dc_indirect_crl :: "bytes \<Rightarrow> bool der"
  dc_subject_key_identifier :: "bytes \<Rightarrow> bytes option"
  dc_date_time_new :: date_time_new
  dc_parse_oid :: "string \<Rightarrow> (oid, string) result"

text \<open>A spawned process sees the files written so far.\<close>

type_synonym written_files = "(string \<times> bytes) list"

record tsp_env =
  te_codec :: der_codec
  te_base64 :: base64_engine
  te_lossy :: "bytes \<Rightarrow> string"
  te_io_text :: "io_error \<Rightarrow> string"
  te_instant_add :: "duration \<Rightarrow> bool"
  te_read_file :: "string \<Rightarrow> (bytes, io_error) result"
  te_system_nanos :: "nat option"
  te_temp_dir :: string
  te_process_id :: nat
  te_create_dir :: "string \<Rightarrow> (unit, io_error) result"
  te_create_new :: "written_files \<Rightarrow> string \<Rightarrow> bytes \<Rightarrow> (unit, io_error) result"
  te_spawn :: "written_files \<Rightarrow> command_line \<Rightarrow> (verifier_process, io_error) result"

definition malformed :: "'a der \<Rightarrow> 'a vt_result" where
  "malformed r = map_err VtMalformed r"

definition in_sequence :: "der_codec \<Rightarrow> any_ref \<Rightarrow> (reader \<Rightarrow> ('a \<times> reader) der) \<Rightarrow> 'a der" where
  "in_sequence c v f = and_then (dc_open_sequence c v) (\<lambda>r. and_then (f r) (\<lambda>(x, r). and_then (dc_finish c r) (\<lambda>_. Ok x)))"

text \<open>\<open>!reader.is_finished() && Tag::peek(reader)? == tag\<close>, and the decoding it guards.\<close>

definition optional_field :: "der_codec \<Rightarrow> der_tag \<Rightarrow> (reader \<Rightarrow> ('a \<times> reader) der) \<Rightarrow> reader \<Rightarrow> ('a option \<times> reader) der" where
  "optional_field c tag decode r =
     (if r = [] then Ok (None, r)
      else and_then (dc_peek c r) (\<lambda>t.
        if t = tag then and_then (decode r) (\<lambda>(x, r). Ok (Some x, r)) else Ok (None, r)))"

text \<open>
  Reads elements until the reader is finished.  Every element takes at least one byte; a reader that does
  not advance, which the library never has, is an error here.
\<close>

function skip_elements :: "der_codec \<Rightarrow> reader \<Rightarrow> reader der" where
  "skip_elements c r =
     (if r = [] then Ok r
      else and_then (dc_any c r) (\<lambda>(_, r').
        if length r' < length r then skip_elements c r' else Err (dc_value_error c SequenceTag)))"
  by pat_completeness auto
termination
  by (relation "measure (\<lambda>(_, r). length r)") auto

declare skip_elements.simps [simp del]

function trailing_elements :: "der_codec \<Rightarrow> nat \<Rightarrow> reader \<Rightarrow> reader der" where
  "trailing_elements c trailing_fields r =
     (if r = [] then Ok r
      else and_then (dc_any c r) (\<lambda>(_, r).
        if trailing_fields + 1 > 2 then Err (dc_value_error c SequenceTag)
        else trailing_elements c (trailing_fields + 1) r))"
  by pat_completeness auto
termination
  by (relation "measure (\<lambda>(_, n, _). 2 - n)") auto

declare trailing_elements.simps [simp del]

section \<open>Candidate fields\<close>

fun exactly_one :: "'a list \<Rightarrow> string \<Rightarrow> 'a vt_result" where
  "exactly_one [] label = Err (VtProfile (label @ '' is missing''))"
| "exactly_one [v] label = Ok v"
| "exactly_one (_ # _ # _) label = Err (VtProfile (''more than one '' @ label @ '' is present''))"

definition find_extension :: "oid \<Rightarrow> (oid \<times> bytes) list \<Rightarrow> bytes option" where
  "find_extension extn_id extensions = map_option snd (find (\<lambda>e. fst e = extn_id) extensions)"

definition signer_matches_certificate :: "der_codec \<Rightarrow> signer_identifier \<Rightarrow> certificate \<Rightarrow> bool" where
  "signer_matches_certificate c sid certificate = (case sid of
       IssuerAndSerialNumber issuer serial_number \<Rightarrow> issuer = cf_issuer certificate \<and> serial_number = cf_serial_number certificate
     | SubjectKeyIdentifier key_id \<Rightarrow>
         (case Option.bind (cf_extensions certificate) (find_extension ID_CE_SUBJECT_KEY_IDENTIFIER) of
            None \<Rightarrow> False
          | Some extn_value \<Rightarrow> dc_subject_key_identifier c extn_value = Some key_id))"

record candidate_fields =
  ca_status :: byte
  ca_policy_oid :: oid
  ca_message_imprint :: message_imprint
  ca_serial_number :: bytes
  ca_claimed_generation_time :: generation_time
  ca_accuracy :: "timestamp_accuracy option"
  ca_nonce :: "bytes option"
  ca_signer_certificate_der :: bytes
  ca_signer_certificate_sha256 :: bytes

definition read_status :: "der_codec \<Rightarrow> any_ref \<Rightarrow> byte der" where
  "read_status c status_info = in_sequence c status_info (\<lambda>r.
     and_then (dc_u8 c r) (\<lambda>(status, r). and_then (skip_elements c r) (\<lambda>r. Ok (status, r))))"

definition read_response :: "der_codec \<Rightarrow> any_ref \<Rightarrow> (byte \<times> content_info) der" where
  "read_response c response = in_sequence c response (\<lambda>r.
     and_then (dc_any c r) (\<lambda>(status_info, r).
     and_then (read_status c status_info) (\<lambda>status.
     and_then (dc_content_info c r) (\<lambda>(content_info, r).
     if r \<noteq> [] then Err (dc_value_error c SequenceTag) else Ok ((status, content_info), r)))))"

record tst_info =
  ti_policy_oid :: oid
  ti_message_imprint :: message_imprint
  ti_serial_number :: bytes
  ti_generation_time :: any_ref
  ti_accuracy :: "timestamp_accuracy option"
  ti_nonce :: "bytes option"

definition read_tst_info :: "der_codec \<Rightarrow> any_ref \<Rightarrow> tst_info der" where
  "read_tst_info c v = in_sequence c v (\<lambda>r.
     and_then (dc_u8 c r) (\<lambda>(version, r).
     if version \<noteq> 1 then Err (dc_value_error c IntegerTag)
     else
       and_then (dc_oid c r) (\<lambda>(policy_oid, r).
       and_then (dc_imprint c r) (\<lambda>(message_imprint, r).
       and_then (dc_uint c r) (\<lambda>(serial_number, r).
       and_then (dc_any c r) (\<lambda>(claimed_generation_time, r).
       and_then (optional_field c SequenceTag (dc_accuracy c) r) (\<lambda>(accuracy, r).
       and_then (optional_field c BooleanTag (dc_bool c) r) (\<lambda>(_, r).
       and_then (optional_field c IntegerTag (dc_uint c) r) (\<lambda>(nonce, r).
       and_then (trailing_elements c 0 r) (\<lambda>r.
       Ok (\<lparr>ti_policy_oid = policy_oid, ti_message_imprint = message_imprint, ti_serial_number = serial_number,
            ti_generation_time = claimed_generation_time, ti_accuracy = accuracy, ti_nonce = nonce\<rparr>, r)))))))))))"

definition accuracy_part_ok :: "u16 option \<Rightarrow> bool" where
  "accuracy_part_ok part = (case part of None \<Rightarrow> True | Some p \<Rightarrow> 1 \<le> p \<and> p \<le> 999)"

text \<open>The certificate of the response that its only signer info selects.\<close>

definition matching_certificates :: "der_codec \<Rightarrow> signer_identifier \<Rightarrow> certificate_choice list \<Rightarrow> certificate list" where
  "matching_certificates c sid choices = List.map_filter (\<lambda>choice. case choice of
       CertificateChoice certificate \<Rightarrow> if signer_matches_certificate c sid certificate then Some certificate else None
     | OtherChoice \<Rightarrow> None) choices"

definition select_signer_certificate :: "der_codec \<Rightarrow> signed_data \<Rightarrow> certificate vt_result" where
  "select_signer_certificate c sd =
     (if length (sd_signer_infos sd) \<noteq> 1 then Err (VtProfile ''exactly one CMS SignerInfo is required'')
      else
        and_then (ok_or (sd_certificates sd) (VtProfile ''an embedded signer certificate is required (certReq=TRUE)'')) (\<lambda>certificates.
        if length certificates > MAX_CERTIFICATES
        then Err (VtProfile (''CMS certificate count exceeds '' @ show_nat MAX_CERTIFICATES))
        else
          and_then (exactly_one (sd_signer_infos sd) ''CMS SignerInfo'') (\<lambda>signer_info.
          exactly_one (matching_certificates c (si_sid signer_info) certificates) ''certificate matching CMS SignerIdentifier'')))"

definition extract_candidate_fields :: "(bytes \<Rightarrow> bytes) \<Rightarrow> der_codec \<Rightarrow> bytes \<Rightarrow> candidate_fields vt_result" where
  "extract_candidate_fields H c response_der =
     and_then (malformed (dc_any_from_der c response_der)) (\<lambda>response.
     and_then (malformed (read_response c response)) (\<lambda>(status, content_info).
     if ci_content_type content_info \<noteq> ID_SIGNED_DATA then Err (VtMalformed ''timestamp token is not CMS SignedData'')
     else
       and_then (malformed (dc_signed_data c (ci_content content_info))) (\<lambda>sd.
       if sd_econtent_type sd \<noteq> ID_CT_TST_INFO then Err (VtMalformed ''CMS content is not TSTInfo'')
       else
         and_then (select_signer_certificate c sd) (\<lambda>signer_certificate.
         and_then (malformed (dc_cert_to_der c signer_certificate)) (\<lambda>signer_certificate_der.
         and_then (ok_or (sd_econtent sd) (VtMalformed ''TSTInfo content is missing'')) (\<lambda>tst_content.
         and_then (malformed (dc_octet_string c tst_content)) (\<lambda>tst_octets.
         and_then (malformed (dc_any_from_der c tst_octets)) (\<lambda>tst.
         and_then (malformed (read_tst_info c tst)) (\<lambda>info.
         and_then (timestamp_serial_new (ti_serial_number info)) (\<lambda>serial_number.
         and_then (from_generalized_time_der (dc_date_time_new c) (ti_generation_time info)) (\<lambda>claimed_generation_time.
         if (case ti_accuracy info of None \<Rightarrow> False
             | Some v \<Rightarrow> \<not> accuracy_part_ok (ta_millis v) \<or> \<not> accuracy_part_ok (ta_micros v))
         then Err (VtProfile ''accuracy millis and micros must be in 1..=999'')
         else Ok \<lparr>ca_status = status, ca_policy_oid = ti_policy_oid info, ca_message_imprint = ti_message_imprint info,
           ca_serial_number = serial_number, ca_claimed_generation_time = claimed_generation_time,
           ca_accuracy = ti_accuracy info, ca_nonce = ti_nonce info, ca_signer_certificate_der = signer_certificate_der,
           ca_signer_certificate_sha256 = H signer_certificate_der\<rparr>)))))))))))"

section \<open>Archives and policies\<close>

record validation_archive =
  ha_trust_anchors_file :: string
  ha_intermediates_file :: "string option"
  ha_crls_file :: string

record validation_material =
  hm_trust_anchors_pem :: bytes
  hm_intermediates_pem :: "bytes option"
  hm_crls_pem :: bytes

record tsp_policy =
  tp_archive :: validation_material
  tp_expected_policy_oid :: oid
  tp_expected_signer_certificate_sha256 :: bytes
  tp_openssl_binary :: string
  tp_max_response_bytes :: nat
  tp_command_timeout :: duration
  tp_max_future_skew :: duration

fun collect_results :: "('a \<Rightarrow> ('b, 'e) result) \<Rightarrow> 'a list \<Rightarrow> ('b list, 'e) result" where
  "collect_results f [] = Ok []"
| "collect_results f (x # xs) = and_then (f x) (\<lambda>y. and_then (collect_results f xs) (\<lambda>ys. Ok (y # ys)))"

definition load_certificates_from_pem :: "tsp_env \<Rightarrow> bytes \<Rightarrow> string \<Rightarrow> certificate list vt_result" where
  "load_certificates_from_pem env pem description =
     and_then (decode_pem_blocks (te_base64 env) pem description ''CERTIFICATE'' MAX_CERTIFICATES)
       (collect_results (\<lambda>content. malformed (dc_cert_from_der (te_codec env) content)))"

definition load_crls_from_pem :: "tsp_env \<Rightarrow> bytes \<Rightarrow> string \<Rightarrow> certificate_list list vt_result" where
  "load_crls_from_pem env pem description =
     and_then (decode_pem_blocks (te_base64 env) pem description ''X509 CRL'' MAX_ARCHIVE_CRLS) (\<lambda>values.
     if values = [] then Err (HistoricalValidation ''deployment CRL archive is empty'')
     else collect_results (\<lambda>content. malformed (dc_crl_from_der (te_codec env) content)) values)"

definition archive_configuration_error :: "tsp_env \<Rightarrow> verification_error \<Rightarrow> verification_error" where
  "archive_configuration_error env error = (case error of
       VtConfiguration message \<Rightarrow> VtConfiguration message
     | other \<Rightarrow> VtConfiguration (verification_error_display (te_io_text env) other))"

definition read_archive_file :: "tsp_env \<Rightarrow> string \<Rightarrow> bytes vt_result" where
  "read_archive_file env path =
     and_then (map_err (\<lambda>error. VtConfiguration (''cannot read validation archive file '' @ path @ '': '' @ te_io_text env error))
       (te_read_file env path)) (\<lambda>content.
     if length content > MAX_ARCHIVE_BYTES
     then Err (VtConfiguration (''validation archive file '' @ path @ '' exceeds '' @ show_nat MAX_ARCHIVE_BYTES @ '' bytes''))
     else Ok content)"

definition check_configured_crl :: "tsp_env \<Rightarrow> string \<Rightarrow> certificate_list \<Rightarrow> unit vt_result" where
  "check_configured_crl env crls_file crl =
     (if cr_next_update crl = None then Err (VtConfiguration (''historical CRL in '' @ crls_file @ '' has no nextUpdate''))
      else case cr_extensions crl of
          None \<Rightarrow> Ok ()
        | Some extensions \<Rightarrow>
            if list_ex (\<lambda>e. fst e = ID_CE_DELTA_CRL_INDICATOR) extensions
            then Err (VtConfiguration (''delta CRLs are outside the VTL deployment archive profile: '' @ crls_file))
            else (case find_extension ID_CE_ISSUING_DISTRIBUTION_POINT extensions of
                None \<Rightarrow> Ok ()
              | Some extn_value \<Rightarrow>
                  and_then (map_err (\<lambda>error. VtConfiguration (''invalid issuingDistributionPoint in '' @ crls_file @ '': '' @ error))
                    (dc_indirect_crl (te_codec env) extn_value)) (\<lambda>indirect_crl.
                  if indirect_crl then Err (VtConfiguration (''indirect CRLs are outside the VTL deployment archive profile: '' @ crls_file))
                  else Ok ())))"

definition load_archive_configuration :: "tsp_env \<Rightarrow> validation_archive \<Rightarrow> validation_material vt_result" where
  "load_archive_configuration env archive =
     and_then (read_archive_file env (ha_trust_anchors_file archive)) (\<lambda>trust_anchors_pem.
     and_then (case ha_intermediates_file archive of
         None \<Rightarrow> Ok None
       | Some path \<Rightarrow> and_then (read_archive_file env path) (\<lambda>content. Ok (Some content))) (\<lambda>intermediates_pem.
     and_then (read_archive_file env (ha_crls_file archive)) (\<lambda>crls_pem.
     and_then (map_err (archive_configuration_error env)
       (load_certificates_from_pem env trust_anchors_pem (ha_trust_anchors_file archive))) (\<lambda>_.
     and_then (case (intermediates_pem, ha_intermediates_file archive) of
         (Some pem, Some path) \<Rightarrow>
           and_then (map_err (archive_configuration_error env) (load_certificates_from_pem env pem path)) (\<lambda>_. Ok ())
       | _ \<Rightarrow> Ok ()) (\<lambda>_.
     and_then (map_err (archive_configuration_error env) (load_crls_from_pem env crls_pem (ha_crls_file archive))) (\<lambda>crls.
     and_then (collect_results (check_configured_crl env (ha_crls_file archive)) crls) (\<lambda>_.
     Ok \<lparr>hm_trust_anchors_pem = trust_anchors_pem, hm_intermediates_pem = intermediates_pem, hm_crls_pem = crls_pem\<rparr>)))))))"

definition tsp_policy_new :: "tsp_env \<Rightarrow> validation_archive \<Rightarrow> string \<Rightarrow> bytes \<Rightarrow> tsp_policy vt_result" where
  "tsp_policy_new env archive expected_policy_oid expected_signer_certificate_sha256 =
     and_then (map_err (\<lambda>error. VtConfiguration (''invalid expected TSA policy OID: '' @ error))
       (dc_parse_oid (te_codec env) expected_policy_oid)) (\<lambda>policy_oid.
     and_then (load_archive_configuration env archive) (\<lambda>material.
     Ok \<lparr>tp_archive = material, tp_expected_policy_oid = policy_oid,
       tp_expected_signer_certificate_sha256 = expected_signer_certificate_sha256, tp_openssl_binary = ''openssl'',
       tp_max_response_bytes = DEFAULT_MAX_RESPONSE_BYTES, tp_command_timeout = DEFAULT_COMMAND_TIMEOUT,
       tp_max_future_skew = (0, 0)\<rparr>))"

definition with_openssl_binary :: "tsp_policy \<Rightarrow> string \<Rightarrow> tsp_policy" where
  "with_openssl_binary policy openssl_binary = policy\<lparr>tp_openssl_binary := openssl_binary\<rparr>"

definition with_limits :: "tsp_policy \<Rightarrow> nat \<Rightarrow> duration \<Rightarrow> tsp_policy" where
  "with_limits policy max_response_bytes command_timeout =
     policy\<lparr>tp_max_response_bytes := max_response_bytes, tp_command_timeout := command_timeout\<rparr>"

definition with_max_future_skew :: "tsp_policy \<Rightarrow> duration \<Rightarrow> tsp_policy" where
  "with_max_future_skew policy max_future_skew = policy\<lparr>tp_max_future_skew := max_future_skew\<rparr>"

definition tsp_policy_validate :: "tsp_env \<Rightarrow> tsp_policy \<Rightarrow> unit vt_result" where
  "tsp_policy_validate env policy =
     (if tp_max_response_bytes policy = 0 then Err (VtConfiguration ''max_response_bytes must be positive'')
      else if tp_command_timeout policy = (0, 0) then Err (VtConfiguration ''command_timeout must be positive'')
      else if \<not> te_instant_add env (tp_command_timeout policy)
      then Err (VtConfiguration ''command_timeout is out of range for this platform'')
      else Ok ())"

definition try_with_limits :: "tsp_env \<Rightarrow> tsp_policy \<Rightarrow> nat \<Rightarrow> duration \<Rightarrow> tsp_policy vt_result" where
  "try_with_limits env policy max_response_bytes command_timeout =
     (let policy = with_limits policy max_response_bytes command_timeout in
      and_then (tsp_policy_validate env policy) (\<lambda>_. Ok policy))"

section \<open>Profile and historical applicability\<close>

definition verify_status_and_profile :: "candidate_fields \<Rightarrow> bytes \<Rightarrow> tsp_policy \<Rightarrow> unit vt_result" where
  "verify_status_and_profile candidate expected_artifact_sha256 policy =
     (if ca_status candidate \<noteq> 0 then Err (VtStatus (ca_status candidate))
      else if ca_policy_oid candidate \<noteq> tp_expected_policy_oid policy then Err PolicyMismatch
      else if mi_hash_algorithm (ca_message_imprint candidate) \<noteq> ID_SHA256
        \<or> mi_hashed_message (ca_message_imprint candidate) \<noteq> expected_artifact_sha256
      then Err MessageImprintMismatch
      else if ca_signer_certificate_sha256 candidate \<noteq> tp_expected_signer_certificate_sha256 policy
      then Err (SignerCertificateMismatch ''embedded signer certificate does not match the deployment pin'')
      else Ok ())"

definition crl_kind_ok :: "der_codec \<Rightarrow> certificate_list \<Rightarrow> unit vt_result" where
  "crl_kind_ok c crl = (case cr_extensions crl of
       None \<Rightarrow> Ok ()
     | Some extensions \<Rightarrow>
         if list_ex (\<lambda>e. fst e = ID_CE_DELTA_CRL_INDICATOR) extensions
         then Err (HistoricalValidation ''delta CRLs are outside the VTL deployment archive profile'')
         else (case find_extension ID_CE_ISSUING_DISTRIBUTION_POINT extensions of
             None \<Rightarrow> Ok ()
           | Some extn_value \<Rightarrow>
               and_then (malformed (dc_indirect_crl c extn_value)) (\<lambda>indirect_crl.
               if indirect_crl then Err (HistoricalValidation ''indirect CRLs are outside the VTL deployment archive profile'')
               else Ok ())))"

definition revoked_entry :: "certificate_list \<Rightarrow> certificate \<Rightarrow> revoked_cert option" where
  "revoked_entry crl certificate = Option.bind (cr_revoked_certificates crl)
     (find (\<lambda>entry. rv_serial_number entry = cf_serial_number certificate))"

definition validate_crl_for_certificate ::
  "der_codec \<Rightarrow> certificate_list \<Rightarrow> certificate \<Rightarrow> generation_time \<Rightarrow> unit vt_result" where
  "validate_crl_for_certificate c crl certificate claimed_generation_time =
     and_then (crl_kind_ok c crl) (\<lambda>_.
     let at_time = (unix_seconds claimed_generation_time, 0) in
     if duration_less at_time (cr_this_update crl)
     then Err (HistoricalValidation ''CRL thisUpdate is later than the TSA-asserted genTime'')
     else
       and_then (ok_or (cr_next_update crl) (HistoricalValidation ''a historical CRL must include nextUpdate'')) (\<lambda>next_update.
       if \<not> duration_less at_time next_update then Err (HistoricalValidation ''CRL does not cover the TSA-asserted genTime'')
       else if (case revoked_entry crl certificate of None \<Rightarrow> False
           | Some entry \<Rightarrow> \<not> duration_less at_time (rv_revocation_date entry))
       then Err (HistoricalValidation ''certificate was revoked at or before the TSA-asserted genTime'')
       else Ok ()))"

text \<open>The loop of \<open>validate_archive_applicability\<close>; the number counts down the depth still allowed.\<close>

fun archive_path_loop ::
  "der_codec \<Rightarrow> certificate list \<Rightarrow> certificate list \<Rightarrow> certificate_list list \<Rightarrow> generation_time \<Rightarrow> nat \<Rightarrow> certificate
     \<Rightarrow> unit vt_result" where
  "archive_path_loop c anchors intermediates crls t 0 current =
     Err (HistoricalValidation ''certification path exceeds the profile depth limit'')"
| "archive_path_loop c anchors intermediates crls t (Suc remaining) current =
     (let applicable = filter (\<lambda>crl. cr_issuer crl = cf_issuer current) crls in
      if length applicable \<noteq> 1
      then Err (HistoricalValidation (''expected exactly one complete base CRL for non-root certificate issuer; found ''
        @ show_nat (length applicable)))
      else
        and_then (validate_crl_for_certificate c (applicable ! 0) current t) (\<lambda>_.
        let issuer_intermediates = filter (\<lambda>cert. cf_subject cert = cf_issuer current) intermediates;
            issuer_anchors = filter (\<lambda>cert. cf_subject cert = cf_issuer current) anchors in
        if length issuer_intermediates + length issuer_anchors \<noteq> 1
        then Err (HistoricalValidation ''certification path is missing or ambiguous in the deployment archive'')
        else if length issuer_anchors = 1 then Ok ()
        else archive_path_loop c anchors intermediates crls t remaining (issuer_intermediates ! 0)))"

definition validate_archive_applicability ::
  "der_codec \<Rightarrow> bytes \<Rightarrow> certificate list \<Rightarrow> certificate list \<Rightarrow> certificate_list list \<Rightarrow> generation_time \<Rightarrow> unit vt_result" where
  "validate_archive_applicability c signer_der anchors intermediates crls t =
     and_then (malformed (dc_cert_from_der c signer_der)) (\<lambda>signer.
     archive_path_loop c anchors intermediates crls t MAX_CERTIFICATES signer)"

section \<open>Staging and OpenSSL\<close>

fun create_dir_attempts :: "tsp_env \<Rightarrow> nat \<Rightarrow> nat list \<Rightarrow> string vt_result" where
  "create_dir_attempts env nonce [] = Err (VtIo AlreadyExists)"
| "create_dir_attempts env nonce (attempt # rest) =
     (let path = path_join (te_temp_dir env) (''trackone-rfc3161-'' @ show_nat (te_process_id env) @ ''-'' @ show_nat nonce
        @ ''-'' @ show_nat attempt) in
      (case te_create_dir env path of
         Inr _ \<Rightarrow> Ok path
       | Inl AlreadyExists \<Rightarrow> create_dir_attempts env nonce rest
       | Inl error \<Rightarrow> Err (VtIo error)))"

definition create_temporary_directory :: "tsp_env \<Rightarrow> string vt_result" where
  "create_temporary_directory env =
     and_then (ok_or (te_system_nanos env) (VtConfiguration ''system time precedes Unix epoch'')) (\<lambda>nonce.
     create_dir_attempts env nonce [0..<16])"

definition write_private_file :: "tsp_env \<Rightarrow> string \<Rightarrow> bytes \<Rightarrow> written_files \<Rightarrow> written_files vt_result" where
  "write_private_file env path content files =
     and_then (map_err VtIo (te_create_new env files path content)) (\<lambda>_. Ok (files @ [(path, content)]))"

definition materialize_archive ::
  "tsp_env \<Rightarrow> string \<Rightarrow> validation_material \<Rightarrow> written_files \<Rightarrow> (validation_archive \<times> written_files) vt_result" where
  "materialize_archive env directory archive files =
     (let trust_anchors_file = path_join directory ''trust-anchors.pem''; crls_file = path_join directory ''crls.pem'' in
      and_then (write_private_file env trust_anchors_file (hm_trust_anchors_pem archive) files) (\<lambda>files.
      and_then (write_private_file env crls_file (hm_crls_pem archive) files) (\<lambda>files.
      and_then (case hm_intermediates_pem archive of
          None \<Rightarrow> Ok (None, files)
        | Some pem \<Rightarrow>
            let path = path_join directory ''intermediates.pem'' in
            and_then (write_private_file env path pem files) (\<lambda>files. Ok (Some path, files))) (\<lambda>(intermediates_file, files).
      Ok (\<lparr>ha_trust_anchors_file = trust_anchors_file, ha_intermediates_file = intermediates_file, ha_crls_file = crls_file\<rparr>, files)))))"

definition untrusted_args :: "validation_archive \<Rightarrow> string list" where
  "untrusted_args archive = (case ha_intermediates_file archive of None \<Rightarrow> [] | Some path \<Rightarrow> [''-untrusted'', path])"

definition ts_verify_command :: "tsp_policy \<Rightarrow> string \<Rightarrow> bytes \<Rightarrow> validation_archive \<Rightarrow> u64 \<Rightarrow> command_line" where
  "ts_verify_command policy response_path digest archive at_time =
     \<lparr>cl_program = tp_openssl_binary policy,
      cl_args = [''ts'', ''-verify'', ''-in'', response_path, ''-digest'', hex_lower digest, ''-CAfile'', ha_trust_anchors_file archive,
        ''-attime'', show_nat (unat at_time)] @ untrusted_args archive\<rparr>"

definition openssl_succeeds ::
  "tsp_env \<Rightarrow> written_files \<Rightarrow> command_line \<Rightarrow> string \<Rightarrow> duration \<Rightarrow> unit vt_result option" where
  "openssl_succeeds env files command label timeout =
     run_then (run_command (te_spawn env files) command label timeout) (\<lambda>out.
     Some (require_success (te_lossy env) label out))"

definition verify_timestamp_with_openssl ::
  "tsp_env \<Rightarrow> written_files \<Rightarrow> string \<Rightarrow> bytes \<Rightarrow> generation_time \<Rightarrow> validation_archive \<Rightarrow> tsp_policy \<Rightarrow> unit vt_result option" where
  "verify_timestamp_with_openssl env files response_path expected_artifact_sha256 claimed_generation_time archive policy =
     run_then (Some (openssl_attime_bounds claimed_generation_time)) (\<lambda>(lower_bound, upper_bound).
     let run = (\<lambda>at_time. openssl_succeeds env files (ts_verify_command policy response_path expected_artifact_sha256 archive at_time)
       ''OpenSSL timestamp verification'' (tp_command_timeout policy)) in
     run_then (run lower_bound) (\<lambda>_. if lower_bound = upper_bound then Some (Ok ()) else run upper_bound))"

definition path_verify_command :: "tsp_policy \<Rightarrow> string \<Rightarrow> validation_archive \<Rightarrow> u64 \<Rightarrow> command_line" where
  "path_verify_command policy signer_path archive at_time =
     \<lparr>cl_program = tp_openssl_binary policy,
      cl_args = [''verify'', ''-purpose'', ''timestampsign'', ''-attime'', show_nat (unat at_time), ''-CAfile'', ha_trust_anchors_file archive]
        @ untrusted_args archive @ [''-CRLfile'', ha_crls_file archive, ''-crl_check_all'', ''-x509_strict'', signer_path]\<rparr>"

definition validate_historical_archive ::
  "tsp_env \<Rightarrow> written_files \<Rightarrow> candidate_fields \<Rightarrow> string \<Rightarrow> validation_archive \<Rightarrow> tsp_policy \<Rightarrow> unit vt_result option" where
  "validate_historical_archive env files candidate signer_path archive_paths policy =
     run_then (Some (load_certificates_from_pem env (hm_trust_anchors_pem (tp_archive policy)) ''configured trust anchors'')) (\<lambda>anchors.
     run_then (Some (case hm_intermediates_pem (tp_archive policy) of
         None \<Rightarrow> Ok []
       | Some pem \<Rightarrow> load_certificates_from_pem env pem ''configured intermediates'')) (\<lambda>intermediates.
     run_then (Some (load_crls_from_pem env (hm_crls_pem (tp_archive policy)) ''configured CRLs'')) (\<lambda>crls.
     run_then (Some (validate_archive_applicability (te_codec env) (ca_signer_certificate_der candidate) anchors intermediates crls
       (ca_claimed_generation_time candidate))) (\<lambda>_.
     let label = ''OpenSSL historical certificate-path verification'' in
     run_then (run_command (te_spawn env files)
       (path_verify_command policy signer_path archive_paths (unix_seconds (ca_claimed_generation_time candidate)))
       label (tp_command_timeout policy)) (\<lambda>out.
     Some (map_err (\<lambda>error. HistoricalValidation (verification_error_display (te_io_text env) error))
       (require_success (te_lossy env) label out)))))))"

section \<open>Responses and requests\<close>

record verified_timestamp =
  vt_message_imprint :: bytes
  vt_policy_oid :: oid
  vt_serial_number :: bytes
  vt_generation_time :: generation_time
  vt_accuracy :: "timestamp_accuracy option"
  vt_signer_certificate_sha256 :: bytes
  vt_nonce :: "bytes option"

definition read_content_info :: "der_codec \<Rightarrow> any_ref \<Rightarrow> content_info der" where
  "read_content_info c response = in_sequence c response (\<lambda>r.
     and_then (dc_any c r) (\<lambda>(_, r).
     and_then (dc_content_info c r) (\<lambda>(content_info, r).
     if r \<noteq> [] then Err (dc_value_error c SequenceTag) else Ok (content_info, r))))"

definition check_signing_certificate :: "der_codec \<Rightarrow> bytes \<Rightarrow> signer_info \<Rightarrow> unit vt_result" where
  "check_signing_certificate c signer_certificate_sha256 signer_info =
     and_then (ok_or (si_signed_attrs signer_info) (VtProfile ''CMS signed attributes are required'')) (\<lambda>signed_attributes.
     if length signed_attributes > MAX_SIGNED_ATTRIBUTES
     then Err (VtProfile (''signed-attribute count exceeds '' @ show_nat MAX_SIGNED_ATTRIBUTES))
     else if list_ex (\<lambda>a. at_oid a = ID_AA_SIGNING_CERTIFICATE) signed_attributes
     then Err (VtProfile ''legacy SigningCertificate signed attribute is prohibited; SigningCertificateV2 is required'')
     else
       and_then (exactly_one (filter (\<lambda>a. at_oid a = ID_AA_SIGNING_CERTIFICATE_V2) signed_attributes)
         ''SigningCertificateV2 signed attribute'') (\<lambda>attribute.
       and_then (exactly_one (at_values attribute) ''SigningCertificateV2 attribute value'') (\<lambda>attribute_value.
       and_then (malformed (dc_signing_certificate_v2 c attribute_value)) (\<lambda>certs.
       if length certs > MAX_CERTIFICATES then Err (VtProfile (''ESSCertIDv2 count exceeds '' @ show_nat MAX_CERTIFICATES))
       else
         and_then (ok_or (case certs of [] \<Rightarrow> None | first # _ \<Rightarrow> Some first) (VtProfile ''ESSCertIDv2 sequence is empty'')) (\<lambda>first_cert_id.
         if (case ec_hash_algorithm first_cert_id of None \<Rightarrow> False | Some algorithm \<Rightarrow> algorithm \<noteq> ID_SHA256)
         then Err (SignerCertificateMismatch ''ESSCertIDv2 uses a non-SHA-256 hash algorithm'')
         else if ec_cert_hash first_cert_id \<noteq> signer_certificate_sha256
         then Err (SignerCertificateMismatch ''ESSCertIDv2 does not bind the selected CMS signer certificate'')
         else Ok ())))))"

definition inspect_verified_response ::
  "(bytes \<Rightarrow> bytes) \<Rightarrow> der_codec \<Rightarrow> bytes \<Rightarrow> bytes \<Rightarrow> tsp_policy \<Rightarrow> verified_timestamp vt_result" where
  "inspect_verified_response H c response_der expected_artifact_sha256 policy =
     and_then (extract_candidate_fields H c response_der) (\<lambda>candidate.
     and_then (verify_status_and_profile candidate expected_artifact_sha256 policy) (\<lambda>_.
     and_then (malformed (dc_any_from_der c response_der)) (\<lambda>response.
     and_then (malformed (read_content_info c response)) (\<lambda>content_info.
     and_then (malformed (dc_signed_data c (ci_content content_info))) (\<lambda>sd.
     and_then (exactly_one (sd_signer_infos sd) ''CMS SignerInfo'') (\<lambda>signer_info.
     and_then (check_signing_certificate c (ca_signer_certificate_sha256 candidate) signer_info) (\<lambda>_.
     Ok \<lparr>vt_message_imprint = expected_artifact_sha256, vt_policy_oid = ca_policy_oid candidate,
       vt_serial_number = ca_serial_number candidate, vt_generation_time = ca_claimed_generation_time candidate,
       vt_accuracy = ca_accuracy candidate, vt_signer_certificate_sha256 = ca_signer_certificate_sha256 candidate,
       vt_nonce = ca_nonce candidate\<rparr>)))))))"

definition stage_response ::
  "tsp_env \<Rightarrow> bytes \<Rightarrow> candidate_fields \<Rightarrow> tsp_policy \<Rightarrow> (string \<times> string \<times> validation_archive \<times> written_files) vt_result" where
  "stage_response env response_der candidate policy =
     and_then (create_temporary_directory env) (\<lambda>temporary.
     let response_path = path_join temporary ''response.tsr''; signer_path = path_join temporary ''signer.pem'' in
     and_then (materialize_archive env temporary (tp_archive policy) []) (\<lambda>(archive_paths, files).
     and_then (write_private_file env response_path response_der files) (\<lambda>files.
     and_then (write_private_file env signer_path
       (str_bytes (pem_encode (te_base64 env) ''CERTIFICATE'' (ca_signer_certificate_der candidate))) files) (\<lambda>files.
     Ok (response_path, signer_path, archive_paths, files)))))"

definition verify_response_with_clock ::
  "(bytes \<Rightarrow> bytes) \<Rightarrow> tsp_env \<Rightarrow> bytes \<Rightarrow> bytes \<Rightarrow> tsp_policy \<Rightarrow> duration vt_result \<Rightarrow> verified_timestamp vt_result option" where
  "verify_response_with_clock H env response_der expected_artifact_sha256 policy clock =
     run_then (Some (tsp_policy_validate env policy)) (\<lambda>_.
     if length response_der > tp_max_response_bytes policy
     then Some (Err (ResponseTooLarge (length response_der) (tp_max_response_bytes policy)))
     else
       run_then (Some (extract_candidate_fields H (te_codec env) response_der)) (\<lambda>candidate.
       run_then (Some clock) (\<lambda>current.
       run_then (Some (ok_or (duration_checked_add current (tp_max_future_skew policy))
         (VtConfiguration ''future-skew bound overflows time''))) (\<lambda>latest.
       if exceeds_unix_duration (ca_claimed_generation_time candidate) latest
       then Some (Err (VtProfile ''TSTInfo genTime exceeds the configured maximum future skew''))
       else
         run_then (Some (verify_status_and_profile candidate expected_artifact_sha256 policy)) (\<lambda>_.
         run_then (Some (stage_response env response_der candidate policy)) (\<lambda>(response_path, signer_path, archive_paths, files).
         run_then (verify_timestamp_with_openssl env files response_path expected_artifact_sha256
           (ca_claimed_generation_time candidate) archive_paths policy) (\<lambda>_.
         run_then (validate_historical_archive env files candidate signer_path archive_paths policy) (\<lambda>_.
         run_then (Some (inspect_verified_response H (te_codec env) response_der expected_artifact_sha256 policy)) (\<lambda>verified.
         if vt_signer_certificate_sha256 verified \<noteq> ca_signer_certificate_sha256 candidate
           \<or> vt_generation_time verified \<noteq> ca_claimed_generation_time candidate
           \<or> vt_serial_number verified \<noteq> ca_serial_number candidate
         then Some (Err (VtProfile ''pre-validation and post-validation parsing did not select identical timestamp fields''))
         else Some (Ok verified))))))))))"

definition verify_response ::
  "(bytes \<Rightarrow> bytes) \<Rightarrow> tsp_env \<Rightarrow> duration option \<Rightarrow> bytes \<Rightarrow> bytes \<Rightarrow> tsp_policy \<Rightarrow> verified_timestamp vt_result option" where
  "verify_response H env since_epoch response_der expected_artifact_sha256 policy =
     verify_response_with_clock H env response_der expected_artifact_sha256 policy
       (ok_or since_epoch (VtConfiguration ''local time is before the Unix epoch''))"

definition read_request :: "der_codec \<Rightarrow> any_ref \<Rightarrow> (message_imprint \<times> bytes option \<times> bool) der" where
  "read_request c request = in_sequence c request (\<lambda>r.
     and_then (dc_u8 c r) (\<lambda>(version, r).
     if version \<noteq> 1 then Err (dc_value_error c IntegerTag)
     else
       and_then (dc_imprint c r) (\<lambda>(message_imprint, r).
       and_then (optional_field c ObjectIdentifierTag (dc_oid c) r) (\<lambda>(_, r).
       and_then (optional_field c IntegerTag (dc_uint c) r) (\<lambda>(nonce, r).
       and_then (optional_field c BooleanTag (dc_bool c) r) (\<lambda>(cert_req, r).
       and_then (if r = [] then Ok r
         else and_then (dc_extensions_0 c r) (\<lambda>(extensions, r).
           case extensions of
             None \<Rightarrow> Err (dc_value_error c (OtherTag 0))
           | Some v \<Rightarrow> if v = [] then Err (dc_value_error c SequenceTag) else Ok r)) (\<lambda>r.
       if r \<noteq> [] then Err (dc_value_error c SequenceTag)
       else Ok ((message_imprint, nonce, case cert_req of None \<Rightarrow> False | Some b \<Rightarrow> b), r))))))))"

definition verify_request :: "der_codec \<Rightarrow> bytes \<Rightarrow> bytes \<Rightarrow> bytes option \<Rightarrow> bytes option vt_result" where
  "verify_request c request_der expected_artifact_sha256 response_nonce =
     and_then (malformed (dc_any_from_der c request_der)) (\<lambda>request.
     and_then (malformed (read_request c request)) (\<lambda>(message_imprint, nonce, cert_req).
     if mi_hash_algorithm message_imprint \<noteq> ID_SHA256 \<or> mi_hashed_message message_imprint \<noteq> expected_artifact_sha256
     then Err MessageImprintMismatch
     else if \<not> cert_req then Err (VtProfile ''TimeStampReq certReq must be TRUE'')
     else if nonce \<noteq> response_nonce then Err (VtProfile ''TimeStampReq and TimeStampResp nonces do not match'')
     else Ok nonce))"

end
