(* ===== verification/Rfc3161_Properties.thy ===== *)
theory Rfc3161_Properties
  imports Rfc3161_Verify
begin

text \<open>
  What a verified RFC 3161 timestamp establishes: the pinned signer, policy and artifact digest, a signed time
  that is not in the future, acceptance by OpenSSL at both whole seconds around that time, and a certification
  path whose revocation lists cover it.
\<close>

section \<open>Revocation lists at the signed time\<close>

text \<open>X.509 times are whole seconds.\<close>

definition whole_seconds :: "certificate_list \<Rightarrow> bool" where
  "whole_seconds crl \<longleftrightarrow> snd (cr_this_update crl) = 0 \<and> pred_option (\<lambda>d. snd d = 0) (cr_next_update crl)
     \<and> pred_option (list_all (\<lambda>entry. snd (rv_revocation_date entry) = 0)) (cr_revoked_certificates crl)"

definition covers :: "certificate_list \<Rightarrow> certificate \<Rightarrow> generation_time \<Rightarrow> bool" where
  "covers crl certificate t \<longleftrightarrow> instant (cr_this_update crl) \<le> gen_instant t
     \<and> (\<exists>next_update. cr_next_update crl = Some next_update \<and> gen_instant t < instant next_update)
     \<and> pred_option (\<lambda>entry. gen_instant t < instant (rv_revocation_date entry)) (revoked_entry crl certificate)"

lemma whole_second_less:
  assumes "fraction_ok t" "snd d = 0"
  shows "duration_less (unix_seconds t, 0) d \<longleftrightarrow> gen_instant t < instant d"
proof -
  let ?f = "case gt_fractional_seconds t of None \<Rightarrow> 0 | Some fraction \<Rightarrow> fraction_value fraction"
  have "0 \<le> ?f" "?f < 1" using assms(1) fraction_value_bounds by (auto simp: fraction_ok_def split: option.splits)
  moreover have "duration_less (unix_seconds t, 0) d \<longleftrightarrow> real (unat (unix_seconds t)) + 1 \<le> real (unat (fst d))"
    using assms(2) by (auto simp: duration_less_def word_less_nat_alt simp del: of_nat_unat)
  moreover have "real (unat (unix_seconds t)) + 1 \<le> real (unat (fst d)) \<or> real (unat (fst d)) \<le> real (unat (unix_seconds t))"
    by (cases "unat (unix_seconds t) < unat (fst d)") (simp_all add: not_less del: of_nat_unat)
  ultimately show ?thesis using assms(2) by (auto simp: gen_instant_def instant_def simp del: of_nat_unat)
qed

lemma revoked_entry_whole: "whole_seconds crl \<Longrightarrow> revoked_entry crl certificate = Some entry \<Longrightarrow> snd (rv_revocation_date entry) = 0"
  by (auto simp: whole_seconds_def revoked_entry_def bind_eq_Some_conv find_Some_iff list_all_iff)

lemma validate_crl_iff:
  assumes "fraction_ok t" "whole_seconds crl"
  shows "validate_crl_for_certificate c crl certificate t = Ok () \<longleftrightarrow> crl_kind_ok c crl = Ok () \<and> covers crl certificate t"
proof -
  have this_update: "duration_less (unix_seconds t, 0) (cr_this_update crl) \<longleftrightarrow> gen_instant t < instant (cr_this_update crl)"
    using assms by (intro whole_second_less) (auto simp: whole_seconds_def)
  have next_update: "duration_less (unix_seconds t, 0) n \<longleftrightarrow> gen_instant t < instant n" if "cr_next_update crl = Some n" for n
    using assms that by (intro whole_second_less) (auto simp: whole_seconds_def)
  have revoked: "duration_less (unix_seconds t, 0) (rv_revocation_date e) \<longleftrightarrow> gen_instant t < instant (rv_revocation_date e)"
    if "revoked_entry crl certificate = Some e" for e
    using assms that by (intro whole_second_less revoked_entry_whole)
  show ?thesis
  proof (cases "cr_next_update crl")
    case (Some n)
    with next_update [OF Some] revoked show ?thesis
      by (cases "revoked_entry crl certificate")
        (auto simp: validate_crl_for_certificate_def and_then_Ok_iff Let_def covers_def this_update not_less)
  qed (simp add: validate_crl_for_certificate_def and_then_Ok_iff Let_def covers_def)
qed

text \<open>
  C31: Checking a revocation list against the whole second of the signed time loses nothing: with the whole-second
  times of X.509 the list is accepted exactly when it is of the supported kind (not a delta list, and its
  issuing distribution point, if it has one, decodes and is not that of an indirect list), was issued by the signed instant, is to be replaced only
  after it, and its first entry for the certificate's serial number, if it has one, revokes only after the instant,
  however many fractional digits the instant has.
\<close>

theorem crl_check_is_exact:
  assumes "from_generalized_time_der new v = Ok t" and "whole_seconds crl"
  shows "validate_crl_for_certificate c crl certificate t = Ok () \<longleftrightarrow> crl_kind_ok c crl = Ok ()
    \<and> instant (cr_this_update crl) \<le> gen_instant t
    \<and> (\<exists>next_update. cr_next_update crl = Some next_update \<and> gen_instant t < instant next_update)
    \<and> pred_option (\<lambda>entry. gen_instant t < instant (rv_revocation_date entry)) (revoked_entry crl certificate)"
  using validate_crl_iff [OF from_generalized_time_fraction [OF assms(1)] assms(2)] by (simp add: covers_def)

section \<open>Certification paths\<close>

text \<open>
  A path from the signer to an anchor of the archive: every certificate is issued by the next one, an
  intermediate of the archive, the last one by an anchor, and every issuer has a list that covers the time.
\<close>

definition crl_for :: "der_codec \<Rightarrow> certificate_list list \<Rightarrow> generation_time \<Rightarrow> certificate \<Rightarrow> bool" where
  "crl_for c crls t certificate \<longleftrightarrow> (\<exists>crl\<in>set crls. cr_issuer crl = cf_issuer certificate \<and> crl_kind_ok c crl = Ok ()
     \<and> covers crl certificate t)"

fun certification_path :: "der_codec \<Rightarrow> certificate list \<Rightarrow> certificate list \<Rightarrow> certificate_list list \<Rightarrow> generation_time
    \<Rightarrow> certificate list \<Rightarrow> bool" where
  "certification_path c anchors intermediates crls t [] = False"
| "certification_path c anchors intermediates crls t [cert] \<longleftrightarrow> crl_for c crls t cert
     \<and> (\<exists>anchor\<in>set anchors. cf_subject anchor = cf_issuer cert)"
| "certification_path c anchors intermediates crls t (cert # issuer # path) \<longleftrightarrow> crl_for c crls t cert
     \<and> issuer \<in> set intermediates \<and> cf_subject issuer = cf_issuer cert
     \<and> certification_path c anchors intermediates crls t (issuer # path)"

lemma length_one_in: "length (filter P xs) = 1 \<Longrightarrow> filter P xs ! 0 \<in> set xs \<and> P (filter P xs ! 0)"
  using nth_mem [of 0 "filter P xs"] by auto

lemma archive_path_loop_path:
  assumes "fraction_ok t" "list_all whole_seconds crls"
  shows "archive_path_loop c anchors intermediates crls t n current = Ok () \<Longrightarrow>
    \<exists>path. certification_path c anchors intermediates crls t (current # path) \<and> length (current # path) \<le> n"
proof (induction n arbitrary: current)
  case (Suc n)
  let ?crls = "filter (\<lambda>crl. cr_issuer crl = cf_issuer current) crls"
  let ?inter = "filter (\<lambda>cert. cf_subject cert = cf_issuer current) intermediates"
  let ?anchors = "filter (\<lambda>cert. cf_subject cert = cf_issuer current) anchors"
  from Suc.prems have one: "length ?crls = 1" and crl: "validate_crl_for_certificate c (?crls ! 0) current t = Ok ()"
    and issuers: "length ?inter + length ?anchors = 1"
    and rest: "length ?anchors = 1 \<or> archive_path_loop c anchors intermediates crls t n (?inter ! 0) = Ok ()"
    by (auto simp: Let_def and_then_Ok_iff split: if_splits)
  have "?crls ! 0 \<in> set crls \<and> cr_issuer (?crls ! 0) = cf_issuer current" using length_one_in [OF one] by blast
  moreover from this assms have "validate_crl_for_certificate c (?crls ! 0) current t = Ok () \<longleftrightarrow>
      crl_kind_ok c (?crls ! 0) = Ok () \<and> covers (?crls ! 0) current t"
    by (intro validate_crl_iff) (auto simp: list_all_iff)
  ultimately have covered: "crl_for c crls t current" using crl unfolding crl_for_def by blast
  show ?case
  proof (cases "length ?anchors = 1")
    case True
    from length_one_in [OF this] covered show ?thesis by (intro exI [of _ "[]"]) auto
  next
    case False
    with issuers have "length ?inter = 1" by simp
    from length_one_in [OF this] have i: "?inter ! 0 \<in> set intermediates" "cf_subject (?inter ! 0) = cf_issuer current" by auto
    from False rest Suc.IH obtain path where "certification_path c anchors intermediates crls t (?inter ! 0 # path)"
      "length (?inter ! 0 # path) \<le> n" by blast
    with i covered show ?thesis by (intro exI [of _ "?inter ! 0 # path"]) auto
  qed
qed simp

section \<open>Commands that succeed\<close>

definition command_succeeded :: "(command_line \<Rightarrow> (verifier_process, io_error) result) \<Rightarrow> command_line \<Rightarrow> duration \<Rightarrow> bool" where
  "command_succeeded spawn command timeout \<longleftrightarrow> (\<exists>ch n. spawn command = Ok ch \<and> ch_try_wait ch n = Ok (Some True)
     \<and> (\<forall>m<n. ch_try_wait ch m = Ok None \<and> ch_elapsed ch m < nanos timeout))"

lemma wait_for_status_Ok:
  "wait_for_status ch label timeout k = Some r \<Longrightarrow> r = Ok (status, n) \<Longrightarrow> k \<le> n \<and> ch_try_wait ch n = Ok (Some status)
     \<and> (\<forall>m. k \<le> m \<and> m < n \<longrightarrow> ch_try_wait ch m = Ok None \<and> ch_elapsed ch m < nanos timeout)"
proof (induction ch label timeout k r rule: wait_for_status.raw_induct [rotated, consumes 1, case_names step])
  case (step self ch label timeout k r)
  show ?case
  proof (cases "ch_try_wait ch k")
    case (Inr polled)
    show ?thesis
    proof (cases polled)
      case None
      with step(2,3) Inr have run: "ch_elapsed ch k < nanos timeout" and rec: "self ch label timeout (k + 1) = Some r"
        by (auto simp: after_stop_def split: if_splits option.splits)
      from step(1)[OF rec step(3)] have ih: "k + 1 \<le> n" "ch_try_wait ch n = Ok (Some status)"
        "\<forall>m. k + 1 \<le> m \<and> m < n \<longrightarrow> ch_try_wait ch m = Ok None \<and> ch_elapsed ch m < nanos timeout" by auto
      have "ch_try_wait ch m = Ok None \<and> ch_elapsed ch m < nanos timeout" if "k \<le> m" "m < n" for m
        using that ih(3) run Inr None by (cases "m = k") auto
      with ih(1,2) show ?thesis by auto
    next
      case (Some s)
      with step(2,3) Inr show ?thesis by auto
    qed
  qed (use step(2,3) in \<open>auto simp: after_stop_def split: option.splits\<close>)
qed

lemma run_command_success:
  assumes "run_command spawn command label timeout = Some (Ok out)" "co_success out"
  shows "command_succeeded spawn command timeout"
proof -
  from assms obtain ch n where "spawn command = Ok ch" and w: "wait_for_status ch label timeout 0 = Some (Ok (True, n))"
    by (auto simp: run_command_def run_then_Ok_iff and_then_Ok_iff after_stop_def split: sum.splits option.splits if_splits)
  with wait_for_status_Ok [OF w refl] show ?thesis unfolding command_succeeded_def by blast
qed

lemma require_success_Ok_iff: "require_success lossy label out = Ok () \<longleftrightarrow> co_success out"
  by (simp add: require_success_def Let_def)

lemma openssl_succeeds_success:
  "openssl_succeeds env files command label timeout = Some (Ok ()) \<Longrightarrow> command_succeeded (te_spawn env files) command timeout"
  by (auto simp: openssl_succeeds_def run_then_Ok_iff require_success_Ok_iff intro: run_command_success)

lemma ts_verify_success:
  assumes "fraction_ok t" "verify_timestamp_with_openssl env files response_path digest t archive policy = Some (Ok ())"
  shows "\<forall>s\<in>{\<lfloor>gen_instant t\<rfloor>, \<lceil>gen_instant t\<rceil>}. \<exists>at_time. int (unat at_time) = s
    \<and> command_succeeded (te_spawn env files) (ts_verify_command policy response_path digest archive at_time) (tp_command_timeout policy)"
proof -
  let ?ok = "\<lambda>at_time. command_succeeded (te_spawn env files) (ts_verify_command policy response_path digest archive at_time) (tp_command_timeout policy)"
  from assms(2) obtain lo hi where b: "openssl_attime_bounds t = Ok (lo, hi)" and ok: "?ok lo" "?ok hi"
    by (auto simp: verify_timestamp_with_openssl_def run_then_Ok_iff Let_def dest!: openssl_succeeds_success split: if_splits)
  from attime_bounds_enclose [OF assms(1) b] ok show ?thesis by (metis insertE singletonD)
qed

section \<open>Staging\<close>

lemma write_private_file_Ok: "write_private_file env path content files = Ok files' \<Longrightarrow> files' = files @ [(path, content)]"
  by (auto simp: write_private_file_def and_then_Ok_iff)

definition staged :: "tsp_env \<Rightarrow> tsp_policy \<Rightarrow> bytes \<Rightarrow> bytes \<Rightarrow> string \<Rightarrow> string \<Rightarrow> validation_archive \<Rightarrow> written_files \<Rightarrow> bool" where
  "staged env policy response_der signer_der response_path signer_path archive files \<longleftrightarrow>
     (response_path, response_der) \<in> set files
     \<and> (signer_path, str_bytes (pem_encode (te_base64 env) ''CERTIFICATE'' signer_der)) \<in> set files
     \<and> (ha_trust_anchors_file archive, hm_trust_anchors_pem (tp_archive policy)) \<in> set files
     \<and> (ha_crls_file archive, hm_crls_pem (tp_archive policy)) \<in> set files
     \<and> rel_option (\<lambda>path pem. (path, pem) \<in> set files) (ha_intermediates_file archive) (hm_intermediates_pem (tp_archive policy))"

lemma stage_response_staged:
  "stage_response env response_der candidate policy = Ok (response_path, signer_path, archive, files) \<Longrightarrow>
     staged env policy response_der (ca_signer_certificate_der candidate) response_path signer_path archive files"
  by (auto simp: stage_response_def materialize_archive_def staged_def and_then_Ok_iff Let_def
      dest!: write_private_file_Ok split: option.splits)

section \<open>Durations\<close>

lemma instant_nanos: "instant d = real (nanos d) / 1000000000"
  by (simp add: instant_def nanos_def field_simps)

lemma duration_checked_add_Some:
  assumes "duration_checked_add a b = Some d"
  shows "duration_valid d" "instant d = instant a + instant b"
proof -
  let ?t = "nanos a + nanos b"
  from assms have d: "d = (word_of_nat (?t div 1000000000), word_of_nat (?t mod 1000000000))" and s: "?t div 1000000000 < 2 ^ 64"
    by (auto simp: duration_checked_add_def Let_def split: if_splits)
  have u: "unat (fst d) = ?t div 1000000000" "unat (snd d) = ?t mod 1000000000"
    using s by (simp_all add: d unat_of_nat take_bit_nat_eq_self)
  from u(2) show "duration_valid d" by (simp add: duration_valid_def)
  have "nanos d = ?t" unfolding nanos_def u by (rule div_mult_mod_eq)
  then show "instant d = instant a + instant b" by (simp add: instant_nanos add_divide_distrib)
qed

section \<open>Verified timestamps\<close>

definition crl_times_whole :: "der_codec \<Rightarrow> bool" where
  "crl_times_whole c \<longleftrightarrow> (\<forall>content crl. dc_crl_from_der c content = Ok crl \<longrightarrow> whole_seconds crl)"

lemma collect_results_all: "collect_results f xs = Ok ys \<Longrightarrow> (\<And>x y. f x = Ok y \<Longrightarrow> P y) \<Longrightarrow> list_all P ys"
  by (induction xs arbitrary: ys) (auto simp: and_then_Ok_iff)

lemma malformed_Ok_iff [simp]: "malformed r = Ok x \<longleftrightarrow> r = Ok x"
  by (simp add: malformed_def)

lemma loaded_crls_whole: "crl_times_whole (te_codec env) \<Longrightarrow> load_crls_from_pem env pem description = Ok crls \<Longrightarrow> list_all whole_seconds crls"
  by (auto simp: load_crls_from_pem_def and_then_Ok_iff crl_times_whole_def split: if_splits intro: collect_results_all)

lemma extract_candidate_time: "extract_candidate_fields H c response_der = Ok candidate \<Longrightarrow> fraction_ok (ca_claimed_generation_time candidate)"
  by (auto simp: extract_candidate_fields_def and_then_Ok_iff split: if_splits dest: from_generalized_time_fraction)

lemma extract_candidate_hash: "extract_candidate_fields H c response_der = Ok candidate \<Longrightarrow>
    ca_signer_certificate_sha256 candidate = H (ca_signer_certificate_der candidate)"
  by (auto simp: extract_candidate_fields_def and_then_Ok_iff split: if_splits)

lemma verify_status_and_profile_Ok_iff:
  "verify_status_and_profile candidate digest policy = Ok () \<longleftrightarrow> ca_status candidate = 0
     \<and> ca_policy_oid candidate = tp_expected_policy_oid policy
     \<and> ca_message_imprint candidate = \<lparr>mi_hash_algorithm = ID_SHA256, mi_hashed_message = digest\<rparr>
     \<and> ca_signer_certificate_sha256 candidate = tp_expected_signer_certificate_sha256 policy"
  by (cases "ca_message_imprint candidate") (auto simp: verify_status_and_profile_def)

lemma inspect_verified_response_Ok:
  "inspect_verified_response H c response_der digest policy = Ok v \<Longrightarrow> \<exists>candidate sd signer_info.
     extract_candidate_fields H c response_der = Ok candidate \<and> verify_status_and_profile candidate digest policy = Ok ()
     \<and> check_signing_certificate c (ca_signer_certificate_sha256 candidate) signer_info = Ok ()
     \<and> v = \<lparr>vt_message_imprint = digest, vt_policy_oid = ca_policy_oid candidate,
       vt_serial_number = ca_serial_number candidate, vt_generation_time = ca_claimed_generation_time candidate,
       vt_accuracy = ca_accuracy candidate, vt_signer_certificate_sha256 = ca_signer_certificate_sha256 candidate,
       vt_nonce = ca_nonce candidate\<rparr>"
  by (auto simp: inspect_verified_response_def and_then_Ok_iff)

text \<open>The archive of the policy holds a path for a signer certificate with the pinned hash.\<close>

definition archived_path :: "(bytes \<Rightarrow> bytes) \<Rightarrow> tsp_env \<Rightarrow> tsp_policy \<Rightarrow> bytes \<Rightarrow> generation_time \<Rightarrow> bool" where
  "archived_path H env policy signer_der t \<longleftrightarrow> (\<exists>signer anchors intermediates crls path.
     H signer_der = tp_expected_signer_certificate_sha256 policy \<and> dc_cert_from_der (te_codec env) signer_der = Ok signer
     \<and> load_certificates_from_pem env (hm_trust_anchors_pem (tp_archive policy)) ''configured trust anchors'' = Ok anchors
     \<and> (case hm_intermediates_pem (tp_archive policy) of None \<Rightarrow> Ok []
        | Some pem \<Rightarrow> load_certificates_from_pem env pem ''configured intermediates'') = Ok intermediates
     \<and> load_crls_from_pem env (hm_crls_pem (tp_archive policy)) ''configured CRLs'' = Ok crls
     \<and> certification_path (te_codec env) anchors intermediates crls t (signer # path)
     \<and> length (signer # path) \<le> MAX_CERTIFICATES)"

lemma validate_historical_archive_Ok:
  assumes "crl_times_whole (te_codec env)" "fraction_ok (ca_claimed_generation_time candidate)"
    and "H (ca_signer_certificate_der candidate) = tp_expected_signer_certificate_sha256 policy"
    and "validate_historical_archive env files candidate signer_path archive policy = Some (Ok ())"
  shows "archived_path H env policy (ca_signer_certificate_der candidate) (ca_claimed_generation_time candidate)
    \<and> command_succeeded (te_spawn env files)
      (path_verify_command policy signer_path archive (unix_seconds (ca_claimed_generation_time candidate))) (tp_command_timeout policy)"
proof -
  from assms(4) obtain anchors intermediates crls out where a:
      "load_certificates_from_pem env (hm_trust_anchors_pem (tp_archive policy)) ''configured trust anchors'' = Ok anchors"
      "(case hm_intermediates_pem (tp_archive policy) of None \<Rightarrow> Ok []
        | Some pem \<Rightarrow> load_certificates_from_pem env pem ''configured intermediates'') = Ok intermediates"
      "load_crls_from_pem env (hm_crls_pem (tp_archive policy)) ''configured CRLs'' = Ok crls"
      "validate_archive_applicability (te_codec env) (ca_signer_certificate_der candidate) anchors intermediates crls
        (ca_claimed_generation_time candidate) = Ok ()"
      "run_command (te_spawn env files) (path_verify_command policy signer_path archive (unix_seconds (ca_claimed_generation_time candidate)))
        ''OpenSSL historical certificate-path verification'' (tp_command_timeout policy) = Some (Ok out)" "co_success out"
    by (auto simp: validate_historical_archive_def run_then_Ok_iff require_success_Ok_iff Let_def)
  from a(4) obtain signer where s: "dc_cert_from_der (te_codec env) (ca_signer_certificate_der candidate) = Ok signer"
    "archive_path_loop (te_codec env) anchors intermediates crls (ca_claimed_generation_time candidate) MAX_CERTIFICATES signer = Ok ()"
    by (auto simp: validate_archive_applicability_def and_then_Ok_iff)
  from archive_path_loop_path [OF assms(2) loaded_crls_whole [OF assms(1) a(3)] s(2)] a s(1) assms(3)
  have "archived_path H env policy (ca_signer_certificate_der candidate) (ca_claimed_generation_time candidate)"
    unfolding archived_path_def by blast
  with run_command_success [OF a(5,6)] show ?thesis by blast
qed

lemma verify_response_sound:
  assumes "crl_times_whole (te_codec env)"
    and "verify_response H env since_epoch response_der digest policy = Some (Ok v)"
  shows "vt_message_imprint v = digest \<and> vt_policy_oid v = tp_expected_policy_oid policy
    \<and> vt_signer_certificate_sha256 v = tp_expected_signer_certificate_sha256 policy
    \<and> (\<exists>clock. since_epoch = Some clock
        \<and> gen_instant (vt_generation_time v) \<le> instant clock + instant (tp_max_future_skew policy))
    \<and> (\<exists>signer_der response_path signer_path archive files.
        staged env policy response_der signer_der response_path signer_path archive files
        \<and> archived_path H env policy signer_der (vt_generation_time v)
        \<and> (\<forall>s\<in>{\<lfloor>gen_instant (vt_generation_time v)\<rfloor>, \<lceil>gen_instant (vt_generation_time v)\<rceil>}. \<exists>at_time. int (unat at_time) = s
            \<and> command_succeeded (te_spawn env files) (ts_verify_command policy response_path digest archive at_time)
                (tp_command_timeout policy))
        \<and> command_succeeded (te_spawn env files)
            (path_verify_command policy signer_path archive (unix_seconds (vt_generation_time v))) (tp_command_timeout policy))"
proof -
  from assms(2) obtain candidate clock latest response_path signer_path archive files where
    c: "extract_candidate_fields H (te_codec env) response_der = Ok candidate" and clock: "since_epoch = Some clock"
    and latest: "duration_checked_add clock (tp_max_future_skew policy) = Some latest"
      "\<not> exceeds_unix_duration (ca_claimed_generation_time candidate) latest"
    and profile: "verify_status_and_profile candidate digest policy = Ok ()"
    and stage: "stage_response env response_der candidate policy = Ok (response_path, signer_path, archive, files)"
    and ts: "verify_timestamp_with_openssl env files response_path digest (ca_claimed_generation_time candidate) archive policy = Some (Ok ())"
    and hist: "validate_historical_archive env files candidate signer_path archive policy = Some (Ok ())"
    and v: "inspect_verified_response H (te_codec env) response_der digest policy = Ok v"
    by (auto simp: verify_response_def verify_response_with_clock_def run_then_Ok_iff ok_or_Ok_iff split: if_splits)
  note time = extract_candidate_time [OF c]
  from inspect_verified_response_Ok [OF v] c have fields: "vt_message_imprint v = digest" "vt_policy_oid v = ca_policy_oid candidate"
    "vt_signer_certificate_sha256 v = ca_signer_certificate_sha256 candidate" "vt_generation_time v = ca_claimed_generation_time candidate"
    by auto
  have "gen_instant (ca_claimed_generation_time candidate) \<le> instant clock + instant (tp_max_future_skew policy)"
    using latest(2) duration_checked_add_Some [OF latest(1)] exceeds_unix_duration_iff [OF time] by (simp add: not_less)
  moreover have pin: "H (ca_signer_certificate_der candidate) = tp_expected_signer_certificate_sha256 policy"
    using profile extract_candidate_hash [OF c] by (simp add: verify_status_and_profile_Ok_iff)
  moreover note stage_response_staged [OF stage] ts_verify_success [OF time ts]
    validate_historical_archive_Ok [where H = H, OF assms(1) time pin hist]
  moreover have "ca_policy_oid candidate = tp_expected_policy_oid policy"
    "ca_signer_certificate_sha256 candidate = tp_expected_signer_certificate_sha256 policy"
    using profile by (simp_all add: verify_status_and_profile_Ok_iff)
  ultimately show ?thesis unfolding fields clock by blast
qed

text \<open>
  C12: A verified timestamp is about the artifact and from the pinned signer under the accepted policy.  Its signed
  time exceeds the clock by at most the permitted skew, exactly; OpenSSL, run on the response itself with the
  policy's anchors, accepted it at both whole seconds around that time and accepted the signer's path with the
  policy's revocation lists; and the archive holds a certification path of at most eight certificates each of
  whose revocation lists covers the signed time.
\<close>

theorem verified_timestamp_is_sound:
  assumes "crl_times_whole (te_codec env)"
    and "verify_response H env since_epoch response_der digest policy = Some (Ok v)"
  shows "vt_message_imprint v = digest \<and> vt_policy_oid v = tp_expected_policy_oid policy
    \<and> vt_signer_certificate_sha256 v = tp_expected_signer_certificate_sha256 policy
    \<and> (\<exists>clock. since_epoch = Some clock
        \<and> gen_instant (vt_generation_time v) \<le> instant clock + instant (tp_max_future_skew policy))
    \<and> (\<exists>signer_der response_path signer_path archive files.
        staged env policy response_der signer_der response_path signer_path archive files
        \<and> archived_path H env policy signer_der (vt_generation_time v)
        \<and> (\<forall>s\<in>{\<lfloor>gen_instant (vt_generation_time v)\<rfloor>, \<lceil>gen_instant (vt_generation_time v)\<rceil>}. \<exists>at_time. int (unat at_time) = s
            \<and> command_succeeded (te_spawn env files) (ts_verify_command policy response_path digest archive at_time)
                (tp_command_timeout policy))
        \<and> command_succeeded (te_spawn env files)
            (path_verify_command policy signer_path archive (unix_seconds (vt_generation_time v))) (tp_command_timeout policy))"
  by (rule verify_response_sound [OF assms])

section \<open>Verification returns\<close>

lemma openssl_returns:
  assumes "\<And>files command ch. te_spawn env files command = Ok ch \<Longrightarrow> process_ends ch timeout"
  shows "\<exists>r. run_command (te_spawn env files) command label timeout = Some r"
    "\<exists>r. openssl_succeeds env files command label timeout = Some r"
  using run_command_returns [OF assms] by (auto simp: openssl_succeeds_def intro!: run_then_returns)

text \<open>
  Verification of a response returns whatever OpenSSL does, as long as the clock passes the timeout and a kill ends the
  process group.
\<close>

lemma timestamp_verification_returns:
  assumes "\<And>files command ch. te_spawn env files command = Ok ch \<Longrightarrow> process_ends ch (tp_command_timeout policy)"
  shows "\<exists>r. verify_response H env since_epoch response_der digest policy = Some r"
proof -
  note returns = openssl_returns [OF assms]
  have ts: "\<exists>r. verify_timestamp_with_openssl env files response_path digest t archive policy = Some r" for files response_path t archive
    unfolding verify_timestamp_with_openssl_def Let_def
    by (intro run_then_returns) (auto intro!: run_then_returns returns)
  have hist: "\<exists>r. validate_historical_archive env files candidate signer_path archive policy = Some r" for files candidate signer_path archive
    unfolding validate_historical_archive_def Let_def by (intro run_then_returns returns) auto
  show ?thesis
    unfolding verify_response_def verify_response_with_clock_def
    by (intro run_then_returns) (auto intro!: run_then_returns ts hist)
qed

section \<open>A concrete verification\<close>

text \<open>A reader of one-byte elements, enough to decode a response that timestamps a given digest.\<close>

definition tsp_signed_time :: any_ref where
  "tsp_signed_time = \<lparr>ar_tag = GeneralizedTimeTag, ar_value = str_bytes ''19700101000110.0000000001Z''\<rparr>"

definition tsp_example_cert :: "bytes \<Rightarrow> certificate" where
  "tsp_example_cert bs = \<lparr>cf_issuer = [bs ! 0], cf_subject = [bs ! 1], cf_serial_number = [bs ! 2], cf_extensions = None\<rparr>"

definition tsp_example_crl :: certificate_list where
  "tsp_example_crl = \<lparr>cr_issuer = [10], cr_this_update = (60, 0), cr_next_update = Some (80, 0),
     cr_revoked_certificates = Some [\<lparr>rv_serial_number = [1], rv_revocation_date = (75, 0)\<rparr>], cr_extensions = None\<rparr>"

definition tsp_example_signed_data :: signed_data where
  "tsp_example_signed_data = \<lparr>sd_econtent_type = ID_CT_TST_INFO, sd_econtent = Some \<lparr>ar_tag = OtherTag 4, ar_value = []\<rparr>,
     sd_certificates = Some [CertificateChoice (tsp_example_cert [10, 11, 1])],
     sd_signer_infos = [\<lparr>si_sid = IssuerAndSerialNumber [10] [1],
       si_signed_attrs = Some [\<lparr>at_oid = ID_AA_SIGNING_CERTIFICATE_V2, at_values = [\<lparr>ar_tag = SequenceTag, ar_value = []\<rparr>]\<rparr>]\<rparr>]\<rparr>"

definition tsp_codec_for :: "oid \<Rightarrow> bytes \<Rightarrow> bytes \<Rightarrow> der_codec" where
  "tsp_codec_for policy_oid digest pin = \<lparr>
     dc_any_from_der = (\<lambda>bs. Ok \<lparr>ar_tag = SequenceTag, ar_value = bs\<rparr>), dc_open_sequence = (\<lambda>v. Ok (ar_value v)),
     dc_finish = (\<lambda>r. if r = [] then Ok () else Err []), dc_peek = (\<lambda>r. Ok (OtherTag 9)),
     dc_any = (\<lambda>r. Ok (if hd r = 6 then tsp_signed_time else \<lparr>ar_tag = SequenceTag, ar_value = [0]\<rparr>, tl r)),
     dc_u8 = (\<lambda>r. Ok (hd r, tl r)), dc_bool = (\<lambda>r. Ok (True, tl r)), dc_oid = (\<lambda>r. Ok (policy_oid, tl r)),
     dc_uint = (\<lambda>r. Ok ([7], tl r)),
     dc_imprint = (\<lambda>r. Ok (\<lparr>mi_hash_algorithm = ID_SHA256, mi_hashed_message = digest\<rparr>, tl r)),
     dc_accuracy = (\<lambda>r. Err []), dc_content_info = (\<lambda>r. Ok (\<lparr>ci_content_type = ID_SIGNED_DATA,
       ci_content = \<lparr>ar_tag = SequenceTag, ar_value = []\<rparr>\<rparr>, tl r)),
     dc_extensions_0 = (\<lambda>r. Ok (None, r)), dc_value_error = (\<lambda>_. []),
     dc_signed_data = (\<lambda>_. Ok tsp_example_signed_data), dc_octet_string = (\<lambda>_. Ok [1, 3, 4, 5, 6]),
     dc_signing_certificate_v2 = (\<lambda>_. Ok [\<lparr>ec_hash_algorithm = None, ec_cert_hash = pin\<rparr>]),
     dc_cert_from_der = (\<lambda>bs. Ok (tsp_example_cert bs)),
     dc_cert_to_der = (\<lambda>cert. Ok (cf_issuer cert @ cf_subject cert @ cf_serial_number cert)),
     dc_crl_from_der = (\<lambda>_. Ok tsp_example_crl), dc_indirect_crl = (\<lambda>_. Ok False), dc_subject_key_identifier = (\<lambda>_. None),
     dc_date_time_new = (\<lambda>y mo d h mi s. Ok \<lparr>dt_year = y, dt_month = mo, dt_day = d, dt_hour = h, dt_minutes = mi, dt_seconds = s, dt_unix = 70\<rparr>),
     dc_parse_oid = (\<lambda>s. Ok s)\<rparr>"

definition tsp_example_process :: verifier_process where
  "tsp_example_process = \<lparr>ch_try_wait = (\<lambda>_. Ok (Some True)), ch_elapsed = (\<lambda>n. n),
     ch_kill_ends = (\<lambda>_. True), ch_ends_alone = (\<lambda>_. True), vp_stdout = Some [], vp_stderr = Some [],
     vp_reader_starts = (\<lambda>_. True), vp_readers_finished = (\<lambda>_. True), vp_pipes_close = (\<lambda>_. True)\<rparr>"

definition tsp_anchors_pem :: bytes where
  "tsp_anchors_pem = str_bytes (pem_encode hex_engine ''CERTIFICATE'' [10, 10, 0])"

definition tsp_crls_pem :: bytes where
  "tsp_crls_pem = str_bytes (pem_encode hex_engine ''X509 CRL'' [5])"

definition tsp_env_for :: "der_codec \<Rightarrow> tsp_env" where
  "tsp_env_for c = \<lparr>te_codec = c, te_base64 = hex_engine, te_lossy = (\<lambda>_. []), te_io_text = (\<lambda>_. []),
     te_instant_add = (\<lambda>_. True), te_read_file = (\<lambda>path. if path = ''ca'' then Ok tsp_anchors_pem
       else if path = ''crl'' then Ok tsp_crls_pem else Err NotFound), te_system_nanos = Some 7, te_temp_dir = ''/tmp'',
     te_process_id = 3, te_create_dir = (\<lambda>_. Ok ()), te_create_new = (\<lambda>_ _ _. Ok ()),
     te_spawn = (\<lambda>_ _. Ok tsp_example_process)\<rparr>"

definition tsp_example_time :: generation_time where
  "tsp_example_time = \<lparr>gt_date_time = \<lparr>dt_year = 1970, dt_month = 1, dt_day = 1, dt_hour = 0, dt_minutes = 1, dt_seconds = 10,
     dt_unix = 70\<rparr>, gt_fractional_seconds = Some ''0000000001''\<rparr>"

definition tsp_candidate_for :: "oid \<Rightarrow> bytes \<Rightarrow> bytes \<Rightarrow> candidate_fields" where
  "tsp_candidate_for policy_oid digest pin = \<lparr>ca_status = 0, ca_policy_oid = policy_oid,
     ca_message_imprint = \<lparr>mi_hash_algorithm = ID_SHA256, mi_hashed_message = digest\<rparr>, ca_serial_number = [7],
     ca_claimed_generation_time = tsp_example_time, ca_accuracy = None, ca_nonce = None,
     ca_signer_certificate_der = [10, 11, 1], ca_signer_certificate_sha256 = pin\<rparr>"

definition tsp_verified_for :: "oid \<Rightarrow> bytes \<Rightarrow> bytes \<Rightarrow> verified_timestamp" where
  "tsp_verified_for policy_oid digest pin = \<lparr>vt_message_imprint = digest, vt_policy_oid = policy_oid, vt_serial_number = [7],
     vt_generation_time = tsp_example_time, vt_accuracy = None, vt_signer_certificate_sha256 = pin, vt_nonce = None\<rparr>"

definition tsp_policy_for :: "oid \<Rightarrow> bytes \<Rightarrow> duration \<Rightarrow> tsp_policy" where
  "tsp_policy_for policy_oid pin skew = \<lparr>tp_archive = \<lparr>hm_trust_anchors_pem = tsp_anchors_pem,
       hm_intermediates_pem = None, hm_crls_pem = tsp_crls_pem\<rparr>,
     tp_expected_policy_oid = policy_oid, tp_expected_signer_certificate_sha256 = pin, tp_openssl_binary = ''openssl'',
     tp_max_response_bytes = DEFAULT_MAX_RESPONSE_BYTES, tp_command_timeout = DEFAULT_COMMAND_TIMEOUT, tp_max_future_skew = skew\<rparr>"

lemma tsp_time_parses: "from_generalized_time_der (dc_date_time_new (tsp_codec_for oid digest pin)) tsp_signed_time = Ok tsp_example_time"
proof -
  have "from_generalized_time_der (\<lambda>y mo d h mi s. Ok \<lparr>dt_year = y, dt_month = mo, dt_day = d, dt_hour = h, dt_minutes = mi,
      dt_seconds = s, dt_unix = 70\<rparr>) tsp_signed_time = Ok tsp_example_time" by code_simp
  then show ?thesis by (simp add: tsp_codec_for_def)
qed

lemma tsp_codec_simps:
  "dc_any_from_der (tsp_codec_for oid digest pin) bs = Ok \<lparr>ar_tag = SequenceTag, ar_value = bs\<rparr>"
  "read_response (tsp_codec_for oid digest pin) \<lparr>ar_tag = SequenceTag, ar_value = [1]\<rparr> = Ok (0,
     \<lparr>ci_content_type = ID_SIGNED_DATA, ci_content = \<lparr>ar_tag = SequenceTag, ar_value = []\<rparr>\<rparr>)"
  "read_content_info (tsp_codec_for oid digest pin) \<lparr>ar_tag = SequenceTag, ar_value = [1]\<rparr> = Ok
     \<lparr>ci_content_type = ID_SIGNED_DATA, ci_content = \<lparr>ar_tag = SequenceTag, ar_value = []\<rparr>\<rparr>"
  "read_tst_info (tsp_codec_for oid digest pin) \<lparr>ar_tag = SequenceTag, ar_value = [1, 3, 4, 5, 6]\<rparr> = Ok
     \<lparr>ti_policy_oid = oid, ti_message_imprint = \<lparr>mi_hash_algorithm = ID_SHA256, mi_hashed_message = digest\<rparr>, ti_serial_number = [7],
      ti_generation_time = tsp_signed_time, ti_accuracy = None, ti_nonce = None\<rparr>"
  by (simp_all add: tsp_codec_for_def read_response_def read_content_info_def read_tst_info_def in_sequence_def read_status_def
      optional_field_def skip_elements.simps trailing_elements.simps)

lemma tsp_signer_selected: "select_signer_certificate c tsp_example_signed_data = Ok (tsp_example_cert [10, 11, 1])"
  by (simp add: select_signer_certificate_def tsp_example_signed_data_def MAX_CERTIFICATES_def matching_certificates_def
      List.map_filter_simps signer_matches_certificate_def tsp_example_cert_def)

lemma tsp_extract:
  assumes "H [10, 11, 1] = pin"
  shows "extract_candidate_fields H (tsp_codec_for oid digest pin) [1] = Ok (tsp_candidate_for oid digest pin)"
proof -
  have "sd_econtent_type tsp_example_signed_data = ID_CT_TST_INFO" "sd_econtent tsp_example_signed_data = Some \<lparr>ar_tag = OtherTag 4, ar_value = []\<rparr>"
    by (simp_all add: tsp_example_signed_data_def)
  moreover have "dc_signed_data (tsp_codec_for oid digest pin) v = Ok tsp_example_signed_data"
    "dc_cert_to_der (tsp_codec_for oid digest pin) (tsp_example_cert [10, 11, 1]) = Ok [10, 11, 1]"
    "dc_octet_string (tsp_codec_for oid digest pin) v = Ok [1, 3, 4, 5, 6]" for v
    by (simp_all add: tsp_codec_for_def tsp_example_cert_def)
  ultimately show ?thesis
    using assms by (simp add: extract_candidate_fields_def tsp_codec_simps malformed_def tsp_signer_selected tsp_time_parses
        timestamp_serial_new_def MAX_SERIAL_BYTES_def tsp_candidate_for_def)
qed

lemma tsp_profile: "verify_status_and_profile (tsp_candidate_for oid digest pin) digest (tsp_policy_for oid pin skew) = Ok ()"
  by (simp add: verify_status_and_profile_def tsp_candidate_for_def tsp_policy_for_def)

lemma tsp_inspect:
  assumes "H [10, 11, 1] = pin"
  shows "inspect_verified_response H (tsp_codec_for oid digest pin) [1] digest (tsp_policy_for oid pin skew) = Ok (tsp_verified_for oid digest pin)"
proof -
  have "dc_signed_data (tsp_codec_for oid digest pin) v = Ok tsp_example_signed_data" for v by (simp add: tsp_codec_for_def)
  then show ?thesis
    by (simp add: inspect_verified_response_def tsp_extract [where H = H, OF assms] tsp_profile tsp_codec_simps malformed_def)
      (simp add: tsp_example_signed_data_def check_signing_certificate_def tsp_codec_for_def malformed_def MAX_SIGNED_ATTRIBUTES_def MAX_CERTIFICATES_def
        ID_AA_SIGNING_CERTIFICATE_V2_def ID_AA_SIGNING_CERTIFICATE_def tsp_candidate_for_def tsp_verified_for_def)
qed

lemma tsp_time_checks: "\<not> exceeds_unix_duration tsp_example_time (71, 0)" "openssl_attime_bounds tsp_example_time = Ok (70, 71)"
  by code_simp+

lemma tsp_archive_loads:
  "load_certificates_from_pem (tsp_env_for (tsp_codec_for oid digest pin)) tsp_anchors_pem description = Ok [tsp_example_cert [10, 10, 0]]"
  "load_crls_from_pem (tsp_env_for (tsp_codec_for oid digest pin)) tsp_crls_pem description = Ok [tsp_example_crl]"
  by (simp_all add: load_certificates_from_pem_def load_crls_from_pem_def tsp_env_for_def tsp_anchors_pem_def tsp_crls_pem_def
      decode_pem_encoded hex_engine_ok pem_label_def MAX_CERTIFICATES_def MAX_ARCHIVE_CRLS_def malformed_def tsp_codec_for_def)

lemma tsp_crl_valid: "validate_crl_for_certificate c tsp_example_crl (tsp_example_cert [10, 11, 1]) tsp_example_time = Ok ()"
  by (simp add: validate_crl_for_certificate_def crl_kind_ok_def tsp_example_crl_def tsp_example_time_def unix_seconds_def
      duration_less_def revoked_entry_def tsp_example_cert_def Let_def)

lemma tsp_applicable:
  "validate_archive_applicability (tsp_codec_for oid digest pin) [10, 11, 1] [tsp_example_cert [10, 10, 0]] [] [tsp_example_crl] tsp_example_time = Ok ()"
proof -
  have "dc_cert_from_der (tsp_codec_for oid digest pin) [10, 11, 1] = Ok (tsp_example_cert [10, 11, 1])" by (simp add: tsp_codec_for_def)
  moreover have "cf_issuer (tsp_example_cert [10, 11, 1]) = [10]" "cf_subject (tsp_example_cert [10, 10, 0]) = [10]" "cr_issuer tsp_example_crl = [10]"
    by (simp_all add: tsp_example_cert_def tsp_example_crl_def)
  ultimately show ?thesis
    by (simp add: validate_archive_applicability_def malformed_def MAX_CERTIFICATES_def eval_nat_numeral tsp_crl_valid [unfolded One_nat_def])
qed

lemma tsp_command: "run_command (te_spawn (tsp_env_for c) files) command label timeout
    = Some (Ok \<lparr>co_success = True, co_stdout = [], co_stderr = []\<rparr>)"
  by (simp add: run_command_def tsp_env_for_def tsp_example_process_def wait_for_status.simps wait_for_readers.simps read_pipe_bounded_def)

lemma tsp_stage: "\<exists>rp sp archive files. stage_response (tsp_env_for c) [1] candidate policy = Ok (rp, sp, archive, files)"
  by (simp add: stage_response_def create_temporary_directory_def tsp_env_for_def materialize_archive_def write_private_file_def
      upt_rec Let_def split: option.splits)

lemma tsp_verifies:
  assumes "H [10, 11, 1] = pin" "duration_checked_add clock skew = Some (71, 0)"
  shows "verify_response H (tsp_env_for (tsp_codec_for oid digest pin)) (Some clock) [1] digest (tsp_policy_for oid pin skew)
    = Some (Ok (tsp_verified_for oid digest pin))"
proof -
  let ?c = "tsp_codec_for oid digest pin" and ?p = "tsp_policy_for oid pin skew" and ?cand = "tsp_candidate_for oid digest pin"
  obtain rp sp archive files where stage: "stage_response (tsp_env_for ?c) [1] ?cand ?p = Ok (rp, sp, archive, files)"
    using tsp_stage by blast
  have codec: "te_codec (tsp_env_for ?c) = ?c" by (simp add: tsp_env_for_def)
  have valid: "tsp_policy_validate (tsp_env_for ?c) ?p = Ok ()"
    by (simp add: tsp_policy_validate_def tsp_policy_for_def tsp_env_for_def DEFAULT_MAX_RESPONSE_BYTES_def DEFAULT_COMMAND_TIMEOUT_def)
  have fields: "ca_claimed_generation_time ?cand = tsp_example_time" "ca_signer_certificate_der ?cand = [10, 11, 1]"
    "tp_max_future_skew ?p = skew" "tp_archive ?p = \<lparr>hm_trust_anchors_pem = tsp_anchors_pem, hm_intermediates_pem = None, hm_crls_pem = tsp_crls_pem\<rparr>"
    "1 \<le> tp_max_response_bytes ?p" "vt_signer_certificate_sha256 (tsp_verified_for oid digest pin) = ca_signer_certificate_sha256 ?cand"
    "vt_generation_time (tsp_verified_for oid digest pin) = tsp_example_time" "vt_serial_number (tsp_verified_for oid digest pin) = ca_serial_number ?cand"
    by (simp_all add: tsp_policy_for_def tsp_candidate_for_def tsp_verified_for_def DEFAULT_MAX_RESPONSE_BYTES_def)
  have ts: "verify_timestamp_with_openssl (tsp_env_for ?c) files rp digest tsp_example_time archive ?p = Some (Ok ())"
    by (simp add: verify_timestamp_with_openssl_def tsp_time_checks openssl_succeeds_def tsp_command require_success_def Let_def)
  have hist: "validate_historical_archive (tsp_env_for ?c) files ?cand sp archive ?p = Some (Ok ())"
    by (simp add: validate_historical_archive_def fields codec tsp_archive_loads tsp_applicable tsp_command require_success_def Let_def)
  show ?thesis
    using fields(5) by (simp add: verify_response_def verify_response_with_clock_def codec valid tsp_extract [where H = H, OF assms(1)]
        tsp_inspect [where H = H and skew = skew, OF assms(1)] tsp_profile tsp_time_checks assms(2) stage ts hist fields)
qed

lemma tsp_crl_times: "crl_times_whole (te_codec (tsp_env_for (tsp_codec_for oid digest pin)))"
  by (simp add: crl_times_whole_def tsp_env_for_def tsp_codec_for_def tsp_example_crl_def whole_seconds_def)

lemma tsp_latest: "duration_checked_add (70, 0) (1, 0) = Some (71, 0)" "duration_checked_add (71, 0) (0, 0) = Some (71, 0)"
  by (simp_all add: duration_checked_add_def nanos_def Let_def)

theorem verified_timestamp_is_sound_witness:
  "gen_instant tsp_example_time \<le> instant (70, 0) + instant (1, 0)
     \<and> (\<exists>signer_der. archived_path (\<lambda>_. [3]) (tsp_env_for (tsp_codec_for ''1.2'' [9] [3])) (tsp_policy_for ''1.2'' [3] (1, 0)) signer_der tsp_example_time)"
  using verified_timestamp_is_sound [OF tsp_crl_times tsp_verifies [where H = "\<lambda>_. [3]", OF refl tsp_latest(1)]]
  by (auto simp: tsp_verified_for_def tsp_policy_for_def)

theorem crl_check_is_exact_witness:
  "revoked_entry tsp_example_crl (tsp_example_cert [10, 11, 1]) = Some \<lparr>rv_serial_number = [1], rv_revocation_date = (75, 0)\<rparr>
     \<and> gen_instant tsp_example_time < instant (75, 0)"
proof -
  have whole: "whole_seconds tsp_example_crl" by (simp add: tsp_example_crl_def whole_seconds_def)
  have "revoked_entry tsp_example_crl (tsp_example_cert [10, 11, 1]) = Some \<lparr>rv_serial_number = [1], rv_revocation_date = (75, 0)\<rparr>"
    by code_simp
  with crl_check_is_exact [OF tsp_time_parses whole, where certificate = "tsp_example_cert [10, 11, 1]"] tsp_crl_valid show ?thesis by simp
qed

end
