(* ===== verification/Evidence_Timestamp.thy ===== *)
theory Evidence_Timestamp
  imports Evidence_Properties Rfc3161_Properties
begin

text \<open>
  The evidence verifier with the RFC 3161 verifier behind it (\<open>apps/trackone-evidence/src/vtl/timestamp.rs\<close>): the
  policy it builds, and what a bundle that verifies then says about its timestamp.
\<close>

definition timestamp_policy :: "tsp_env \<Rightarrow> verify_policy \<Rightarrow> string \<Rightarrow> string \<Rightarrow> string \<Rightarrow> bytes \<Rightarrow> tsp_policy vt_result" where
  "timestamp_policy tsp policy ca_file crls_file policy_oid signer_hash =
     and_then (tsp_policy_new tsp \<lparr>ha_trust_anchors_file = ca_file, ha_intermediates_file = vp_tsa_intermediates_file policy,
         ha_crls_file = crls_file\<rparr> policy_oid signer_hash) (\<lambda>p.
     Ok (with_max_future_skew (with_openssl_binary p (vp_openssl_binary policy)) (vp_max_future_skew policy)))"

text \<open>The policy holds the signer hash as its display; the configured one was read by \<open>from_str\<close>.\<close>

definition rfc3161_verify ::
  "(bytes \<Rightarrow> bytes) \<Rightarrow> tsp_env \<Rightarrow> duration option \<Rightarrow> bytes \<Rightarrow> bytes \<Rightarrow> verify_policy \<Rightarrow> verified_timestamp vt_result option" where
  "rfc3161_verify H tsp since_epoch response artifact_digest policy =
     (case (vp_tsa_ca_file policy, vp_tsa_crls_file policy, vp_tsa_policy_oid policy, vp_tsa_signer_cert_sha256 policy) of
        (Some ca_file, Some crls_file, Some policy_oid, Some signer) \<Rightarrow>
          run_then (Some (signer_sha256_from_str signer)) (\<lambda>signer_hash.
          run_then (Some (timestamp_policy tsp policy ca_file crls_file policy_oid signer_hash)) (\<lambda>verification_policy.
          verify_response H tsp since_epoch response artifact_digest verification_policy))
      | _ \<Rightarrow> Some (Err (VtConfiguration (case missing_timestamp_policy policy of None \<Rightarrow> [] | Some reason \<Rightarrow> reason))))"

text \<open>The verifier's environment accepts a response only when the RFC 3161 verifier does, with its nonce.\<close>

definition rfc3161_backed :: "(bytes \<Rightarrow> bytes) \<Rightarrow> evidence_env \<Rightarrow> tsp_env \<Rightarrow> duration option \<Rightarrow> verify_policy \<Rightarrow> bool" where
  "rfc3161_backed H env tsp since_epoch policy \<longleftrightarrow> (\<forall>response digest nonce. ee_verify_response env response digest policy = Ok nonce \<longrightarrow>
     (\<exists>v. rfc3161_verify H tsp since_epoch response digest policy = Some (Ok v) \<and> vt_nonce v = nonce))"

lemma timestamp_policy_fields:
  "timestamp_policy tsp policy ca_file crls_file policy_oid signer_hash = Ok p \<Longrightarrow>
     tp_expected_signer_certificate_sha256 p = signer_hash \<and> dc_parse_oid (te_codec tsp) policy_oid = Ok (tp_expected_policy_oid p)
     \<and> tp_max_future_skew p = vp_max_future_skew policy"
  by (auto simp: timestamp_policy_def tsp_policy_new_def with_max_future_skew_def with_openssl_binary_def and_then_Ok_iff)

lemma rfc3161_verify_Ok:
  assumes "crl_times_whole (te_codec tsp)" "rfc3161_verify H tsp since_epoch response digest policy = Some (Ok v)"
  shows "\<exists>p signer. vp_tsa_signer_cert_sha256 policy = Some signer \<and> signer_sha256_from_str signer = Ok (vt_signer_certificate_sha256 v)
    \<and> vt_message_imprint v = digest
    \<and> (\<exists>clock. since_epoch = Some clock \<and> gen_instant (vt_generation_time v) \<le> instant clock + instant (vp_max_future_skew policy))
    \<and> (\<exists>signer_der. archived_path H tsp p signer_der (vt_generation_time v) \<and> H signer_der = vt_signer_certificate_sha256 v)"
proof -
  from assms(2) obtain ca crls oid signer pin p where s: "vp_tsa_signer_cert_sha256 policy = Some signer" "signer_sha256_from_str signer = Ok pin"
    "timestamp_policy tsp policy ca crls oid pin = Ok p" and v: "verify_response H tsp since_epoch response digest p = Some (Ok v)"
    by (auto simp: rfc3161_verify_def run_then_Ok_iff split: option.splits)
  from verify_response_sound [OF assms(1) v] obtain clock signer_der where w: "vt_message_imprint v = digest"
    "vt_signer_certificate_sha256 v = tp_expected_signer_certificate_sha256 p" "since_epoch = Some clock"
    "gen_instant (vt_generation_time v) \<le> instant clock + instant (tp_max_future_skew p)"
    "archived_path H tsp p signer_der (vt_generation_time v)" by blast
  from w(5) have "H signer_der = tp_expected_signer_certificate_sha256 p" by (auto simp: archived_path_def)
  with w s timestamp_policy_fields [OF s(3)] show ?thesis by auto
qed

text \<open>
  C14: A bundle that verifies with success at the public scope was timestamped.  With the RFC 3161 verifier behind
  it, the bundle holds a response whose signed imprint is the digest of the segment artifact it discloses, signed
  by the certificate the policy pins, at a time not later than the clock plus the policy's skew, with a
  certification path to the configured anchors that the configured revocation lists leave intact.
\<close>

theorem verified_bundle_was_timestamped:
  assumes "crl_times_whole (te_codec tsp)" and "rfc3161_backed H env tsp since_epoch policy"
    and "verify_bundle_with_policy H env policy = Ok result" and "json_member result ''overall'' = JString ''success''"
    and "json_member result ''verification_scope'' = JString ''public_recompute''"
  shows "\<exists>m artifact segment records reference response v. bundle_reads H env policy m artifact \<and> names_segment H m artifact segment
    \<and> discloses H env m segment records
    \<and> at_tsa_tsr (mf_artifacts m) = Some reference \<and> referenced_artifact H env reference = Ok response
    \<and> rfc3161_verify H tsp since_epoch response (H artifact) policy = Some (Ok v) \<and> vt_message_imprint v = H artifact
    \<and> Option.bind (vp_tsa_signer_cert_sha256 policy) (\<lambda>s. case signer_sha256_from_str s of Inr pin \<Rightarrow> Some pin | Inl _ \<Rightarrow> None)
        = Some (vt_signer_certificate_sha256 v)
    \<and> (\<exists>clock. since_epoch = Some clock \<and> gen_instant (vt_generation_time v) \<le> instant clock + instant (vp_max_future_skew policy))
    \<and> (\<exists>p signer_der. archived_path H tsp p signer_der (vt_generation_time v) \<and> H signer_der = vt_signer_certificate_sha256 v)
    \<and> check_timestamp_request H env m (H artifact) (vt_nonce v) = Ok ()"
proof -
  obtain m artifact segment records where b: "bundle_reads H env policy m artifact" "names_segment H m artifact segment"
    "discloses H env m segment records" and t: "timestamp_accepted H env m policy (H artifact)"
    by (rule verify_public_sound [OF assms(3-5)]) blast
  from t obtain reference response nonce where r: "at_tsa_tsr (mf_artifacts m) = Some reference" "referenced_artifact H env reference = Ok response"
    "ee_verify_response env response (H artifact) policy = Ok nonce" "check_timestamp_request H env m (H artifact) nonce = Ok ()"
    by (auto simp: timestamp_accepted_def)
  from r(3) assms(2) obtain v where v: "rfc3161_verify H tsp since_epoch response (H artifact) policy = Some (Ok v)" "vt_nonce v = nonce"
    unfolding rfc3161_backed_def by blast
  from rfc3161_verify_Ok [OF assms(1) v(1)] obtain p signer where s: "vp_tsa_signer_cert_sha256 policy = Some signer"
    "signer_sha256_from_str signer = Ok (vt_signer_certificate_sha256 v)" "vt_message_imprint v = H artifact"
    "\<exists>clock. since_epoch = Some clock \<and> gen_instant (vt_generation_time v) \<le> instant clock + instant (vp_max_future_skew policy)"
    "\<exists>signer_der. archived_path H tsp p signer_der (vt_generation_time v) \<and> H signer_der = vt_signer_certificate_sha256 v" by blast
  have "Option.bind (vp_tsa_signer_cert_sha256 policy) (\<lambda>s. case signer_sha256_from_str s of Inr pin \<Rightarrow> Some pin | Inl _ \<Rightarrow> None)
      = Some (vt_signer_certificate_sha256 v)" using s(1,2) by simp
  with b r v s(3-5) show ?thesis by blast
qed

section \<open>A concrete bundle\<close>

definition disclosed_tsp :: tsp_env where
  "disclosed_tsp = tsp_env_for (tsp_codec_for ''1.2'' (pad_digest disclosed_artifact) (pad_digest [10, 11, 1]))"

lemma disclosed_timestamp_policy:
  "timestamp_policy disclosed_tsp disclosed_policy ''ca'' ''crl'' ''1.2'' (pad_digest [10, 11, 1])
     = Ok (tsp_policy_for ''1.2'' (pad_digest [10, 11, 1]) (0, 0))"
proof -
  let ?env = "tsp_env_for (tsp_codec_for ''1.2'' (pad_digest disclosed_artifact) (pad_digest [10, 11, 1]))"
  have files: "te_read_file ?env ''ca'' = Ok tsp_anchors_pem" "te_read_file ?env ''crl'' = Ok tsp_crls_pem" by (simp_all add: tsp_env_for_def)
  have small: "length tsp_anchors_pem \<le> MAX_ARCHIVE_BYTES" "length tsp_crls_pem \<le> MAX_ARCHIVE_BYTES"
  proof -
    have "length tsp_anchors_pem = 61" "length tsp_crls_pem = 51" by code_simp+
    then show "length tsp_anchors_pem \<le> MAX_ARCHIVE_BYTES" "length tsp_crls_pem \<le> MAX_ARCHIVE_BYTES" by (simp_all add: MAX_ARCHIVE_BYTES_def)
  qed
  have crl: "check_configured_crl ?env path tsp_example_crl = Ok ()" for path by (simp add: check_configured_crl_def tsp_example_crl_def)
  have oid: "dc_parse_oid (te_codec ?env) s = Ok s" for s by (simp add: tsp_env_for_def tsp_codec_for_def)
  show ?thesis
    using small by (simp add: timestamp_policy_def tsp_policy_new_def disclosed_tsp_def load_archive_configuration_def read_archive_file_def files oid crl
        tsp_archive_loads tsp_policy_for_def with_max_future_skew_def with_openssl_binary_def disclosed_policy_def default_verify_policy_def)
qed

lemma disclosed_backed: "rfc3161_backed pad_digest disclosed_env disclosed_tsp (Some (71, 0)) disclosed_policy"
proof -
  have "rfc3161_verify pad_digest disclosed_tsp (Some (71, 0)) [1] (pad_digest disclosed_artifact) disclosed_policy
      = Some (Ok (tsp_verified_for ''1.2'' (pad_digest disclosed_artifact) (pad_digest [10, 11, 1])))"
  proof -
    have fields: "vp_tsa_ca_file disclosed_policy = Some ''ca''" "vp_tsa_crls_file disclosed_policy = Some ''crl''"
      "vp_tsa_policy_oid disclosed_policy = Some ''1.2''"
      "vp_tsa_signer_cert_sha256 disclosed_policy = Some (signer_sha256_display (pad_digest [10, 11, 1]))"
      by (simp_all add: disclosed_policy_def default_verify_policy_def signer_sha256_display_def)
    have "verify_response pad_digest disclosed_tsp (Some (71, 0)) [1] (pad_digest disclosed_artifact) (tsp_policy_for ''1.2'' (pad_digest [10, 11, 1]) (0, 0))
        = Some (Ok (tsp_verified_for ''1.2'' (pad_digest disclosed_artifact) (pad_digest [10, 11, 1])))"
      unfolding disclosed_tsp_def by (rule tsp_verifies [OF refl tsp_latest(2)])
    then show ?thesis
      by (simp add: rfc3161_verify_def fields signer_sha256_round_trip disclosed_timestamp_policy)
  qed
  then show ?thesis by (auto simp: rfc3161_backed_def disclosed_env_def tsp_verified_for_def split: if_splits)
qed

theorem verified_bundle_was_timestamped_witness:
  "\<exists>result m artifact (v :: verified_timestamp). verify_bundle_with_policy pad_digest disclosed_env disclosed_policy = Ok result
     \<and> bundle_reads pad_digest disclosed_env disclosed_policy m artifact \<and> vt_message_imprint v = pad_digest artifact
     \<and> gen_instant (vt_generation_time v) \<le> instant (71, 0) + instant (vp_max_future_skew disclosed_policy)"
proof -
  obtain result where r: "verify_bundle_with_policy pad_digest disclosed_env disclosed_policy = Ok result"
    "json_member result ''overall'' = JString ''success''"
    "json_member result ''verification_scope'' = JString ''public_recompute''"
    by (rule disclosed_verifies)
  have "crl_times_whole (te_codec disclosed_tsp)" unfolding disclosed_tsp_def by (rule tsp_crl_times)
  from verified_bundle_was_timestamped [OF this disclosed_backed r] obtain m artifact and v :: verified_timestamp and clock where
    w: "bundle_reads pad_digest disclosed_env disclosed_policy m artifact" "vt_message_imprint v = pad_digest artifact"
      "Some (71, 0) = Some clock" "gen_instant (vt_generation_time v) \<le> instant clock + instant (vp_max_future_skew disclosed_policy)"
    by blast
  from w(3) have "clock = (71, 0)" by simp
  with w r(1) show ?thesis by blast
qed

end
