(* ===== verification/Core_Types.thy ===== *)
theory Core_Types
  imports Ledger_Hex
begin

unbundle bit_operations_syntax

text \<open>
  The shared types of \<open>crates/trackone-core/src/types.rs\<close>: pod identifiers, sample types, facts and
  their validation.  An \<open>f32\<close> is its bit pattern, an \<open>i64\<close> a 64-bit word read with \<open>sint\<close>, a pod
  identifier eight bytes, a bounded \<open>heapless\<close> vector a byte list.
\<close>

section \<open>Definitions\<close>

type_synonym f32 = u32
type_synonym i64 = u64
type_synonym pod_id = bytes

definition pod_id_from_u32 :: "u32 \<Rightarrow> pod_id" where
  "pod_id_from_u32 v = [0, 0, 0, 0] @ to_be_bytes v"

text \<open>\<open>{:02x}\<close> of each byte.\<close>

definition pod_id_fmt_hex :: "pod_id \<Rightarrow> string" where
  "pod_id_fmt_hex p = concat (map (\<lambda>b. [HEX ! unat (drop_bit 4 b), HEX ! unat (b AND 0x0f)]) p)"

datatype sample_type =
    AmbientAirTemperature | AmbientRelativeHumidity | InterfaceTemperature | CoverageCapacitance
     | BioImpedanceMagnitude | BioImpedanceActivity | SupplyVoltage | BatterySoc | FloodContact
     | LinkQuality | WaterLevel | WaterFlowRate | WaterVolume | WaterPressure | WaterTemperature
     | WaterElectricalConductivity | WaterPh | WaterDissolvedOxygen | WaterTurbidity | WaterSalinity
     | WaterTotalDissolvedSolids | Rainfall | RainIntensity | WindSpeed | WindDirection
     | BarometricPressure | SolarIrradiance | SoilMoisture | SoilTemperature
     | SoilElectricalConductivity | VibrationRms | VibrationPeak | ShockAcceleration
     | InclinationAngle | Displacement | Strain | CrackWidth | AcousticNoise | AirQualityPm25
     | AirQualityPm10 | CarbonDioxide | VolatileOrganicCompounds | BatteryVoltage | BatteryCurrent
     | BatteryTemperature | SolarChargeCurrent | EnclosureHumidity | EnclosureTemperature
     | RadioRssi | RadioSnr | CustomSample

fun sample_type_repr :: "sample_type \<Rightarrow> u8" where
  "sample_type_repr AmbientAirTemperature = 1"
| "sample_type_repr AmbientRelativeHumidity = 2"
| "sample_type_repr InterfaceTemperature = 3"
| "sample_type_repr CoverageCapacitance = 4"
| "sample_type_repr BioImpedanceMagnitude = 5"
| "sample_type_repr BioImpedanceActivity = 6"
| "sample_type_repr SupplyVoltage = 7"
| "sample_type_repr BatterySoc = 8"
| "sample_type_repr FloodContact = 9"
| "sample_type_repr LinkQuality = 10"
| "sample_type_repr WaterLevel = 11"
| "sample_type_repr WaterFlowRate = 12"
| "sample_type_repr WaterVolume = 13"
| "sample_type_repr WaterPressure = 14"
| "sample_type_repr WaterTemperature = 15"
| "sample_type_repr WaterElectricalConductivity = 16"
| "sample_type_repr WaterPh = 17"
| "sample_type_repr WaterDissolvedOxygen = 18"
| "sample_type_repr WaterTurbidity = 19"
| "sample_type_repr WaterSalinity = 20"
| "sample_type_repr WaterTotalDissolvedSolids = 21"
| "sample_type_repr Rainfall = 22"
| "sample_type_repr RainIntensity = 23"
| "sample_type_repr WindSpeed = 24"
| "sample_type_repr WindDirection = 25"
| "sample_type_repr BarometricPressure = 26"
| "sample_type_repr SolarIrradiance = 27"
| "sample_type_repr SoilMoisture = 28"
| "sample_type_repr SoilTemperature = 29"
| "sample_type_repr SoilElectricalConductivity = 30"
| "sample_type_repr VibrationRms = 31"
| "sample_type_repr VibrationPeak = 32"
| "sample_type_repr ShockAcceleration = 33"
| "sample_type_repr InclinationAngle = 34"
| "sample_type_repr Displacement = 35"
| "sample_type_repr Strain = 36"
| "sample_type_repr CrackWidth = 37"
| "sample_type_repr AcousticNoise = 38"
| "sample_type_repr AirQualityPm25 = 39"
| "sample_type_repr AirQualityPm10 = 40"
| "sample_type_repr CarbonDioxide = 41"
| "sample_type_repr VolatileOrganicCompounds = 42"
| "sample_type_repr BatteryVoltage = 43"
| "sample_type_repr BatteryCurrent = 44"
| "sample_type_repr BatteryTemperature = 45"
| "sample_type_repr SolarChargeCurrent = 46"
| "sample_type_repr EnclosureHumidity = 47"
| "sample_type_repr EnclosureTemperature = 48"
| "sample_type_repr RadioRssi = 49"
| "sample_type_repr RadioSnr = 50"
| "sample_type_repr CustomSample = 250"

definition sample_types :: "sample_type list" where
  "sample_types =
     [
      AmbientAirTemperature, AmbientRelativeHumidity, InterfaceTemperature, CoverageCapacitance
      , BioImpedanceMagnitude, BioImpedanceActivity, SupplyVoltage, BatterySoc, FloodContact
      , LinkQuality, WaterLevel, WaterFlowRate, WaterVolume, WaterPressure, WaterTemperature
      , WaterElectricalConductivity, WaterPh, WaterDissolvedOxygen, WaterTurbidity, WaterSalinity
      , WaterTotalDissolvedSolids, Rainfall, RainIntensity, WindSpeed, WindDirection
      , BarometricPressure, SolarIrradiance, SoilMoisture, SoilTemperature
      , SoilElectricalConductivity, VibrationRms, VibrationPeak, ShockAcceleration, InclinationAngle
      , Displacement, Strain, CrackWidth, AcousticNoise, AirQualityPm25, AirQualityPm10
      , CarbonDioxide, VolatileOrganicCompounds, BatteryVoltage, BatteryCurrent, BatteryTemperature
      , SolarChargeCurrent, EnclosureHumidity, EnclosureTemperature, RadioRssi, RadioSnr
      , CustomSample]"

text \<open>\<open>Deserialize_repr\<close>: the variant with the discriminant, if there is one.\<close>

definition sample_type_of_repr :: "u8 \<Rightarrow> sample_type option" where
  "sample_type_of_repr b = find (\<lambda>s. sample_type_repr s = b) sample_types"

text \<open>Comparisons of \<open>f32\<close>: a NaN is below and above nothing, and the zeros are equal.\<close>

definition f32_is_nan :: "f32 \<Rightarrow> bool" where
  "f32_is_nan v \<longleftrightarrow> v AND 0x7FFFFFFF > 0x7F800000"

definition f32_is_finite :: "f32 \<Rightarrow> bool" where
  "f32_is_finite v \<longleftrightarrow> v AND 0x7FFFFFFF < 0x7F800000"

definition f32_rank :: "f32 \<Rightarrow> int" where
  "f32_rank v = (if v AND 0x80000000 = 0 then uint (v AND 0x7FFFFFFF) else - uint (v AND 0x7FFFFFFF))"

definition f32_gt :: "f32 \<Rightarrow> f32 \<Rightarrow> bool" where
  "f32_gt a b \<longleftrightarrow> \<not> f32_is_nan a \<and> \<not> f32_is_nan b \<and> f32_rank a > f32_rank b"

record env_fact =
  ef_sample_type :: sample_type
  ef_phenomenon_time_start :: i64
  ef_phenomenon_time_end :: i64
  ef_value :: "f32 option"
  ef_min :: "f32 option"
  ef_max :: "f32 option"
  ef_mean :: "f32 option"
  ef_count :: "u32 option"
  ef_quality :: "f32 option"
  ef_sensor_channel :: "u8 option"

datatype fact_validation_error =
    KindPayloadMismatch
  | PhenomenonTimeReversed
  | InstantTimeRange
  | NonFiniteInstantValue
  | InstantHasAggregates
  | InstantCount
  | IncompleteSummary
  | SummaryCount
  | NonFiniteSummaryValue
  | SummaryOrder
  | NonFiniteQuality

definition fact_validation_error_display :: "fact_validation_error \<Rightarrow> string" where
  "fact_validation_error_display e = (case e of
       KindPayloadMismatch \<Rightarrow> ''fact kind does not match its payload''
     | PhenomenonTimeReversed \<Rightarrow> ''phenomenon_time_start must be <= phenomenon_time_end''
     | InstantTimeRange \<Rightarrow> ''instant fact must use equal phenomenon times''
     | NonFiniteInstantValue \<Rightarrow> ''instant value must be finite''
     | InstantHasAggregates \<Rightarrow> ''instant fact must not contain aggregate values''
     | InstantCount \<Rightarrow> ''instant count must be absent or equal to one''
     | IncompleteSummary \<Rightarrow> ''summary fact requires min, max, mean, and count''
     | SummaryCount \<Rightarrow> ''summary count must be positive''
     | NonFiniteSummaryValue \<Rightarrow> ''summary values must be finite''
     | SummaryOrder \<Rightarrow> ''summary values must satisfy min <= mean <= max''
     | NonFiniteQuality \<Rightarrow> ''quality must be finite when present'')"

definition env_fact_validate :: "env_fact \<Rightarrow> (unit, fact_validation_error) result" where
  "env_fact_validate f =
     (if sint (ef_phenomenon_time_start f) > sint (ef_phenomenon_time_end f)
      then Err PhenomenonTimeReversed
      else if (case ef_quality f of None \<Rightarrow> False | Some quality \<Rightarrow> \<not> f32_is_finite quality)
      then Err NonFiniteQuality
      else case ef_value f of
          Some value \<Rightarrow>
            if ef_phenomenon_time_start f \<noteq> ef_phenomenon_time_end f then Err InstantTimeRange
            else if \<not> f32_is_finite value then Err NonFiniteInstantValue
            else if ef_min f \<noteq> None \<or> ef_max f \<noteq> None \<or> ef_mean f \<noteq> None then Err InstantHasAggregates
            else if \<not> (ef_count f = None \<or> ef_count f = Some 1) then Err InstantCount
            else Ok ()
        | None \<Rightarrow>
            (case (ef_min f, ef_max f, ef_mean f, ef_count f) of
               (Some mn, Some mx, Some mean, Some n) \<Rightarrow>
                 if n = 0 then Err SummaryCount
                 else if \<not> f32_is_finite mn \<or> \<not> f32_is_finite mx \<or> \<not> f32_is_finite mean
                 then Err NonFiniteSummaryValue
                 else if f32_gt mn mean \<or> f32_gt mean mx then Err SummaryOrder
                 else Ok ()
             | _ \<Rightarrow> Err IncompleteSummary))"

definition env_fact_instant ::
  "sample_type \<Rightarrow> i64 \<Rightarrow> f32 \<Rightarrow> (env_fact, fact_validation_error) result" where
  "env_fact_instant sample_type t value =
     (let fact = \<lparr>ef_sample_type = sample_type, ef_phenomenon_time_start = t,
        ef_phenomenon_time_end = t, ef_value = Some value, ef_min = None, ef_max = None,
        ef_mean = None, ef_count = Some 1, ef_quality = None, ef_sensor_channel = None\<rparr> in
      and_then (env_fact_validate fact) (\<lambda>_. Ok fact))"

definition env_fact_summary ::
  "sample_type \<Rightarrow> i64 \<Rightarrow> i64 \<Rightarrow> f32 \<Rightarrow> f32 \<Rightarrow> f32 \<Rightarrow> u32 \<Rightarrow> (env_fact, fact_validation_error) result" where
  "env_fact_summary sample_type t0 t1 mn mx mean n =
     (let fact = \<lparr>ef_sample_type = sample_type, ef_phenomenon_time_start = t0,
        ef_phenomenon_time_end = t1, ef_value = None, ef_min = Some mn, ef_max = Some mx,
        ef_mean = Some mean, ef_count = Some n, ef_quality = None, ef_sensor_channel = None\<rparr> in
      and_then (env_fact_validate fact) (\<lambda>_. Ok fact))"

datatype fact_kind = KindEnv | KindPipeline | KindHealth | KindCustom

definition fact_kind_repr :: "fact_kind \<Rightarrow> u8" where
  "fact_kind_repr k = (case k of KindEnv \<Rightarrow> 1 | KindPipeline \<Rightarrow> 2 | KindHealth \<Rightarrow> 3 | KindCustom \<Rightarrow> 250)"

datatype fact_payload = PayloadEnv env_fact | PayloadCustom bytes

record fact =
  fact_pod_id :: pod_id
  fact_fc :: u64
  fact_ingest_time :: i64
  fact_pod_time :: "i64 option"
  fact_kind :: fact_kind
  fact_payload :: fact_payload

definition fact_validate :: "fact \<Rightarrow> (unit, fact_validation_error) result" where
  "fact_validate f = (case (fact_kind f, fact_payload f) of
       (KindEnv, PayloadEnv env) \<Rightarrow> env_fact_validate env
     | (KindPipeline, PayloadCustom _) \<Rightarrow> Ok ()
     | (KindHealth, PayloadCustom _) \<Rightarrow> Ok ()
     | (KindCustom, PayloadCustom _) \<Rightarrow> Ok ()
     | _ \<Rightarrow> Err KindPayloadMismatch)"

datatype core_error =
    CryptoError
  | SerializeBufferTooSmall
  | SerializeError
  | DeserializeError
  | CiphertextTooLarge
  | InvalidFact fact_validation_error

definition core_error_display :: "core_error \<Rightarrow> string" where
  "core_error_display e = (case e of
       CryptoError \<Rightarrow> ''crypto error''
     | SerializeBufferTooSmall \<Rightarrow> ''serialize buffer too small''
     | SerializeError \<Rightarrow> ''serialize error''
     | DeserializeError \<Rightarrow> ''deserialize error''
     | CiphertextTooLarge \<Rightarrow> ''ciphertext too large for frame capacity''
     | InvalidFact reason \<Rightarrow> ''invalid fact: '' @ fact_validation_error_display reason)"

text \<open>The bounds the Rust types carry: \<open>[u8; 8]\<close> and \<open>Vec<u8, 64>\<close>.\<close>

definition wf_fact :: "fact \<Rightarrow> bool" where
  "wf_fact f \<longleftrightarrow> length (fact_pod_id f) = 8
     \<and> (case fact_payload f of PayloadCustom v \<Rightarrow> length v \<le> 64 | PayloadEnv _ \<Rightarrow> True)"

section \<open>Lemmas\<close>

lemma sample_type_of_repr_repr [simp]: "sample_type_of_repr (sample_type_repr s) = Some s"
  by (cases s) (simp_all add: sample_type_of_repr_def sample_types_def)

lemma sample_type_repr_inject [simp]: "sample_type_repr s = sample_type_repr t \<longleftrightarrow> s = t"
  by (metis option.inject sample_type_of_repr_repr)

lemma fact_kind_repr_inject [simp]: "fact_kind_repr k = fact_kind_repr l \<longleftrightarrow> k = l"
  by (cases k; cases l) (simp_all add: fact_kind_repr_def)

lemma finite_not_nan: "f32_is_finite v \<Longrightarrow> \<not> f32_is_nan v"
  by (simp add: f32_is_finite_def f32_is_nan_def)

text \<open>Every float of a valid fact is finite.\<close>

definition env_floats :: "env_fact \<Rightarrow> f32 option list" where
  "env_floats f = [ef_value f, ef_min f, ef_max f, ef_mean f, ef_quality f]"

lemma env_fact_validate_finite:
  assumes "env_fact_validate f = Ok ()" and "Some v \<in> set (env_floats f)"
  shows "f32_is_finite v"
  using assms by (auto simp: env_fact_validate_def env_floats_def split: option.splits if_splits)

end
