(* ===== verification/Core_Cbor.thy ===== *)
theory Core_Cbor
  imports Core_Types Vtl_Record
begin

unbundle bit_operations_syntax

text \<open>
  The deterministic CBOR of telemetry facts and provisioning records
  (\<open>crates/trackone-core/src/cbor.rs\<close>, \<open>identity_input.rs\<close>): positional arrays, shortest heads,
  floats always as \<open>float32\<close>.  The encoder of heads is another instance of the contract
  \<open>head_encoder\<close>.  Shown: the encoding of facts is injective, and a fact with a custom payload and
  times that are not negative is a record the ledger accepts.
\<close>

section \<open>Definitions\<close>

definition core_major_u64 :: "u8 \<Rightarrow> u64 \<Rightarrow> bytes" where
  "core_major_u64 major n =
     (if n < 24 then [push_bit 5 major OR ucast n]
      else if n \<le> 0xFF then [push_bit 5 major OR 24, ucast n]
      else if n \<le> 0xFFFF then (push_bit 5 major OR 25) # to_be_bytes (ucast n :: u16)
      else if n \<le> 0xFFFFFFFF then (push_bit 5 major OR 26) # to_be_bytes (ucast n :: u32)
      else (push_bit 5 major OR 27) # to_be_bytes n)"

definition core_cbor_uint :: "u64 \<Rightarrow> bytes" where
  "core_cbor_uint n = core_major_u64 0 n"

text \<open>\<open>-1 - n\<close> of a negative \<open>i64\<close> is its bitwise complement.\<close>

definition core_cbor_nint :: "i64 \<Rightarrow> bytes" where
  "core_cbor_nint n = core_major_u64 1 (- 1 - n)"

definition core_cbor_i64 :: "i64 \<Rightarrow> bytes" where
  "core_cbor_i64 n = (if sint n \<ge> 0 then core_cbor_uint n else core_cbor_nint n)"

definition core_cbor_bytes :: "bytes \<Rightarrow> bytes" where
  "core_cbor_bytes b = core_major_u64 2 (word_of_nat (length b)) @ b"

definition core_cbor_text :: "string \<Rightarrow> bytes" where
  "core_cbor_text s = core_major_u64 3 (word_of_nat (length s)) @ str_bytes s"

definition core_cbor_f32 :: "f32 \<Rightarrow> bytes" where
  "core_cbor_f32 v = 0xFA # to_be_bytes (if f32_is_nan v then 0x7FC00000 else v)"

definition core_cbor_null :: bytes where
  "core_cbor_null = [0xF6]"

definition core_cbor_array_len :: "nat \<Rightarrow> bytes" where
  "core_cbor_array_len n = core_major_u64 4 (word_of_nat n)"

definition SCHEMA_VERSION_PROVISIONING_RECORD :: u64 where "SCHEMA_VERSION_PROVISIONING_RECORD = 1"
definition SCHEMA_VERSION_ENV_FACT :: u64 where "SCHEMA_VERSION_ENV_FACT = 1"
definition SCHEMA_VERSION_FACT :: u64 where "SCHEMA_VERSION_FACT = 1"

text \<open>A \<open>match\<close> on an optional field.\<close>

definition cbor_opt :: "('a \<Rightarrow> bytes) \<Rightarrow> 'a option \<Rightarrow> bytes" where
  "cbor_opt enc x = (case x of Some v \<Rightarrow> enc v | None \<Rightarrow> core_cbor_null)"

record provisioning_record =
  pr_device_id :: pod_id
  pr_firmware_version :: string
  pr_firmware_hash :: bytes
  pr_identity_pubkey :: bytes
  pr_birth_cert_sig :: bytes
  pr_provisioned_at :: i64
  pr_site_id :: "string option"

definition provisioning_record_cbor :: "provisioning_record \<Rightarrow> (bytes, core_error) result" where
  "provisioning_record_cbor r = Ok (core_cbor_array_len 8
     @ core_cbor_uint SCHEMA_VERSION_PROVISIONING_RECORD
     @ core_cbor_bytes (pr_device_id r)
     @ core_cbor_text (pr_firmware_version r)
     @ core_cbor_bytes (pr_firmware_hash r)
     @ core_cbor_bytes (pr_identity_pubkey r)
     @ core_cbor_bytes (pr_birth_cert_sig r)
     @ core_cbor_i64 (pr_provisioned_at r)
     @ cbor_opt core_cbor_text (pr_site_id r))"

definition env_fact_cbor :: "env_fact \<Rightarrow> (bytes, core_error) result" where
  "env_fact_cbor f =
     and_then (map_err InvalidFact (env_fact_validate f)) (\<lambda>_.
     Ok (core_cbor_array_len 11
       @ core_cbor_uint SCHEMA_VERSION_ENV_FACT
       @ core_cbor_uint (ucast (sample_type_repr (ef_sample_type f)))
       @ core_cbor_i64 (ef_phenomenon_time_start f)
       @ core_cbor_i64 (ef_phenomenon_time_end f)
       @ cbor_opt core_cbor_f32 (ef_value f)
       @ cbor_opt core_cbor_f32 (ef_min f)
       @ cbor_opt core_cbor_f32 (ef_max f)
       @ cbor_opt core_cbor_f32 (ef_mean f)
       @ cbor_opt (\<lambda>v. core_cbor_uint (ucast v)) (ef_count f)
       @ cbor_opt core_cbor_f32 (ef_quality f)
       @ cbor_opt (\<lambda>v. core_cbor_uint (ucast v)) (ef_sensor_channel f)))"

definition fact_payload_cbor :: "fact_payload \<Rightarrow> (bytes, core_error) result" where
  "fact_payload_cbor p = (case p of
       PayloadEnv env \<Rightarrow>
         and_then (env_fact_cbor env) (\<lambda>env_bytes. Ok (core_cbor_array_len 2 @ core_cbor_uint 0 @ env_bytes))
     | PayloadCustom v \<Rightarrow> Ok (core_cbor_array_len 2 @ core_cbor_uint 1 @ core_cbor_bytes v))"

definition fact_cbor :: "fact \<Rightarrow> (bytes, core_error) result" where
  "fact_cbor f =
     and_then (map_err InvalidFact (fact_validate f)) (\<lambda>_.
     and_then (fact_payload_cbor (fact_payload f)) (\<lambda>payload.
     Ok (core_cbor_array_len 7
       @ core_cbor_uint SCHEMA_VERSION_FACT
       @ core_cbor_bytes (fact_pod_id f)
       @ core_cbor_uint (fact_fc f)
       @ core_cbor_i64 (fact_ingest_time f)
       @ cbor_opt core_cbor_i64 (fact_pod_time f)
       @ core_cbor_uint (ucast (fact_kind_repr (fact_kind f)))
       @ payload)))"

section \<open>Heads\<close>

lemma core_major_u64_eq: "core_major_u64 = put_head"
proof (intro ext)
  fix m :: u8 and n :: u64
  have "n < 24 \<longleftrightarrow> n \<le> 23" by (auto simp: word_less_nat_alt word_le_nat_alt)
  then show "core_major_u64 m n = put_head m n"
    by (simp add: core_major_u64_def put_head_def Let_def)
qed

interpretation core_head: head_encoder core_major_u64
  unfolding core_major_u64_eq by (rule vtl_head.head_encoder_axioms)

section \<open>Prefix codes\<close>

text \<open>An encoding that is determined, value and rest, by any input that starts with it.\<close>

definition prefix_code :: "('a \<Rightarrow> bool) \<Rightarrow> ('a \<Rightarrow> bytes) \<Rightarrow> bool" where
  "prefix_code P enc \<longleftrightarrow> (\<forall>x y r s. P x \<longrightarrow> P y \<longrightarrow> enc x @ r = enc y @ s \<longrightarrow> x = y \<and> r = s)"

lemma prefix_codeD:
  "prefix_code P enc \<Longrightarrow> P x \<Longrightarrow> P y \<Longrightarrow> enc x @ r = enc y @ s \<Longrightarrow> x = y \<and> r = s"
  unfolding prefix_code_def by blast

lemma prefix_codeI:
  "(\<And>x y r s. P x \<Longrightarrow> P y \<Longrightarrow> enc x @ r = enc y @ s \<Longrightarrow> x = y \<and> r = s) \<Longrightarrow> prefix_code P enc"
  unfolding prefix_code_def by blast

lemma prefix_code_uint: "prefix_code (\<lambda>_. True) core_cbor_uint"
proof (rule prefix_codeI)
  fix x y r s
  assume "core_cbor_uint x @ r = core_cbor_uint y @ s"
  from core_head.head_prefix_free [OF _ _ this [unfolded core_cbor_uint_def]] show "x = y \<and> r = s" by simp
qed

text \<open>A signed integer is the head of major type 0 or 1.\<close>

lemma core_cbor_i64_head:
  "core_cbor_i64 n = core_major_u64 (if sint n \<ge> 0 then 0 else 1) (if sint n \<ge> 0 then n else - 1 - n)"
  by (simp add: core_cbor_i64_def core_cbor_uint_def core_cbor_nint_def)

lemma prefix_code_i64: "prefix_code (\<lambda>_. True) core_cbor_i64"
proof (rule prefix_codeI)
  fix x y r s
  assume "core_cbor_i64 x @ r = core_cbor_i64 y @ s"
  note eq = core_head.head_prefix_free [OF _ _ this [unfolded core_cbor_i64_head]]
  have "(0 :: u8) \<noteq> 1" by simp
  with eq show "x = y \<and> r = s" by (cases "sint x \<ge> 0"; cases "sint y \<ge> 0") simp_all
qed

lemma prefix_code_bytes: "prefix_code (\<lambda>b. length b < 2 ^ 64) core_cbor_bytes"
proof (rule prefix_codeI)
  fix x y r s :: bytes
  assume "length x < 2 ^ 64" "length y < 2 ^ 64" "core_cbor_bytes x @ r = core_cbor_bytes y @ s"
  then show "x = y \<and> r = s"
    by (intro core_head.prefixed_payload_inj [of 2]) (simp_all add: core_cbor_bytes_def)
qed

lemma prefix_code_f32: "prefix_code (\<lambda>v. \<not> f32_is_nan v) core_cbor_f32"
proof (rule prefix_codeI)
  fix v w r s
  assume nan: "\<not> f32_is_nan v" "\<not> f32_is_nan w" and "core_cbor_f32 v @ r = core_cbor_f32 w @ s"
  then have "to_be_bytes v = to_be_bytes w \<and> r = s" by (simp add: core_cbor_f32_def)
  then show "v = w \<and> r = s" by (metis from_to_be_u32)
qed

text \<open>The null byte is the head of major type 7 with argument 22.\<close>

lemma null_is_head: "core_cbor_null = core_major_u64 7 22"
  by (simp add: core_cbor_null_def core_major_u64_def)

lemma prefix_code_opt:
  assumes "prefix_code P enc" and "\<And>v r s. enc v @ r \<noteq> core_cbor_null @ s"
  shows "prefix_code (\<lambda>x. case x of None \<Rightarrow> True | Some v \<Rightarrow> P v) (cbor_opt enc)"
proof (rule prefix_codeI)
  fix x y r s
  assume d: "case x of None \<Rightarrow> True | Some v \<Rightarrow> P v" "case y of None \<Rightarrow> True | Some v \<Rightarrow> P v"
    and eq: "cbor_opt enc x @ r = cbor_opt enc y @ s"
  show "x = y \<and> r = s"
  proof (cases x)
    case None
    with eq assms(2) show ?thesis by (cases y) (auto simp: cbor_opt_def dest: sym)
  next
    case (Some v)
    with eq assms(2) obtain w where "y = Some w" by (cases y) (auto simp: cbor_opt_def)
    with Some d eq have "P v" "P w" "enc v @ r = enc w @ s" by (simp_all add: cbor_opt_def)
    from prefix_codeD [OF assms(1) this] Some \<open>y = Some w\<close> show ?thesis by simp
  qed
qed

lemma prefix_code_inj:
  assumes "prefix_code P enc" and "inj f"
  shows "prefix_code (\<lambda>x. P (f x)) (\<lambda>x. enc (f x))"
  using assms unfolding prefix_code_def inj_def by blast

lemma head_null_disjoint: "m < 7 \<Longrightarrow> core_major_u64 m n @ r \<noteq> core_cbor_null @ s"
  using core_head.head_prefix_free [of m 7 n r 22 s] by (auto simp: null_is_head word_less_nat_alt)

lemma null_disjoint:
  "core_cbor_uint v @ r \<noteq> core_cbor_null @ s" "core_cbor_i64 w @ r \<noteq> core_cbor_null @ s"
  "core_cbor_f32 x @ r \<noteq> core_cbor_null @ s"
  unfolding core_cbor_uint_def core_cbor_i64_head
  by (simp_all add: head_null_disjoint) (simp add: core_cbor_f32_def core_cbor_null_def)

section \<open>Facts\<close>

lemma inj_ucast_u8: "inj (ucast :: u8 \<Rightarrow> u64)" and inj_ucast_u32: "inj (ucast :: u32 \<Rightarrow> u64)"
proof -
  have "unat (ucast x :: u64) = unat x" for x :: u8
    by (rule unat_ucast_small) (rule order.strict_trans [OF unat_u8_less], simp)
  moreover have "unat (ucast x :: u64) = unat x" for x :: u32
    by (rule unat_ucast_small) (rule order.strict_trans [OF unat_u32_less], simp)
  ultimately show "inj (ucast :: u8 \<Rightarrow> u64)" "inj (ucast :: u32 \<Rightarrow> u64)"
    by (auto intro!: injI simp: word_unat_eq_iff)
qed

lemma inj_sample_repr: "inj (\<lambda>s. ucast (sample_type_repr s) :: u64)"
  and inj_kind_repr: "inj (\<lambda>k. ucast (fact_kind_repr k) :: u64)"
  using inj_ucast_u8 by (auto intro!: injI dest!: injD)

lemmas prefix_code_facts =
  prefix_codeD [OF prefix_code_uint] prefix_codeD [OF prefix_code_i64]
  prefix_codeD [OF prefix_code_inj [OF prefix_code_uint inj_sample_repr]]
  prefix_codeD [OF prefix_code_inj [OF prefix_code_uint inj_kind_repr]]
  prefix_codeD [OF prefix_code_opt [OF prefix_code_f32 null_disjoint(3)]]
  prefix_codeD [OF prefix_code_opt [OF prefix_code_i64 null_disjoint(2)]]
  prefix_codeD [OF prefix_code_opt [OF prefix_code_inj [OF prefix_code_uint inj_ucast_u8] null_disjoint(1)]]
  prefix_codeD [OF prefix_code_opt [OF prefix_code_inj [OF prefix_code_uint inj_ucast_u32] null_disjoint(1)]]

lemma env_fact_cbor_prefix:
  assumes "env_fact_cbor f = Ok a" and "env_fact_cbor g = Ok b" and "a @ r = b @ s"
  shows "f = g \<and> r = s"
proof -
  let ?fin = "\<lambda>x. case x of None \<Rightarrow> True | Some v \<Rightarrow> \<not> f32_is_nan v"
  have fin: "?fin x" if "env_fact_validate h = Ok ()" "x \<in> set (env_floats h)" for h x
    using env_fact_validate_finite [OF that(1)] that(2) finite_not_nan by (auto split: option.splits)
  have "env_fact_validate f = Ok ()" "env_fact_validate g = Ok ()"
    using assms(1,2) by (simp_all add: env_fact_cbor_def and_then_Ok_iff)
  then have f: "?fin (ef_value f)" "?fin (ef_min f)" "?fin (ef_max f)" "?fin (ef_mean f)" "?fin (ef_quality f)"
    and g: "?fin (ef_value g)" "?fin (ef_min g)" "?fin (ef_max g)" "?fin (ef_mean g)" "?fin (ef_quality g)"
    using fin [of f] fin [of g] by (auto simp: env_floats_def)
  note ch = prefix_code_facts
  from assms have 1: "core_cbor_uint (ucast (sample_type_repr (ef_sample_type f))) @ tl1 f @ r
      = core_cbor_uint (ucast (sample_type_repr (ef_sample_type g))) @ tl1 g @ s"
    if "\<And>h. tl1 h = core_cbor_i64 (ef_phenomenon_time_start h) @ core_cbor_i64 (ef_phenomenon_time_end h)
       @ cbor_opt core_cbor_f32 (ef_value h) @ cbor_opt core_cbor_f32 (ef_min h)
       @ cbor_opt core_cbor_f32 (ef_max h) @ cbor_opt core_cbor_f32 (ef_mean h)
       @ cbor_opt (\<lambda>v. core_cbor_uint (ucast v)) (ef_count h) @ cbor_opt core_cbor_f32 (ef_quality h)
       @ cbor_opt (\<lambda>v. core_cbor_uint (ucast v)) (ef_sensor_channel h)" for tl1
    by (auto simp: env_fact_cbor_def and_then_Ok_iff that)
  note 2 = ch(3) [OF TrueI TrueI 1 [OF refl, unfolded append_assoc]]
  note 3 = ch(2) [OF TrueI TrueI conjunct2 [OF 2]]
  note 4 = ch(2) [OF TrueI TrueI conjunct2 [OF 3]]
  note 5 = ch(5) [OF f(1) g(1) conjunct2 [OF 4]]
  note 6 = ch(5) [OF f(2) g(2) conjunct2 [OF 5]]
  note 7 = ch(5) [OF f(3) g(3) conjunct2 [OF 6]]
  note 8 = ch(5) [OF f(4) g(4) conjunct2 [OF 7]]
  note 9 = ch(8) [OF _ _ conjunct2 [OF 8]]
  have "ef_count f = ef_count g \<and> cbor_opt core_cbor_f32 (ef_quality f)
      @ cbor_opt (\<lambda>v. core_cbor_uint (ucast v)) (ef_sensor_channel f) @ r
    = cbor_opt core_cbor_f32 (ef_quality g)
      @ cbor_opt (\<lambda>v. core_cbor_uint (ucast v)) (ef_sensor_channel g) @ s"
    by (rule 9) (simp_all split: option.split)
  note 10 = ch(5) [OF f(5) g(5) conjunct2 [OF this]]
  have 11: "ef_sensor_channel f = ef_sensor_channel g \<and> r = s"
    by (rule ch(7) [OF _ _ conjunct2 [OF 10]]) (simp_all split: option.split)
  from 2 3 4 5 6 7 8 \<open>ef_count f = ef_count g \<and> _\<close> 10 11 show ?thesis by (simp add: env_fact.equality)
qed

lemma fact_payload_cbor_prefix:
  assumes "fact_payload_cbor p = Ok a" and "fact_payload_cbor q = Ok b" and "a @ r = b @ s"
    and "\<And>v. p = PayloadCustom v \<Longrightarrow> length v < 2 ^ 64" and "\<And>v. q = PayloadCustom v \<Longrightarrow> length v < 2 ^ 64"
  shows "p = q \<and> r = s"
proof -
  have tag: "core_cbor_uint 0 @ x \<noteq> core_cbor_uint 1 @ y" for x y
    using prefix_codeD [OF prefix_code_uint, where x = 0 and y = 1] by auto
  show ?thesis
  proof (cases p)
    case (PayloadEnv e)
    with assms(1) obtain ea where ea: "env_fact_cbor e = Ok ea" "a = core_cbor_array_len 2 @ core_cbor_uint 0 @ ea"
      by (auto simp: fact_payload_cbor_def and_then_Ok_iff)
    with assms(2,3) tag obtain h ha where "q = PayloadEnv h" "env_fact_cbor h = Ok ha" "ea @ r = ha @ s"
      by (cases q) (auto simp: fact_payload_cbor_def and_then_Ok_iff)
    with PayloadEnv env_fact_cbor_prefix [OF ea(1)] show ?thesis by blast
  next
    case (PayloadCustom v)
    with assms(1) have a: "a = core_cbor_array_len 2 @ core_cbor_uint 1 @ core_cbor_bytes v"
      by (simp add: fact_payload_cbor_def)
    with assms(2,3) tag obtain w where "q = PayloadCustom w" "core_cbor_bytes v @ r = core_cbor_bytes w @ s"
      by (cases q) (auto simp: fact_payload_cbor_def and_then_Ok_iff dest: sym)
    with PayloadCustom assms(4,5) prefix_codeD [OF prefix_code_bytes] show ?thesis by blast
  qed
qed

lemma fact_cbor_Ok_iff:
  "fact_cbor f = Ok bs \<longleftrightarrow> fact_validate f = Ok () \<and> (\<exists>payload. fact_payload_cbor (fact_payload f) = Ok payload
     \<and> bs = core_cbor_array_len 7 @ core_cbor_uint SCHEMA_VERSION_FACT @ core_cbor_bytes (fact_pod_id f)
       @ core_cbor_uint (fact_fc f) @ core_cbor_i64 (fact_ingest_time f)
       @ cbor_opt core_cbor_i64 (fact_pod_time f) @ core_cbor_uint (ucast (fact_kind_repr (fact_kind f)))
       @ payload)"
  by (auto simp: fact_cbor_def and_then_Ok_iff)

section \<open>Facts as ledger records\<close>

lemma read_core_uint:
  assumes "drop pos bs = core_cbor_uint n @ rest"
  shows "read_uint_item bs pos field = Ok (n, pos + length (core_cbor_uint n))"
  using core_head.head_read [of 0 pos bs n rest] assms
  by (simp add: read_uint_item_def core_cbor_uint_def)

lemma read_core_device:
  assumes "drop pos bs = core_cbor_bytes d @ rest" and "length d = 8"
  shows "read_device_id bs pos = Ok (d, pos + length (core_cbor_bytes d))"
proof -
  let ?h = "core_major_u64 2 (word_of_nat (length d))"
  have a: "drop pos bs = ?h @ d @ rest" using assms(1) by (simp add: core_cbor_bytes_def)
  note r = core_head.head_read [OF _ a]
  from drop_eq_append_next [OF a] have b: "drop (pos + length ?h) bs = d @ rest" .
  have "d @ rest \<noteq> []" using assms(2) by auto
  from drop_eq_append_length [OF b this] assms(2) have "pos + length ?h + 8 \<le> length bs" by simp
  moreover from subslice_drop [OF b] assms(2) have "subslice bs (pos + length ?h) (pos + length ?h + 8) = d" by simp
  ultimately show ?thesis
    using r assms(2) by (simp add: read_device_id_def core_cbor_bytes_def add.assoc)
qed

text \<open>The metadata the ledger reads from a fact.\<close>

definition fact_metadata :: "fact \<Rightarrow> canonical_record_metadata" where
  "fact_metadata f = \<lparr>crm_version = 1, crm_device_id = fact_pod_id f, crm_fc = fact_fc f,
     crm_ingest_time = fact_ingest_time f, crm_device_time = fact_pod_time f,
     crm_kind = ucast (fact_kind_repr (fact_kind f))\<rparr>"

definition fact_times_ok :: "fact \<Rightarrow> bool" where
  "fact_times_ok f \<longleftrightarrow> sint (fact_ingest_time f) \<ge> 0
     \<and> (case fact_pod_time f of None \<Rightarrow> True | Some t \<Rightarrow> sint t \<ge> 0)"

lemma read_core_time:
  assumes "drop pos bs = cbor_opt core_cbor_i64 t @ rest" and "case t of None \<Rightarrow> True | Some v \<Rightarrow> sint v \<ge> 0"
  shows "read_device_time bs pos = Ok (t, pos + length (cbor_opt core_cbor_i64 t))"
proof (cases t)
  case None
  with assms(1) show ?thesis by (simp add: read_device_time_def cbor_opt_def core_cbor_null_def byte_at_drop)
next
  case (Some v)
  with assms have d: "drop pos bs = core_cbor_uint v @ rest" by (simp add: cbor_opt_def core_cbor_i64_def)
  have "byte_at bs pos \<noteq> Some 0xf6"
  proof
    assume "byte_at bs pos = Some 0xf6"
    then obtain s where "drop pos bs = core_cbor_null @ s"
      by (auto simp: byte_at_drop core_cbor_null_def split: list.splits)
    with d null_disjoint(1) show False by metis
  qed
  with read_core_uint [OF d] Some assms(2) show ?thesis
    by (simp add: read_device_time_def cbor_opt_def core_cbor_i64_def)
qed

lemma custom_payload_validates:
  assumes "drop pos bs = core_cbor_array_len 2 @ core_cbor_uint 1 @ core_cbor_bytes v"
    and "length v \<le> 64"
  shows "\<exists>budget. validate_commitment_value bs pos 0 (for_input bs) = Ok (length bs, budget)"
proof -
  let ?p = "PArray [PUint 1, PBytes v]"
  have enc: "enc_payload ?p = core_cbor_array_len 2 @ core_cbor_uint 1 @ core_cbor_bytes v"
    by (simp add: cbor_array_def core_cbor_array_len_def core_cbor_uint_def core_cbor_bytes_def cbor_bytes_def
        core_major_u64_eq)
  have c: "canonical_payload ?p" using assms(2) by simp
  have "passes_at 0 ?p" using c by (intro canonical_payload_passes) (simp_all add: MAX_CBOR_NESTING_DEPTH_def)
  moreover have d: "drop pos bs = enc_payload ?p @ []" using assms(1) enc by simp
  moreover have ne: "enc_payload ?p @ [] \<noteq> []" using payload_items_le_length [OF c] by auto
  moreover have "length (drop pos bs) = length (enc_payload ?p)" using d by simp
  then have len: "pos + length (enc_payload ?p) = length bs"
    using drop_eq_append_length [OF d ne] by simp
  moreover have "payload_items ?p \<le> length bs" using payload_items_le_length [OF c] len by simp
  ultimately show ?thesis unfolding passes_at_def for_input_def by metis
qed

lemma custom_fact_validates:
  assumes "wf_fact f" and "fact_cbor f = Ok bs" and "fact_payload f = PayloadCustom v" and "fact_times_ok f"
  shows "validate_canonical_record bs = Ok (fact_metadata f)"
proof -
  from assms(2,3) have bs: "bs = core_cbor_array_len 7 @ core_cbor_uint 1 @ core_cbor_bytes (fact_pod_id f)
     @ core_cbor_uint (fact_fc f) @ core_cbor_uint (fact_ingest_time f)
     @ cbor_opt core_cbor_i64 (fact_pod_time f) @ core_cbor_uint (ucast (fact_kind_repr (fact_kind f)))
     @ core_cbor_array_len 2 @ core_cbor_uint 1 @ core_cbor_bytes v"
    using assms(4) by (auto simp: fact_cbor_Ok_iff fact_payload_cbor_def SCHEMA_VERSION_FACT_def
        core_cbor_i64_def fact_times_ok_def)
  have 0: "drop 0 bs = core_major_u64 4 7 @ core_cbor_uint 1 @ core_cbor_bytes (fact_pod_id f)
     @ core_cbor_uint (fact_fc f) @ core_cbor_uint (fact_ingest_time f)
     @ cbor_opt core_cbor_i64 (fact_pod_time f) @ core_cbor_uint (ucast (fact_kind_repr (fact_kind f)))
     @ core_cbor_array_len 2 @ core_cbor_uint 1 @ core_cbor_bytes v"
    using bs by (simp add: core_cbor_array_len_def)
  note d = drop_eq_append_next
  have pod: "length (fact_pod_id f) = 8" and v: "length v \<le> 64"
    using assms(1,3) by (simp_all add: wf_fact_def)
  have t: "case fact_pod_time f of None \<Rightarrow> True | Some v \<Rightarrow> sint v \<ge> 0"
    using assms(4) by (simp add: fact_times_ok_def)
  obtain p1 where r0: "read_typed_argument bs 0 = Ok ((4, 7), p1)" and p1: "p1 = 0 + length (core_major_u64 4 7)"
    using core_head.head_read [OF _ 0] by simp
  note 1 = d [OF 0, folded p1]
  obtain p2 where r1: "\<And>x. read_uint_item bs p1 x = Ok (1, p2)" and p2: "p2 = p1 + length (core_cbor_uint 1)"
    using read_core_uint [OF 1] by simp
  note 2 = d [OF 1, folded p2]
  obtain p3 where r2: "read_device_id bs p2 = Ok (fact_pod_id f, p3)"
    and p3: "p3 = p2 + length (core_cbor_bytes (fact_pod_id f))"
    using read_core_device [OF 2 pod] by simp
  note 3 = d [OF 2, folded p3]
  obtain p4 where r3: "\<And>x. read_uint_item bs p3 x = Ok (fact_fc f, p4)"
    and p4: "p4 = p3 + length (core_cbor_uint (fact_fc f))"
    using read_core_uint [OF 3] by simp
  note 4 = d [OF 3, folded p4]
  obtain p5 where r4: "\<And>x. read_uint_item bs p4 x = Ok (fact_ingest_time f, p5)"
    and p5: "p5 = p4 + length (core_cbor_uint (fact_ingest_time f))"
    using read_core_uint [OF 4] by simp
  note 5 = d [OF 4, folded p5]
  obtain p6 where r5: "read_device_time bs p5 = Ok (fact_pod_time f, p6)"
    and p6: "p6 = p5 + length (cbor_opt core_cbor_i64 (fact_pod_time f))"
    using read_core_time [OF 5 t] by simp
  note 6 = d [OF 5, folded p6]
  obtain p7 where r6: "\<And>x. read_uint_item bs p6 x = Ok (ucast (fact_kind_repr (fact_kind f)), p7)"
    and p7: "p7 = p6 + length (core_cbor_uint (ucast (fact_kind_repr (fact_kind f))))"
    using read_core_uint [OF 6] by simp
  obtain budget where "validate_commitment_value bs p7 0 (for_input bs) = Ok (length bs, budget)"
    using custom_payload_validates [OF d [OF 6, folded p7] v] by blast
  with r0 r1 r2 r3 r4 r5 r6 show ?thesis
    by (simp add: validate_canonical_record_def fact_metadata_def)
qed

section \<open>Properties\<close>

text \<open>C35: The deterministic encoding of facts is injective: two facts the encoder accepts with the same
  bytes are the same fact, and more, no encoding is a prefix of another one followed by other data.\<close>

theorem fact_encoding_is_prefix_free:
  assumes "wf_fact f" and "wf_fact g" and "fact_cbor f = Ok a" and "fact_cbor g = Ok b" and "a @ r = b @ s"
  shows "f = g \<and> r = s"
proof -
  from assms(3,4) obtain p q where
    p: "fact_payload_cbor (fact_payload f) = Ok p" and q: "fact_payload_cbor (fact_payload g) = Ok q"
    and a: "a = core_cbor_array_len 7 @ core_cbor_uint SCHEMA_VERSION_FACT @ core_cbor_bytes (fact_pod_id f)
       @ core_cbor_uint (fact_fc f) @ core_cbor_i64 (fact_ingest_time f)
       @ cbor_opt core_cbor_i64 (fact_pod_time f) @ core_cbor_uint (ucast (fact_kind_repr (fact_kind f))) @ p"
    and b: "b = core_cbor_array_len 7 @ core_cbor_uint SCHEMA_VERSION_FACT @ core_cbor_bytes (fact_pod_id g)
       @ core_cbor_uint (fact_fc g) @ core_cbor_i64 (fact_ingest_time g)
       @ cbor_opt core_cbor_i64 (fact_pod_time g) @ core_cbor_uint (ucast (fact_kind_repr (fact_kind g))) @ q"
    by (auto simp: fact_cbor_Ok_iff)
  note ch = prefix_code_facts
  from assms(5) a b have "core_cbor_bytes (fact_pod_id f) @ core_cbor_uint (fact_fc f)
       @ core_cbor_i64 (fact_ingest_time f) @ cbor_opt core_cbor_i64 (fact_pod_time f)
       @ core_cbor_uint (ucast (fact_kind_repr (fact_kind f))) @ p @ r
     = core_cbor_bytes (fact_pod_id g) @ core_cbor_uint (fact_fc g)
       @ core_cbor_i64 (fact_ingest_time g) @ cbor_opt core_cbor_i64 (fact_pod_time g)
       @ core_cbor_uint (ucast (fact_kind_repr (fact_kind g))) @ q @ s" by simp
  note 1 = prefix_codeD [OF prefix_code_bytes _ _ this]
  have len: "length (fact_pod_id f) < 2 ^ 64" "length (fact_pod_id g) < 2 ^ 64"
    using assms(1,2) by (simp_all add: wf_fact_def)
  note 2 = 1 [OF len]
  note 3 = ch(1) [OF TrueI TrueI conjunct2 [OF 2]]
  note 4 = ch(2) [OF TrueI TrueI conjunct2 [OF 3]]
  note 5 = ch(6) [OF _ _ conjunct2 [OF 4]]
  have t: "case fact_pod_time f of None \<Rightarrow> True | Some v \<Rightarrow> True" "case fact_pod_time g of None \<Rightarrow> True | Some v \<Rightarrow> True"
    by (simp_all split: option.split)
  note 6 = ch(4) [OF TrueI TrueI conjunct2 [OF 5 [OF t]]]
  have "fact_payload f = fact_payload g \<and> r = s"
    using assms(1,2) by (intro fact_payload_cbor_prefix [OF p q conjunct2 [OF 6]]) (auto simp: wf_fact_def)
  with 2 3 4 5 [OF t] 6 show ?thesis by (simp add: fact.equality)
qed

definition example_custom_fact :: fact where
  "example_custom_fact = \<lparr>fact_pod_id = pod_id_from_u32 7, fact_fc = 1, fact_ingest_time = 5,
     fact_pod_time = None, fact_kind = KindCustom, fact_payload = PayloadCustom [1, 2, 3]\<rparr>"

definition example_custom_bytes :: bytes where
  "example_custom_bytes = [0x87, 1, 0x48, 0, 0, 0, 0, 0, 0, 0, 7, 1, 5, 0xF6, 0x18, 250,
     0x82, 1, 0x43, 1, 2, 3]"

lemma example_custom_encodes: "fact_cbor example_custom_fact = Ok example_custom_bytes"
  by code_simp

lemma example_custom_wf: "wf_fact example_custom_fact"
  by code_simp

theorem fact_encoding_is_prefix_free_witness:
  "fact_cbor example_custom_fact = Ok example_custom_bytes \<and> ([] :: bytes) = []"
  using fact_encoding_is_prefix_free [OF example_custom_wf example_custom_wf example_custom_encodes
      example_custom_encodes refl, of "[]"] example_custom_encodes by simp

text \<open>C36: The bytes of a valid fact with a custom payload and no negative time are a record the ledger's
  validator accepts, and the metadata it reads are the fact's.\<close>

theorem custom_fact_is_ledger_record:
  assumes "wf_fact f" and "fact_cbor f = Ok bs" and "fact_payload f = PayloadCustom v" and "fact_times_ok f"
  shows "validate_canonical_record bs = Ok (fact_metadata f)"
  using assms by (rule custom_fact_validates)

theorem custom_fact_is_ledger_record_witness:
  "validate_canonical_record example_custom_bytes = Ok (fact_metadata example_custom_fact)"
proof (rule custom_fact_is_ledger_record [OF example_custom_wf example_custom_encodes])
  show "fact_payload example_custom_fact = PayloadCustom [1, 2, 3]" by (simp add: example_custom_fact_def)
  show "fact_times_ok example_custom_fact" by code_simp
qed

end
