(* ===== verification/Ingest_Frame.thy ===== *)
theory Ingest_Frame
  imports Core_Types
begin

unbundle bit_operations_syntax

text \<open>
  Framed telemetry (\<open>crates/trackone-ingest\<close>): profile, nonce and associated data, bounded encrypted
  frames, fixture emission and gateway admission, and the rejection audit.  The postcard codec and
  XChaCha20-Poly1305 are third-party: they are arguments, and what is relied on of them is stated as
  \<open>postcard_ok\<close> and \<open>xchacha_ok\<close>.  A cipher of the trait \<open>AeadEncrypt\<close>/\<open>AeadDecrypt\<close> is a record of two
  operations on an output buffer of a given capacity, which return the bytes written; the locale
  \<open>aead_cipher\<close> is its contract and \<open>DummyAead\<close> of \<open>crypto.rs\<close> interprets it.
\<close>

section \<open>Constants and profile\<close>

definition MAX_FACT_LEN :: nat where "MAX_FACT_LEN = 256"
definition AEAD_NONCE_LEN :: nat where "AEAD_NONCE_LEN = 24"
definition AEAD_TAG_LEN :: nat where "AEAD_TAG_LEN = 16"
definition MAX_FRAME_CIPHERTEXT_BYTES :: nat where "MAX_FRAME_CIPHERTEXT_BYTES = 256"
definition INGEST_PROFILE_RUST_POSTCARD_V1 :: string where
  "INGEST_PROFILE_RUST_POSTCARD_V1 = ''rust-postcard-v1''"
definition FRAMED_FACT_MSG_TYPE :: u8 where "FRAMED_FACT_MSG_TYPE = 1"

datatype reject_reason =
    RejSalt8Length | RejCkUpLength | RejNonceLength | RejTagLength | RejEmptyCiphertext
  | RejCiphertextTooLarge | RejNonceSaltMismatch | RejNonceFcMismatch | RejUnsupportedFlags
  | RejUnsupportedMessageType | RejHeaderDeviceIdMismatch | RejDecryptFailed | RejInvalidFact
  | RejInvalidIngestProfile | RejPayloadDeviceIdMismatch | RejPayloadFcMismatch | RejDuplicate
  | RejOutOfWindow | RejContinuityBreak | RejResyncRequired | RejReplayNamespaceEmpty
  | RejReplayNamespaceMismatch

fun reject_reason_str :: "reject_reason \<Rightarrow> string" where
  "reject_reason_str RejSalt8Length = ''salt8_length''"
| "reject_reason_str RejCkUpLength = ''ck_up_length''"
| "reject_reason_str RejNonceLength = ''nonce_length''"
| "reject_reason_str RejTagLength = ''tag_length''"
| "reject_reason_str RejEmptyCiphertext = ''empty_ciphertext''"
| "reject_reason_str RejCiphertextTooLarge = ''ciphertext_too_large''"
| "reject_reason_str RejNonceSaltMismatch = ''nonce_salt_mismatch''"
| "reject_reason_str RejNonceFcMismatch = ''nonce_fc_mismatch''"
| "reject_reason_str RejUnsupportedFlags = ''unsupported_flags''"
| "reject_reason_str RejUnsupportedMessageType = ''unsupported_message_type''"
| "reject_reason_str RejHeaderDeviceIdMismatch = ''header_device_id_mismatch''"
| "reject_reason_str RejDecryptFailed = ''decrypt_failed''"
| "reject_reason_str RejInvalidFact = ''invalid_fact''"
| "reject_reason_str RejInvalidIngestProfile = ''invalid_ingest_profile''"
| "reject_reason_str RejPayloadDeviceIdMismatch = ''payload_device_id_mismatch''"
| "reject_reason_str RejPayloadFcMismatch = ''payload_fc_mismatch''"
| "reject_reason_str RejDuplicate = ''duplicate''"
| "reject_reason_str RejOutOfWindow = ''out_of_window''"
| "reject_reason_str RejContinuityBreak = ''continuity_break''"
| "reject_reason_str RejResyncRequired = ''resync_required''"
| "reject_reason_str RejReplayNamespaceEmpty = ''replay_namespace_empty''"
| "reject_reason_str RejReplayNamespaceMismatch = ''replay_namespace_mismatch''"

definition is_supported_ingest_profile :: "string option \<Rightarrow> bool" where
  "is_supported_ingest_profile raw \<longleftrightarrow> raw = None \<or> raw = Some INGEST_PROFILE_RUST_POSTCARD_V1"

definition validate_ingest_profile :: "string option \<Rightarrow> (unit, reject_reason) result" where
  "validate_ingest_profile raw =
     (if is_supported_ingest_profile raw then Ok () else Err RejInvalidIngestProfile)"

section \<open>Nonce\<close>

datatype framed_nonce_error = NonceLength | Salt8Length | SaltMismatch | FrameCounterMismatch

definition framed_nonce :: "bytes \<Rightarrow> u32 \<Rightarrow> bytes \<Rightarrow> bytes" where
  "framed_nonce salt8 fc tail8 = salt8 @ to_be_bytes (ucast fc :: u64) @ tail8"

definition validate_nonce_prefix :: "bytes \<Rightarrow> bytes \<Rightarrow> u32 \<Rightarrow> (unit, framed_nonce_error) result" where
  "validate_nonce_prefix nonce salt8 fc =
     (if length nonce \<noteq> AEAD_NONCE_LEN then Err NonceLength
      else if length salt8 \<noteq> 8 then Err Salt8Length
      else if take 8 nonce \<noteq> salt8 then Err SaltMismatch
      else
        let counter = (from_be_bytes (subslice nonce 8 16) :: u64) in
        if counter \<noteq> ucast fc then Err FrameCounterMismatch else Ok ())"

section \<open>Associated data and binding\<close>

datatype framed_fact_binding_error = BindPodIdMismatch | BindFrameCounterMismatch

definition legacy_dev_id_from_pod_id :: "pod_id \<Rightarrow> u16" where
  "legacy_dev_id_from_pod_id pod = from_be_bytes [pod ! 6, pod ! 7]"

definition framed_aad :: "u16 \<Rightarrow> u8 \<Rightarrow> u8 \<Rightarrow> bytes" where
  "framed_aad dev_id msg_type flags = to_be_bytes dev_id @ [msg_type, flags]"

definition framed_aad_for_pod :: "pod_id \<Rightarrow> u8 \<Rightarrow> u8 \<Rightarrow> bytes" where
  "framed_aad_for_pod pod msg_type flags = framed_aad (legacy_dev_id_from_pod_id pod) msg_type flags"

definition validate_fact_binding ::
  "fact \<Rightarrow> pod_id \<Rightarrow> u64 \<Rightarrow> (unit, framed_fact_binding_error) result" where
  "validate_fact_binding f expected_pod_id expected_fc =
     (if fact_pod_id f \<noteq> expected_pod_id then Err BindPodIdMismatch
      else if fact_fc f \<noteq> expected_fc then Err BindFrameCounterMismatch
      else Ok ())"

section \<open>Frames\<close>

text \<open>The postcard codec: serialization into a buffer of a capacity, and deserialization.\<close>

record postcard =
  pc_to_slice :: "fact \<Rightarrow> nat \<Rightarrow> bytes option"
  pc_from_bytes :: "bytes \<Rightarrow> fact option"

definition postcard_ok :: "postcard \<Rightarrow> bool" where
  "postcard_ok pc \<longleftrightarrow> (\<forall>f cap bs. pc_to_slice pc f cap = Some bs \<longrightarrow>
     bs \<noteq> [] \<and> length bs \<le> cap \<and> pc_from_bytes pc bs = Some f)"

record aead =
  ae_encrypt :: "bytes \<Rightarrow> bytes \<Rightarrow> bytes \<Rightarrow> nat \<Rightarrow> (bytes, core_error) result"
  ae_decrypt :: "bytes \<Rightarrow> bytes \<Rightarrow> bytes \<Rightarrow> nat \<Rightarrow> (bytes, core_error) result"

record encrypted_frame =
  enf_pod_id :: pod_id
  enf_fc :: u64
  enf_nonce :: bytes
  enf_ciphertext :: bytes

record frame_header =
  hd_dev_id :: u16
  hd_msg_type :: u8
  hd_fc :: u32
  hd_flags :: u8

record frame_input =
  fi_header :: frame_header
  fi_nonce :: bytes
  fi_ct :: bytes
  fi_tag :: bytes

record device_material =
  dm_expected_pod_id :: pod_id
  dm_salt8 :: bytes
  dm_ck_up :: bytes

record accepted_frame =
  af_header :: frame_header
  af_fact :: fact

definition encode_fact_postcard :: "postcard \<Rightarrow> fact \<Rightarrow> nat \<Rightarrow> (bytes, core_error) result" where
  "encode_fact_postcard pc f cap =
     and_then (map_err InvalidFact (fact_validate f)) (\<lambda>_. ok_or (pc_to_slice pc f cap) SerializeError)"

definition decode_fact_postcard :: "postcard \<Rightarrow> bytes \<Rightarrow> (fact, core_error) result" where
  "decode_fact_postcard pc bs =
     and_then (ok_or (pc_from_bytes pc bs) DeserializeError) (\<lambda>f.
     and_then (map_err InvalidFact (fact_validate f)) (\<lambda>_. Ok f))"

definition make_fact :: "pod_id \<Rightarrow> u64 \<Rightarrow> fact_payload \<Rightarrow> (fact, core_error) result" where
  "make_fact pod fc payload =
     (let kind = (case payload of PayloadEnv _ \<Rightarrow> KindEnv | PayloadCustom _ \<Rightarrow> KindCustom);
          f = \<lparr>fact_pod_id = pod, fact_fc = fc, fact_ingest_time = 0, fact_pod_time = None,
            fact_kind = kind, fact_payload = payload\<rparr> in
      and_then (map_err InvalidFact (fact_validate f)) (\<lambda>_. Ok f))"

text \<open>\<open>n\<close> is the capacity of the frame, the const parameter \<open>N\<close> of the source.\<close>

definition encrypt_fact ::
  "postcard \<Rightarrow> aead \<Rightarrow> nat \<Rightarrow> bytes \<Rightarrow> fact \<Rightarrow> (encrypted_frame, core_error) result" where
  "encrypt_fact pc cipher n nonce f =
     and_then (encode_fact_postcard pc f MAX_FACT_LEN) (\<lambda>used.
     let aad = framed_aad_for_pod (fact_pod_id f) 1 0 in
     if n < length used + AEAD_TAG_LEN then Err CiphertextTooLarge
     else
       and_then (map_err (\<lambda>_. CryptoError) (ae_encrypt cipher nonce aad used n)) (\<lambda>ct.
       if length ct \<le> n
       then Ok \<lparr>enf_pod_id = fact_pod_id f, enf_fc = fact_fc f, enf_nonce = nonce, enf_ciphertext = ct\<rparr>
       else Err CiphertextTooLarge))"

definition decrypt_fact ::
  "postcard \<Rightarrow> aead \<Rightarrow> encrypted_frame \<Rightarrow> pod_id \<Rightarrow> (fact, core_error) result" where
  "decrypt_fact pc cipher frame expected_pod_id =
     (if enf_pod_id frame \<noteq> expected_pod_id then Err CryptoError
      else
        let aad = framed_aad_for_pod (enf_pod_id frame) 1 0 in
        if MAX_FACT_LEN < length (enf_ciphertext frame) then Err DeserializeError
        else
          and_then (map_err (\<lambda>_. CryptoError)
            (ae_decrypt cipher (enf_nonce frame) aad (enf_ciphertext frame) MAX_FACT_LEN)) (\<lambda>plaintext.
          and_then (decode_fact_postcard pc plaintext) (\<lambda>f.
          and_then (map_err (\<lambda>_. CryptoError) (validate_fact_binding f expected_pod_id (enf_fc frame)))
            (\<lambda>_. Ok f))))"

section \<open>Admission\<close>

text \<open>XChaCha20-Poly1305 with a combined ciphertext and tag.\<close>

record xchacha =
  xc_encrypt :: "bytes \<Rightarrow> bytes \<Rightarrow> bytes \<Rightarrow> bytes \<Rightarrow> bytes option"
  xc_decrypt :: "bytes \<Rightarrow> bytes \<Rightarrow> bytes \<Rightarrow> bytes \<Rightarrow> bytes option"

definition xchacha_ok :: "xchacha \<Rightarrow> bool" where
  "xchacha_ok xc \<longleftrightarrow> (\<forall>key nonce aad msg ct. xc_encrypt xc key nonce aad msg = Some ct \<longrightarrow>
     length ct = length msg + AEAD_TAG_LEN \<and> xc_decrypt xc key nonce aad ct = Some msg)"

definition map_framed_nonce_error :: "framed_nonce_error \<Rightarrow> reject_reason" where
  "map_framed_nonce_error e = (case e of
       NonceLength \<Rightarrow> RejNonceLength
     | Salt8Length \<Rightarrow> RejSalt8Length
     | SaltMismatch \<Rightarrow> RejNonceSaltMismatch
     | FrameCounterMismatch \<Rightarrow> RejNonceFcMismatch)"

definition validate_and_decrypt ::
  "postcard \<Rightarrow> xchacha \<Rightarrow> frame_input \<Rightarrow> device_material \<Rightarrow> (accepted_frame, reject_reason) result" where
  "validate_and_decrypt pc xc frame device =
     (let hdr = fi_header frame in
      if length (fi_tag frame) \<noteq> AEAD_TAG_LEN then Err RejTagLength
      else if length (dm_ck_up device) \<noteq> 32 then Err RejCkUpLength
      else if fi_ct frame = [] then Err RejEmptyCiphertext
      else if length (fi_ct frame) > MAX_FRAME_CIPHERTEXT_BYTES then Err RejCiphertextTooLarge
      else if hd_flags hdr \<noteq> 0 then Err RejUnsupportedFlags
      else if hd_msg_type hdr \<noteq> FRAMED_FACT_MSG_TYPE then Err RejUnsupportedMessageType
      else if legacy_dev_id_from_pod_id (dm_expected_pod_id device) \<noteq> hd_dev_id hdr
      then Err RejHeaderDeviceIdMismatch
      else
        and_then (map_err map_framed_nonce_error
            (validate_nonce_prefix (fi_nonce frame) (dm_salt8 device) (hd_fc hdr))) (\<lambda>_.
        let aad = framed_aad (hd_dev_id hdr) (hd_msg_type hdr) (hd_flags hdr);
            combined = fi_ct frame @ fi_tag frame in
        and_then (ok_or (xc_decrypt xc (dm_ck_up device) (fi_nonce frame) aad combined) RejDecryptFailed)
          (\<lambda>plaintext.
        and_then (map_err (\<lambda>error. case error of InvalidFact _ \<Rightarrow> RejInvalidFact | _ \<Rightarrow> RejDecryptFailed)
            (decode_fact_postcard pc plaintext)) (\<lambda>f.
        and_then (map_err (\<lambda>reason. case reason of
              BindPodIdMismatch \<Rightarrow> RejPayloadDeviceIdMismatch
            | BindFrameCounterMismatch \<Rightarrow> RejPayloadFcMismatch)
            (validate_fact_binding f (dm_expected_pod_id device) (ucast (hd_fc hdr)))) (\<lambda>_.
        Ok \<lparr>af_header = hdr, af_fact = f\<rparr>)))))"

section \<open>Fixtures\<close>

datatype fixture_error = FixtureReject reject_reason | FixtureEncodeFailed | FixtureEncryptFailed

record framed_fixture =
  fx_dev_id :: u16
  fx_msg_type :: u8
  fx_fc :: u32
  fx_flags :: u8
  fx_nonce :: bytes
  fx_ct :: bytes
  fx_tag :: bytes

text \<open>The \<open>f32\<close> 20.0 is \<open>0x41A00000\<close>.\<close>

definition fixture_fact :: "pod_id \<Rightarrow> u32 \<Rightarrow> i64 \<Rightarrow> env_fact \<Rightarrow> fact" where
  "fixture_fact pod fc observed_at env = \<lparr>fact_pod_id = pod, fact_fc = ucast fc, fact_ingest_time = 0,
     fact_pod_time = Some observed_at, fact_kind = KindEnv, fact_payload = PayloadEnv env\<rparr>"

definition emit_fixture ::
  "postcard \<Rightarrow> xchacha \<Rightarrow> u16 \<Rightarrow> u32 \<Rightarrow> device_material \<Rightarrow> u8 \<Rightarrow> u8 \<Rightarrow> i64 option
     \<Rightarrow> (framed_fixture, fixture_error) result" where
  "emit_fixture pc xc dev_id fc device msg_type flags pod_time =
     (if length (dm_salt8 device) \<noteq> 8 then Err (FixtureReject RejSalt8Length)
      else if length (dm_ck_up device) \<noteq> 32 then Err (FixtureReject RejCkUpLength)
      else if flags \<noteq> 0 then Err (FixtureReject RejUnsupportedFlags)
      else if msg_type \<noteq> FRAMED_FACT_MSG_TYPE then Err (FixtureReject RejUnsupportedMessageType)
      else if legacy_dev_id_from_pod_id (dm_expected_pod_id device) \<noteq> dev_id
      then Err (FixtureReject RejHeaderDeviceIdMismatch)
      else
        let observed_at = (case pod_time of Some t \<Rightarrow> t | None \<Rightarrow> 1700000000 + ucast fc) in
        and_then (map_err (\<lambda>_. FixtureReject RejInvalidFact)
            (env_fact_instant AmbientAirTemperature observed_at 0x41A00000)) (\<lambda>env.
        and_then (map_err (\<lambda>_. FixtureEncodeFailed)
            (encode_fact_postcard pc (fixture_fact (dm_expected_pod_id device) fc observed_at env) MAX_FACT_LEN))
          (\<lambda>plaintext.
        let tail = to_be_bytes ((push_bit 48 (ucast dev_id) OR ucast fc) :: u64);
            nonce = framed_nonce (dm_salt8 device) fc tail;
            aad = framed_aad dev_id msg_type flags in
        and_then (ok_or (xc_encrypt xc (dm_ck_up device) nonce aad plaintext) FixtureEncryptFailed)
          (\<lambda>combined.
        let split_at = length combined - AEAD_TAG_LEN in
        Ok \<lparr>fx_dev_id = dev_id, fx_msg_type = msg_type, fx_fc = fc, fx_flags = flags, fx_nonce = nonce,
          fx_ct = take split_at combined, fx_tag = drop split_at combined\<rparr>))))"

section \<open>Rejection audit\<close>

datatype rejection_source = SourceParse | SourceDecrypt | SourceReplay

definition rejection_source_str :: "rejection_source \<Rightarrow> string" where
  "rejection_source_str s = (case s of
       SourceParse \<Rightarrow> ''parse'' | SourceDecrypt \<Rightarrow> ''decrypt'' | SourceReplay \<Rightarrow> ''replay'')"

record rejection_record =
  rr_device_id :: string
  rr_fc :: "u64 option"
  rr_reason :: string
  rr_observed_at_utc :: string
  rr_frame_sha256 :: string
  rr_source :: string

datatype rejection_audit_error = UnknownSource | UnknownReason | InvalidFrameHash

definition REJECTION_SOURCES :: "string list" where
  "REJECTION_SOURCES = [''parse'', ''decrypt'', ''replay'']"

definition REJECTION_REASONS :: "string list" where
  "REJECTION_REASONS =
     [''line_too_long'', ''invalid_json'', ''not_dict'', ''missing_frame_fields'',
      ''unexpected_frame_fields'', ''invalid_hdr'', ''invalid_frame_types'', ''missing_hdr_fields'',
      ''unexpected_hdr_fields'', ''invalid_hdr_types'', ''dev_id_range'', ''msg_type_range'',
      ''fc_range'', ''flags_range'', ''invalid_ingest_profile'', ''unsupported_flags'',
      ''unsupported_message_type'', ''header_device_id_mismatch'', ''unknown_device'',
      ''missing_pod_id'', ''invalid_pod_id'', ''missing_salt8'', ''invalid_base64'', ''salt8_length'',
      ''ck_up_length'', ''nonce_length'', ''tag_length'', ''empty_ciphertext'',
      ''ciphertext_too_large'', ''nonce_salt_mismatch'', ''nonce_fc_mismatch'', ''decrypt_failed'',
      ''invalid_fact'', ''payload_device_id_mismatch'', ''payload_fc_mismatch'', ''duplicate'',
      ''out_of_window'', ''continuity_break'', ''resync_required'', ''replay_namespace_empty'',
      ''replay_namespace_mismatch'']"

definition trim_line_end :: "string \<Rightarrow> string" where
  "trim_line_end s = rev (dropWhile (\<lambda>c. c = CHR 0x0D \<or> c = CHR 0x0A) (rev s))"

definition hash_rejected_line :: "(bytes \<Rightarrow> bytes) \<Rightarrow> string \<Rightarrow> string" where
  "hash_rejected_line H raw_line =
     concat (map (\<lambda>b. [HEX ! unat (drop_bit 4 b), HEX ! unat (b AND 0x0f)]) (H (str_bytes (trim_line_end raw_line))))"

text \<open>\<open>is_ascii_hexdigit\<close> and not \<open>is_ascii_uppercase\<close>.\<close>

definition lower_hex_digit :: "char \<Rightarrow> bool" where
  "lower_hex_digit c \<longleftrightarrow> (let n = (of_char c :: nat) in (48 \<le> n \<and> n \<le> 57 \<or> 97 \<le> n \<and> n \<le> 102 \<or> 65 \<le> n \<and> n \<le> 70)
     \<and> \<not> (65 \<le> n \<and> n \<le> 90))"

definition validate_rejection_record :: "rejection_record \<Rightarrow> (unit, rejection_audit_error) result" where
  "validate_rejection_record r =
     (if rr_source r \<notin> set REJECTION_SOURCES then Err UnknownSource
      else if rr_reason r \<notin> set REJECTION_REASONS then Err UnknownReason
      else if length (rr_frame_sha256 r) \<noteq> 64 \<or> \<not> list_all lower_hex_digit (rr_frame_sha256 r)
      then Err InvalidFrameHash
      else Ok ())"

definition rejection_record_new ::
  "string \<Rightarrow> u64 option \<Rightarrow> string \<Rightarrow> string \<Rightarrow> string \<Rightarrow> rejection_source
     \<Rightarrow> (rejection_record, rejection_audit_error) result" where
  "rejection_record_new device_id fc reason observed_at_utc frame_sha256 source =
     (let r = \<lparr>rr_device_id = device_id, rr_fc = fc, rr_reason = reason,
        rr_observed_at_utc = observed_at_utc, rr_frame_sha256 = frame_sha256,
        rr_source = rejection_source_str source\<rparr> in
      and_then (validate_rejection_record r) (\<lambda>_. Ok r))"

section \<open>The test cipher\<close>

text \<open>\<open>DummyAead\<close>: the message combined bytewise by exclusive or with the repeated key.\<close>

definition xor_key :: "bytes \<Rightarrow> bytes \<Rightarrow> bytes" where
  "xor_key key msg = map (\<lambda>(i, b). b XOR key ! (i mod length key)) (enumerate 0 msg)"

definition dummy_aead :: "bytes \<Rightarrow> aead" where
  "dummy_aead key = \<lparr>
     ae_encrypt = (\<lambda>_ _ plaintext cap. if cap < length plaintext then Err CryptoError else Ok (xor_key key plaintext)),
     ae_decrypt = (\<lambda>_ _ ciphertext cap. if cap < length ciphertext then Err CryptoError else Ok (xor_key key ciphertext))\<rparr>"

end
