(* ===== verification/Ingest_Admission.thy ===== *)
theory Ingest_Admission
  imports Ingest_Frame
begin

text \<open>
  Properties of framed telemetry: the nonce layout, the binding of an admitted fact to the provisioned
  identity, the round trips of frames and fixtures, and that every rejection can be audited.
\<close>

section \<open>Nonces\<close>

lemma length_framed_nonce: "length salt8 = 8 \<Longrightarrow> length tail8 = 8 \<Longrightarrow> length (framed_nonce salt8 fc tail8) = 24"
  by (simp add: framed_nonce_def)

lemma ucast_u32_inject [simp]: "(ucast a :: u64) = ucast b \<longleftrightarrow> a = b" for a b :: u32
proof -
  have "unat (ucast x :: u64) = unat x" for x :: u32
    by (rule unat_ucast_small) (rule order.strict_trans [OF unat_u32_less], simp)
  then show ?thesis by (metis word_unat_eq_iff)
qed

lemma framed_nonce_inject:
  "length salt = 8 \<Longrightarrow> length salt' = 8 \<Longrightarrow>
   framed_nonce salt fc tail8 = framed_nonce salt' fc' tail' \<longleftrightarrow> salt = salt' \<and> fc = fc' \<and> tail8 = tail'"
  by (auto simp: framed_nonce_def)

lemma validate_nonce_prefix_Ok_iff:
  "validate_nonce_prefix nonce salt8 fc = Ok () \<longleftrightarrow>
     length salt8 = 8 \<and> (\<exists>tail8. length tail8 = 8 \<and> nonce = framed_nonce salt8 fc tail8)"
proof
  assume a: "validate_nonce_prefix nonce salt8 fc = Ok ()"
  then have len: "length nonce = 24" "length salt8 = 8" and salt: "take 8 nonce = salt8"
    and c: "(from_be_bytes (subslice nonce 8 16) :: u64) = ucast fc"
    by (auto simp: validate_nonce_prefix_def AEAD_NONCE_LEN_def Let_def split: if_splits)
  have "to_be_bytes (ucast fc :: u64) = subslice nonce 8 16"
    using to_from_be_u64 [of "subslice nonce 8 16"] c len by simp
  moreover have "nonce = take 8 nonce @ subslice nonce 8 16 @ drop 16 nonce"
    using append_take_drop_id [of 8 "drop 8 nonce"] append_take_drop_id [of 8 nonce] by (simp add: subslice_def)
  ultimately have "nonce = framed_nonce salt8 fc (drop 16 nonce)" using salt by (simp add: framed_nonce_def)
  moreover have "length (drop 16 nonce) = 8" using len by simp
  ultimately show "length salt8 = 8 \<and> (\<exists>tail8. length tail8 = 8 \<and> nonce = framed_nonce salt8 fc tail8)"
    using len by blast
next
  assume "length salt8 = 8 \<and> (\<exists>tail8. length tail8 = 8 \<and> nonce = framed_nonce salt8 fc tail8)"
  then show "validate_nonce_prefix nonce salt8 fc = Ok ()"
    by (auto simp: validate_nonce_prefix_def AEAD_NONCE_LEN_def framed_nonce_def Let_def subslice_def)
qed

section \<open>The cipher interface\<close>

locale aead_cipher =
  fixes cipher :: aead
  assumes encrypt_fits: "ae_encrypt cipher nonce aad msg cap = Ok ct \<Longrightarrow> length ct \<le> cap"
    and decrypt_encrypt: "ae_encrypt cipher nonce aad msg cap = Ok ct \<Longrightarrow> length ct \<le> cap' \<Longrightarrow>
      ae_decrypt cipher nonce aad ct cap' = Ok msg"
begin

lemma encrypt_fact_Ok:
  assumes "encrypt_fact pc cipher n nonce f = Ok frame"
  obtains used where "fact_validate f = Ok ()" "pc_to_slice pc f MAX_FACT_LEN = Some used"
    "ae_encrypt cipher nonce (framed_aad_for_pod (fact_pod_id f) 1 0) used n = Ok (enf_ciphertext frame)"
    "enf_pod_id frame = fact_pod_id f" "enf_fc frame = fact_fc f" "enf_nonce frame = nonce"
  using assms
  by (auto simp: encrypt_fact_def encode_fact_postcard_def and_then_Ok_iff ok_or_Ok_iff Let_def split: if_splits)

lemma decrypt_encrypt_fact:
  assumes "postcard_ok pc" and "encrypt_fact pc cipher n nonce f = Ok frame"
  shows "decrypt_fact pc cipher frame (fact_pod_id f)
    = (if length (enf_ciphertext frame) \<le> MAX_FACT_LEN then Ok f else Err DeserializeError)"
proof -
  obtain used where v: "fact_validate f = Ok ()" and u: "pc_to_slice pc f MAX_FACT_LEN = Some used"
    and e: "ae_encrypt cipher nonce (framed_aad_for_pod (fact_pod_id f) 1 0) used n = Ok (enf_ciphertext frame)"
    and fr: "enf_pod_id frame = fact_pod_id f" "enf_fc frame = fact_fc f" "enf_nonce frame = nonce"
    using assms(2) by (rule encrypt_fact_Ok)
  have "decode_fact_postcard pc used = Ok f"
    using assms(1) u v by (auto simp: postcard_ok_def decode_fact_postcard_def)
  with fr decrypt_encrypt [OF e] show ?thesis
    by (auto simp: decrypt_fact_def Let_def validate_fact_binding_def)
qed

end

lemma length_xor_key [simp]: "length (xor_key key msg) = length msg"
  by (simp add: xor_key_def)

lemma xor_key_involutive: "xor_key key (xor_key key msg) = msg"
  by (rule nth_equalityI) (simp_all add: xor_key_def nth_enumerate_eq xor.assoc)

text \<open>\<open>DummyAead\<close> meets the contract for every key.\<close>

interpretation dummy: aead_cipher "dummy_aead key" for key
  by unfold_locales (auto simp: dummy_aead_def xor_key_involutive split: if_splits)

section \<open>Fixtures\<close>

text \<open>A fixture as the frame a gateway receives.\<close>

definition fixture_frame :: "framed_fixture \<Rightarrow> frame_input" where
  "fixture_frame fx = \<lparr>fi_header = \<lparr>hd_dev_id = fx_dev_id fx, hd_msg_type = fx_msg_type fx, hd_fc = fx_fc fx,
     hd_flags = fx_flags fx\<rparr>, fi_nonce = fx_nonce fx, fi_ct = fx_ct fx, fi_tag = fx_tag fx\<rparr>"

definition observed_time :: "u32 \<Rightarrow> i64 option \<Rightarrow> i64" where
  "observed_time fc pod_time = (case pod_time of Some t \<Rightarrow> t | None \<Rightarrow> 1700000000 + ucast fc)"

definition fixture_env :: "i64 \<Rightarrow> env_fact" where
  "fixture_env t = \<lparr>ef_sample_type = AmbientAirTemperature, ef_phenomenon_time_start = t,
     ef_phenomenon_time_end = t, ef_value = Some 0x41A00000, ef_min = None, ef_max = None, ef_mean = None,
     ef_count = Some 1, ef_quality = None, ef_sensor_channel = None\<rparr>"

lemma env_fact_instant_fixture: "env_fact_instant AmbientAirTemperature t 0x41A00000 = Ok (fixture_env t)"
  by (simp add: env_fact_instant_def env_fact_validate_def fixture_env_def f32_is_finite_def)

lemma emit_fixture_Ok:
  assumes "emit_fixture pc xc dev_id fc device msg_type flags pod_time = Ok fx"
  obtains plaintext combined tail8 where "length (dm_salt8 device) = 8" "length (dm_ck_up device) = 32"
    "flags = 0" "msg_type = 1" "legacy_dev_id_from_pod_id (dm_expected_pod_id device) = dev_id"
    "fact_validate (fixture_fact (dm_expected_pod_id device) fc (observed_time fc pod_time)
        (fixture_env (observed_time fc pod_time))) = Ok ()"
    "pc_to_slice pc (fixture_fact (dm_expected_pod_id device) fc (observed_time fc pod_time)
        (fixture_env (observed_time fc pod_time))) MAX_FACT_LEN = Some plaintext"
    "length tail8 = 8"
    "xc_encrypt xc (dm_ck_up device) (framed_nonce (dm_salt8 device) fc tail8) (framed_aad dev_id 1 0) plaintext
       = Some combined"
    "fx = \<lparr>fx_dev_id = dev_id, fx_msg_type = 1, fx_fc = fc, fx_flags = 0,
       fx_nonce = framed_nonce (dm_salt8 device) fc tail8,
       fx_ct = take (length combined - 16) combined, fx_tag = drop (length combined - 16) combined\<rparr>"
proof -
  let ?tail = "to_be_bytes ((push_bit 48 (ucast dev_id) OR ucast fc) :: u64)"
  have "length ?tail = 8" by simp
  with assms that [of _ ?tail] show thesis
    by (auto simp: emit_fixture_def encode_fact_postcard_def env_fact_instant_fixture and_then_Ok_iff ok_or_Ok_iff
        Let_def AEAD_TAG_LEN_def FRAMED_FACT_MSG_TYPE_def observed_time_def split: if_splits)
qed

lemma fixture_admitted:
  assumes "postcard_ok pc" and "xchacha_ok xc"
    and "emit_fixture pc xc dev_id fc device msg_type flags pod_time = Ok fx"
  shows "validate_and_decrypt pc xc (fixture_frame fx) device = Ok \<lparr>af_header = fi_header (fixture_frame fx),
     af_fact = fixture_fact (dm_expected_pod_id device) fc (observed_time fc pod_time)
       (fixture_env (observed_time fc pod_time))\<rparr>"
proof -
  let ?f = "fixture_fact (dm_expected_pod_id device) fc (observed_time fc pod_time)
    (fixture_env (observed_time fc pod_time))"
  obtain plaintext combined tail8 where dev: "length (dm_salt8 device) = 8" "length (dm_ck_up device) = 32"
      "legacy_dev_id_from_pod_id (dm_expected_pod_id device) = dev_id"
    and v: "fact_validate ?f = Ok ()" and u: "pc_to_slice pc ?f MAX_FACT_LEN = Some plaintext"
    and t: "length tail8 = 8"
    and e: "xc_encrypt xc (dm_ck_up device) (framed_nonce (dm_salt8 device) fc tail8) (framed_aad dev_id 1 0)
      plaintext = Some combined"
    and fx: "fx = \<lparr>fx_dev_id = dev_id, fx_msg_type = 1, fx_fc = fc, fx_flags = 0,
       fx_nonce = framed_nonce (dm_salt8 device) fc tail8,
       fx_ct = take (length combined - 16) combined, fx_tag = drop (length combined - 16) combined\<rparr>"
    using assms(3) by (rule emit_fixture_Ok)
  have p: "plaintext \<noteq> []" "length plaintext \<le> 256" "pc_from_bytes pc plaintext = Some ?f"
    using assms(1) u by (auto simp: postcard_ok_def MAX_FACT_LEN_def)
  have c: "length combined = length plaintext + 16"
    "xc_decrypt xc (dm_ck_up device) (framed_nonce (dm_salt8 device) fc tail8) (framed_aad dev_id 1 0) combined
      = Some plaintext"
    using assms(2) e by (auto simp: xchacha_ok_def AEAD_TAG_LEN_def)
  have n: "validate_nonce_prefix (framed_nonce (dm_salt8 device) fc tail8) (dm_salt8 device) fc = Ok ()"
    using dev t by (auto simp: validate_nonce_prefix_Ok_iff)
  have b: "validate_fact_binding ?f (dm_expected_pod_id device) (ucast fc) = Ok ()"
    by (simp add: validate_fact_binding_def fixture_fact_def)
  have d: "decode_fact_postcard pc plaintext = Ok ?f" using p v by (simp add: decode_fact_postcard_def)
  have "combined \<noteq> []" using c by auto
  with c p dev n b d fx show ?thesis
    by (simp add: validate_and_decrypt_def fixture_frame_def Let_def AEAD_TAG_LEN_def
        MAX_FRAME_CIPHERTEXT_BYTES_def FRAMED_FACT_MSG_TYPE_def)
qed

text \<open>A codec and a cipher that meet the hypotheses, on one fact.\<close>

definition example_device :: device_material where
  "example_device = \<lparr>dm_expected_pod_id = pod_id_from_u32 7, dm_salt8 = replicate 8 0x11, dm_ck_up = replicate 32 0x22\<rparr>"

definition example_fixture_fact :: fact where
  "example_fixture_fact = fixture_fact (pod_id_from_u32 7) 3 0 (fixture_env 0)"

definition example_postcard :: "fact \<Rightarrow> postcard" where
  "example_postcard f = \<lparr>pc_to_slice = (\<lambda>g cap. if g = f \<and> 1 \<le> cap then Some [1] else None),
     pc_from_bytes = (\<lambda>bs. if bs = [1] then Some f else None)\<rparr>"

definition example_xchacha :: xchacha where
  "example_xchacha = \<lparr>xc_encrypt = (\<lambda>_ _ _ msg. Some (msg @ replicate 16 0)),
     xc_decrypt = (\<lambda>_ _ _ ct. Some (take (length ct - 16) ct))\<rparr>"

lemma example_postcard_ok: "postcard_ok (example_postcard f)"
  by (auto simp: postcard_ok_def example_postcard_def split: if_splits)

lemma example_xchacha_ok: "xchacha_ok example_xchacha"
  by (auto simp: xchacha_ok_def example_xchacha_def AEAD_TAG_LEN_def)

definition example_fixture :: framed_fixture where
  "example_fixture = \<lparr>fx_dev_id = 7, fx_msg_type = 1, fx_fc = 3, fx_flags = 0,
     fx_nonce = framed_nonce (replicate 8 0x11) 3 (to_be_bytes ((push_bit 48 7 OR 3) :: u64)),
     fx_ct = [1], fx_tag = replicate 16 0\<rparr>"

lemma example_dev_id: "legacy_dev_id_from_pod_id (pod_id_from_u32 7) = 7"
  by code_simp

lemma example_emits:
  "emit_fixture (example_postcard example_fixture_fact) example_xchacha 7 3 example_device 1 0 (Some 0)
     = Ok example_fixture"
proof -
  have "fact_validate example_fixture_fact = Ok ()" by code_simp
  then show ?thesis
    by (simp add: emit_fixture_def example_device_def FRAMED_FACT_MSG_TYPE_def example_dev_id
        env_fact_instant_fixture encode_fact_postcard_def example_fixture_fact_def example_postcard_def
        MAX_FACT_LEN_def example_xchacha_def AEAD_TAG_LEN_def example_fixture_def Let_def)
qed

section \<open>Rejection audit\<close>

lemma reject_reason_listed: "reject_reason_str r \<in> set REJECTION_REASONS"
  by (cases r) (simp_all add: REJECTION_REASONS_def)

lemma rejection_source_listed: "rejection_source_str s \<in> set REJECTION_SOURCES"
  by (cases s) (simp_all add: REJECTION_SOURCES_def rejection_source_str_def)

lemma lower_hex_HEX: "n < 16 \<Longrightarrow> lower_hex_digit (HEX ! n)"
proof -
  have "\<forall>n < 16. lower_hex_digit (HEX ! n)" unfolding all_less_16 by code_simp
  then show "n < 16 \<Longrightarrow> lower_hex_digit (HEX ! n)" by blast
qed

lemma hash_rejected_line_hex:
  assumes "\<forall>x. length (H x) = 32"
  shows "length (hash_rejected_line H line) = 64 \<and> list_all lower_hex_digit (hash_rejected_line H line)"
proof -
  have digits: "lower_hex_digit (HEX ! unat (drop_bit 4 b))" "lower_hex_digit (HEX ! unat (b AND 0x0f))" for b :: u8
    by (rule lower_hex_HEX, rule nibble_bounds)+
  have "length (concat (map (\<lambda>b. [HEX ! unat (drop_bit 4 b), HEX ! unat (b AND 0x0f)]) bs)) = 2 * length bs"
    "list_all lower_hex_digit (concat (map (\<lambda>b. [HEX ! unat (drop_bit 4 b), HEX ! unat (b AND 0x0f)]) bs))" for bs :: bytes
    by (induction bs) (simp_all add: digits)
  with assms show ?thesis by (simp add: hash_rejected_line_def)
qed

section \<open>Properties\<close>

text \<open>The nonce check accepts exactly the nonces of the framed layout: the provisioned salt, the
  header's counter as eight big-endian bytes, and any eight-byte tail.\<close>

lemma nonce_check_accepts_exactly_framed_nonces:
  "validate_nonce_prefix nonce salt8 fc = Ok () \<longleftrightarrow>
     length salt8 = 8 \<and> (\<exists>tail8. length tail8 = 8 \<and> nonce = framed_nonce salt8 fc tail8)"
  by (rule validate_nonce_prefix_Ok_iff)

text \<open>C9: Whatever the cipher and the codec do, an admitted frame is bound to the provisioned identity:
  the fact carries the complete expected pod identifier and the header's counter and is valid, the
  header names that identifier's routing suffix, type 1 and no flags, the nonce starts with the
  device's salt and the counter, and the ciphertext, within its limit, was authenticated together
  with the header under the device's key.\<close>

theorem admitted_fact_is_bound_to_device:
  assumes "validate_and_decrypt pc xc frame device = Ok accepted"
  shows "af_header accepted = fi_header frame
    \<and> fact_pod_id (af_fact accepted) = dm_expected_pod_id device
    \<and> fact_fc (af_fact accepted) = ucast (hd_fc (fi_header frame))
    \<and> fact_validate (af_fact accepted) = Ok ()
    \<and> hd_dev_id (fi_header frame) = legacy_dev_id_from_pod_id (dm_expected_pod_id device)
    \<and> hd_msg_type (fi_header frame) = 1 \<and> hd_flags (fi_header frame) = 0
    \<and> (\<exists>tail8. length tail8 = 8 \<and> fi_nonce frame = framed_nonce (dm_salt8 device) (hd_fc (fi_header frame)) tail8)
    \<and> 0 < length (fi_ct frame) \<and> length (fi_ct frame) \<le> 256
    \<and> (\<exists>plaintext. xc_decrypt xc (dm_ck_up device) (fi_nonce frame)
          (framed_aad (hd_dev_id (fi_header frame)) 1 0) (fi_ct frame @ fi_tag frame) = Some plaintext
        \<and> pc_from_bytes pc plaintext = Some (af_fact accepted))"
proof -
  from assms have pre: "length (fi_tag frame) = 16" "fi_ct frame \<noteq> []" "length (fi_ct frame) \<le> 256"
    "hd_flags (fi_header frame) = 0" "hd_msg_type (fi_header frame) = 1"
    "legacy_dev_id_from_pod_id (dm_expected_pod_id device) = hd_dev_id (fi_header frame)"
    by (auto simp: validate_and_decrypt_def Let_def AEAD_TAG_LEN_def MAX_FRAME_CIPHERTEXT_BYTES_def
        FRAMED_FACT_MSG_TYPE_def split: if_splits)
  with assms obtain plaintext f where
    n: "validate_nonce_prefix (fi_nonce frame) (dm_salt8 device) (hd_fc (fi_header frame)) = Ok ()"
    and p: "xc_decrypt xc (dm_ck_up device) (fi_nonce frame)
      (framed_aad (hd_dev_id (fi_header frame)) 1 0) (fi_ct frame @ fi_tag frame) = Some plaintext"
    and f: "decode_fact_postcard pc plaintext = Ok f"
    and b: "validate_fact_binding f (dm_expected_pod_id device) (ucast (hd_fc (fi_header frame))) = Ok ()"
    and a: "accepted = \<lparr>af_header = fi_header frame, af_fact = f\<rparr>"
    by (auto simp: validate_and_decrypt_def Let_def and_then_Ok_iff ok_or_Ok_iff split: if_splits)
  from f have "fact_validate f = Ok ()" "pc_from_bytes pc plaintext = Some f"
    by (auto simp: decode_fact_postcard_def and_then_Ok_iff ok_or_Ok_iff)
  moreover from b have "fact_pod_id f = dm_expected_pod_id device" "fact_fc f = ucast (hd_fc (fi_header frame))"
    by (auto simp: validate_fact_binding_def split: if_splits)
  moreover note iffD1 [OF validate_nonce_prefix_Ok_iff n]
  ultimately show ?thesis using pre p a by auto
qed

theorem admitted_fact_is_bound_to_device_witness:
  "\<exists>accepted. validate_and_decrypt (example_postcard example_fixture_fact) example_xchacha
      (fixture_frame example_fixture) example_device = Ok accepted
    \<and> fact_pod_id (af_fact accepted) = pod_id_from_u32 7 \<and> fact_fc (af_fact accepted) = 3"
proof -
  note a = fixture_admitted [OF example_postcard_ok example_xchacha_ok example_emits]
  from admitted_fact_is_bound_to_device [OF a] a show ?thesis
    by (auto simp: fixture_frame_def example_fixture_def example_device_def)
qed

text \<open>C33: A frame that the fixture emitter writes for a device is admitted for that device, with
  exactly the fact that was emitted, given that the codec and the cipher invert their encodings.\<close>

theorem emitted_fixture_is_admitted:
  assumes "postcard_ok pc" and "xchacha_ok xc"
    and "emit_fixture pc xc dev_id fc device msg_type flags pod_time = Ok fx"
  shows "validate_and_decrypt pc xc (fixture_frame fx) device = Ok \<lparr>af_header = fi_header (fixture_frame fx),
     af_fact = fixture_fact (dm_expected_pod_id device) fc (observed_time fc pod_time)
       (fixture_env (observed_time fc pod_time))\<rparr>"
  using assms by (rule fixture_admitted)

theorem emitted_fixture_is_admitted_witness:
  "validate_and_decrypt (example_postcard example_fixture_fact) example_xchacha
      (fixture_frame example_fixture) example_device
    = Ok \<lparr>af_header = fi_header (fixture_frame example_fixture), af_fact = example_fixture_fact\<rparr>"
  using emitted_fixture_is_admitted [OF example_postcard_ok example_xchacha_ok example_emits]
  by (simp add: example_fixture_fact_def example_device_def observed_time_def)

text \<open>Every rejection can be recorded: for each reason of the admission and replay checks, each
  source and each rejected line, the audit accepts the record and keeps its fields.\<close>

lemma every_rejection_is_auditable:
  assumes "\<forall>x. length (H x) = 32"
  shows "rejection_record_new device_id fc (reject_reason_str reason) observed (hash_rejected_line H line) source
    = Ok \<lparr>rr_device_id = device_id, rr_fc = fc, rr_reason = reject_reason_str reason,
        rr_observed_at_utc = observed, rr_frame_sha256 = hash_rejected_line H line,
        rr_source = rejection_source_str source\<rparr>"
  using hash_rejected_line_hex [OF assms]
  by (simp add: rejection_record_new_def validate_rejection_record_def reject_reason_listed
      rejection_source_listed Let_def)

end
