(* ===== verification/Ingest_Replay.thy ===== *)
theory Ingest_Replay
  imports Ingest_Frame
begin

text \<open>
  The durable replay window (\<open>crates/trackone-ingest/src/replay.rs\<close>).  The \<open>BTreeSet\<close> of counters is
  a set; \<open>seen_fcs\<close> lists it in order.  A run offers counters to a window, with restarts through a
  snapshot in between; the invariant of its states gives that no counter is ever accepted twice, that
  the memory of the window is bounded, and that a snapshot restores it.
\<close>

section \<open>Definitions\<close>

record replay_window =
  rw_window_size :: u64
  rw_highest_fc_seen :: "u64 option"
  rw_seen :: "u64 set"

record replay_window_snapshot =
  rs_version :: u8
  rs_namespace :: string
  rs_window_size :: u64
  rs_highest_fc_seen :: "u64 option"
  rs_seen_fcs :: "u64 list"

definition replay_window_new :: "u64 \<Rightarrow> u64 option \<Rightarrow> replay_window" where
  "replay_window_new window_size highest_fc_seen =
     \<lparr>rw_window_size = window_size, rw_highest_fc_seen = highest_fc_seen,
      rw_seen = (case highest_fc_seen of None \<Rightarrow> {} | Some fc \<Rightarrow> {fc})\<rparr>"

definition from_snapshot :: "string \<Rightarrow> replay_window_snapshot \<Rightarrow> (replay_window, reject_reason) result" where
  "from_snapshot expected_namespace snap =
     (if trim_is_empty expected_namespace \<or> trim_is_empty (rs_namespace snap) then Err RejReplayNamespaceEmpty
      else if rs_namespace snap \<noteq> expected_namespace then Err RejReplayNamespaceMismatch
      else if rs_version snap \<noteq> 1 \<or> rs_window_size snap = 0 then Err RejContinuityBreak
      else
        let seen = set (rs_seen_fcs snap) in
        case rs_highest_fc_seen snap of
          Some highest \<Rightarrow>
            let seen = insert highest seen;
                lower = saturating_sub highest (rs_window_size snap) in
            if \<exists>fc \<in> seen. fc < lower \<or> fc > highest then Err RejContinuityBreak
            else Ok \<lparr>rw_window_size = rs_window_size snap, rw_highest_fc_seen = Some highest, rw_seen = seen\<rparr>
        | None \<Rightarrow>
            if seen \<noteq> {} then Err RejContinuityBreak
            else Ok \<lparr>rw_window_size = rs_window_size snap, rw_highest_fc_seen = None, rw_seen = seen\<rparr>)"

definition seen_fcs :: "replay_window \<Rightarrow> u64 list" where
  "seen_fcs w = sorted_list_of_set (rw_seen w)"

definition snapshot :: "replay_window \<Rightarrow> string \<Rightarrow> (replay_window_snapshot, reject_reason) result" where
  "snapshot w namespace =
     (if trim_is_empty namespace then Err RejReplayNamespaceEmpty
      else Ok \<lparr>rs_version = 1, rs_namespace = namespace, rs_window_size = rw_window_size w,
        rs_highest_fc_seen = rw_highest_fc_seen w, rs_seen_fcs = seen_fcs w\<rparr>)"

definition check_and_update :: "replay_window \<Rightarrow> u64 \<Rightarrow> (unit, reject_reason) result \<times> replay_window" where
  "check_and_update w fc =
     (case rw_highest_fc_seen w of
        None \<Rightarrow> (Ok (), w\<lparr>rw_highest_fc_seen := Some fc, rw_seen := insert fc (rw_seen w)\<rparr>)
      | Some highest \<Rightarrow>
          if fc \<in> rw_seen w then (Err RejDuplicate, w)
          else if fc < highest \<and> highest - fc > rw_window_size w then (Err RejOutOfWindow, w)
          else if fc > highest \<and> fc - highest > rw_window_size w then (Err RejOutOfWindow, w)
          else
            let w = (if fc > highest then
                  w\<lparr>rw_highest_fc_seen := Some fc,
                    rw_seen := Set.filter (\<lambda>seen_fc. seen_fc \<ge> saturating_sub fc (rw_window_size w)) (rw_seen w)\<rparr>
                else w)
            in (Ok (), w\<lparr>rw_seen := insert fc (rw_seen w)\<rparr>))"

section \<open>Runs\<close>

text \<open>The counters a window accepted since it was new, through operations and restarts.\<close>

inductive replay_run :: "u64 \<Rightarrow> u64 list \<Rightarrow> replay_window \<Rightarrow> bool" for width :: u64 where
  fresh_window: "replay_run width [] (replay_window_new width None)"
| accepted: "replay_run width fcs w \<Longrightarrow> check_and_update w fc = (Ok (), w') \<Longrightarrow> replay_run width (fcs @ [fc]) w'"
| rejected: "replay_run width fcs w \<Longrightarrow> check_and_update w fc = (Err e, w') \<Longrightarrow> replay_run width fcs w'"
| restarted: "replay_run width fcs w \<Longrightarrow> snapshot w namespace = Ok snap \<Longrightarrow>
    from_snapshot namespace snap = Ok w' \<Longrightarrow> replay_run width fcs w'"

text \<open>The invariant: the highest counter is seen, every remembered counter is in the window below it,
  and an accepted counter that is no longer remembered is below the window.\<close>

definition window_inv :: "u64 \<Rightarrow> u64 list \<Rightarrow> replay_window \<Rightarrow> bool" where
  "window_inv width fcs w \<longleftrightarrow> rw_window_size w = width \<and> distinct fcs
     \<and> (case rw_highest_fc_seen w of
          None \<Rightarrow> fcs = [] \<and> rw_seen w = {}
        | Some h \<Rightarrow> h \<in> rw_seen w \<and> rw_seen w \<subseteq> set fcs
            \<and> (\<forall>fc \<in> rw_seen w. unat h \<le> unat fc + unat width \<and> fc \<le> h)
            \<and> (\<forall>fc \<in> set fcs. fc \<in> rw_seen w \<or> unat fc + unat width < unat h))"

lemma check_and_update_Err: "check_and_update w fc = (Err e, w') \<Longrightarrow> w' = w"
  by (auto simp: check_and_update_def Let_def split: option.splits if_splits)

lemma unat_minus_le: "b \<le> a \<Longrightarrow> unat (a - b) = unat a - unat b" for a b :: u64
  by (simp add: unat_sub)

lemma accepted_inv:
  assumes "window_inv width fcs w" and "check_and_update w fc = (Ok (), w')"
  shows "window_inv width (fcs @ [fc]) w' \<and> fc \<notin> set fcs"
proof (cases "rw_highest_fc_seen w")
  case None
  with assms show ?thesis by (auto simp: window_inv_def check_and_update_def)
next
  case (Some h)
  let ?width = "rw_window_size w"
  from assms(2) Some have new: "fc \<notin> rw_seen w" and lo: "\<not> (fc < h \<and> h - fc > ?width)"
    and hi: "\<not> (fc > h \<and> fc - h > ?width)"
    by (auto simp: check_and_update_def split: if_splits)
  have inv: "?width = width" "distinct fcs" "h \<in> rw_seen w" "rw_seen w \<subseteq> set fcs"
    "\<forall>x \<in> rw_seen w. unat h \<le> unat x + unat width \<and> x \<le> h"
    "\<forall>x \<in> set fcs. x \<in> rw_seen w \<or> unat x + unat width < unat h"
    using assms(1) Some by (simp_all add: window_inv_def)
  have near: "unat h \<le> unat fc + unat width"
  proof (cases "fc < h")
    case True
    with lo inv(1) have "unat (h - fc) \<le> unat width" by (simp add: word_le_nat_alt not_less)
    with True show ?thesis by (simp add: unat_minus_le less_imp_le)
  qed (simp add: word_le_nat_alt not_less)
  with inv(6) new have fresh: "fc \<notin> set fcs" by force
  show ?thesis
  proof (cases "fc > h")
    case True
    let ?low = "saturating_sub fc width"
    have low: "x \<ge> ?low \<longleftrightarrow> unat fc \<le> unat x + unat width" for x
      by (auto simp: word_le_nat_alt unat_saturating_sub)
    have w': "rw_highest_fc_seen w' = Some fc" "rw_window_size w' = width"
      "rw_seen w' = insert fc {x \<in> rw_seen w. x \<ge> ?low}"
      using assms(2) Some new lo hi True inv(1) by (auto simp: check_and_update_def Let_def Set.filter_eq)
    have "x \<in> rw_seen w' \<or> unat x + unat width < unat fc" if "x \<in> set fcs" for x
      using that inv(6) True low [of x] w'(3) by (force simp: word_less_nat_alt not_le)
    moreover have "unat fc \<le> unat x + unat width \<and> x \<le> fc" if "x \<in> rw_seen w'" for x
      using that w'(3) low [of x] inv(5) True by (auto simp: less_imp_le dest: order.strict_trans1)
    ultimately show ?thesis
      using w' inv(2,4) fresh by (auto simp: window_inv_def)
  next
    case False
    then have w': "w' = w\<lparr>rw_seen := insert fc (rw_seen w)\<rparr>"
      using assms(2) Some new lo by (auto simp: check_and_update_def)
    with Some inv near fresh False show ?thesis by (auto simp: window_inv_def)
  qed
qed

lemma finite_u64 [simp]: "finite (A :: u64 set)"
  by (rule finite)

lemma restarted_inv:
  assumes "snapshot w namespace = Ok snap" and "window_inv width fcs w"
  shows "from_snapshot namespace snap = (if width = 0 then Err RejContinuityBreak else Ok w)"
proof -
  have ns: "\<not> trim_is_empty namespace" and snap: "snap = \<lparr>rs_version = 1, rs_namespace = namespace,
      rs_window_size = rw_window_size w, rs_highest_fc_seen = rw_highest_fc_seen w, rs_seen_fcs = seen_fcs w\<rparr>"
    using assms(1) by (auto simp: snapshot_def split: if_splits)
  have seen: "set (seen_fcs w) = rw_seen w" by (simp add: seen_fcs_def)
  have width: "rw_window_size w = width" using assms(2) by (simp add: window_inv_def)
  show ?thesis
  proof (cases "rw_highest_fc_seen w")
    case None
    with assms(2) ns snap seen width show ?thesis by (auto simp: from_snapshot_def window_inv_def)
  next
    case (Some h)
    have h: "h \<in> rw_seen w" and win: "\<forall>fc \<in> rw_seen w. unat h \<le> unat fc + unat width \<and> fc \<le> h"
      using assms(2) Some by (simp_all add: window_inv_def)
    have "\<not> (\<exists>fc \<in> rw_seen w. fc < saturating_sub h width \<or> fc > h)"
      using win by (auto simp: word_less_nat_alt word_le_nat_alt unat_saturating_sub)
    with Some h ns snap seen width show ?thesis
      by (cases w) (auto simp: from_snapshot_def insert_absorb)
  qed
qed

lemma replay_run_inv: "replay_run width fcs w \<Longrightarrow> window_inv width fcs w"
proof (induction rule: replay_run.induct)
  case fresh_window
  then show ?case by (simp add: window_inv_def replay_window_new_def)
next
  case (accepted fcs w fc w')
  then show ?case using accepted_inv by blast
next
  case (rejected fcs w fc e w')
  then show ?case using check_and_update_Err by blast
next
  case (restarted fcs w namespace snap w')
  then show ?case using restarted_inv [OF restarted(2)] by (auto split: if_splits)
qed

lemma accepted_refused:
  assumes "replay_run width fcs w" and "fc \<in> set fcs"
  shows "\<exists>e. check_and_update w fc = (Err e, w)"
proof (cases "fst (check_and_update w fc)")
  case (Inl e)
  then show ?thesis using check_and_update_Err [of w fc e] by (metis prod.collapse)
next
  case (Inr u)
  then have "check_and_update w fc = (Ok (), snd (check_and_update w fc))" by (simp add: prod_eq_iff)
  from accepted_inv [OF replay_run_inv [OF assms(1)] this] assms(2) show ?thesis by blast
qed

lemma fresh_in_window:
  assumes "replay_run width fcs w" and "fc \<notin> set fcs"
    and "\<forall>h. rw_highest_fc_seen w = Some h \<longrightarrow> unat h \<le> unat fc + unat width \<and> unat fc \<le> unat h + unat width"
  shows "\<exists>w'. check_and_update w fc = (Ok (), w')"
proof (cases "rw_highest_fc_seen w")
  case None
  then show ?thesis by (simp add: check_and_update_def)
next
  case (Some h)
  with replay_run_inv [OF assms(1)] assms(2) have "fc \<notin> rw_seen w" "rw_window_size w = width"
    by (auto simp: window_inv_def)
  moreover have "\<not> (fc < h \<and> h - fc > width)" "\<not> (fc > h \<and> fc - h > width)"
    using assms(3) Some by (auto simp: word_less_nat_alt unat_minus_le word_le_nat_alt)
  ultimately show ?thesis using Some by (simp add: check_and_update_def Let_def)
qed

section \<open>Properties\<close>

text \<open>C8: Over any sequence of offered counters, rejections and restarts from a snapshot, no frame counter
  is accepted twice.\<close>

theorem no_counter_is_accepted_twice:
  assumes "replay_run width fcs w"
  shows "distinct fcs \<and> (\<forall>fc \<in> set fcs. \<exists>e. check_and_update w fc = (Err e, w))"
  using accepted_refused [OF assms] replay_run_inv [OF assms] by (simp add: window_inv_def)

lemma example_replay_run: "replay_run 4 [5, 3] \<lparr>rw_window_size = 4, rw_highest_fc_seen = Some 5, rw_seen = {3, 5}\<rparr>"
proof -
  have "check_and_update (replay_window_new 4 None) 5
      = (Ok (), \<lparr>rw_window_size = 4, rw_highest_fc_seen = Some 5, rw_seen = {5}\<rparr>)"
    by (simp add: check_and_update_def replay_window_new_def)
  from replay_run.accepted [OF replay_run.fresh_window this]
  have "replay_run 4 [5] \<lparr>rw_window_size = 4, rw_highest_fc_seen = Some 5, rw_seen = {5}\<rparr>" by simp
  moreover have "check_and_update \<lparr>rw_window_size = 4, rw_highest_fc_seen = Some 5, rw_seen = {5}\<rparr> 3
      = (Ok (), \<lparr>rw_window_size = 4, rw_highest_fc_seen = Some 5, rw_seen = {3, 5}\<rparr>)"
    by (simp add: check_and_update_def)
  ultimately show ?thesis using replay_run.accepted by fastforce
qed

theorem no_counter_is_accepted_twice_witness:
  "\<exists>e w. check_and_update \<lparr>rw_window_size = 4, rw_highest_fc_seen = Some 5, rw_seen = {3, 5}\<rparr> 3 = (Err e, w)"
  using no_counter_is_accepted_twice [OF example_replay_run] by auto

text \<open>A counter that is new, and no further from the highest one than the window is wide, is accepted:
  the window refuses nothing it has to accept.\<close>

lemma fresh_counter_in_window_is_accepted:
  assumes "replay_run width fcs w" and "fc \<notin> set fcs"
    and "\<forall>h. rw_highest_fc_seen w = Some h \<longrightarrow> unat h \<le> unat fc + unat width \<and> unat fc \<le> unat h + unat width"
  shows "\<exists>w'. check_and_update w fc = (Ok (), w') \<and> replay_run width (fcs @ [fc]) w'"
  using fresh_in_window [OF assms] replay_run.accepted [OF assms(1)] by blast

text \<open>The window remembers at most one more counter than its size, whatever was offered to it.\<close>

lemma window_memory_is_bounded:
  assumes "replay_run width fcs w"
  shows "card (rw_seen w) \<le> unat width + 1"
proof (cases "rw_highest_fc_seen w")
  case None
  with replay_run_inv [OF assms] show ?thesis by (simp add: window_inv_def)
next
  case (Some h)
  with replay_run_inv [OF assms] have "\<forall>fc \<in> rw_seen w. unat h \<le> unat fc + unat width \<and> fc \<le> h"
    by (simp add: window_inv_def)
  then have "unat ` rw_seen w \<subseteq> {unat h - unat width .. unat h}" by (auto simp: word_le_nat_alt)
  then have "card (unat ` rw_seen w) \<le> card {unat h - unat width .. unat h}" by (intro card_mono) simp_all
  moreover have "card (unat ` rw_seen w) = card (rw_seen w)"
    by (intro card_image inj_onI) (simp add: word_unat_eq_iff)
  ultimately show ?thesis by simp
qed

text \<open>C32: A window of positive width is restored exactly from its snapshot under the namespace it was
  taken for, and under no other one; a snapshot of a window of size zero is refused.\<close>

theorem snapshot_restores_window:
  assumes "replay_run width fcs w" and "snapshot w namespace = Ok snap"
  shows "from_snapshot namespace snap = (if width = 0 then Err RejContinuityBreak else Ok w)
    \<and> (\<forall>other. other \<noteq> namespace \<longrightarrow> \<not> is_ok (from_snapshot other snap))"
proof -
  have "rs_namespace snap = namespace" using assms(2) by (auto simp: snapshot_def split: if_splits)
  then have "\<not> is_ok (from_snapshot other snap)" if "other \<noteq> namespace" for other
    using that by (simp add: from_snapshot_def)
  with restarted_inv [OF assms(2) replay_run_inv [OF assms(1)]] show ?thesis by blast
qed

theorem snapshot_restores_window_witness:
  "\<exists>snap. snapshot \<lparr>rw_window_size = 4, rw_highest_fc_seen = Some 5, rw_seen = {3, 5}\<rparr> ''ns'' = Ok snap
    \<and> from_snapshot ''ns'' snap = Ok \<lparr>rw_window_size = 4, rw_highest_fc_seen = Some 5, rw_seen = {3, 5}\<rparr>"
proof -
  have "\<not> trim_is_empty ''ns''" by code_simp
  then obtain snap where
    s: "snapshot \<lparr>rw_window_size = 4, rw_highest_fc_seen = Some 5, rw_seen = {3, 5}\<rparr> ''ns'' = Ok snap"
    by (simp add: snapshot_def)
  from snapshot_restores_window [OF example_replay_run s] s show ?thesis by simp
qed

end
