(* ===== verification/Pod_Firmware.thy ===== *)
theory Pod_Firmware
  imports Ingest_Admission Ingest_Replay
begin

unbundle bit_operations_syntax

text \<open>
  The pod firmware (\<open>crates/trackone-pod-fw\<close>): the counter-bound nonce source, the state machine that
  emits encrypted frames, the liveness registry over a watchdog, the event waiter and the stack guard.
  The trait \<open>Nonce24\<close> is the locale \<open>nonce_source\<close>, which \<open>CounterNonce24\<close> interprets; the cipher is
  that of \<open>Ingest_Admission\<close>.  A run of the pod is any sequence of emissions, failures and restorations
  of the durable counter.
\<close>

section \<open>Nonces\<close>

datatype nonce_error = FrameCounterOutOfRange

record counter_nonce24 =
  cn_salt8 :: bytes
  cn_tail8 :: bytes

definition counter_nonce_new :: "bytes \<Rightarrow> bytes \<Rightarrow> counter_nonce24" where
  "counter_nonce_new salt8 tail8 = \<lparr>cn_salt8 = salt8, cn_tail8 = tail8\<rparr>"

definition from_provisioned_salt :: "bytes \<Rightarrow> bytes \<Rightarrow> counter_nonce24" where
  "from_provisioned_salt provisioned_salt8 boot_tail8 = counter_nonce_new provisioned_salt8 boot_tail8"

definition nonce_for_frame :: "counter_nonce24 \<Rightarrow> u64 \<Rightarrow> (bytes, nonce_error) result" where
  "nonce_for_frame g fc =
     (if unat fc < 2 ^ 32 then Ok (framed_nonce (cn_salt8 g) (ucast fc) (cn_tail8 g))
      else Err FrameCounterOutOfRange)"

section \<open>The pod\<close>

datatype pod_error =
    PodCore core_error
  | PodNonce nonce_error
  | FrameCounterRegression
  | FrameCounterExhausted
  | FactPodIdMismatch
  | FactFrameCounterMismatch

text \<open>The cipher and the nonce source are the type parameters of \<open>Pod\<close>.\<close>

record pod =
  pd_pod_id :: pod_id
  pd_next_fc :: "u32 option"
  pd_cipher :: aead
  pd_nonce_gen :: "u64 \<Rightarrow> (bytes, nonce_error) result"

definition pod_new :: "pod_id \<Rightarrow> aead \<Rightarrow> (u64 \<Rightarrow> (bytes, nonce_error) result) \<Rightarrow> pod" where
  "pod_new pid cipher nonce_gen = \<lparr>pd_pod_id = pid, pd_next_fc = Some 0, pd_cipher = cipher,
     pd_nonce_gen = nonce_gen\<rparr>"

definition restore_next_frame_counter :: "pod \<Rightarrow> u32 option \<Rightarrow> (unit, pod_error) result \<times> pod" where
  "restore_next_frame_counter p next_fc =
     (case (pd_next_fc p, next_fc) of
        (None, None) \<Rightarrow> (Ok (), p)
      | (None, Some _) \<Rightarrow> (Err FrameCounterExhausted, p)
      | (Some _, None) \<Rightarrow> (Ok (), p\<lparr>pd_next_fc := next_fc\<rparr>)
      | (Some current, Some restored) \<Rightarrow>
          if restored < current then (Err FrameCounterRegression, p)
          else (Ok (), p\<lparr>pd_next_fc := next_fc\<rparr>))"

definition emit_fact :: "postcard \<Rightarrow> nat \<Rightarrow> pod \<Rightarrow> fact \<Rightarrow> (encrypted_frame, pod_error) result \<times> pod" where
  "emit_fact pc n p f =
     (case (and_then (ok_or (pd_next_fc p) FrameCounterExhausted) (\<lambda>next_fc.
          if fact_pod_id f \<noteq> pd_pod_id p then Err FactPodIdMismatch
          else if fact_fc f \<noteq> ucast next_fc then Err FactFrameCounterMismatch
          else
            and_then (map_err PodCore (map_err InvalidFact (fact_validate f))) (\<lambda>_.
            and_then (map_err PodNonce (pd_nonce_gen p (fact_fc f))) (\<lambda>nonce.
            and_then (map_err PodCore (encrypt_fact pc (pd_cipher p) n nonce f)) (\<lambda>frame.
            Ok (frame, next_fc)))))) of
        Inl e \<Rightarrow> (Err e, p)
      | Inr (frame, next_fc) \<Rightarrow> (Ok frame, p\<lparr>pd_next_fc := checked_add next_fc 1\<rparr>))"

definition emit_payload ::
  "postcard \<Rightarrow> nat \<Rightarrow> pod \<Rightarrow> fact_payload \<Rightarrow> (encrypted_frame, pod_error) result \<times> pod" where
  "emit_payload pc n p payload =
     (case (and_then (ok_or (pd_next_fc p) FrameCounterExhausted) (\<lambda>fc.
          map_err PodCore (make_fact (pd_pod_id p) (ucast fc) payload))) of
        Inl e \<Rightarrow> (Err e, p)
      | Inr f \<Rightarrow> emit_fact pc n p f)"

section \<open>Liveness registry\<close>

definition DEFAULT_WATCHDOG_MS :: u32 where "DEFAULT_WATCHDOG_MS = 1000"

datatype reset_cause = PowerOn | Watchdog | Software | OtherCause

record mock_watchdog =
  mw_started :: bool
  mw_timeout_ms :: u32
  mw_feed_count :: u32

definition watchdog_feed :: "mock_watchdog \<Rightarrow> mock_watchdog" where
  "watchdog_feed w = w\<lparr>mw_feed_count := saturating_add (mw_feed_count w) 1\<rparr>"

definition watchdog_start :: "mock_watchdog \<Rightarrow> u32 \<Rightarrow> mock_watchdog" where
  "watchdog_start w timeout_ms = w\<lparr>mw_started := True, mw_timeout_ms := timeout_ms\<rparr>"

record liveness_registry =
  lr_enabled_mask :: u32
  lr_heartbeat_mask :: u32

definition registry_new :: "u32 \<Rightarrow> liveness_registry" where
  "registry_new enabled_mask = \<lparr>lr_enabled_mask = enabled_mask, lr_heartbeat_mask = 0\<rparr>"

definition registry_clear :: "liveness_registry \<Rightarrow> liveness_registry" where
  "registry_clear r = r\<lparr>lr_heartbeat_mask := 0\<rparr>"

definition registry_start :: "liveness_registry \<Rightarrow> mock_watchdog \<Rightarrow> liveness_registry \<times> mock_watchdog" where
  "registry_start r w = (registry_clear r, watchdog_start w DEFAULT_WATCHDOG_MS)"

definition set_enabled_mask :: "liveness_registry \<Rightarrow> u32 \<Rightarrow> liveness_registry" where
  "set_enabled_mask r enabled_mask = registry_clear (r\<lparr>lr_enabled_mask := enabled_mask\<rparr>)"

definition check_in :: "liveness_registry \<Rightarrow> u8 \<Rightarrow> liveness_registry" where
  "check_in r task_index =
     (if task_index < 32
      then r\<lparr>lr_heartbeat_mask := lr_heartbeat_mask r OR push_bit (unat task_index) 1\<rparr> else r)"

definition all_ready :: "liveness_registry \<Rightarrow> bool" where
  "all_ready r \<longleftrightarrow> (if lr_enabled_mask r = 0 then True
     else lr_heartbeat_mask r AND lr_enabled_mask r = lr_enabled_mask r)"

definition pending_mask :: "liveness_registry \<Rightarrow> u32" where
  "pending_mask r = lr_enabled_mask r AND NOT (lr_heartbeat_mask r)"

definition feed_if_ready ::
  "liveness_registry \<Rightarrow> mock_watchdog \<Rightarrow> bool \<times> liveness_registry \<times> mock_watchdog" where
  "feed_if_ready r w =
     (if \<not> all_ready r then (False, r, w) else (True, registry_clear r, watchdog_feed w))"

text \<open>The reset-counter store: its two operations are arguments.\<close>

definition record_watchdog_reset ::
  "('s \<Rightarrow> (u32, 'e) result) \<Rightarrow> ('s \<Rightarrow> u32 \<Rightarrow> (unit, 'e) result \<times> 's) \<Rightarrow> reset_cause \<Rightarrow> 's
     \<Rightarrow> (u32 option, 'e) result \<times> 's" where
  "record_watchdog_reset load save cause s =
     (if cause \<noteq> Watchdog then (Ok None, s)
      else case load s of
          Inl e \<Rightarrow> (Err e, s)
        | Inr value \<Rightarrow>
            let next = value + 1 in
            (case save s next of (Inl e, s) \<Rightarrow> (Err e, s) | (Inr _, s) \<Rightarrow> (Ok (Some next), s)))"

section \<open>Event waiter\<close>

definition event_signal :: "u8 \<Rightarrow> u8" where
  "event_signal events_pending = saturating_add events_pending 1"

text \<open>\<open>wait\<close>: each element of the list is the number of signals that arrive before the next wake-up;
  no return while none arrives.\<close>

fun event_wait :: "u8 \<Rightarrow> nat list \<Rightarrow> (u8 \<times> u8 \<times> nat list) option" where
  "event_wait events_pending wakeups =
     (if events_pending \<noteq> 0 then Some (events_pending, 0, wakeups)
      else case wakeups of
          [] \<Rightarrow> None
        | signals # rest \<Rightarrow> event_wait ((event_signal ^^ signals) 0) rest)"

declare event_wait.simps [simp del]

section \<open>Stack guard\<close>

definition STACK_GUARD_PATTERN :: u8 where "STACK_GUARD_PATTERN = 0xAA"

definition paint_stack_guard :: "bytes \<Rightarrow> bytes" where
  "paint_stack_guard guard = map (\<lambda>_. STACK_GUARD_PATTERN) guard"

record stack_guard_report =
  sg_corrupted :: nat
  sg_remaining :: nat
  sg_first_corrupted :: "nat option"

definition report_ok :: "stack_guard_report \<Rightarrow> bool" where
  "report_ok r \<longleftrightarrow> sg_corrupted r = 0"

definition usage_percent :: "stack_guard_report \<Rightarrow> u8" where
  "usage_percent r =
     (let total = sg_corrupted r + sg_remaining r in
      if total = 0 then 0
      else word_of_nat (min (min (sg_corrupted r * 100) (2 ^ 64 - 1) div total) 100))"

fun scan_loop :: "nat \<Rightarrow> nat \<Rightarrow> nat option \<Rightarrow> bytes \<Rightarrow> nat \<times> nat option" where
  "scan_loop i corrupted first [] = (corrupted, first)"
| "scan_loop i corrupted first (b # bs) =
     (if b \<noteq> STACK_GUARD_PATTERN
      then scan_loop (i + 1) (corrupted + 1) (if first = None then Some i else first) bs
      else scan_loop (i + 1) corrupted first bs)"

definition scan_stack_guard :: "bytes \<Rightarrow> stack_guard_report" where
  "scan_stack_guard guard =
     (let (corrupted, first) = scan_loop 0 0 None guard in
      \<lparr>sg_corrupted = corrupted, sg_remaining = length guard - corrupted, sg_first_corrupted = first\<rparr>)"

section \<open>The nonce interface\<close>

locale nonce_source =
  fixes gen :: "u64 \<Rightarrow> (bytes, nonce_error) result"
  assumes gen_inject: "gen fc = Ok nonce \<Longrightarrow> gen fc' = Ok nonce \<Longrightarrow> fc = fc'"
begin

lemma distinct_nonces:
  assumes "distinct fcs" and "list_all2 (\<lambda>fc nonce. gen fc = Ok nonce) fcs nonces"
  shows "distinct nonces"
  using assms(2,1)
proof (induction rule: list_all2_induct)
  case (Cons fc fcs nonce nonces)
  have "nonce \<notin> set nonces"
  proof
    assume "nonce \<in> set nonces"
    then obtain i where i: "i < length nonces" "nonces ! i = nonce" by (auto simp: in_set_conv_nth)
    with Cons.hyps(2) have "fcs ! i \<in> set fcs" "gen (fcs ! i) = Ok nonce"
      by (auto simp: list_all2_conv_all_nth)
    with gen_inject Cons.hyps(1) Cons.prems show False by auto
  qed
  with Cons show ?case by simp
qed simp

end

interpretation counter_nonce: nonce_source "nonce_for_frame g" for g
proof
  fix fc nonce fc'
  assume "nonce_for_frame g fc = Ok nonce" "nonce_for_frame g fc' = Ok nonce"
  then have fc: "unat fc < 2 ^ 32" "unat fc' < 2 ^ 32" "(ucast fc :: u32) = ucast fc'"
    by (auto simp: nonce_for_frame_def framed_nonce_def split: if_splits)
  have "unat (ucast fc :: u32) = unat fc" by (rule unat_ucast_small) (use fc(1) in simp)
  moreover have "unat (ucast fc' :: u32) = unat fc'" by (rule unat_ucast_small) (use fc(2) in simp)
  ultimately have "unat fc = unat fc'" using fc(3) by simp
  then show "fc = fc'" by (simp add: word_unat_eq_iff)
qed

section \<open>Runs of a pod\<close>

inductive pod_run :: "postcard \<Rightarrow> nat \<Rightarrow> pod \<Rightarrow> encrypted_frame list \<Rightarrow> pod \<Rightarrow> bool"
  for pc :: postcard and n :: nat and p0 :: pod where
  boot: "pod_run pc n p0 [] p0"
| emit_ok: "pod_run pc n p0 frames p \<Longrightarrow> emit_fact pc n p f = (Ok frame, p') \<Longrightarrow> pod_run pc n p0 (frames @ [frame]) p'"
| emit_err: "pod_run pc n p0 frames p \<Longrightarrow> emit_fact pc n p f = (Err e, p') \<Longrightarrow> pod_run pc n p0 frames p'"
| payload_ok: "pod_run pc n p0 frames p \<Longrightarrow> emit_payload pc n p v = (Ok frame, p') \<Longrightarrow> pod_run pc n p0 (frames @ [frame]) p'"
| payload_err: "pod_run pc n p0 frames p \<Longrightarrow> emit_payload pc n p v = (Err e, p') \<Longrightarrow> pod_run pc n p0 frames p'"
| restore: "pod_run pc n p0 frames p \<Longrightarrow> restore_next_frame_counter p c = (r, p') \<Longrightarrow> pod_run pc n p0 frames p'"

lemma emit_fact_Ok:
  assumes "emit_fact pc n p f = (Ok frame, p')"
  obtains fc nonce where "pd_next_fc p = Some fc" "fact_fc f = ucast fc" "fact_pod_id f = pd_pod_id p"
    "pd_nonce_gen p (ucast fc) = Ok nonce" "encrypt_fact pc (pd_cipher p) n nonce f = Ok frame"
    "p' = p\<lparr>pd_next_fc := checked_add fc 1\<rparr>"
  using assms
  by (auto simp: emit_fact_def and_then_Ok_iff ok_or_Ok_iff split: sum.splits if_splits)

lemma emit_fact_Err: "emit_fact pc n p f = (Err e, p') \<Longrightarrow> p' = p"
  by (auto simp: emit_fact_def split: sum.splits)

lemma emit_payload_cases:
  assumes "emit_payload pc n p v = (r, p')"
  obtains (refused) e where "r = Err e" "p' = p"
  | (fact) f where "make_fact (pd_pod_id p) (fact_fc f) v = Ok f" "emit_fact pc n p f = (r, p')"
proof -
  let ?m = "and_then (ok_or (pd_next_fc p) FrameCounterExhausted) (\<lambda>fc.
      map_err PodCore (make_fact (pd_pod_id p) (ucast fc) v))"
  show thesis
  proof (cases ?m)
    case (Inl e)
    with assms show thesis by (intro refused [of e]) (simp_all add: emit_payload_def)
  next
    case (Inr f)
    then obtain fc :: u32 where "make_fact (pd_pod_id p) (ucast fc) v = Ok f" by (auto simp: and_then_Ok_iff)
    moreover from this have "fact_fc f = ucast fc" by (auto simp: make_fact_def and_then_Ok_iff Let_def)
    moreover from Inr assms have "emit_fact pc n p f = (r, p')" by (simp add: emit_payload_def)
    ultimately show thesis by (intro fact) simp_all
  qed
qed

text \<open>The counters of the frames so far are strictly increasing, below the next one, and each frame
  carries the nonce of its counter.\<close>

definition pod_inv :: "pod \<Rightarrow> encrypted_frame list \<Rightarrow> pod \<Rightarrow> bool" where
  "pod_inv p0 frames p \<longleftrightarrow> pd_pod_id p = pd_pod_id p0 \<and> pd_cipher p = pd_cipher p0
     \<and> pd_nonce_gen p = pd_nonce_gen p0 \<and> sorted_wrt (<) (map enf_fc frames)
     \<and> (\<forall>frame \<in> set frames. enf_pod_id frame = pd_pod_id p0
          \<and> pd_nonce_gen p0 (enf_fc frame) = Ok (enf_nonce frame)
          \<and> (case pd_next_fc p of None \<Rightarrow> True | Some fc \<Rightarrow> enf_fc frame < ucast fc))"

lemma ucast_u32_less: "(ucast a :: u64) < ucast b \<longleftrightarrow> a < b" for a b :: u32
proof -
  have "unat (ucast x :: u64) = unat x" for x :: u32
    by (rule unat_ucast_small) (rule order.strict_trans [OF unat_u32_less], simp)
  then show ?thesis by (simp add: word_less_nat_alt)
qed

lemma emit_fact_inv:
  assumes "pod_inv p0 frames p" and "emit_fact pc n p f = (Ok frame, p')"
  shows "pod_inv p0 (frames @ [frame]) p'"
proof -
  obtain fc nonce where p: "pd_next_fc p = Some fc" and f: "fact_fc f = ucast fc" "fact_pod_id f = pd_pod_id p"
    and nonce: "pd_nonce_gen p (ucast fc) = Ok nonce"
    and enc: "encrypt_fact pc (pd_cipher p) n nonce f = Ok frame"
    and p': "p' = p\<lparr>pd_next_fc := checked_add fc 1\<rparr>"
    using assms(2) by (rule emit_fact_Ok)
  have frame: "enf_pod_id frame = pd_pod_id p" "enf_fc frame = ucast fc" "enf_nonce frame = nonce"
    using enc f by (auto simp: encrypt_fact_def and_then_Ok_iff Let_def split: if_splits)
  have "(ucast fc :: u64) < ucast fc'" if "checked_add fc 1 = Some fc'" for fc'
    using unat_checked_add [OF that] unfolding ucast_u32_less by (simp add: word_less_nat_alt)
  with assms(1) p frame nonce p' show ?thesis
    by (auto simp: pod_inv_def sorted_wrt_append split: option.splits dest: order.strict_trans)
qed

lemma restore_inv:
  assumes "pod_inv p0 frames p" and "restore_next_frame_counter p c = (r, p')"
  shows "pod_inv p0 frames p'"
proof -
  consider "p' = p" | fc where "pd_next_fc p = Some fc" "p' = p\<lparr>pd_next_fc := None\<rparr>"
    | fc fc' where "pd_next_fc p = Some fc" "fc \<le> fc'" "p' = p\<lparr>pd_next_fc := Some fc'\<rparr>"
  proof (cases "p' = p")
    case False
    with assms(2) obtain fc where fc: "pd_next_fc p = Some fc"
      by (auto simp: restore_next_frame_counter_def split: option.splits)
    with False assms(2) have "p' = p\<lparr>pd_next_fc := c\<rparr>" "c = None \<or> (\<exists>fc'. c = Some fc' \<and> fc \<le> fc')"
      by (auto simp: restore_next_frame_counter_def not_less split: option.splits if_splits)
    with fc that(2,3) show thesis by auto
  qed
  then show ?thesis
  proof cases
    case (3 fc fc')
    then have "x < ucast fc \<Longrightarrow> x < ucast fc'" for x :: u64
      using ucast_u32_less [of fc fc'] by (cases "fc = fc'") (auto dest: order.strict_trans)
    with 3 assms(1) show ?thesis by (auto simp: pod_inv_def)
  qed (use assms(1) in \<open>auto simp: pod_inv_def\<close>)
qed

lemma pod_run_inv:
  "pod_run pc n p0 frames p \<Longrightarrow> pod_inv p0 frames p"
proof (induction rule: pod_run.induct)
  case boot
  then show ?case by (simp add: pod_inv_def)
next
  case (emit_ok frames p f frame p')
  then show ?case by (blast intro: emit_fact_inv)
next
  case (emit_err frames p f e p')
  then show ?case by (auto dest: emit_fact_Err)
next
  case (payload_ok frames p v frame p')
  from payload_ok(2) show ?case
    by (cases rule: emit_payload_cases) (use payload_ok.IH in \<open>auto intro: emit_fact_inv\<close>)
next
  case (payload_err frames p v e p')
  from payload_err(2) show ?case
    by (cases rule: emit_payload_cases) (use payload_err.IH in \<open>auto dest: emit_fact_Err\<close>)
next
  case (restore frames p c r p')
  then show ?case by (blast intro: restore_inv)
qed

end
