(* ===== verification/Pod_Properties.thy ===== *)
theory Pod_Properties
  imports Pod_Firmware
begin

unbundle bit_operations_syntax

text \<open>
  Properties of the pod firmware: no two emitted frames share a nonce, an exhausted counter stays exhausted, an
  emitted frame decrypts to what was emitted, the watchdog is fed only on full progress; and the
  functional behaviour of the event waiter and of the stack guard.
\<close>

section \<open>Exhaustion\<close>

lemma exhausted_run:
  "pod_run pc n p0 frames p \<Longrightarrow> pd_next_fc p0 = None \<Longrightarrow> frames = [] \<and> pd_next_fc p = None"
proof (induction rule: pod_run.induct)
  case (emit_ok frames p f frame p')
  from emit_ok(2) have "pd_next_fc p \<noteq> None" by (rule emit_fact_Ok) simp
  with emit_ok show ?case by simp
next
  case (emit_err frames p f e p')
  then show ?case by (auto dest: emit_fact_Err)
next
  case (payload_ok frames p v frame p')
  then have "pd_next_fc p = None" by simp
  with payload_ok(2) show ?case by (auto simp: emit_payload_def)
next
  case (payload_err frames p v e p')
  from payload_err(2) show ?case
    by (cases rule: emit_payload_cases) (use payload_err in \<open>auto dest: emit_fact_Err\<close>)
next
  case (restore frames p c r p')
  then show ?case by (auto simp: restore_next_frame_counter_def split: option.splits)
qed simp

section \<open>Liveness registry\<close>

text \<open>The tasks that checked in since the heartbeats were last cleared.\<close>

inductive registry_run :: "u8 set \<Rightarrow> liveness_registry \<Rightarrow> mock_watchdog \<Rightarrow> bool" where
  created: "registry_run {} (registry_new tasks) w"
| started: "registry_run since r w \<Longrightarrow> registry_start r w = (r', w') \<Longrightarrow> registry_run {} r' w'"
| cleared: "registry_run since r w \<Longrightarrow> registry_run {} (registry_clear r) w"
| enabled: "registry_run since r w \<Longrightarrow> registry_run {} (set_enabled_mask r tasks) w"
| checked_in: "registry_run since r w \<Longrightarrow> registry_run (insert i since) (check_in r i) w"
| fed: "registry_run since r w \<Longrightarrow> feed_if_ready r w = (True, r', w') \<Longrightarrow> registry_run {} r' w'"
| not_fed: "registry_run since r w \<Longrightarrow> feed_if_ready r w = (False, r', w') \<Longrightarrow> registry_run since r' w'"

lemma registry_heartbeats:
  "registry_run since r w \<Longrightarrow> k < 32 \<Longrightarrow> bit (lr_heartbeat_mask r) k \<longleftrightarrow> word_of_nat k \<in> since"
proof (induction rule: registry_run.induct)
  case (checked_in since r w i)
  have "unat i = k \<longleftrightarrow> i = word_of_nat k"
    using checked_in.prems by (auto simp: word_unat_eq_iff)
  with checked_in show ?case
    by (auto simp: check_in_def bit_or_iff word_less_nat_alt push_bit_eq_mult bit_exp_iff)
qed (auto simp: registry_new_def registry_start_def registry_clear_def set_enabled_mask_def feed_if_ready_def
    split: if_splits)

lemma all_ready_iff: "all_ready r \<longleftrightarrow> (\<forall>k < 32. bit (lr_enabled_mask r) k \<longrightarrow> bit (lr_heartbeat_mask r) k)"
proof -
  have "lr_heartbeat_mask r AND lr_enabled_mask r = lr_enabled_mask r
      \<longleftrightarrow> (\<forall>k < 32. bit (lr_enabled_mask r) k \<longrightarrow> bit (lr_heartbeat_mask r) k)"
    by (auto simp: bit_eq_iff bit_and_iff)
  then show ?thesis by (auto simp: all_ready_def)
qed

lemma pending_mask_ready: "all_ready r \<longleftrightarrow> pending_mask r = 0"
  by (auto simp: all_ready_iff pending_mask_def bit_eq_iff bit_and_iff bit_not_iff)

section \<open>Event waiter\<close>

lemma unat_saturating_add: "unat (saturating_add a b) = min (2 ^ LENGTH('a) - 1) (unat a + unat b)"
  for a b :: "'a::len word"
proof (cases "unat a + unat b < 2 ^ LENGTH('a)")
  case True
  with unat_add_lem [of a b] show ?thesis by (simp add: saturating_add_def)
next
  case False
  have "unat (- 1 :: 'a word) = 2 ^ LENGTH('a) - 1" by (simp add: unsigned_minus_1_eq_mask mask_eq_exp_minus_1)
  with False show ?thesis by (simp add: saturating_add_def)
qed

lemma unat_event_signal: "unat (event_signal p) = min 255 (unat p + 1)"
  by (simp add: event_signal_def unat_saturating_add)

lemma event_signals: "(event_signal ^^ s) 0 = word_of_nat (min 255 s)"
proof -
  have "unat ((event_signal ^^ s) 0) = min 255 s"
    by (induction s) (simp_all add: unat_event_signal)
  then show ?thesis by (metis of_nat_unat ucast_id)
qed

lemma event_wait_skips: "event_wait 0 (replicate m 0 @ wakeups) = event_wait 0 wakeups"
proof (induction m)
  case (Suc m)
  then show ?case by (subst event_wait.simps) simp
qed simp

lemma event_wait_returns:
  assumes "0 < s"
  shows "event_wait 0 (replicate m 0 @ s # rest) = Some (word_of_nat (min 255 s), 0, rest)"
proof -
  have "(word_of_nat (min 255 s) :: u8) \<noteq> 0"
    using assms by (auto simp: word_unat_eq_iff min_def)
  then show ?thesis
    unfolding event_wait_skips by (subst event_wait.simps, simp add: event_signals, subst event_wait.simps) simp
qed

lemma event_wait_blocks: "event_wait 0 (replicate m 0) = None"
  using event_wait_skips [of m "[]"] by (simp add: event_wait.simps)

section \<open>Stack guard\<close>

definition corrupt :: "byte \<Rightarrow> bool" where
  "corrupt b \<longleftrightarrow> b \<noteq> STACK_GUARD_PATTERN"

lemma scan_loop_count: "fst (scan_loop i c first bs) = c + length (filter corrupt bs)"
  by (induction bs arbitrary: i c first) (simp_all add: corrupt_def)

lemma scan_loop_first:
  "snd (scan_loop i c None bs) = (if \<exists>b \<in> set bs. corrupt b then Some (i + length (takeWhile (\<lambda>b. \<not> corrupt b) bs)) else None)"
proof (induction bs arbitrary: i c)
  case (Cons b bs)
  have "snd (scan_loop j d (Some k) xs) = Some k" for j d k xs
    by (induction xs arbitrary: j d) simp_all
  with Cons show ?case by (simp add: corrupt_def)
qed simp

lemma scan_stack_guard_report:
  "scan_stack_guard bs = \<lparr>sg_corrupted = length (filter corrupt bs),
     sg_remaining = length (filter (\<lambda>b. \<not> corrupt b) bs),
     sg_first_corrupted = (if \<exists>b \<in> set bs. corrupt b then Some (length (takeWhile (\<lambda>b. \<not> corrupt b) bs)) else None)\<rparr>"
proof -
  have "length bs - length (filter corrupt bs) = length (filter (\<lambda>b. \<not> corrupt b) bs)"
    using sum_length_filter_compl [of corrupt bs] by simp
  with scan_loop_count [of 0 0 None bs] scan_loop_first [of 0 0 bs] show ?thesis
    by (simp add: scan_stack_guard_def case_prod_beta)
qed

lemma painted_guard_is_clean: "report_ok (scan_stack_guard (paint_stack_guard bs))"
  by (simp add: report_ok_def scan_stack_guard_report paint_stack_guard_def corrupt_def filter_False)

lemma usage_percent_bound: "unat (usage_percent r) \<le> 100"
  by (simp add: usage_percent_def Let_def)

section \<open>Emitted frames\<close>

text \<open>The fact a payload is sent as.\<close>

definition payload_fact :: "pod \<Rightarrow> u32 \<Rightarrow> fact_payload \<Rightarrow> fact" where
  "payload_fact p fc v = \<lparr>fact_pod_id = pd_pod_id p, fact_fc = ucast fc, fact_ingest_time = 0,
     fact_pod_time = None, fact_kind = (case v of PayloadEnv _ \<Rightarrow> KindEnv | PayloadCustom _ \<Rightarrow> KindCustom),
     fact_payload = v\<rparr>"

lemma emit_payload_Ok:
  assumes "emit_payload pc n p v = (Ok frame, p')"
  obtains fc nonce where "pd_next_fc p = Some fc" "pd_nonce_gen p (ucast fc) = Ok nonce"
    "encrypt_fact pc (pd_cipher p) n nonce (payload_fact p fc v) = Ok frame"
    "p' = p\<lparr>pd_next_fc := checked_add fc 1\<rparr>"
proof -
  from assms obtain f where f: "make_fact (pd_pod_id p) (fact_fc f) v = Ok f" "emit_fact pc n p f = (Ok frame, p')"
    by (auto elim: emit_payload_cases)
  from f(2) obtain fc nonce where e: "pd_next_fc p = Some fc" "fact_fc f = ucast fc"
    "pd_nonce_gen p (ucast fc) = Ok nonce" "encrypt_fact pc (pd_cipher p) n nonce f = Ok frame"
    "p' = p\<lparr>pd_next_fc := checked_add fc 1\<rparr>"
    by (rule emit_fact_Ok)
  with f(1) have "f = payload_fact p fc v" by (auto simp: make_fact_def payload_fact_def Let_def and_then_Ok_iff)
  with e that show thesis by simp
qed

section \<open>Examples\<close>

definition example_pod :: pod where
  "example_pod = pod_new (pod_id_from_u32 7) (dummy_aead [0x5A])
     (nonce_for_frame (counter_nonce_new (replicate 8 1) (replicate 8 2)))"

definition example_pod_fact :: "u32 \<Rightarrow> fact" where
  "example_pod_fact fc = payload_fact example_pod fc (PayloadCustom [])"

text \<open>A codec for the facts of two counters.\<close>

definition example_codec :: postcard where
  "example_codec = \<lparr>pc_to_slice = (\<lambda>f cap. if cap = 0 then None else if f = example_pod_fact 0 then Some [1]
       else if f = example_pod_fact 5 then Some [2] else None),
     pc_from_bytes = (\<lambda>bs. if bs = [1] then Some (example_pod_fact 0) else if bs = [2] then Some (example_pod_fact 5) else None)\<rparr>"

lemma example_codec_ok: "postcard_ok example_codec"
  by (auto simp: postcard_ok_def example_codec_def split: if_splits)

definition example_frame :: "u32 \<Rightarrow> byte \<Rightarrow> encrypted_frame" where
  "example_frame fc b = \<lparr>enf_pod_id = pod_id_from_u32 7, enf_fc = ucast fc,
     enf_nonce = framed_nonce (replicate 8 1) (ucast fc) (replicate 8 2), enf_ciphertext = [b]\<rparr>"

lemmas emission_defs = emit_payload_def emit_fact_def make_fact_def fact_validate_def pod_new_def
  nonce_for_frame_def counter_nonce_new_def encrypt_fact_def encode_fact_postcard_def payload_fact_def
  dummy_aead_def xor_key_def checked_add_def MAX_FACT_LEN_def AEAD_TAG_LEN_def Let_def

lemma example_emissions:
  "emit_payload example_codec 64 example_pod (PayloadCustom [])
     = (Ok (example_frame 0 0x5B), example_pod\<lparr>pd_next_fc := Some 1\<rparr>)"
  "emit_payload example_codec 64 (example_pod\<lparr>pd_next_fc := Some 5\<rparr>) (PayloadCustom [])
     = (Ok (example_frame 5 0x58), example_pod\<lparr>pd_next_fc := Some 6\<rparr>)"
  by (simp_all add: emission_defs example_pod_def example_codec_def example_pod_fact_def example_frame_def)

lemma example_refusal:
  "emit_payload example_codec 64 (example_pod\<lparr>pd_next_fc := Some 1\<rparr>) (PayloadCustom [])
     = (Err (PodCore SerializeError), example_pod\<lparr>pd_next_fc := Some 1\<rparr>)"
  by (simp add: emission_defs example_pod_def example_codec_def example_pod_fact_def)

lemma example_restoration:
  "restore_next_frame_counter (example_pod\<lparr>pd_next_fc := Some 1\<rparr>) (Some 5)
     = (Ok (), example_pod\<lparr>pd_next_fc := Some 5\<rparr>)"
  by (simp add: restore_next_frame_counter_def)

text \<open>A frame is emitted, an emission is refused, the counter is restored to a later one, and a second
  frame is emitted.\<close>

lemma example_pod_run:
  "pod_run example_codec 64 example_pod [example_frame 0 0x5B, example_frame 5 0x58] (example_pod\<lparr>pd_next_fc := Some 6\<rparr>)"
  using pod_run.payload_ok [OF pod_run.restore [OF pod_run.payload_err [OF pod_run.payload_ok
        [OF pod_run.boot example_emissions(1)] example_refusal] example_restoration] example_emissions(2)] by simp

lemma example_registry_run: "registry_run {3} \<lparr>lr_enabled_mask = 8, lr_heartbeat_mask = 8\<rparr> w"
proof -
  have "check_in (registry_new 8) 3 = \<lparr>lr_enabled_mask = 8, lr_heartbeat_mask = 8\<rparr>" by code_simp
  with registry_run.checked_in [OF registry_run.created [of 8 w], of 3] show ?thesis by simp
qed

section \<open>Properties\<close>

text \<open>C10: However emissions, failed emissions and restorations of the counter are interleaved, the frames
  a pod with a counter nonce source emits have strictly increasing counters, and no two of them carry
  the same nonce. A failed emission leaves the counter, so its nonce may go to the cipher again: the
  property is about the frames that leave the pod.\<close>

theorem pod_frames_never_share_a_nonce:
  assumes "pod_run pc n (pod_new pid cipher (nonce_for_frame g)) frames p"
  shows "sorted_wrt (<) (map enf_fc frames) \<and> distinct (map enf_nonce frames)"
proof -
  have inv: "sorted_wrt (<) (map enf_fc frames)"
    "\<forall>frame \<in> set frames. nonce_for_frame g (enf_fc frame) = Ok (enf_nonce frame)"
    using pod_run_inv [OF assms] by (simp_all add: pod_inv_def pod_new_def)
  then have "list_all2 (\<lambda>fc nonce. nonce_for_frame g fc = Ok nonce) (map enf_fc frames) (map enf_nonce frames)"
    by (auto simp: list_all2_conv_all_nth)
  with counter_nonce.distinct_nonces inv(1) show ?thesis
    by (metis strict_sorted_iff)
qed

theorem pod_frames_never_share_a_nonce_witness:
  "sorted_wrt (<) (map enf_fc [example_frame 0 0x5B, example_frame 5 0x58])
    \<and> enf_nonce (example_frame 0 0x5B) \<noteq> enf_nonce (example_frame 5 0x58)"
  using pod_frames_never_share_a_nonce [OF example_pod_run [unfolded example_pod_def]] by simp

text \<open>A pod whose counter is used up stays so: no sequence of emissions and restorations makes it emit
  a frame again or gives it a counter, and each emission fails with the exhaustion error.\<close>

lemma exhausted_pod_stays_exhausted:
  assumes "pod_run pc n p0 frames p" and "pd_next_fc p0 = None"
  shows "frames = [] \<and> pd_next_fc p = None \<and> emit_payload pc n p v = (Err FrameCounterExhausted, p)
    \<and> emit_fact pc n p f = (Err FrameCounterExhausted, p)
    \<and> restore_next_frame_counter p (Some c) = (Err FrameCounterExhausted, p)"
  using exhausted_run [OF assms]
  by (simp add: emit_payload_def emit_fact_def restore_next_frame_counter_def)

text \<open>A frame a pod emitted for a payload, with a ciphertext that fits the receiver's buffer, decrypts
  under the pod's cipher to exactly that payload, as a fact of this pod with the counter the pod had,
  for every cipher and codec that invert their encodings; the pod moves on to the next counter.\<close>

lemma emitted_payload_decrypts:
  assumes "postcard_ok pc" and "aead_cipher (pd_cipher p)"
    and "emit_payload pc n p v = (Ok frame, p')" and "length (enf_ciphertext frame) \<le> 256"
  shows "\<exists>fc. pd_next_fc p = Some fc \<and> p' = p\<lparr>pd_next_fc := checked_add fc 1\<rparr>
    \<and> decrypt_fact pc (pd_cipher p) frame (pd_pod_id p) = Ok (payload_fact p fc v)"
proof -
  obtain fc nonce where e: "pd_next_fc p = Some fc" "p' = p\<lparr>pd_next_fc := checked_add fc 1\<rparr>"
    and enc: "encrypt_fact pc (pd_cipher p) n nonce (payload_fact p fc v) = Ok frame"
    using assms(3) by (rule emit_payload_Ok)
  from aead_cipher.decrypt_encrypt_fact [OF assms(2,1) enc] assms(4) e show ?thesis
    by (simp add: MAX_FACT_LEN_def payload_fact_def)
qed

text \<open>C34: The watchdog is fed only on full progress: when feeding succeeds, every enabled task has checked
  in since the heartbeats were last cleared, the heartbeats are cleared and the feed counter is raised;
  when some enabled task has not, nothing changes.\<close>

theorem watchdog_fed_only_on_full_progress:
  assumes "registry_run since r w"
  shows "feed_if_ready r w =
    (if \<forall>k < 32. bit (lr_enabled_mask r) k \<longrightarrow> word_of_nat k \<in> since
     then (True, r\<lparr>lr_heartbeat_mask := 0\<rparr>, w\<lparr>mw_feed_count := saturating_add (mw_feed_count w) 1\<rparr>)
     else (False, r, w))"
  using registry_heartbeats [OF assms]
  by (simp add: feed_if_ready_def all_ready_iff registry_clear_def watchdog_feed_def)

theorem watchdog_fed_only_on_full_progress_witness:
  "fst (feed_if_ready \<lparr>lr_enabled_mask = 8, lr_heartbeat_mask = 8\<rparr> \<lparr>mw_started = True, mw_timeout_ms = 0, mw_feed_count = 0\<rparr>)"
proof -
  have "word_of_nat k = (3 :: u8)" if "bit (8 :: u32) k" for k
  proof -
    have "k = 3" using that bit_exp_iff [of 3 k, where ?'a = u32] by simp
    then show ?thesis by simp
  qed
  then have "\<forall>k < 32. bit (8 :: u32) k \<longrightarrow> word_of_nat k \<in> {3 :: u8}" by simp
  then show ?thesis by (simp add: watchdog_fed_only_on_full_progress [OF example_registry_run])
qed

end
