(* ===== verification/Ots_Proof.thy ===== *)
theory Ots_Proof
  imports Ledger_Hex Rust_Std
begin

unbundle bit_operations_syntax

text \<open>
  OpenTimestamps proofs (\<open>crates/trackone-ots/src/lib.rs\<close>): the cursor over a detached proof, the
  recursive parser that replays its operations, and the summary of its attestations.
\<close>

section \<open>Constants\<close>

definition PLACEHOLDER_BYTES :: bytes where "PLACEHOLDER_BYTES = str_bytes ''OTS_PROOF_PLACEHOLDER''"
definition STATIONARY_PREFIX :: bytes where "STATIONARY_PREFIX = str_bytes ''STATIONARY-OTS:''"

definition OTS_HEADER_MAGIC :: bytes where
  "OTS_HEADER_MAGIC = 0 # str_bytes ''OpenTimestamps'' @ [0, 0] @ str_bytes ''Proof''
     @ [0x00, 0xbf, 0x89, 0xe2, 0xe8, 0x84, 0xe8, 0x92, 0x94]"

definition OTS_MAJOR_VERSION :: u64 where "OTS_MAJOR_VERSION = 1"
definition OTS_OP_SHA256 :: byte where "OTS_OP_SHA256 = 0x08"
definition OTS_OP_APPEND :: byte where "OTS_OP_APPEND = 0xf0"
definition OTS_OP_PREPEND :: byte where "OTS_OP_PREPEND = 0xf1"
definition OTS_TIMESTAMP_MORE :: byte where "OTS_TIMESTAMP_MORE = 0xff"
definition OTS_TIMESTAMP_ATTESTATION :: byte where "OTS_TIMESTAMP_ATTESTATION = 0x00"

definition OTS_PENDING_ATTESTATION_TAG :: bytes where
  "OTS_PENDING_ATTESTATION_TAG = [0x83, 0xdf, 0xe3, 0x0d, 0x2e, 0xf9, 0x0c, 0x8e]"

definition OTS_BITCOIN_BLOCK_HEADER_ATTESTATION_TAG :: bytes where
  "OTS_BITCOIN_BLOCK_HEADER_ATTESTATION_TAG = [0x05, 0x88, 0x96, 0x0d, 0x73, 0xd7, 0x19, 0x01]"

definition OTS_MAX_OP_RESULT_LEN :: nat where "OTS_MAX_OP_RESULT_LEN = 4096"
definition OTS_MAX_ATTESTATION_PAYLOAD_LEN :: nat where "OTS_MAX_ATTESTATION_PAYLOAD_LEN = 8192"
definition OTS_MAX_URI_LEN :: nat where "OTS_MAX_URI_LEN = 1000"
definition OTS_MAX_RECURSION_DEPTH :: nat where "OTS_MAX_RECURSION_DEPTH = 256"

lemmas ots_tags = OTS_OP_SHA256_def OTS_OP_APPEND_def OTS_OP_PREPEND_def OTS_TIMESTAMP_MORE_def
  OTS_TIMESTAMP_ATTESTATION_def

section \<open>Hexadecimal digests\<close>

definition is_hex_digit :: "byte \<Rightarrow> bool" where
  "is_hex_digit b \<longleftrightarrow> is_lower_hex b \<or> is_upper_hex b"

definition is_sha256_hex :: "string \<Rightarrow> bool" where
  "is_sha256_hex value \<longleftrightarrow> length value = 64 \<and> list_all is_hex_digit (str_bytes value)"

definition normalize_hex :: "string \<Rightarrow> string" where
  "normalize_hex value = bytes_str (map (\<lambda>b. if 0x41 \<le> b \<and> b \<le> 0x5A then b + 0x20 else b) (str_bytes value))"

definition hex_nibble :: "byte \<Rightarrow> byte option" where
  "hex_nibble b =
     (if 0x30 \<le> b \<and> b \<le> 0x39 then Some (b - 0x30)
      else if 0x61 \<le> b \<and> b \<le> 0x66 then Some (b - 0x61 + 10)
      else if 0x41 \<le> b \<and> b \<le> 0x46 then Some (b - 0x41 + 10)
      else None)"

fun hex_digest_loop :: "bytes \<Rightarrow> bytes option" where
  "hex_digest_loop (hi # lo # rest) =
     Option.bind (hex_nibble hi) (\<lambda>h. Option.bind (hex_nibble lo) (\<lambda>l.
       map_option (Cons (push_bit 4 h OR l)) (hex_digest_loop rest)))"
| "hex_digest_loop _ = Some []"

definition hex_to_digest32 :: "string \<Rightarrow> bytes option" where
  "hex_to_digest32 value = (if length value \<noteq> 64 then None else hex_digest_loop (str_bytes value))"

definition parse_expected_digest :: "string option \<Rightarrow> (bytes option, string) result" where
  "parse_expected_digest value = (case value of
       None \<Rightarrow> Ok None
     | Some value \<Rightarrow> and_then (ok_or (hex_to_digest32 value) ''ots-expected-hash-invalid'') (\<lambda>digest. Ok (Some digest)))"

definition not_line_end :: "byte \<Rightarrow> bool" where
  "not_line_end b \<longleftrightarrow> b \<noteq> 0x0A \<and> b \<noteq> 0x0D"

definition parse_stationary_stub :: "bytes \<Rightarrow> bytes option" where
  "parse_stationary_stub raw =
     (if take (length STATIONARY_PREFIX) raw \<noteq> STATIONARY_PREFIX then None
      else Option.bind (trim_text (takeWhile not_line_end (drop (length STATIONARY_PREFIX) raw)))
        (\<lambda>line. hex_to_digest32 (bytes_str line)))"

section \<open>The cursor\<close>

datatype ots_internal_error = Fallback | Invalid string

type_synonym 'a ots_result = "('a, ots_internal_error) result"

abbreviation parse_failed :: "'a ots_result" where
  "parse_failed \<equiv> Err (Invalid ''ots-proof-parse-failed'')"

record ots_cursor =
  oc_raw :: bytes
  oc_offset :: nat

definition ots_cursor_new :: "bytes \<Rightarrow> ots_cursor" where
  "ots_cursor_new raw = \<lparr>oc_raw = raw, oc_offset = 0\<rparr>"

definition ots_read_bytes :: "ots_cursor \<Rightarrow> nat \<Rightarrow> (bytes \<times> ots_cursor) ots_result" where
  "ots_read_bytes c len =
     (let end_offset = oc_offset c + len in
      if end_offset > length (oc_raw c) then parse_failed
      else Ok (subslice (oc_raw c) (oc_offset c) end_offset, c\<lparr>oc_offset := end_offset\<rparr>))"

definition ots_read_u8 :: "ots_cursor \<Rightarrow> (byte \<times> ots_cursor) ots_result" where
  "ots_read_u8 c = and_then (ots_read_bytes c 1) (\<lambda>(bs, c). Ok (bs ! 0, c))"

definition assert_magic :: "ots_cursor \<Rightarrow> bytes \<Rightarrow> ots_cursor ots_result" where
  "assert_magic c magic = and_then (ots_read_bytes c (length magic)) (\<lambda>(actual, c).
     if actual = magic then Ok c else Err Fallback)"

text \<open>Bits shifted out of the 64-bit value are lost without an error, as in the code.\<close>

function read_varuint_loop :: "ots_cursor \<Rightarrow> u64 \<Rightarrow> nat \<Rightarrow> (u64 \<times> ots_cursor) ots_result" where
  "read_varuint_loop c value shift =
     (if shift \<ge> 64 then parse_failed
      else and_then (ots_read_u8 c) (\<lambda>(b, c).
        let value = value OR push_bit shift (ucast (b AND 0x7f)) in
        if b AND 0x80 = 0 then Ok (value, c) else read_varuint_loop c value (shift + 7)))"
  by pat_completeness auto
termination
  by (relation "measure (\<lambda>(_, _, shift). 64 - shift)") auto

declare read_varuint_loop.simps [simp del]

definition read_varuint :: "ots_cursor \<Rightarrow> (u64 \<times> ots_cursor) ots_result" where
  "read_varuint c = read_varuint_loop c 0 0"

definition read_varbytes :: "ots_cursor \<Rightarrow> nat \<Rightarrow> nat \<Rightarrow> (bytes \<times> ots_cursor) ots_result" where
  "read_varbytes c max_len min_len = and_then (read_varuint c) (\<lambda>(len, c).
     if unat len < min_len \<or> unat len > max_len then parse_failed else ots_read_bytes c (unat len))"

definition assert_eof :: "ots_cursor \<Rightarrow> unit ots_result" where
  "assert_eof c = (if oc_offset c = length (oc_raw c) then Ok () else Err (Invalid ''ots-proof-trailing-garbage''))"

section \<open>Operations and attestations\<close>

record ots_proof_summary =
  op_file_digest :: bytes
  op_pending_uris :: "string list"
  op_bitcoin_heights :: "u64 list"
  op_steps :: "string list"

definition ots_proof_summary_new :: "bytes \<Rightarrow> ots_proof_summary" where
  "ots_proof_summary_new file_digest =
     \<lparr>op_file_digest = file_digest, op_pending_uris = [], op_bitcoin_heights = [], op_steps = []\<rparr>"

definition push_step :: "string \<Rightarrow> ots_proof_summary \<Rightarrow> ots_proof_summary" where
  "push_step step s = s\<lparr>op_steps := op_steps s @ [step]\<rparr>"

definition is_uri_byte :: "byte \<Rightarrow> bool" where
  "is_uri_byte b \<longleftrightarrow> 0x41 \<le> b \<and> b \<le> 0x5A \<or> 0x61 \<le> b \<and> b \<le> 0x7A \<or> 0x30 \<le> b \<and> b \<le> 0x39
     \<or> b \<in> {0x2D, 0x2E, 0x5F, 0x2F, 0x3A}"

definition parse_pending_attestation_uri :: "bytes \<Rightarrow> string ots_result" where
  "parse_pending_attestation_uri payload =
     and_then (read_varbytes (ots_cursor_new payload) OTS_MAX_URI_LEN 0) (\<lambda>(uri, c).
     and_then (assert_eof c) (\<lambda>_.
     if \<not> list_all is_uri_byte uri then Err (Invalid ''ots-pending-uri-invalid'')
     else if \<not> utf8_valid uri then Err (Invalid ''ots-pending-uri-invalid'')
     else Ok (bytes_str uri)))"

definition parse_bitcoin_block_header_attestation_height :: "bytes \<Rightarrow> u64 ots_result" where
  "parse_bitcoin_block_header_attestation_height payload =
     and_then (read_varuint (ots_cursor_new payload)) (\<lambda>(height, c).
     and_then (assert_eof c) (\<lambda>_. Ok height))"

definition parse_attestation ::
  "ots_cursor \<Rightarrow> bytes \<Rightarrow> ots_proof_summary \<Rightarrow> (ots_proof_summary \<times> ots_cursor) ots_result" where
  "parse_attestation c msg s =
     and_then (ots_read_bytes c 8) (\<lambda>(tag, c).
     and_then (read_varbytes c OTS_MAX_ATTESTATION_PAYLOAD_LEN 0) (\<lambda>(payload, c).
     if tag = OTS_PENDING_ATTESTATION_TAG then
       and_then (parse_pending_attestation_uri payload) (\<lambda>uri.
       let s = push_step (''verify PendingAttestation('' @ uri @ '')'') s in
       Ok (s\<lparr>op_pending_uris := op_pending_uris s @ [uri]\<rparr>, c))
     else if tag = OTS_BITCOIN_BLOCK_HEADER_ATTESTATION_TAG then
       (if length msg \<noteq> 32 then Err (Invalid ''ots-bitcoin-digest-invalid'')
        else and_then (parse_bitcoin_block_header_attestation_height payload) (\<lambda>height.
          let s = push_step (''verify BitcoinBlockHeaderAttestation('' @ show_nat (unat height) @ '')'') s in
          Ok (s\<lparr>op_bitcoin_heights := op_bitcoin_heights s @ [height]\<rparr>, c)))
     else Err Fallback))"

definition apply_ots_op ::
  "(bytes \<Rightarrow> bytes) \<Rightarrow> ots_cursor \<Rightarrow> byte \<Rightarrow> bytes \<Rightarrow> ((string \<times> bytes) \<times> ots_cursor) ots_result" where
  "apply_ots_op H c tag msg =
     (if length msg > OTS_MAX_OP_RESULT_LEN then Err (Invalid ''ots-proof-message-too-long'')
      else if tag = OTS_OP_APPEND then
        and_then (read_varbytes c OTS_MAX_OP_RESULT_LEN 1) (\<lambda>(suffix, c).
        if length (msg @ suffix) > OTS_MAX_OP_RESULT_LEN then Err (Invalid ''ots-proof-message-too-long'')
        else Ok ((''append '' @ hex_lower suffix, msg @ suffix), c))
      else if tag = OTS_OP_PREPEND then
        and_then (read_varbytes c OTS_MAX_OP_RESULT_LEN 1) (\<lambda>(prefix, c).
        if length (prefix @ msg) > OTS_MAX_OP_RESULT_LEN then Err (Invalid ''ots-proof-message-too-long'')
        else Ok ((''prepend '' @ hex_lower prefix, prefix @ msg), c))
      else if tag = OTS_OP_SHA256 then Ok ((''sha256'', H msg), c)
      else Err Fallback)"

section \<open>Cursor movement\<close>

text \<open>Every read stays on the same bytes and never moves back.\<close>

definition advances :: "ots_cursor \<Rightarrow> ots_cursor \<Rightarrow> bool" where
  "advances c c' \<longleftrightarrow> oc_raw c' = oc_raw c \<and> oc_offset c \<le> oc_offset c' \<and> oc_offset c' \<le> max (oc_offset c) (length (oc_raw c))"

lemma advances_refl [simp]: "advances c c"
  by (simp add: advances_def)

lemma advances_trans: "advances c c' \<Longrightarrow> advances c' c'' \<Longrightarrow> advances c c''"
  by (auto simp: advances_def)

lemma ots_read_bytes_Ok_iff:
  "ots_read_bytes c len = Ok (bs, c') \<longleftrightarrow> oc_offset c + len \<le> length (oc_raw c)
     \<and> bs = subslice (oc_raw c) (oc_offset c) (oc_offset c + len) \<and> c' = c\<lparr>oc_offset := oc_offset c + len\<rparr>"
  by (auto simp: ots_read_bytes_def Let_def)

lemma ots_read_bytes_advances: "ots_read_bytes c len = Ok (bs, c') \<Longrightarrow> advances c c'"
  by (auto simp: ots_read_bytes_Ok_iff advances_def)

lemma ots_read_u8_Ok_iff:
  "ots_read_u8 c = Ok (b, c') \<longleftrightarrow> oc_offset c < length (oc_raw c) \<and> b = oc_raw c ! oc_offset c
     \<and> c' = c\<lparr>oc_offset := Suc (oc_offset c)\<rparr>"
  by (auto simp: ots_read_u8_def and_then_Ok_iff ots_read_bytes_Ok_iff subslice_Suc)

lemma ots_read_u8_advances: "ots_read_u8 c = Ok (b, c') \<Longrightarrow> advances c c' \<and> oc_offset c < oc_offset c' \<and> oc_offset c < length (oc_raw c)"
  by (auto simp: ots_read_u8_Ok_iff advances_def)

lemma read_varuint_loop_advances: "read_varuint_loop c v shift = Ok (n, c') \<Longrightarrow> advances c c'"
proof (induction c v shift rule: read_varuint_loop.induct)
  case (1 c v shift)
  then show ?case
    by (subst (asm) (2) read_varuint_loop.simps)
      (auto simp: and_then_Ok_iff Let_def split: if_splits dest: ots_read_u8_advances intro: advances_trans)
qed

lemma read_varuint_advances: "read_varuint c = Ok (n, c') \<Longrightarrow> advances c c'"
  unfolding read_varuint_def by (rule read_varuint_loop_advances)

lemma read_varbytes_advances: "read_varbytes c u l = Ok (bs, c') \<Longrightarrow> advances c c'"
  by (auto simp: read_varbytes_def and_then_Ok_iff split: if_splits
      dest!: read_varuint_advances ots_read_bytes_advances intro: advances_trans)

lemma parse_attestation_advances: "parse_attestation c msg s = Ok (s', c') \<Longrightarrow> advances c c'"
  by (auto simp: parse_attestation_def and_then_Ok_iff Let_def split: if_splits
      dest!: ots_read_bytes_advances read_varbytes_advances intro: advances_trans)

lemma apply_ots_op_advances: "apply_ots_op H c tag msg = Ok (r, c') \<Longrightarrow> advances c c'"
  by (auto simp: apply_ots_op_def and_then_Ok_iff split: if_splits dest!: read_varbytes_advances)

section \<open>The timestamp parser\<close>

text \<open>
  \<open>parse_timestamp\<close> and \<open>parse_timestamp_tag\<close>; the while loop of the former is \<open>parse_timestamp_rest\<close>,
  which holds the tag just read.  The recursion ends because \<open>recursion_remaining\<close> falls with every
  operation and the loop reads at least two bytes per round.
\<close>

function (sequential)
  parse_timestamp :: "(bytes \<Rightarrow> bytes) \<Rightarrow> ots_cursor \<Rightarrow> bytes \<Rightarrow> nat \<Rightarrow> ots_proof_summary
    \<Rightarrow> (ots_proof_summary \<times> ots_cursor) ots_result"
  and parse_timestamp_rest :: "(bytes \<Rightarrow> bytes) \<Rightarrow> byte \<Rightarrow> ots_cursor \<Rightarrow> bytes \<Rightarrow> nat \<Rightarrow> ots_proof_summary
    \<Rightarrow> (ots_proof_summary \<times> ots_cursor) ots_result"
  and parse_timestamp_tag :: "(bytes \<Rightarrow> bytes) \<Rightarrow> ots_cursor \<Rightarrow> byte \<Rightarrow> bytes \<Rightarrow> nat \<Rightarrow> ots_proof_summary
    \<Rightarrow> (ots_proof_summary \<times> ots_cursor) ots_result" where
  "parse_timestamp H c msg recursion_remaining s =
     (if recursion_remaining = 0 then Err (Invalid ''ots-proof-recursion-limit'')
      else and_then (ots_read_u8 c) (\<lambda>(tag, c). parse_timestamp_rest H tag c msg recursion_remaining s))"
| "parse_timestamp_rest H tag c msg recursion_remaining s =
     (if tag = OTS_TIMESTAMP_MORE then
        and_then (ots_read_u8 c) (\<lambda>(next_tag, c).
        and_then (parse_timestamp_tag H c next_tag msg recursion_remaining s) (\<lambda>(s, c).
        and_then (ots_read_u8 c) (\<lambda>(tag, c). parse_timestamp_rest H tag c msg recursion_remaining s)))
      else parse_timestamp_tag H c tag msg recursion_remaining s)"
| "parse_timestamp_tag H c tag msg recursion_remaining s =
     (if tag = OTS_TIMESTAMP_ATTESTATION then parse_attestation c msg s
      else and_then (apply_ots_op H c tag msg) (\<lambda>(applied, c).
        (case applied of (step, r) \<Rightarrow> parse_timestamp H c r (recursion_remaining - 1) (push_step step s))))"
  by pat_completeness auto

lemma parse_timestamp_partial_advances:
  "parse_timestamp_parse_timestamp_rest_parse_timestamp_tag_dom (Inl (H, c, msg, n, s)) \<Longrightarrow>
     parse_timestamp H c msg n s = Ok (s', c') \<Longrightarrow> advances c c'"
  "parse_timestamp_parse_timestamp_rest_parse_timestamp_tag_dom (Inr (Inl (H, tag, c, msg, n, s))) \<Longrightarrow>
     parse_timestamp_rest H tag c msg n s = Ok (s', c') \<Longrightarrow> advances c c'"
  "parse_timestamp_parse_timestamp_rest_parse_timestamp_tag_dom (Inr (Inr (H, c, tag, msg, n, s))) \<Longrightarrow>
     parse_timestamp_tag H c tag msg n s = Ok (s', c') \<Longrightarrow> advances c c'"
proof (induction H c msg n s and H tag c msg n s and H c tag msg n s arbitrary: s' c' and s' c' and s' c'
    rule: parse_timestamp_parse_timestamp_rest_parse_timestamp_tag.pinduct)
  case (1 H c msg n s)
  then obtain tag c1 where r: "ots_read_u8 c = Ok (tag, c1)" "parse_timestamp_rest H tag c1 msg n s = Ok (s', c')" "n \<noteq> 0"
    by (auto simp: parse_timestamp.psimps and_then_Ok_iff split: if_splits)
  with 1 have "advances c1 c'" by blast
  with ots_read_u8_advances [OF r(1)] show ?case by (blast intro: advances_trans)
next
  case (2 H tag c msg n s)
  show ?case
  proof (cases "tag = OTS_TIMESTAMP_MORE")
    case True
    with 2(1,5) obtain nt c1 s1 c2 t c3 where r: "ots_read_u8 c = Ok (nt, c1)"
      "parse_timestamp_tag H c1 nt msg n s = Ok (s1, c2)" "ots_read_u8 c2 = Ok (t, c3)"
      "parse_timestamp_rest H t c3 msg n s1 = Ok (s', c')"
      by (auto simp: parse_timestamp_rest.psimps and_then_Ok_iff)
    from 2(2)[OF True r(1) refl r(2)] 2(3)[OF True r(1) refl r(2) refl r(3) refl r(4)]
      ots_read_u8_advances [OF r(1)] ots_read_u8_advances [OF r(3)]
    show ?thesis by (blast intro: advances_trans)
  next
    case False
    with 2 show ?thesis by (simp add: parse_timestamp_rest.psimps)
  qed
next
  case (3 H c tag msg n s)
  show ?case
  proof (cases "tag = OTS_TIMESTAMP_ATTESTATION")
    case True
    with 3 show ?thesis by (simp add: parse_timestamp_tag.psimps parse_attestation_advances)
  next
    case False
    with 3(1,3) obtain step r c1 where r: "apply_ots_op H c tag msg = Ok ((step, r), c1)"
      "parse_timestamp H c1 r (n - 1) (push_step step s) = Ok (s', c')"
      by (auto simp: parse_timestamp_tag.psimps and_then_Ok_iff)
    from 3(2)[OF False r(1) refl refl r(2)] apply_ots_op_advances [OF r(1)]
    show ?thesis by (blast intro: advances_trans)
  qed
qed

text \<open>What is left to read, and what is left of the recursion.\<close>

definition unread :: "ots_cursor \<Rightarrow> nat" where
  "unread c = length (oc_raw c) - oc_offset c"

lemma advances_unread: "advances c c' \<Longrightarrow> unread c' \<le> unread c"
  by (auto simp: advances_def unread_def)

lemma ots_read_u8_unread: "ots_read_u8 c = Ok (b, c') \<Longrightarrow> unread c' < unread c"
  by (auto simp: ots_read_u8_Ok_iff unread_def)

termination parse_timestamp
proof (relation "measures [
    case_sum (\<lambda>(H, c, msg, n, s). n) (case_sum (\<lambda>(H, tag, c, msg, n, s). n) (\<lambda>(H, c, tag, msg, n, s). n)),
    case_sum (\<lambda>(H, c, msg, n, s). unread c) (case_sum (\<lambda>(H, tag, c, msg, n, s). unread c) (\<lambda>(H, c, tag, msg, n, s). unread c)),
    case_sum (\<lambda>_. 0) (case_sum (\<lambda>_. 2) (\<lambda>_. 1))]", goal_cases)
  case (2 H c msg n s x tag c1)
  then show ?case by (auto dest: ots_read_u8_unread)
next
  case (3 H tag c msg n s x nt c1)
  then show ?case by (auto dest: ots_read_u8_unread)
next
  case (4 H tag c msg n s x nt c1 xb s1 c2 xd t c3)
  from 4(8) have "advances c1 c2" using 4(4,5) by (auto intro: parse_timestamp_partial_advances(3))
  then have "unread c3 < unread c"
    using 4(2,3,6,7) by (auto dest!: ots_read_u8_unread advances_unread)
  then show ?case by simp
next
  case (6 H c tag msg n s x applied c1 step r)
  then have "unread c1 \<le> unread c" by (auto dest: apply_ots_op_advances advances_unread)
  then show ?case by auto
qed simp_all

end
