(* ===== verification/Ots_Verify.thy ===== *)
theory Ots_Verify
  imports Ots_Proof Ledger_Json Rust_Process
begin

unbundle bit_operations_syntax

text \<open>
  Verification of OpenTimestamps proofs and their metadata (\<open>crates/trackone-ots/src/lib.rs\<close>): detached
  proofs, placeholders and stationary stubs, the external verifier process, and the metadata sidecar.
  Files, canonical paths, the search path, processes and the JSON reader are parameters; a wait on a
  process may not return, which is the value \<open>None\<close>.
\<close>

section \<open>The world outside\<close>

record ots_env =
  oe_read :: "string \<Rightarrow> (bytes, io_error) result"
  oe_read_to_string :: "string \<Rightarrow> (string, io_error) result"
  oe_canonicalize :: "path_component list \<Rightarrow> (path_component list, io_error) result"
  oe_instant_add :: "duration \<Rightarrow> bool"
  oe_metadata :: "string \<Rightarrow> (bool \<times> u32) option"
  oe_search_path :: "string list option"
  oe_tempdir :: "string option"
  oe_write :: "string \<Rightarrow> bytes \<Rightarrow> bool"
  oe_spawn_verify :: "string \<Rightarrow> string \<Rightarrow> bytes \<Rightarrow> bytes \<Rightarrow> child option"
  oe_parse_json :: "string \<Rightarrow> json option"

section \<open>Results\<close>

datatype ots_status = Verified | Pending | Failed | Missing | Skipped

definition ots_status_str :: "ots_status \<Rightarrow> string" where
  "ots_status_str s = (case s of Verified \<Rightarrow> ''verified'' | Pending \<Rightarrow> ''pending'' | Failed \<Rightarrow> ''failed''
     | Missing \<Rightarrow> ''missing'' | Skipped \<Rightarrow> ''skipped'')"

record ots_verify_result =
  or_ok :: bool
  or_status :: ots_status
  or_reason :: string
  or_bitcoin_attestation_heights :: "u64 list"

definition ots_verify_result_new :: "bool \<Rightarrow> ots_status \<Rightarrow> string \<Rightarrow> ots_verify_result" where
  "ots_verify_result_new ok status reason =
     \<lparr>or_ok = ok, or_status = status, or_reason = reason, or_bitcoin_attestation_heights = []\<rparr>"

definition success :: "ots_status \<Rightarrow> string \<Rightarrow> ots_verify_result" where
  "success status reason = ots_verify_result_new True status reason"

definition failure :: "ots_status \<Rightarrow> string \<Rightarrow> ots_verify_result" where
  "failure status reason = ots_verify_result_new False status reason"

section \<open>Options\<close>

definition OTS_VERIFY_TIMEOUT_SECS :: u64 where "OTS_VERIFY_TIMEOUT_SECS = 30"

definition default_verify_timeout :: duration where
  "default_verify_timeout = (OTS_VERIFY_TIMEOUT_SECS, 0)"

record ots_verify_options =
  vo_allow_placeholder :: bool
  vo_expected_artifact_sha :: "string option"
  vo_ots_binary :: "string option"
  vo_timeout :: duration

definition default_ots_verify_options :: ots_verify_options where
  "default_ots_verify_options = \<lparr>vo_allow_placeholder = False, vo_expected_artifact_sha = None,
     vo_ots_binary = None, vo_timeout = default_verify_timeout\<rparr>"

datatype ots_config_error = ZeroTimeout | TimeoutOutOfRange

definition ots_config_error_str :: "ots_config_error \<Rightarrow> string" where
  "ots_config_error_str e = (case e of ZeroTimeout \<Rightarrow> ''ots-timeout-zero''
     | TimeoutOutOfRange \<Rightarrow> ''ots-timeout-out-of-range'')"

definition validate_ots_options :: "ots_env \<Rightarrow> ots_verify_options \<Rightarrow> (unit, ots_config_error) result" where
  "validate_ots_options env options =
     (if vo_timeout options = (0, 0) then Err ZeroTimeout
      else if \<not> oe_instant_add env (vo_timeout options) then Err TimeoutOutOfRange
      else Ok ())"

section \<open>Artifacts and detached proofs\<close>

definition artifact_path_for_ots :: "string \<Rightarrow> string option" where
  "artifact_path_for_ots ots_path =
     (if extension ots_path \<noteq> Some ''ots'' then None else Some (without_extension ots_path))"

definition read_artifact_for_ots :: "ots_env \<Rightarrow> string \<Rightarrow> (bytes, string) result" where
  "read_artifact_for_ots env ots_path =
     and_then (ok_or (artifact_path_for_ots ots_path) ''ots-invalid-path'') (\<lambda>artifact_path.
     map_err (\<lambda>_. ''ots-artifact-read-failed'') (oe_read env artifact_path))"

definition expected_digest_for_ots ::
  "(bytes \<Rightarrow> bytes) \<Rightarrow> ots_env \<Rightarrow> string \<Rightarrow> bytes option \<Rightarrow> bytes option ots_result" where
  "expected_digest_for_ots H env ots_path expected_digest =
     (case expected_digest of
        Some expected \<Rightarrow> Ok (Some expected)
      | None \<Rightarrow>
          (case artifact_path_for_ots ots_path of
             None \<Rightarrow> Ok None
           | Some artifact_path \<Rightarrow>
               (case oe_read env artifact_path of
                  Inr content \<Rightarrow> Ok (Some (H content))
                | Inl NotFound \<Rightarrow> Ok None
                | Inl _ \<Rightarrow> Err (Invalid ''ots-artifact-read-failed''))))"

definition parse_detached_ots ::
  "(bytes \<Rightarrow> bytes) \<Rightarrow> ots_env \<Rightarrow> bytes \<Rightarrow> string \<Rightarrow> bytes option \<Rightarrow> ots_proof_summary ots_result" where
  "parse_detached_ots H env raw ots_path expected_digest =
     (if take (length OTS_HEADER_MAGIC) raw \<noteq> OTS_HEADER_MAGIC then Err Fallback
      else
        and_then (assert_magic (ots_cursor_new raw) OTS_HEADER_MAGIC) (\<lambda>c.
        and_then (read_varuint c) (\<lambda>(major, c).
        if major \<noteq> OTS_MAJOR_VERSION then Err (Invalid ''ots-unsupported-version'')
        else
          and_then (ots_read_u8 c) (\<lambda>(file_hash_op, c).
          if file_hash_op \<noteq> OTS_OP_SHA256 then Err Fallback
          else
            and_then (ots_read_bytes c 32) (\<lambda>(file_digest, c).
            and_then (expected_digest_for_ots H env ots_path expected_digest) (\<lambda>expected.
            if (case expected of None \<Rightarrow> False | Some e \<Rightarrow> file_digest \<noteq> e)
            then Err (Invalid ''ots-proof-artifact-hash-mismatch'')
            else
              and_then (parse_timestamp H c file_digest OTS_MAX_RECURSION_DEPTH (ots_proof_summary_new file_digest))
                (\<lambda>(summary, c).
              and_then (assert_eof c) (\<lambda>_. Ok summary))))))))"

definition verify_detached_ots_proof ::
  "(bytes \<Rightarrow> bytes) \<Rightarrow> ots_env \<Rightarrow> bytes \<Rightarrow> string \<Rightarrow> bytes option \<Rightarrow> ots_verify_result ots_result" where
  "verify_detached_ots_proof H env raw ots_path expected_digest =
     and_then (parse_detached_ots H env raw ots_path expected_digest) (\<lambda>summary.
     if op_bitcoin_heights summary \<noteq> [] then Err Fallback
     else if op_pending_uris summary \<noteq> [] then Ok (success Pending ''ots-pending-attestation'')
     else Err Fallback)"

definition describe_detached_ots_proof_impl ::
  "(bytes \<Rightarrow> bytes) \<Rightarrow> ots_env \<Rightarrow> string \<Rightarrow> string option \<Rightarrow> string list ots_result" where
  "describe_detached_ots_proof_impl H env ots_path expected_artifact_sha =
     and_then (map_err (\<lambda>_. Invalid ''ots-proof-read-failed'') (oe_read env ots_path)) (\<lambda>raw.
     and_then (map_err Invalid (parse_expected_digest expected_artifact_sha)) (\<lambda>expected_digest.
     and_then (parse_detached_ots H env raw ots_path expected_digest) (\<lambda>summary.
     Ok ((''file sha256 '' @ hex_lower (op_file_digest summary)) # op_steps summary))))"

definition describe_ots_proof_native ::
  "(bytes \<Rightarrow> bytes) \<Rightarrow> ots_env \<Rightarrow> string \<Rightarrow> string option \<Rightarrow> (string list, string) result" where
  "describe_ots_proof_native H env ots_path expected_artifact_sha =
     map_err (\<lambda>error. case error of Fallback \<Rightarrow> ''ots-proof-unsupported'' | Invalid reason \<Rightarrow> reason)
       (describe_detached_ots_proof_impl H env ots_path expected_artifact_sha)"

definition hash_for_ots_native :: "(bytes \<Rightarrow> bytes) \<Rightarrow> bytes \<Rightarrow> bytes" where
  "hash_for_ots_native H artifact = H artifact"

section \<open>The external verifier\<close>

text \<open>Polls until the child has exited or the timeout has passed; then the child is killed and waited for.
  \<open>Some (Ok None)\<close> is the timeout, \<open>None\<close> a wait that never ends.\<close>

partial_function (option) wait_for_exit ::
  "child \<Rightarrow> duration \<Rightarrow> nat \<Rightarrow> (bool option, io_error) result option" where
  "wait_for_exit ch timeout n =
     (case ch_try_wait ch n of
        Inl e \<Rightarrow> Some (Err e)
      | Inr (Some status) \<Rightarrow> Some (Ok (Some status))
      | Inr None \<Rightarrow>
          if ch_elapsed ch n \<ge> nanos timeout then
            (case child_wait ch (child_kill ch n) n of
               None \<Rightarrow> None
             | Some _ \<Rightarrow> Some (Ok None))
          else wait_for_exit ch timeout (n + 1))"

definition is_executable :: "ots_env \<Rightarrow> string \<Rightarrow> bool" where
  "is_executable env path = (case oe_metadata env path of
       None \<Rightarrow> False | Some (is_file, mode) \<Rightarrow> is_file \<and> mode AND 0x49 \<noteq> 0)"

fun find_in_dirs :: "ots_env \<Rightarrow> string \<Rightarrow> string list \<Rightarrow> string option" where
  "find_in_dirs env name [] = None"
| "find_in_dirs env name (dir # dirs) =
     (if is_executable env (path_join dir name) then Some (path_join dir name) else find_in_dirs env name dirs)"

definition find_executable :: "ots_env \<Rightarrow> string \<Rightarrow> string option" where
  "find_executable env name = Option.bind (oe_search_path env) (find_in_dirs env name)"

definition stage_ots_verification ::
  "ots_env \<Rightarrow> string \<Rightarrow> bytes \<Rightarrow> bytes \<Rightarrow> (string, string) result" where
  "stage_ots_verification env ots_path proof_bytes artifact =
     and_then (ok_or (file_name ots_path) ''ots-invalid-path'') (\<lambda>proof_name.
     and_then (ok_or (oe_tempdir env) ''ots-staging-failed'') (\<lambda>staging.
     let staged_proof = path_join staging proof_name in
     and_then (ok_or (artifact_path_for_ots staged_proof) ''ots-invalid-path'') (\<lambda>staged_artifact.
     if \<not> oe_write env staged_artifact artifact then Err ''ots-staging-failed''
     else if \<not> oe_write env staged_proof proof_bytes then Err ''ots-staging-failed''
     else Ok staged_proof)))"

definition exit_result :: "(bool option, io_error) result \<Rightarrow> ots_verify_result" where
  "exit_result r = (case r of
       Inr (Some True) \<Rightarrow> success Verified ''ots-verified''
     | Inr (Some False) \<Rightarrow> failure Failed ''ots-verification-failed''
     | Inr None \<Rightarrow> failure Failed ''ots-timeout''
     | Inl _ \<Rightarrow> failure Failed ''ots-exec-failed'')"

definition verify_external_ots ::
  "ots_env \<Rightarrow> string \<Rightarrow> bytes \<Rightarrow> bytes option \<Rightarrow> string option \<Rightarrow> duration \<Rightarrow> ots_verify_result option" where
  "verify_external_ots env ots_path proof_bytes expected_artifact ots_binary timeout =
     (case (case expected_artifact of Some artifact \<Rightarrow> Ok artifact | None \<Rightarrow> read_artifact_for_ots env ots_path) of
        Inl reason \<Rightarrow> Some (failure Failed reason)
      | Inr artifact \<Rightarrow>
          (case (case ots_binary of Some path \<Rightarrow> Some path | None \<Rightarrow> find_executable env ''ots'') of
             None \<Rightarrow> Some (failure Failed ''ots-binary-not-found'')
           | Some binary \<Rightarrow>
               if \<not> is_executable env binary then Some (failure Failed ''ots-binary-not-executable'')
               else (case stage_ots_verification env ots_path proof_bytes artifact of
                  Inl reason \<Rightarrow> Some (failure Failed reason)
                | Inr verification_path \<Rightarrow>
                    (case oe_spawn_verify env binary verification_path proof_bytes artifact of
                       None \<Rightarrow> Some (failure Failed ''ots-exec-failed'')
                     | Some ch \<Rightarrow> map_option exit_result (wait_for_exit ch timeout 0)))))"

section \<open>Proof verification\<close>

definition verify_stub :: "(bytes \<Rightarrow> bytes) \<Rightarrow> ots_env \<Rightarrow> string \<Rightarrow> bool \<Rightarrow> bytes option \<Rightarrow> bytes \<Rightarrow> ots_verify_result" where
  "verify_stub H env ots_path allow_placeholder expected_digest stub_digest =
     (if \<not> allow_placeholder then failure Failed ''placeholder-not-allowed''
      else case (case expected_digest of
            Some expected \<Rightarrow> Ok expected
          | None \<Rightarrow> (case read_artifact_for_ots env ots_path of
                Inr artifact \<Rightarrow> Ok (H artifact)
              | Inl reason \<Rightarrow> if reason = ''ots-artifact-read-failed'' then Err ''stationary-stub-artifact-missing'' else Err reason)) of
          Inl reason \<Rightarrow> failure Failed reason
        | Inr expected \<Rightarrow> if stub_digest = expected then success Pending ''stationary-stub-accepted''
            else failure Failed ''stationary-stub-hash-mismatch'')"

definition verify_proof_bytes ::
  "(bytes \<Rightarrow> bytes) \<Rightarrow> ots_env \<Rightarrow> string \<Rightarrow> ots_verify_options \<Rightarrow> bytes option \<Rightarrow> bytes option \<Rightarrow> bytes
     \<Rightarrow> ots_verify_result option" where
  "verify_proof_bytes H env ots_path options expected_digest expected_artifact raw =
     (case parse_stationary_stub raw of
        Some stub_digest \<Rightarrow> Some (verify_stub H env ots_path (vo_allow_placeholder options) expected_digest stub_digest)
      | None \<Rightarrow>
          if trim_ascii raw = PLACEHOLDER_BYTES then
            Some (if vo_allow_placeholder options then success Pending ''placeholder-accepted''
              else failure Failed ''placeholder-not-allowed'')
          else (case verify_detached_ots_proof H env raw ots_path expected_digest of
             Inr result \<Rightarrow> Some result
           | Inl (Invalid reason) \<Rightarrow> Some (failure Failed reason)
           | Inl Fallback \<Rightarrow>
               verify_external_ots env ots_path raw expected_artifact (vo_ots_binary options) (vo_timeout options)))"

definition verify_ots_proof_with_options ::
  "(bytes \<Rightarrow> bytes) \<Rightarrow> ots_env \<Rightarrow> string \<Rightarrow> ots_verify_options \<Rightarrow> ots_verify_result option" where
  "verify_ots_proof_with_options H env ots_path options =
     (case validate_ots_options env options of
        Inl error \<Rightarrow> Some (failure Failed (ots_config_error_str error))
      | Inr _ \<Rightarrow>
          (case parse_expected_digest (vo_expected_artifact_sha options) of
             Inl reason \<Rightarrow> Some (failure Failed reason)
           | Inr expected_digest \<Rightarrow>
               (case oe_read env ots_path of
                  Inl NotFound \<Rightarrow> Some (failure Missing ''ots-proof-not-found'')
                | Inl _ \<Rightarrow> Some (failure Failed ''ots-proof-read-failed'')
                | Inr raw \<Rightarrow>
                    (case expected_digest of
                       None \<Rightarrow> verify_proof_bytes H env ots_path options None None raw
                     | Some expected \<Rightarrow>
                         (case read_artifact_for_ots env ots_path of
                            Inl reason \<Rightarrow> Some (failure Failed reason)
                          | Inr artifact \<Rightarrow>
                              if H artifact \<noteq> expected then Some (failure Failed ''ots-proof-artifact-hash-mismatch'')
                              else verify_proof_bytes H env ots_path options (Some expected) (Some artifact) raw)))))"

definition verify_ots_proof_native ::
  "(bytes \<Rightarrow> bytes) \<Rightarrow> ots_env \<Rightarrow> string \<Rightarrow> bool \<Rightarrow> string option \<Rightarrow> string option \<Rightarrow> duration option
     \<Rightarrow> ots_verify_result option" where
  "verify_ots_proof_native H env ots_path allow_placeholder expected_artifact_sha ots_binary timeout =
     verify_ots_proof_with_options H env ots_path \<lparr>vo_allow_placeholder = allow_placeholder,
       vo_expected_artifact_sha = expected_artifact_sha, vo_ots_binary = ots_binary,
       vo_timeout = (case timeout of None \<Rightarrow> default_verify_timeout | Some t \<Rightarrow> t)\<rparr>"

section \<open>The metadata sidecar\<close>

fun normalize_components :: "bool \<Rightarrow> path_component list \<Rightarrow> path_component list \<Rightarrow> path_component list" where
  "normalize_components absolute normalized [] = normalized"
| "normalize_components absolute normalized (part # parts) =
     normalize_components absolute
       (case part of
          RootDir \<Rightarrow> [RootDir]
        | CurDir \<Rightarrow> normalized
        | ParentDir \<Rightarrow>
            if normalized \<noteq> [] \<and> is_normal (last normalized) then butlast normalized
            else if \<not> absolute then normalized @ [ParentDir] else normalized
        | NormalPart name \<Rightarrow> normalized @ [NormalPart name])
       parts"

definition normalize_path :: "path_component list \<Rightarrow> path_component list" where
  "normalize_path parts = normalize_components (take 1 parts = [RootDir]) [] parts"

definition resolve_from :: "path_component list \<Rightarrow> string \<Rightarrow> path_component list" where
  "resolve_from base rel =
     (if is_absolute rel then normalize_path (path_components rel)
      else normalize_path (normalize_path base @ path_components rel))"

definition required_str_field :: "(string \<times> json) list \<Rightarrow> string \<Rightarrow> string option" where
  "required_str_field entries key = (case bt_get key entries of Some (JString s) \<Rightarrow> Some s | _ \<Rightarrow> None)"

text \<open>Both paths exist and are the same file.\<close>

definition same_file ::
  "ots_env \<Rightarrow> string \<Rightarrow> path_component list \<Rightarrow> string \<Rightarrow> string \<Rightarrow> string \<Rightarrow> (unit, ots_verify_result) result" where
  "same_file env expected_path meta_path missing unresolved mismatch =
     (let resolve = (\<lambda>p. map_err (\<lambda>e. if e = NotFound then failure Missing missing else failure Failed unresolved)
        (oe_canonicalize env p)) in
      and_then (resolve (path_components expected_path)) (\<lambda>expected.
      and_then (resolve meta_path) (\<lambda>named.
      if named \<noteq> expected then Err (failure Failed mismatch) else Ok ())))"

definition meta_field :: "(string \<times> json) list \<Rightarrow> string \<Rightarrow> (string, ots_verify_result) result" where
  "meta_field entries key = ok_or (required_str_field entries key) (failure Failed ''meta-missing-fields'')"

definition check_meta_sidecar ::
  "(bytes \<Rightarrow> bytes) \<Rightarrow> ots_env \<Rightarrow> string \<Rightarrow> string \<Rightarrow> string \<Rightarrow> string \<Rightarrow> (unit, ots_verify_result) result" where
  "check_meta_sidecar H env meta_path repo_root expected_artifact_path expected_ots_path =
     and_then (map_err (\<lambda>e. if e = NotFound then failure Missing ''meta-not-found'' else failure Failed ''meta-read-failed'')
       (oe_read_to_string env meta_path)) (\<lambda>text.
     and_then (ok_or (oe_parse_json env text) (failure Failed ''meta-parse-failed'')) (\<lambda>v.
     and_then (case v of JObject entries \<Rightarrow> Ok entries | _ \<Rightarrow> Err (failure Failed ''meta-missing-fields'')) (\<lambda>entries.
     and_then (meta_field entries ''artifact'') (\<lambda>artifact_rel.
     and_then (meta_field entries ''day'') (\<lambda>day.
     if day = [] then Err (failure Failed ''meta-missing-fields'')
     else
       and_then (meta_field entries ''artifact_sha256'') (\<lambda>sha.
       if \<not> is_sha256_hex sha then Err (failure Failed ''meta-missing-fields'')
       else
         and_then (meta_field entries ''ots_proof'') (\<lambda>ots_rel.
         and_then (same_file env expected_artifact_path (resolve_from (path_components repo_root) artifact_rel)
           ''meta-artifact-missing'' ''meta-artifact-path-resolution-failed'' ''meta-artifact-path-mismatch'') (\<lambda>_.
         if day \<noteq> (case file_stem expected_artifact_path of None \<Rightarrow> [] | Some stem \<Rightarrow> stem)
         then Err (failure Failed ''meta-day-mismatch'')
         else
           and_then (map_err (\<lambda>e. if e = NotFound then failure Missing ''meta-artifact-missing'' else failure Failed ''meta-read-failed'')
             (oe_read env expected_artifact_path)) (\<lambda>artifact_bytes.
           if sha256_hex H artifact_bytes \<noteq> normalize_hex sha then Err (failure Failed ''meta-artifact-hash-mismatch'')
           else same_file env expected_ots_path (resolve_from (path_components repo_root) ots_rel)
             ''ots-proof-not-found'' ''ots-proof-path-resolution-failed'' ''meta-ots-path-mismatch'')))))))))"

definition validate_meta_sidecar_native ::
  "(bytes \<Rightarrow> bytes) \<Rightarrow> ots_env \<Rightarrow> string \<Rightarrow> string \<Rightarrow> string \<Rightarrow> string \<Rightarrow> ots_verify_result" where
  "validate_meta_sidecar_native H env meta_path repo_root expected_artifact_path expected_ots_path =
     (case check_meta_sidecar H env meta_path repo_root expected_artifact_path expected_ots_path of
        Inl failed \<Rightarrow> failed
      | Inr _ \<Rightarrow> success Verified ''meta-valid'')"

end
