(* ===== verification/Ots_Grammar.thy ===== *)
theory Ots_Grammar
  imports Ots_Verify
begin

unbundle bit_operations_syntax

text \<open>
  The grammar of detached OpenTimestamps proofs and their replay, independent of the cursor: trees of
  operations and attestations, the byte strings that encode them, and what replaying a tree on a
  message gives.  The parser accepts exactly the encodings of trees that replay within the limits.
\<close>

section \<open>Reading\<close>

definition takes :: "ots_cursor \<Rightarrow> bytes \<Rightarrow> ots_cursor \<Rightarrow> bool" where
  "takes c bs c' \<longleftrightarrow> oc_offset c + length bs \<le> length (oc_raw c)
     \<and> take (length bs) (drop (oc_offset c) (oc_raw c)) = bs
     \<and> c' = c\<lparr>oc_offset := oc_offset c + length bs\<rparr>"

lemma takes_read_bytes: "ots_read_bytes c len = Ok (bs, c') \<longleftrightarrow> takes c bs c' \<and> length bs = len"
  by (auto simp: ots_read_bytes_Ok_iff takes_def subslice_def)

lemma takes_read_u8: "ots_read_u8 c = Ok (b, c') \<longleftrightarrow> takes c [b] c'"
  by (auto simp: ots_read_u8_Ok_iff takes_def take_Suc_conv_app_nth Cons_nth_drop_Suc [symmetric])

lemma takes_append: "takes c (xs @ ys) c' \<longleftrightarrow> (\<exists>c1. takes c xs c1 \<and> takes c1 ys c')"
proof -
  have "take (length xs + length ys) d = xs @ ys \<longleftrightarrow> take (length xs) d = xs \<and> take (length ys) (drop (length xs) d) = ys"
    if "length xs + length ys \<le> length d" for d :: bytes
    using that by (auto simp: take_add)
  then show ?thesis by (auto simp: takes_def add.assoc add.commute [of "length xs"])
qed

lemma takes_Cons: "takes c (x # ys) c' \<longleftrightarrow> (\<exists>c1. takes c [x] c1 \<and> takes c1 ys c')"
  using takes_append [of c "[x]" ys] by simp

lemma takes_unique: "takes c xs c1 \<Longrightarrow> takes c ys c2 \<Longrightarrow> length xs = length ys \<Longrightarrow> xs = ys \<and> c1 = c2"
  by (auto simp: takes_def)

lemma takes_whole: "takes (ots_cursor_new raw) bs c \<and> assert_eof c = Ok () \<longleftrightarrow> bs = raw \<and> c = \<lparr>oc_raw = raw, oc_offset = length raw\<rparr>"
proof (cases "length bs = length raw")
  case True
  then have "take (length bs) raw = bs \<longleftrightarrow> bs = raw" by auto
  with True show ?thesis by (auto simp: takes_def ots_cursor_new_def assert_eof_def simp del: take_all_iff)
next
  case False
  then show ?thesis by (auto simp: takes_def ots_cursor_new_def assert_eof_def split: if_splits)
qed

lemma takes_whole_ex: "(\<exists>bs c. takes (ots_cursor_new raw) bs c \<and> assert_eof c = Ok () \<and> P bs) \<longleftrightarrow> P raw"
  unfolding conj_assoc [symmetric] takes_whole by simp

section \<open>Variable-length integers\<close>

fun varuint_value :: "bytes \<Rightarrow> u64" where
  "varuint_value [] = 0"
| "varuint_value (b # bs) = ucast (b AND 0x7f) + 128 * varuint_value bs"

definition varuint_form :: "bytes \<Rightarrow> bool" where
  "varuint_form bs \<longleftrightarrow> bs \<noteq> [] \<and> list_all (\<lambda>b. b AND 0x80 \<noteq> 0) (butlast bs) \<and> last bs AND 0x80 = 0"

lemma varuint_form_Cons: "varuint_form (b # bs) \<longleftrightarrow> (if b AND 0x80 = 0 then bs = [] else varuint_form bs)"
  by (auto simp: varuint_form_def)

definition bits_below :: "u64 \<Rightarrow> nat \<Rightarrow> bool" where
  "bits_below v k \<longleftrightarrow> (\<forall>i. bit v i \<longrightarrow> i < k)"

lemma bits_below_push:
  assumes "bits_below v k"
  shows "v OR push_bit k (ucast (b AND 0x7f)) = v + 2 ^ k * ucast (b AND 0x7f)"
    and "bits_below (v OR push_bit k (ucast ((b :: byte) AND 0x7f))) (k + 7)"
proof -
  have m: "(0x7f :: byte) = mask 7" by (simp add: mask_eq_exp_minus_1)
  have "v AND push_bit k (ucast (b AND 0x7f)) = 0"
    using assms by (intro bit_eqI) (auto simp: bits_below_def bit_simps)
  then show "v OR push_bit k (ucast (b AND 0x7f)) = v + 2 ^ k * ucast (b AND 0x7f)"
    by (simp add: disjunctive_add_eq_or [symmetric] push_bit_eq_mult mult.commute)
  show "bits_below (v OR push_bit k (ucast (b AND 0x7f))) (k + 7)"
    using assms unfolding m by (fastforce simp: bits_below_def bit_simps)
qed

lemma read_varuint_loop_Ok_iff:
  assumes "bits_below v k"
  shows "read_varuint_loop c v k = Ok (n, c') \<longleftrightarrow>
    (\<exists>bs. takes c bs c' \<and> varuint_form bs \<and> k + 7 * length bs < 71 \<and> n = v + 2 ^ k * varuint_value bs)"
  using assms
proof (induction c v k rule: read_varuint_loop.induct)
  case (1 c v k)
  show ?case
  proof (cases "64 \<le> k")
    case True
    then show ?thesis by (subst read_varuint_loop.simps) (auto simp: varuint_form_def neq_Nil_conv)
  next
    case False
    have step: "read_varuint_loop c v k = Ok (n, c') \<longleftrightarrow> (\<exists>b c1. takes c [b] c1 \<and>
        (if b AND 0x80 = 0 then n = v + 2 ^ k * ucast (b AND 0x7f) \<and> c' = c1
         else read_varuint_loop c1 (v OR push_bit k (ucast (b AND 0x7f))) (k + 7) = Ok (n, c')))"
      using False by (subst read_varuint_loop.simps)
        (auto simp: and_then_Ok_iff takes_read_u8 Let_def bits_below_push(1)[OF 1(2)])
    have rhs: "(\<exists>bs. takes c bs c' \<and> varuint_form bs \<and> k + 7 * length bs < 71 \<and> n = v + 2 ^ k * varuint_value bs)
      \<longleftrightarrow> (\<exists>b c1 bs. takes c [b] c1 \<and> takes c1 bs c' \<and> varuint_form (b # bs) \<and> k + 7 + 7 * length bs < 71
        \<and> n = v + 2 ^ k * ucast (b AND 0x7f) + 2 ^ (k + 7) * varuint_value bs)" (is "?L \<longleftrightarrow> ?R")
    proof
      assume ?L
      then obtain bs where bs: "takes c bs c'" "varuint_form bs" "k + 7 * length bs < 71" "n = v + 2 ^ k * varuint_value bs" by blast
      from bs(2) obtain b r where "bs = b # r" by (cases bs) (auto simp: varuint_form_def)
      moreover from this bs(1) have "\<exists>c1. takes c [b] c1 \<and> takes c1 r c'" using takes_Cons [of c b r c'] by blast
      then obtain c1 where "takes c [b] c1" "takes c1 r c'" by blast
      ultimately show ?R using bs by (intro exI [of _ b] exI [of _ c1] exI [of _ r]) (simp add: algebra_simps power_add)
    next
      assume ?R
      then obtain b c1 bs where r: "takes c [b] c1" "takes c1 bs c'" "varuint_form (b # bs)" "k + 7 + 7 * length bs < 71"
        "n = v + 2 ^ k * ucast (b AND 0x7f) + 2 ^ (k + 7) * varuint_value bs" by blast
      then have "takes c (b # bs) c'" using takes_Cons [of c b bs c'] by blast
      with r show ?L by (intro exI [of _ "b # bs"]) (simp add: algebra_simps power_add)
    qed
    have rec: "read_varuint_loop c1 (v OR push_bit k (ucast (b AND 0x7f))) (k + 7) = Ok (n, c') \<longleftrightarrow>
        (\<exists>bs. takes c1 bs c' \<and> varuint_form bs \<and> k + 7 + 7 * length bs < 71
          \<and> n = v + 2 ^ k * ucast (b AND 0x7f) + 2 ^ (k + 7) * varuint_value bs)"
      if "takes c [b] c1" "b AND 0x80 \<noteq> 0" for b c1
      using 1(1)[of "(b, c1)" b c1] that False bits_below_push [OF 1(2)]
      by (simp add: takes_read_u8)
    have "(if b AND 0x80 = 0 then n = v + 2 ^ k * ucast (b AND 0x7f) \<and> c' = c1
         else read_varuint_loop c1 (v OR push_bit k (ucast (b AND 0x7f))) (k + 7) = Ok (n, c'))
      \<longleftrightarrow> (\<exists>bs. takes c1 bs c' \<and> varuint_form (b # bs) \<and> k + 7 + 7 * length bs < 71
        \<and> n = v + 2 ^ k * ucast (b AND 0x7f) + 2 ^ (k + 7) * varuint_value bs)" if t: "takes c [b] c1" for b c1
    proof (cases "b AND 0x80 = 0")
      case True
      moreover have "takes c1 [] c' \<longleftrightarrow> c' = c1" using t by (auto simp: takes_def)
      ultimately show ?thesis using False by (auto simp: varuint_form_Cons)
    next
      case cont: False
      with rec [OF t] show ?thesis by (simp add: varuint_form_Cons)
    qed
    then show ?thesis unfolding step rhs by blast
  qed
qed

definition varuint :: "u64 \<Rightarrow> bytes \<Rightarrow> bool" where
  "varuint n bs \<longleftrightarrow> varuint_form bs \<and> length bs \<le> 10 \<and> n = varuint_value bs"

lemma read_varuint_Ok_iff: "read_varuint c = Ok (n, c') \<longleftrightarrow> (\<exists>bs. takes c bs c' \<and> varuint n bs)"
  unfolding read_varuint_def
  by (subst read_varuint_loop_Ok_iff) (auto simp: bits_below_def varuint_def)

text \<open>A byte string with its length in front, between two bounds.\<close>

definition varbytes :: "nat \<Rightarrow> nat \<Rightarrow> bytes \<Rightarrow> bytes \<Rightarrow> bool" where
  "varbytes max_len min_len content bs \<longleftrightarrow> min_len \<le> length content \<and> length content \<le> max_len
     \<and> (\<exists>n v. varuint n v \<and> unat n = length content \<and> bs = v @ content)"

lemma read_varbytes_Ok_iff:
  "read_varbytes c max_len min_len = Ok (content, c') \<longleftrightarrow> (\<exists>bs. takes c bs c' \<and> varbytes max_len min_len content bs)"
proof -
  have "read_varbytes c max_len min_len = Ok (content, c') \<longleftrightarrow>
      (\<exists>n c1 v. takes c v c1 \<and> varuint n v \<and> takes c1 content c' \<and> unat n = length content
        \<and> min_len \<le> length content \<and> length content \<le> max_len)"
    by (auto simp: read_varbytes_def and_then_Ok_iff read_varuint_Ok_iff takes_read_bytes not_less; metis)
  also have "\<dots> \<longleftrightarrow> (\<exists>bs. takes c bs c' \<and> varbytes max_len min_len content bs)"
    (is "?L \<longleftrightarrow> ?R")
  proof
    assume ?L
    then obtain n c1 v where v: "takes c v c1" "takes c1 content c'" "varuint n v" "unat n = length content"
      "min_len \<le> length content" "length content \<le> max_len" by blast
    then have "takes c (v @ content) c'" unfolding takes_append by blast
    with v show ?R unfolding varbytes_def by blast
  next
    assume ?R
    then obtain n v where "takes c (v @ content) c'" "varuint n v" "unat n = length content"
      "min_len \<le> length content" "length content \<le> max_len" unfolding varbytes_def by blast
    then show ?L unfolding takes_append by blast
  qed
  finally show ?thesis .
qed

section \<open>The grammar\<close>

datatype ots_attestation = PendingAttestation string | BitcoinAttestation u64

datatype ots_op = AppendOp bytes | PrependOp bytes | Sha256Op

datatype ots_tree = OnlyBranch ots_branch | MoreBranches ots_branch ots_tree
  and ots_branch = Attest ots_attestation | Operate ots_op ots_tree

definition attestation_bytes :: "ots_attestation \<Rightarrow> bytes \<Rightarrow> bool" where
  "attestation_bytes a bs \<longleftrightarrow> (\<exists>payload enc. varbytes OTS_MAX_ATTESTATION_PAYLOAD_LEN 0 payload enc \<and>
     (case a of
        PendingAttestation uri \<Rightarrow> bs = OTS_PENDING_ATTESTATION_TAG @ enc \<and> varbytes OTS_MAX_URI_LEN 0 (str_bytes uri) payload
          \<and> list_all is_uri_byte (str_bytes uri)
      | BitcoinAttestation height \<Rightarrow> bs = OTS_BITCOIN_BLOCK_HEADER_ATTESTATION_TAG @ enc \<and> varuint height payload))"

definition op_bytes :: "ots_op \<Rightarrow> bytes \<Rightarrow> bool" where
  "op_bytes op bs = (case op of
       AppendOp suffix \<Rightarrow> \<exists>enc. varbytes OTS_MAX_OP_RESULT_LEN 1 suffix enc \<and> bs = OTS_OP_APPEND # enc
     | PrependOp pre \<Rightarrow> \<exists>enc. varbytes OTS_MAX_OP_RESULT_LEN 1 pre enc \<and> bs = OTS_OP_PREPEND # enc
     | Sha256Op \<Rightarrow> bs = [OTS_OP_SHA256])"

inductive tree_bytes :: "ots_tree \<Rightarrow> bytes \<Rightarrow> bool" and branch_bytes :: "ots_branch \<Rightarrow> bytes \<Rightarrow> bool" where
  only: "branch_bytes b bs \<Longrightarrow> tree_bytes (OnlyBranch b) bs"
| more: "branch_bytes b bs \<Longrightarrow> tree_bytes t bs' \<Longrightarrow> tree_bytes (MoreBranches b t) (OTS_TIMESTAMP_MORE # bs @ bs')"
| attest: "attestation_bytes a bs \<Longrightarrow> branch_bytes (Attest a) (OTS_TIMESTAMP_ATTESTATION # bs)"
| operate: "op_bytes op bs \<Longrightarrow> tree_bytes t bs' \<Longrightarrow> branch_bytes (Operate op t) (bs @ bs')"

inductive_simps tree_bytes_simps: "tree_bytes (OnlyBranch b) bs" "tree_bytes (MoreBranches b t) bs"
inductive_simps branch_bytes_simps: "branch_bytes (Attest a) bs" "branch_bytes (Operate op t) bs"

section \<open>Replay\<close>

definition op_apply :: "(bytes \<Rightarrow> bytes) \<Rightarrow> ots_op \<Rightarrow> bytes \<Rightarrow> bytes" where
  "op_apply H op msg = (case op of AppendOp suffix \<Rightarrow> msg @ suffix | PrependOp pre \<Rightarrow> pre @ msg | Sha256Op \<Rightarrow> H msg)"

definition op_step :: "ots_op \<Rightarrow> string" where
  "op_step op = (case op of AppendOp suffix \<Rightarrow> ''append '' @ hex_lower suffix
     | PrependOp pre \<Rightarrow> ''prepend '' @ hex_lower pre | Sha256Op \<Rightarrow> ''sha256'')"

definition op_fits :: "(bytes \<Rightarrow> bytes) \<Rightarrow> ots_op \<Rightarrow> bytes \<Rightarrow> bool" where
  "op_fits H op msg \<longleftrightarrow> length msg \<le> OTS_MAX_OP_RESULT_LEN
     \<and> (op \<noteq> Sha256Op \<longrightarrow> length (op_apply H op msg) \<le> OTS_MAX_OP_RESULT_LEN)"

definition attest :: "ots_attestation \<Rightarrow> bytes \<Rightarrow> ots_proof_summary \<Rightarrow> ots_proof_summary option" where
  "attest a msg s = (case a of
       PendingAttestation uri \<Rightarrow>
         Some ((push_step (''verify PendingAttestation('' @ uri @ '')'') s)\<lparr>op_pending_uris := op_pending_uris s @ [uri]\<rparr>)
     | BitcoinAttestation height \<Rightarrow>
         if length msg \<noteq> 32 then None
         else Some ((push_step (''verify BitcoinBlockHeaderAttestation('' @ show_nat (unat height) @ '')'') s)
           \<lparr>op_bitcoin_heights := op_bitcoin_heights s @ [height]\<rparr>))"

text \<open>\<open>depth\<close> is the number of nested timestamps still allowed, this one included.\<close>

fun replay_tree :: "(bytes \<Rightarrow> bytes) \<Rightarrow> nat \<Rightarrow> bytes \<Rightarrow> ots_tree \<Rightarrow> ots_proof_summary \<Rightarrow> ots_proof_summary option"
  and replay_branch :: "(bytes \<Rightarrow> bytes) \<Rightarrow> nat \<Rightarrow> bytes \<Rightarrow> ots_branch \<Rightarrow> ots_proof_summary \<Rightarrow> ots_proof_summary option" where
  "replay_tree H depth msg (OnlyBranch b) s = replay_branch H depth msg b s"
| "replay_tree H depth msg (MoreBranches b t) s =
     Option.bind (replay_branch H depth msg b s) (replay_tree H depth msg t)"
| "replay_branch H depth msg (Attest a) s = attest a msg s"
| "replay_branch H depth msg (Operate op t) s =
     (if op_fits H op msg \<and> depth \<noteq> 1 \<and> depth \<noteq> 0
      then replay_tree H (depth - 1) (op_apply H op msg) t (push_step (op_step op) s) else None)"

section \<open>The parser accepts exactly the grammar\<close>

lemma uri_bytes_utf8: "list_all is_uri_byte bs \<Longrightarrow> utf8_valid bs"
proof -
  assume "list_all is_uri_byte bs"
  moreover have "unat b < 128" if "is_uri_byte b" for b
    using that by (auto simp: is_uri_byte_def word_le_nat_alt)
  ultimately have "list_all (\<lambda>b. unat b < 128) bs" by (auto simp: list_all_iff)
  then show "utf8_valid bs" by (simp add: utf8_valid_def utf8_decode_ascii)
qed

lemma parse_pending_attestation_uri_Ok_iff:
  "parse_pending_attestation_uri payload = Ok uri \<longleftrightarrow>
     varbytes OTS_MAX_URI_LEN 0 (str_bytes uri) payload \<and> list_all is_uri_byte (str_bytes uri)"
proof -
  have "parse_pending_attestation_uri payload = Ok uri \<longleftrightarrow> (\<exists>bs c. takes (ots_cursor_new payload) bs c
      \<and> assert_eof c = Ok () \<and> (\<exists>content. varbytes OTS_MAX_URI_LEN 0 content bs \<and> list_all is_uri_byte content \<and> uri = bytes_str content))"
    by (auto simp: parse_pending_attestation_uri_def and_then_Ok_iff read_varbytes_Ok_iff uri_bytes_utf8 split: if_splits)
  also have "\<dots> \<longleftrightarrow> (\<exists>content. varbytes OTS_MAX_URI_LEN 0 content payload \<and> list_all is_uri_byte content \<and> uri = bytes_str content)"
    by (rule takes_whole_ex)
  also have "\<dots> \<longleftrightarrow> varbytes OTS_MAX_URI_LEN 0 (str_bytes uri) payload \<and> list_all is_uri_byte (str_bytes uri)"
    by (metis bytes_str_str_bytes str_bytes_bytes_str)
  finally show ?thesis .
qed

lemma parse_bitcoin_height_Ok_iff:
  "parse_bitcoin_block_header_attestation_height payload = Ok height \<longleftrightarrow> varuint height payload"
proof -
  have "parse_bitcoin_block_header_attestation_height payload = Ok height \<longleftrightarrow>
      (\<exists>bs c. takes (ots_cursor_new payload) bs c \<and> assert_eof c = Ok () \<and> varuint height bs)"
    by (auto simp: parse_bitcoin_block_header_attestation_height_def and_then_Ok_iff read_varuint_Ok_iff)
  also have "\<dots> \<longleftrightarrow> varuint height payload" by (rule takes_whole_ex)
  finally show ?thesis .
qed

lemma push_step_simps [simp]:
  "op_pending_uris (push_step step s) = op_pending_uris s" "op_bitcoin_heights (push_step step s) = op_bitcoin_heights s"
  "op_file_digest (push_step step s) = op_file_digest s"
  by (simp_all add: push_step_def)

lemma ots_tag_lengths: "length OTS_PENDING_ATTESTATION_TAG = 8" "length OTS_BITCOIN_BLOCK_HEADER_ATTESTATION_TAG = 8"
  "OTS_PENDING_ATTESTATION_TAG \<noteq> OTS_BITCOIN_BLOCK_HEADER_ATTESTATION_TAG"
  by (simp_all add: OTS_PENDING_ATTESTATION_TAG_def OTS_BITCOIN_BLOCK_HEADER_ATTESTATION_TAG_def)

lemma parse_attestation_Ok_iff:
  "parse_attestation c msg s = Ok (s', c') \<longleftrightarrow>
     (\<exists>a bs. attestation_bytes a bs \<and> takes c bs c' \<and> attest a msg s = Some s')" (is "?L \<longleftrightarrow> ?R")
proof
  assume l: ?L
  then obtain tag c1 payload c2 where r: "ots_read_bytes c 8 = Ok (tag, c1)"
      "read_varbytes c1 OTS_MAX_ATTESTATION_PAYLOAD_LEN 0 = Ok (payload, c2)"
    by (auto simp: parse_attestation_def and_then_Ok_iff)
  from r obtain enc where e: "takes c tag c1" "takes c1 enc c2" "varbytes OTS_MAX_ATTESTATION_PAYLOAD_LEN 0 payload enc"
    by (auto simp: takes_read_bytes read_varbytes_Ok_iff)
  then have t: "takes c (tag @ enc) c2" unfolding takes_append by blast
  consider (pending) "tag = OTS_PENDING_ATTESTATION_TAG"
    | (bitcoin) "tag \<noteq> OTS_PENDING_ATTESTATION_TAG" "tag = OTS_BITCOIN_BLOCK_HEADER_ATTESTATION_TAG"
    using l r by (auto simp: parse_attestation_def split: if_splits)
  then show ?R
  proof cases
    case pending
    with l r obtain uri where u: "parse_pending_attestation_uri payload = Ok uri" "attest (PendingAttestation uri) msg s = Some s'" "c2 = c'"
      by (auto simp: parse_attestation_def and_then_Ok_iff Let_def attest_def)
    with e pending have "attestation_bytes (PendingAttestation uri) (tag @ enc)"
      by (auto simp: attestation_bytes_def parse_pending_attestation_uri_Ok_iff)
    with t u show ?thesis by blast
  next
    case bitcoin
    with l r obtain height where u: "parse_bitcoin_block_header_attestation_height payload = Ok height"
        "attest (BitcoinAttestation height) msg s = Some s'" "c2 = c'"
      by (auto simp: parse_attestation_def and_then_Ok_iff Let_def attest_def split: if_splits)
    with e bitcoin have "attestation_bytes (BitcoinAttestation height) (tag @ enc)"
      by (auto simp: attestation_bytes_def parse_bitcoin_height_Ok_iff)
    with t u show ?thesis by blast
  qed
next
  assume ?R
  then obtain a bs where a: "attestation_bytes a bs" "takes c bs c'" "attest a msg s = Some s'" by blast
  show ?L
  proof (cases a)
    case (PendingAttestation uri)
    with a(1) obtain payload enc where p: "varbytes OTS_MAX_ATTESTATION_PAYLOAD_LEN 0 payload enc"
      "bs = OTS_PENDING_ATTESTATION_TAG @ enc" "parse_pending_attestation_uri payload = Ok uri"
      by (auto simp: attestation_bytes_def parse_pending_attestation_uri_Ok_iff)
    from a(2) obtain c1 where c1: "takes c OTS_PENDING_ATTESTATION_TAG c1" "takes c1 enc c'"
      unfolding p(2) takes_append by blast
    then have "ots_read_bytes c 8 = Ok (OTS_PENDING_ATTESTATION_TAG, c1)" by (simp add: takes_read_bytes ots_tag_lengths)
    moreover from c1 p have "read_varbytes c1 OTS_MAX_ATTESTATION_PAYLOAD_LEN 0 = Ok (payload, c')"
      unfolding read_varbytes_Ok_iff by blast
    ultimately show ?thesis using p(3) a(3) PendingAttestation by (simp add: parse_attestation_def attest_def Let_def)
  next
    case (BitcoinAttestation height)
    with a(1) obtain payload enc where p: "varbytes OTS_MAX_ATTESTATION_PAYLOAD_LEN 0 payload enc"
      "bs = OTS_BITCOIN_BLOCK_HEADER_ATTESTATION_TAG @ enc" "parse_bitcoin_block_header_attestation_height payload = Ok height"
      by (auto simp: attestation_bytes_def parse_bitcoin_height_Ok_iff)
    from a(2) obtain c1 where c1: "takes c OTS_BITCOIN_BLOCK_HEADER_ATTESTATION_TAG c1" "takes c1 enc c'"
      unfolding p(2) takes_append by blast
    then have "ots_read_bytes c 8 = Ok (OTS_BITCOIN_BLOCK_HEADER_ATTESTATION_TAG, c1)" by (simp add: takes_read_bytes ots_tag_lengths)
    moreover from c1 p have "read_varbytes c1 OTS_MAX_ATTESTATION_PAYLOAD_LEN 0 = Ok (payload, c')"
      unfolding read_varbytes_Ok_iff by blast
    ultimately show ?thesis using p(3) a(3) BitcoinAttestation
      by (simp add: parse_attestation_def attest_def ots_tag_lengths(3)[symmetric] Let_def split: if_splits)
  qed
qed

lemma ots_tags_distinct:
  "OTS_OP_APPEND \<noteq> OTS_OP_PREPEND" "OTS_OP_APPEND \<noteq> OTS_OP_SHA256" "OTS_OP_PREPEND \<noteq> OTS_OP_SHA256"
  "OTS_TIMESTAMP_MORE \<noteq> OTS_OP_APPEND" "OTS_TIMESTAMP_MORE \<noteq> OTS_OP_PREPEND" "OTS_TIMESTAMP_MORE \<noteq> OTS_OP_SHA256"
  "OTS_TIMESTAMP_ATTESTATION \<noteq> OTS_OP_APPEND" "OTS_TIMESTAMP_ATTESTATION \<noteq> OTS_OP_PREPEND"
  "OTS_TIMESTAMP_ATTESTATION \<noteq> OTS_OP_SHA256" "OTS_TIMESTAMP_ATTESTATION \<noteq> OTS_TIMESTAMP_MORE"
  by (simp_all add: ots_tags)

lemma takes_Nil: "oc_offset c \<le> length (oc_raw c) \<Longrightarrow> takes c [] c' \<longleftrightarrow> c' = c"
  by (auto simp: takes_def)

lemma takes_in_range: "takes c bs c' \<Longrightarrow> oc_offset c' \<le> length (oc_raw c')"
  by (auto simp: takes_def)

lemma apply_ots_op_Ok_iff:
  assumes "oc_offset c \<le> length (oc_raw c)"
  shows "apply_ots_op H c tag msg = Ok ((step, r), c') \<longleftrightarrow>
    (\<exists>op bs. op_bytes op (tag # bs) \<and> takes c bs c' \<and> op_fits H op msg \<and> step = op_step op \<and> r = op_apply H op msg)"
    (is "?L \<longleftrightarrow> ?R")
proof
  assume l: ?L
  then have "tag \<in> {OTS_OP_APPEND, OTS_OP_PREPEND, OTS_OP_SHA256}" and len: "length msg \<le> OTS_MAX_OP_RESULT_LEN"
    by (auto simp: apply_ots_op_def split: if_splits)
  then consider "tag = OTS_OP_APPEND" | "tag = OTS_OP_PREPEND" | "tag = OTS_OP_SHA256" by blast
  then show ?R
  proof cases
    case 1
    with l len obtain suffix bs where "takes c bs c'" "varbytes OTS_MAX_OP_RESULT_LEN 1 suffix bs"
      "length (msg @ suffix) \<le> OTS_MAX_OP_RESULT_LEN" "step = ''append '' @ hex_lower suffix" "r = msg @ suffix"
      by (auto simp: apply_ots_op_def and_then_Ok_iff read_varbytes_Ok_iff split: if_splits)
    with 1 len show ?thesis
      by (intro exI [of _ "AppendOp suffix"] exI [of _ bs]) (simp add: op_bytes_def op_fits_def op_step_def op_apply_def)
  next
    case 2
    with l len obtain pre bs where "takes c bs c'" "varbytes OTS_MAX_OP_RESULT_LEN 1 pre bs"
      "length (pre @ msg) \<le> OTS_MAX_OP_RESULT_LEN" "step = ''prepend '' @ hex_lower pre" "r = pre @ msg"
      by (auto simp: apply_ots_op_def and_then_Ok_iff read_varbytes_Ok_iff ots_tags_distinct ots_tags_distinct [symmetric] split: if_splits)
    with 2 len show ?thesis
      by (intro exI [of _ "PrependOp pre"] exI [of _ bs]) (simp add: op_bytes_def op_fits_def op_step_def op_apply_def)
  next
    case 3
    with l len have "c' = c" "step = ''sha256''" "r = H msg"
      by (auto simp: apply_ots_op_def ots_tags_distinct ots_tags_distinct [symmetric] split: if_splits)
    with 3 len assms show ?thesis
      by (intro exI [of _ Sha256Op] exI [of _ "[]"]) (simp add: op_bytes_def op_fits_def op_step_def op_apply_def takes_Nil)
  qed
next
  assume ?R
  then obtain op bs where o: "op_bytes op (tag # bs)" "takes c bs c'" "op_fits H op msg" "step = op_step op" "r = op_apply H op msg"
    by blast
  then show ?L
  proof (cases op)
    case (AppendOp suffix)
    with o have "read_varbytes c OTS_MAX_OP_RESULT_LEN 1 = Ok (suffix, c')" "tag = OTS_OP_APPEND"
      by (auto simp: op_bytes_def read_varbytes_Ok_iff)
    with o AppendOp show ?thesis by (simp add: apply_ots_op_def op_fits_def op_step_def op_apply_def)
  next
    case (PrependOp pre)
    with o have "read_varbytes c OTS_MAX_OP_RESULT_LEN 1 = Ok (pre, c')" "tag = OTS_OP_PREPEND"
      by (auto simp: op_bytes_def read_varbytes_Ok_iff)
    with o PrependOp show ?thesis
      by (simp add: apply_ots_op_def op_fits_def op_step_def op_apply_def ots_tags_distinct [symmetric])
  next
    case Sha256Op
    with o assms have "c' = c" "tag = OTS_OP_SHA256" by (auto simp: op_bytes_def takes_Nil)
    with o Sha256Op show ?thesis
      by (simp add: apply_ots_op_def op_fits_def op_step_def op_apply_def ots_tags_distinct [symmetric])
  qed
qed

lemma op_bytes_tag: "op_bytes op bs \<Longrightarrow> \<exists>tag bs'. bs = tag # bs' \<and> tag \<noteq> OTS_TIMESTAMP_MORE \<and> tag \<noteq> OTS_TIMESTAMP_ATTESTATION"
  by (cases op) (auto simp: op_bytes_def ots_tags)

lemma branch_bytes_tag: "branch_bytes b bs \<Longrightarrow> \<exists>tag bs'. bs = tag # bs' \<and> tag \<noteq> OTS_TIMESTAMP_MORE"
  by (cases b) (auto simp: branch_bytes_simps ots_tags_distinct dest!: op_bytes_tag)

lemma tree_bytes_tag: "tree_bytes t bs \<Longrightarrow> \<exists>tag bs'. bs = tag # bs'"
  by (cases t) (auto simp: tree_bytes_simps dest!: branch_bytes_tag)

declare parse_timestamp.simps [simp del] parse_timestamp_rest.simps [simp del] parse_timestamp_tag.simps [simp del]

lemma parse_timestamp_Ok_iff:
  "n \<noteq> 0 \<Longrightarrow> parse_timestamp H c msg n s = Ok r \<longleftrightarrow> (\<exists>tag c1. takes c [tag] c1 \<and> parse_timestamp_rest H tag c1 msg n s = Ok r)"
  by (subst parse_timestamp.simps) (auto simp: and_then_Ok_iff takes_read_u8)

lemma parse_timestamp_rest_Ok_iff:
  "parse_timestamp_rest H OTS_TIMESTAMP_MORE c msg n s = Ok r \<longleftrightarrow> (\<exists>tag c1 s1 c2 tag' c3. takes c [tag] c1 \<and>
     parse_timestamp_tag H c1 tag msg n s = Ok (s1, c2) \<and> takes c2 [tag'] c3 \<and> parse_timestamp_rest H tag' c3 msg n s1 = Ok r)"
  by (subst parse_timestamp_rest.simps) (auto simp: and_then_Ok_iff takes_read_u8)

lemma parse_timestamp_rest_other: "tag \<noteq> OTS_TIMESTAMP_MORE \<Longrightarrow>
    parse_timestamp_rest H tag c msg n s = parse_timestamp_tag H c tag msg n s"
  by (subst parse_timestamp_rest.simps) simp

lemma parse_timestamp_tag_attestation: "parse_timestamp_tag H c OTS_TIMESTAMP_ATTESTATION msg n s = parse_attestation c msg s"
  by (subst parse_timestamp_tag.simps) simp

lemma parse_timestamp_tag_Ok_iff:
  "tag \<noteq> OTS_TIMESTAMP_ATTESTATION \<Longrightarrow> parse_timestamp_tag H c tag msg n s = Ok q \<longleftrightarrow> (\<exists>step r c1.
     apply_ots_op H c tag msg = Ok ((step, r), c1) \<and> parse_timestamp H c1 r (n - 1) (push_step step s) = Ok q)"
  by (subst parse_timestamp_tag.simps) (auto simp: and_then_Ok_iff split: prod.splits)

text \<open>How the encodings split at the tag that decides the parser's branch.\<close>

lemma tree_at_tag:
  "(\<exists>tag c1. takes c [tag] c1 \<and> (\<exists>t bs. tree_bytes t (tag # bs) \<and> takes c1 bs c' \<and> P t))
     \<longleftrightarrow> (\<exists>t bs. tree_bytes t bs \<and> takes c bs c' \<and> P t)" (is "?L \<longleftrightarrow> ?R")
proof
  assume ?L
  then obtain tag c1 t bs where "takes c [tag] c1" "takes c1 bs c'" "tree_bytes t (tag # bs)" "P t" by blast
  then show ?R using takes_Cons [of c tag bs c'] by blast
next
  assume ?R
  then obtain t bs where t: "tree_bytes t bs" "takes c bs c'" "P t" by blast
  from tree_bytes_tag [OF t(1)] obtain tag bs' where "bs = tag # bs'" by blast
  with t show ?L using takes_Cons [of c tag bs' c'] by blast
qed

lemma tree_at_more:
  "(\<exists>t bs. tree_bytes t (OTS_TIMESTAMP_MORE # bs) \<and> takes c bs c' \<and> replay_tree H n msg t s = Some s') \<longleftrightarrow>
     (\<exists>tag c1 s1 c2 tag' c3. takes c [tag] c1 \<and>
       (\<exists>b bs. branch_bytes b (tag # bs) \<and> takes c1 bs c2 \<and> replay_branch H n msg b s = Some s1) \<and> takes c2 [tag'] c3 \<and>
       (\<exists>t bs. tree_bytes t (tag' # bs) \<and> takes c3 bs c' \<and> replay_tree H n msg t s1 = Some s'))" (is "?L \<longleftrightarrow> ?R")
proof
  assume ?L
  then obtain t bs where t: "tree_bytes t (OTS_TIMESTAMP_MORE # bs)" "takes c bs c'" "replay_tree H n msg t s = Some s'" by blast
  then obtain b t' bs1 bs2 where m: "t = MoreBranches b t'" "branch_bytes b bs1" "tree_bytes t' bs2" "bs = bs1 @ bs2"
    by (cases t) (auto simp: tree_bytes_simps dest: branch_bytes_tag)
  obtain tag bs1' tag' bs2' where bs: "bs1 = tag # bs1'" "bs2 = tag' # bs2'"
    using branch_bytes_tag [OF m(2)] tree_bytes_tag [OF m(3)] by blast
  from t(3) m obtain s1 where s1: "replay_branch H n msg b s = Some s1" "replay_tree H n msg t' s1 = Some s'"
    by (auto simp: bind_eq_Some_conv)
  from t(2) obtain c2 where "takes c bs1 c2" "takes c2 bs2 c'" unfolding m(4) takes_append by blast
  then obtain c1 c3 where "takes c [tag] c1" "takes c1 bs1' c2" "takes c2 [tag'] c3" "takes c3 bs2' c'"
    using takes_Cons [of c tag bs1'] takes_Cons [of c2 tag' bs2'] unfolding bs by blast
  with m bs s1 show ?R by blast
next
  assume ?R
  then obtain tag c1 s1 c2 tag' c3 b bs t bs' where r: "takes c [tag] c1" "takes c2 [tag'] c3"
    and b: "branch_bytes b (tag # bs)" "takes c1 bs c2" "replay_branch H n msg b s = Some s1"
    and t: "tree_bytes t (tag' # bs')" "takes c3 bs' c'" "replay_tree H n msg t s1 = Some s'" by blast
  have "takes c ((tag # bs) @ tag' # bs') c'"
    using r b(2) t(2) takes_Cons [of c tag bs] takes_Cons [of c2 tag' bs'] unfolding takes_append by blast
  moreover have "replay_tree H n msg (MoreBranches b t) s = Some s'" using b(3) t(3) by simp
  ultimately show ?L using more [OF b(1) t(1)] by blast
qed

lemma tree_at_other:
  "tag \<noteq> OTS_TIMESTAMP_MORE \<Longrightarrow> (\<exists>t bs. tree_bytes t (tag # bs) \<and> takes c bs c' \<and> replay_tree H n msg t s = Some s')
     \<longleftrightarrow> (\<exists>b bs. branch_bytes b (tag # bs) \<and> takes c bs c' \<and> replay_branch H n msg b s = Some s')" (is "_ \<Longrightarrow> ?L \<longleftrightarrow> ?R")
proof
  assume tag: "tag \<noteq> OTS_TIMESTAMP_MORE" and ?L
  then obtain t bs where t: "tree_bytes t (tag # bs)" "takes c bs c'" "replay_tree H n msg t s = Some s'" by blast
  with tag show ?R by (cases t) (auto simp: tree_bytes_simps)
next
  assume ?R
  then show ?L using tree_bytes_simps(1) by (metis replay_tree.simps(1))
qed

lemma branch_at_attestation:
  "(\<exists>b bs. branch_bytes b (OTS_TIMESTAMP_ATTESTATION # bs) \<and> takes c bs c' \<and> replay_branch H n msg b s = Some s')
     \<longleftrightarrow> (\<exists>a bs. attestation_bytes a bs \<and> takes c bs c' \<and> attest a msg s = Some s')" (is "?L \<longleftrightarrow> ?R")
proof
  assume ?L
  then obtain b bs where "branch_bytes b (OTS_TIMESTAMP_ATTESTATION # bs)" "takes c bs c'" "replay_branch H n msg b s = Some s'" by blast
  then show ?R by (cases b) (auto simp: branch_bytes_simps dest!: op_bytes_tag)
next
  assume ?R
  then show ?L using branch_bytes_simps(1) by (metis replay_branch.simps(1))
qed

lemma branch_at_op:
  assumes "tag \<noteq> OTS_TIMESTAMP_ATTESTATION" "n \<noteq> 0"
  shows "(\<exists>b bs. branch_bytes b (tag # bs) \<and> takes c bs c' \<and> replay_branch H n msg b s = Some s')
    \<longleftrightarrow> (\<exists>op bs c1. op_bytes op (tag # bs) \<and> takes c bs c1 \<and> op_fits H op msg \<and> n - 1 \<noteq> 0 \<and>
      (\<exists>t bs. tree_bytes t bs \<and> takes c1 bs c' \<and> replay_tree H (n - 1) (op_apply H op msg) t (push_step (op_step op) s) = Some s'))"
    (is "?L \<longleftrightarrow> ?R")
proof
  assume ?L
  then obtain b bs where b: "branch_bytes b (tag # bs)" "takes c bs c'" "replay_branch H n msg b s = Some s'" by blast
  then obtain op t where o: "b = Operate op t" using assms by (cases b) (auto simp: branch_bytes_simps)
  with b(1) obtain bs1 bs2 where "op_bytes op bs1" "tree_bytes t bs2" "tag # bs = bs1 @ bs2" by (auto simp: branch_bytes_simps)
  then obtain bs1' where bs: "op_bytes op (tag # bs1')" "tree_bytes t bs2" "bs = bs1' @ bs2"
    using op_bytes_tag by fastforce
  from b(2) obtain c1 where c1: "takes c bs1' c1" "takes c1 bs2 c'" unfolding bs(3) takes_append by blast
  from b(3) o have "op_fits H op msg" "n - 1 \<noteq> 0"
    "replay_tree H (n - 1) (op_apply H op msg) t (push_step (op_step op) s) = Some s'" by (auto split: if_splits)
  with bs c1 show ?R by blast
next
  assume ?R
  then obtain op bs c1 t bs' where o: "op_bytes op (tag # bs)" "takes c bs c1" "op_fits H op msg" "n - 1 \<noteq> 0"
    and t: "tree_bytes t bs'" "takes c1 bs' c'" "replay_tree H (n - 1) (op_apply H op msg) t (push_step (op_step op) s) = Some s'"
    by blast
  have "branch_bytes (Operate op t) (tag # bs @ bs')" using operate [OF o(1) t(1)] by simp
  moreover have "takes c (bs @ bs') c'" using o(2) t(2) unfolding takes_append by blast
  moreover have "replay_branch H n msg (Operate op t) s = Some s'" using o t assms by simp
  ultimately show ?L by blast
qed

text \<open>What the three mutually recursive functions accept after the tag they already hold.\<close>

lemma parse_timestamp_accepts:
  "oc_offset c \<le> length (oc_raw c) \<Longrightarrow> parse_timestamp H c msg n s = Ok (s', c') \<longleftrightarrow>
     n \<noteq> 0 \<and> (\<exists>t bs. tree_bytes t bs \<and> takes c bs c' \<and> replay_tree H n msg t s = Some s')"
  "oc_offset c \<le> length (oc_raw c) \<Longrightarrow> n \<noteq> 0 \<Longrightarrow> parse_timestamp_rest H tag c msg n s = Ok (s', c') \<longleftrightarrow>
     (\<exists>t bs. tree_bytes t (tag # bs) \<and> takes c bs c' \<and> replay_tree H n msg t s = Some s')"
  "oc_offset c \<le> length (oc_raw c) \<Longrightarrow> n \<noteq> 0 \<Longrightarrow> parse_timestamp_tag H c tag msg n s = Ok (s', c') \<longleftrightarrow>
     (\<exists>b bs. branch_bytes b (tag # bs) \<and> takes c bs c' \<and> replay_branch H n msg b s = Some s')"
proof (induction H c msg n s and H tag c msg n s and H c tag msg n s arbitrary: s' c' and s' c' and s' c'
    rule: parse_timestamp_parse_timestamp_rest_parse_timestamp_tag.induct)
  case (1 H c msg n s)
  show ?case
  proof (cases "n = 0")
    case False
    have "parse_timestamp H c msg n s = Ok (s', c') \<longleftrightarrow> (\<exists>tag c1. takes c [tag] c1 \<and>
        (\<exists>t bs. tree_bytes t (tag # bs) \<and> takes c1 bs c' \<and> replay_tree H n msg t s = Some s'))"
      unfolding parse_timestamp_Ok_iff [OF False]
      by (intro ex_cong1 conj_cong refl, rule 1(1)[OF False _ refl takes_in_range False]) (simp_all add: takes_read_u8)
    with False show ?thesis by (simp add: tree_at_tag)
  qed (simp add: parse_timestamp.simps)
next
  case (2 H tag c msg n s)
  show ?case
  proof (cases "tag = OTS_TIMESTAMP_MORE")
    case True
    have one: "parse_timestamp_tag H c1 nt msg n s = Ok (s1, c2) \<longleftrightarrow>
        (\<exists>b bs. branch_bytes b (nt # bs) \<and> takes c1 bs c2 \<and> replay_branch H n msg b s = Some s1)"
      if "takes c [nt] c1" for nt c1 s1 c2
      by (rule 2(1)[OF True _ refl takes_in_range [OF that] 2(5)]) (simp add: takes_read_u8 that)
    have more: "parse_timestamp_rest H tag' c3 msg n s1 = Ok (s', c') \<longleftrightarrow>
        (\<exists>t bs. tree_bytes t (tag' # bs) \<and> takes c3 bs c' \<and> replay_tree H n msg t s1 = Some s')"
      if "takes c [nt] c1" "\<exists>b bs. branch_bytes b (nt # bs) \<and> takes c1 bs c2 \<and> replay_branch H n msg b s = Some s1"
        "takes c2 [tag'] c3" for nt c1 s1 c2 tag' c3
      using 2(2)[OF True _ refl _ refl _ refl takes_in_range [OF that(3)] 2(5)] that by (simp add: takes_read_u8 one)
    show ?thesis unfolding True parse_timestamp_rest_Ok_iff tree_at_more
      by (intro ex_cong1 conj_cong refl one more; assumption)
  next
    case False
    with 2(3)[OF False 2(4,5)] show ?thesis by (simp add: parse_timestamp_rest_other tree_at_other)
  qed
next
  case (3 H c tag msg n s)
  show ?case
  proof (cases "tag = OTS_TIMESTAMP_ATTESTATION")
    case True
    then show ?thesis by (simp add: parse_timestamp_tag_attestation parse_attestation_Ok_iff branch_at_attestation)
  next
    case False
    have ih: "parse_timestamp H c1 r (n - 1) (push_step step s) = Ok (s', c') \<longleftrightarrow> n - 1 \<noteq> 0 \<and>
        (\<exists>t bs. tree_bytes t bs \<and> takes c1 bs c' \<and> replay_tree H (n - 1) r t (push_step step s) = Some s')"
      if "apply_ots_op H c tag msg = Ok ((step, r), c1)" for step r c1
      using apply_ots_op_Ok_iff [OF 3(2)] that by (intro 3(1)[OF False that refl refl]) (blast intro: takes_in_range)
    have "parse_timestamp_tag H c tag msg n s = Ok (s', c') \<longleftrightarrow> (\<exists>step r c1.
        apply_ots_op H c tag msg = Ok ((step, r), c1) \<and> n - 1 \<noteq> 0 \<and>
        (\<exists>t bs. tree_bytes t bs \<and> takes c1 bs c' \<and> replay_tree H (n - 1) r t (push_step step s) = Some s'))"
      unfolding parse_timestamp_tag_Ok_iff [OF False] by (intro ex_cong1 conj_cong refl ih)
    then show ?thesis unfolding branch_at_op [OF False 3(3)] apply_ots_op_Ok_iff [OF 3(2)] by blast
  qed
qed

end
