(* ===== verification/Ots_Properties.thy ===== *)
theory Ots_Properties
  imports Ots_Grammar
begin

text \<open>
  What the OpenTimestamps checks establish: the language of detached proofs, what stands behind every
  accepted result, that verification returns, and what a valid metadata sidecar pins down.
\<close>

section \<open>Detached proofs\<close>

definition detached_proof :: "(bytes \<Rightarrow> bytes) \<Rightarrow> bytes \<Rightarrow> bytes \<Rightarrow> ots_proof_summary \<Rightarrow> bool" where
  "detached_proof H raw digest summary \<longleftrightarrow> (\<exists>v t bs. raw = OTS_HEADER_MAGIC @ v @ [OTS_OP_SHA256] @ digest @ bs
     \<and> varuint OTS_MAJOR_VERSION v \<and> length digest = 32 \<and> tree_bytes t bs
     \<and> replay_tree H OTS_MAX_RECURSION_DEPTH digest t (ots_proof_summary_new digest) = Some summary)"

lemma assert_magic_Ok_iff: "assert_magic c magic = Ok c' \<longleftrightarrow> takes c magic c'"
proof -
  have "assert_magic c magic = Ok c' \<longleftrightarrow> (\<exists>bs c1. takes c bs c1 \<and> length bs = length magic \<and> bs = magic \<and> c1 = c')"
    by (auto simp: assert_magic_def and_then_Ok_iff takes_read_bytes)
  then show ?thesis by auto
qed

lemma depth_positive [simp]: "OTS_MAX_RECURSION_DEPTH \<noteq> 0"
  by (simp add: OTS_MAX_RECURSION_DEPTH_def)

text \<open>The chain of reads of \<open>parse_detached_ots\<close>, before they are joined into one byte string.\<close>

lemma parse_detached_ots_reads:
  "parse_detached_ots H env raw ots_path expected = Ok summary \<longleftrightarrow> take (length OTS_HEADER_MAGIC) raw = OTS_HEADER_MAGIC \<and>
     (\<exists>c1 v c2 c3 digest c4 bs t c5. takes (ots_cursor_new raw) OTS_HEADER_MAGIC c1 \<and> takes c1 v c2 \<and> varuint OTS_MAJOR_VERSION v
       \<and> takes c2 [OTS_OP_SHA256] c3 \<and> takes c3 digest c4 \<and> length digest = 32
       \<and> expected_digest_for_ots H env ots_path expected \<in> {Ok None, Ok (Some digest)}
       \<and> tree_bytes t bs \<and> takes c4 bs c5
       \<and> replay_tree H OTS_MAX_RECURSION_DEPTH digest t (ots_proof_summary_new digest) = Some summary \<and> assert_eof c5 = Ok ())"
    (is "?L \<longleftrightarrow> ?M \<and> ?R")
proof (intro iffI conjI)
  assume l: ?L
  then show ?M by (auto simp: parse_detached_ots_def split: if_splits)
  from l obtain c1 v c2 c3 digest c4 c5 where r: "takes (ots_cursor_new raw) OTS_HEADER_MAGIC c1" "takes c1 v c2"
      "varuint OTS_MAJOR_VERSION v" "takes c2 [OTS_OP_SHA256] c3" "takes c3 digest c4" "length digest = 32"
      "expected_digest_for_ots H env ots_path expected \<in> {Ok None, Ok (Some digest)}"
      "parse_timestamp H c4 digest OTS_MAX_RECURSION_DEPTH (ots_proof_summary_new digest) = Ok (summary, c5)" "assert_eof c5 = Ok ()"
    by (auto simp: parse_detached_ots_def and_then_Ok_iff assert_magic_Ok_iff read_varuint_Ok_iff takes_read_u8 takes_read_bytes
        split: if_splits option.splits)
  then show ?R unfolding parse_timestamp_accepts(1)[OF takes_in_range [OF r(5)]] by blast
next
  assume "?M \<and> ?R"
  then obtain c1 v c2 c3 digest c4 bs t c5 where r: ?M "takes (ots_cursor_new raw) OTS_HEADER_MAGIC c1" "takes c1 v c2"
      "varuint OTS_MAJOR_VERSION v" "takes c2 [OTS_OP_SHA256] c3" "takes c3 digest c4" "length digest = 32"
      "expected_digest_for_ots H env ots_path expected \<in> {Ok None, Ok (Some digest)}" "tree_bytes t bs" "takes c4 bs c5"
      "replay_tree H OTS_MAX_RECURSION_DEPTH digest t (ots_proof_summary_new digest) = Some summary" "assert_eof c5 = Ok ()" by blast
  have "assert_magic (ots_cursor_new raw) OTS_HEADER_MAGIC = Ok c1" using r by (simp add: assert_magic_Ok_iff)
  moreover have "read_varuint c1 = Ok (OTS_MAJOR_VERSION, c2)" using r by (auto simp: read_varuint_Ok_iff)
  moreover have "ots_read_u8 c2 = Ok (OTS_OP_SHA256, c3)" using r by (simp add: takes_read_u8)
  moreover have "ots_read_bytes c3 32 = Ok (digest, c4)" using r by (simp add: takes_read_bytes)
  moreover have "parse_timestamp H c4 digest OTS_MAX_RECURSION_DEPTH (ots_proof_summary_new digest) = Ok (summary, c5)"
    using r unfolding parse_timestamp_accepts(1)[OF takes_in_range [OF r(6)]] by auto
  ultimately show ?L using r by (auto simp: parse_detached_ots_def)
qed

lemma parse_detached_ots_Ok_iff:
  "parse_detached_ots H env raw ots_path expected = Ok summary \<longleftrightarrow> (\<exists>digest. detached_proof H raw digest summary
     \<and> expected_digest_for_ots H env ots_path expected \<in> {Ok None, Ok (Some digest)})" (is "?L \<longleftrightarrow> ?R")
proof
  assume ?L
  then obtain c1 v c2 c3 digest c4 bs t c5 where r: "takes (ots_cursor_new raw) OTS_HEADER_MAGIC c1" "takes c1 v c2"
      "varuint OTS_MAJOR_VERSION v" "takes c2 [OTS_OP_SHA256] c3" "takes c3 digest c4" "length digest = 32"
      "expected_digest_for_ots H env ots_path expected \<in> {Ok None, Ok (Some digest)}" "tree_bytes t bs" "takes c4 bs c5"
      "replay_tree H OTS_MAX_RECURSION_DEPTH digest t (ots_proof_summary_new digest) = Some summary" "assert_eof c5 = Ok ()"
    unfolding parse_detached_ots_reads by blast
  from r have "takes (ots_cursor_new raw) (OTS_HEADER_MAGIC @ v @ [OTS_OP_SHA256] @ digest @ bs) c5" unfolding takes_append by blast
  with r(11) have "OTS_HEADER_MAGIC @ v @ [OTS_OP_SHA256] @ digest @ bs = raw" using takes_whole by blast
  with r show ?R unfolding detached_proof_def by blast
next
  assume ?R
  then obtain digest v t bs where raw: "raw = OTS_HEADER_MAGIC @ v @ [OTS_OP_SHA256] @ digest @ bs"
    and r: "varuint OTS_MAJOR_VERSION v" "length digest = 32" "tree_bytes t bs"
      "replay_tree H OTS_MAX_RECURSION_DEPTH digest t (ots_proof_summary_new digest) = Some summary"
      "expected_digest_for_ots H env ots_path expected \<in> {Ok None, Ok (Some digest)}" unfolding detached_proof_def by blast
  obtain c5 where c5: "takes (ots_cursor_new raw) raw c5" "assert_eof c5 = Ok ()" using takes_whole by blast
  then have "takes (ots_cursor_new raw) (OTS_HEADER_MAGIC @ v @ [OTS_OP_SHA256] @ digest @ bs) c5" using raw by simp
  then obtain c1 c2 c3 c4 where "takes (ots_cursor_new raw) OTS_HEADER_MAGIC c1" "takes c1 v c2" "takes c2 [OTS_OP_SHA256] c3"
    "takes c3 digest c4" "takes c4 bs c5" unfolding takes_append by blast
  moreover have "take (length OTS_HEADER_MAGIC) raw = OTS_HEADER_MAGIC" by (simp add: raw)
  ultimately show ?L unfolding parse_detached_ots_reads using r c5(2) by blast
qed

text \<open>
  C15: The parser of detached proofs accepts exactly the documents of the grammar: magic, version, the
  SHA-256 file digest and one tree of operations and attestations that replays from that digest within
  the depth and length limits, with nothing after it; the summary is that of the replay, and the digest
  is the expected one whenever an expectation or a sibling artifact exists.
\<close>

theorem detached_parser_accepts_exactly_grammar:
  "parse_detached_ots H env raw ots_path expected = Ok summary \<longleftrightarrow> (\<exists>digest v t bs.
     raw = OTS_HEADER_MAGIC @ v @ [OTS_OP_SHA256] @ digest @ bs
     \<and> varuint OTS_MAJOR_VERSION v \<and> length digest = 32 \<and> tree_bytes t bs
     \<and> replay_tree H OTS_MAX_RECURSION_DEPTH digest t (ots_proof_summary_new digest) = Some summary
     \<and> expected_digest_for_ots H env ots_path expected \<in> {Ok None, Ok (Some digest)})"
  unfolding parse_detached_ots_Ok_iff detached_proof_def by blast

section \<open>Waiting for the external verifier\<close>

definition keeps_running :: "child \<Rightarrow> duration \<Rightarrow> nat \<Rightarrow> bool" where
  "keeps_running ch timeout n \<longleftrightarrow> ch_try_wait ch n = Ok None \<and> ch_elapsed ch n < nanos timeout"

lemma wait_for_exit_status:
  "wait_for_exit ch timeout k = Some r \<Longrightarrow> r = Ok (Some status) \<Longrightarrow>
     \<exists>n\<ge>k. ch_try_wait ch n = Ok (Some status) \<and> (\<forall>m. k \<le> m \<and> m < n \<longrightarrow> keeps_running ch timeout m)"
proof (induction ch timeout k r rule: wait_for_exit.raw_induct [rotated, consumes 1, case_names step])
  case (step self ch timeout k r)
  show ?case
  proof (cases "ch_try_wait ch k")
    case (Inr polled)
    show ?thesis
    proof (cases polled)
      case None
      with step(2,3) Inr have run: "keeps_running ch timeout k" and "self ch timeout (k + 1) = Some r"
        by (auto simp: keeps_running_def split: if_splits option.splits)
      from step(1)[OF this(2) step(3)] obtain n where n: "k + 1 \<le> n" "ch_try_wait ch n = Ok (Some status)"
        "\<forall>m. k + 1 \<le> m \<and> m < n \<longrightarrow> keeps_running ch timeout m" by blast
      have "keeps_running ch timeout m" if "k \<le> m" "m < n" for m using that n(3) run by (cases "m = k") auto
      with n(1,2) show ?thesis by (intro exI [of _ n]) auto
    next
      case (Some s)
      with step(2,3) Inr show ?thesis by (intro exI [of _ k]) auto
    qed
  qed (use step(2,3) in auto)
qed

lemma wait_for_exit_returns:
  assumes "k \<le> n" and "\<not> keeps_running ch timeout n" and kill: "\<And>m. ch_kill_ends ch m"
  shows "\<exists>r. wait_for_exit ch timeout k = Some r"
  using assms(1,2)
proof (induction k rule: inc_induct)
  case base
  then show ?case
    by (subst wait_for_exit.simps) (auto simp: keeps_running_def child_wait_def child_kill_def kill split: sum.splits option.splits)
next
  case (step k)
  then show ?case
    by (subst wait_for_exit.simps) (auto simp: child_wait_def child_kill_def kill split: sum.splits option.splits)
qed

section \<open>What stands behind an accepted proof\<close>

text \<open>The verifier process, given the proof and the artifact, exited with success before the timeout.\<close>

definition externally_verified :: "ots_env \<Rightarrow> string \<Rightarrow> string option \<Rightarrow> duration \<Rightarrow> bytes \<Rightarrow> bytes \<Rightarrow> bool" where
  "externally_verified env ots_path ots_binary timeout raw artifact \<longleftrightarrow> (\<exists>binary staged ch n.
     ots_binary \<in> {None, Some binary} \<and> is_executable env binary
     \<and> stage_ots_verification env ots_path raw artifact = Ok staged
     \<and> oe_spawn_verify env binary staged raw artifact = Some ch
     \<and> ch_try_wait ch n = Ok (Some True) \<and> (\<forall>m<n. keeps_running ch timeout m))"

definition artifact_is_expected :: "(bytes \<Rightarrow> bytes) \<Rightarrow> ots_env \<Rightarrow> string \<Rightarrow> string option \<Rightarrow> bool" where
  "artifact_is_expected H env ots_path expected \<longleftrightarrow> (case expected of None \<Rightarrow> True | Some sha \<Rightarrow>
     (\<exists>artifact. read_artifact_for_ots env ots_path = Ok artifact \<and> hex_to_digest32 sha = Some (H artifact)))"

lemma exit_result_ok_iff: "or_ok (exit_result r) \<longleftrightarrow> r = Ok (Some True)"
  by (auto simp: exit_result_def success_def failure_def ots_verify_result_new_def split: sum.splits option.splits bool.splits)

lemma verdict_simps [simp]:
  "or_ok (success st reason)" "\<not> or_ok (failure st reason)" "or_status (success st reason) = st" "or_status (failure st reason) = st"
  by (simp_all add: success_def failure_def ots_verify_result_new_def)

lemma verify_external_ots_accepts:
  assumes "verify_external_ots env ots_path raw given ots_binary timeout = Some r" "or_ok r"
  shows "or_status r = Verified \<and> (\<exists>artifact.
    (case given of Some a \<Rightarrow> Ok a | None \<Rightarrow> read_artifact_for_ots env ots_path) = Ok artifact
    \<and> externally_verified env ots_path ots_binary timeout raw artifact)"
proof -
  from assms obtain artifact binary staged ch x where
    a: "(case given of Some a \<Rightarrow> Ok a | None \<Rightarrow> read_artifact_for_ots env ots_path) = Ok artifact"
      "(case ots_binary of Some path \<Rightarrow> Some path | None \<Rightarrow> find_executable env ''ots'') = Some binary"
      "is_executable env binary" "stage_ots_verification env ots_path raw artifact = Ok staged"
      "oe_spawn_verify env binary staged raw artifact = Some ch" "wait_for_exit ch timeout 0 = Some x" "r = exit_result x"
    by (auto simp: verify_external_ots_def split: sum.splits option.splits if_splits)
  from a(7) assms(2) have x: "x = Ok (Some True)" by (simp add: exit_result_ok_iff)
  from wait_for_exit_status [OF a(6) x] obtain n where "ch_try_wait ch n = Ok (Some True)" "\<forall>m<n. keeps_running ch timeout m"
    by auto
  moreover have "ots_binary \<in> {None, Some binary}" using a(2) by (auto split: option.splits)
  ultimately have "externally_verified env ots_path ots_binary timeout raw artifact"
    unfolding externally_verified_def using a by blast
  with a(1,7) x show ?thesis by (simp add: exit_result_def)
qed

lemma verify_stub_accepts:
  assumes "or_ok (verify_stub H env ots_path allow expected stub)"
  shows "or_status (verify_stub H env ots_path allow expected stub) = Pending \<and> allow \<and>
    (case expected of Some e \<Rightarrow> stub = e | None \<Rightarrow> (\<exists>artifact. read_artifact_for_ots env ots_path = Ok artifact \<and> stub = H artifact))"
  using assms by (auto simp: verify_stub_def split: if_splits option.splits sum.splits)

lemma verify_detached_ots_proof_accepts:
  "verify_detached_ots_proof H env raw ots_path expected = Ok r \<longleftrightarrow> r = success Pending ''ots-pending-attestation'' \<and>
     (\<exists>summary. parse_detached_ots H env raw ots_path expected = Ok summary \<and> op_bitcoin_heights summary = [] \<and> op_pending_uris summary \<noteq> [])"
  by (auto simp: verify_detached_ots_proof_def and_then_Ok_iff split: if_splits)

text \<open>The four ways in which the bytes of a proof are accepted.\<close>

definition proof_evidence ::
  "(bytes \<Rightarrow> bytes) \<Rightarrow> ots_env \<Rightarrow> string \<Rightarrow> ots_verify_options \<Rightarrow> bytes \<Rightarrow> ots_status \<Rightarrow> bool" where
  "proof_evidence H env ots_path options raw status \<longleftrightarrow>
     status = Verified \<and> (\<exists>artifact. read_artifact_for_ots env ots_path = Ok artifact
       \<and> externally_verified env ots_path (vo_ots_binary options) (vo_timeout options) raw artifact)
     \<or> status = Pending \<and> vo_allow_placeholder options \<and> trim_ascii raw = PLACEHOLDER_BYTES
     \<or> status = Pending \<and> vo_allow_placeholder options \<and> (\<exists>artifact. read_artifact_for_ots env ots_path = Ok artifact
         \<and> parse_stationary_stub raw = Some (H artifact))
     \<or> status = Pending \<and> (\<exists>digest summary. detached_proof H raw digest summary
         \<and> op_bitcoin_heights summary = [] \<and> op_pending_uris summary \<noteq> []
         \<and> (\<forall>artifact\<in>set_option (case read_artifact_for_ots env ots_path of Inr a \<Rightarrow> Some a | Inl _ \<Rightarrow> None). digest = H artifact))"

lemma detached_evidence:
  assumes "parse_detached_ots H env raw ots_path expected = Ok summary"
    and "case expected of None \<Rightarrow> True | Some e \<Rightarrow> (\<exists>artifact. read_artifact_for_ots env ots_path = Ok artifact \<and> e = H artifact)"
  shows "\<exists>digest. detached_proof H raw digest summary
    \<and> (\<forall>artifact\<in>set_option (case read_artifact_for_ots env ots_path of Inr a \<Rightarrow> Some a | Inl _ \<Rightarrow> None). digest = H artifact)"
proof -
  from assms(1) obtain digest where d: "detached_proof H raw digest summary"
    "expected_digest_for_ots H env ots_path expected \<in> {Ok None, Ok (Some digest)}" unfolding parse_detached_ots_Ok_iff by blast
  have "digest = H artifact" if "read_artifact_for_ots env ots_path = Ok artifact" for artifact
    using d(2) assms(2) that
    by (auto simp: expected_digest_for_ots_def read_artifact_for_ots_def and_then_Ok_iff ok_or_Ok_iff split: option.splits)
  with d(1) show ?thesis by (auto split: sum.splits)
qed

lemma verify_proof_bytes_accepts:
  assumes "verify_proof_bytes H env ots_path options expected given raw = Some r" "or_ok r"
    and "expected = None \<and> given = None \<or>
      (\<exists>artifact. read_artifact_for_ots env ots_path = Ok artifact \<and> expected = Some (H artifact) \<and> given = Some artifact)"
  shows "proof_evidence H env ots_path options raw (or_status r)"
proof (cases "parse_stationary_stub raw")
  case (Some stub)
  with assms(1) have r: "r = verify_stub H env ots_path (vo_allow_placeholder options) expected stub"
    by (simp add: verify_proof_bytes_def)
  from verify_stub_accepts [OF assms(2)[unfolded r]] assms(3) Some show ?thesis
    unfolding proof_evidence_def r by auto
next
  case None
  show ?thesis
  proof (cases "trim_ascii raw = PLACEHOLDER_BYTES")
    case True
    with assms(1,2) None show ?thesis by (auto simp: verify_proof_bytes_def proof_evidence_def split: if_splits)
  next
    case no_placeholder: False
    show ?thesis
    proof (cases "verify_detached_ots_proof H env raw ots_path expected")
      case (Inr x)
      with assms(1) None no_placeholder have "x = r" by (simp add: verify_proof_bytes_def)
      with Inr obtain summary where s: "parse_detached_ots H env raw ots_path expected = Ok summary"
        "op_bitcoin_heights summary = []" "op_pending_uris summary \<noteq> []" "or_status r = Pending"
        by (auto simp: verify_detached_ots_proof_accepts)
      from assms(3) have "case expected of None \<Rightarrow> True | Some e \<Rightarrow> (\<exists>artifact. read_artifact_for_ots env ots_path = Ok artifact \<and> e = H artifact)"
        by auto
      from detached_evidence [OF s(1) this] s show ?thesis unfolding proof_evidence_def by blast
    next
      case (Inl e)
      with assms(1,2) None no_placeholder have
        "verify_external_ots env ots_path raw given (vo_ots_binary options) (vo_timeout options) = Some r"
        by (cases e) (auto simp: verify_proof_bytes_def)
      from verify_external_ots_accepts [OF this assms(2)] assms(3) show ?thesis unfolding proof_evidence_def by auto
    qed
  qed
qed

text \<open>
  C16: An accepted proof has evidence behind it.  Verified is reported only when the external verifier,
  staged with exactly the proof and the artifact beside it, exits with success before the timeout;
  pending only for a permitted placeholder, a permitted stub that names the artifact's digest, or a
  well-formed detached proof with pending and no Bitcoin attestations, whose digest is that of the
  artifact whenever an artifact can be read beside the proof; without one, and without an expected hash,
  the code accepts a well-formed pending proof as it is.  An expected hash is always the hash of an
  artifact that was read.
\<close>

theorem accepted_proof_has_evidence:
  assumes "verify_ots_proof_with_options H env ots_path options = Some r" and "or_ok r"
  shows "\<exists>raw. oe_read env ots_path = Ok raw \<and> proof_evidence H env ots_path options raw (or_status r)
    \<and> artifact_is_expected H env ots_path (vo_expected_artifact_sha options)"
proof -
  from assms obtain expected raw where e: "parse_expected_digest (vo_expected_artifact_sha options) = Ok expected"
      "oe_read env ots_path = Ok raw"
    by (auto simp: verify_ots_proof_with_options_def split: sum.splits io_error.splits)
  show ?thesis
  proof (cases expected)
    case None
    with e(1) have "vo_expected_artifact_sha options = None"
      by (auto simp: parse_expected_digest_def and_then_Ok_iff split: option.splits)
    moreover from assms(1,2) e None have "verify_proof_bytes H env ots_path options None None raw = Some r"
      by (auto simp: verify_ots_proof_with_options_def split: sum.splits)
    ultimately show ?thesis using verify_proof_bytes_accepts [OF _ assms(2)] e(2) by (auto simp: artifact_is_expected_def)
  next
    case (Some d)
    with assms(1,2) e obtain artifact where a: "read_artifact_for_ots env ots_path = Ok artifact" "H artifact = d"
      "verify_proof_bytes H env ots_path options (Some d) (Some artifact) raw = Some r"
      by (auto simp: verify_ots_proof_with_options_def split: sum.splits if_splits)
    with e(1) Some have "artifact_is_expected H env ots_path (vo_expected_artifact_sha options)"
      by (auto simp: artifact_is_expected_def parse_expected_digest_def and_then_Ok_iff ok_or_Ok_iff split: option.splits)
    with verify_proof_bytes_accepts [OF a(3) assms(2)] a(1,2) e(2) show ?thesis by auto
  qed
qed

section \<open>Verification returns\<close>

lemma verify_external_ots_returns:
  assumes "\<And>binary staged raw artifact ch. oe_spawn_verify env binary staged raw artifact = Some ch \<Longrightarrow>
      (\<exists>n. \<not> keeps_running ch timeout n) \<and> (\<forall>n. ch_kill_ends ch n)"
  shows "\<exists>r. verify_external_ots env ots_path raw given ots_binary timeout = Some r"
proof -
  have "\<exists>r. wait_for_exit ch timeout 0 = Some r" if "oe_spawn_verify env binary staged raw artifact = Some ch"
    for binary staged artifact ch
    using assms [OF that] wait_for_exit_returns by blast
  then show ?thesis by (fastforce simp: verify_external_ots_def split: sum.splits option.splits)
qed

lemma verify_proof_bytes_returns:
  assumes "\<And>binary staged raw artifact ch. oe_spawn_verify env binary staged raw artifact = Some ch \<Longrightarrow>
      (\<exists>n. \<not> keeps_running ch (vo_timeout options) n) \<and> (\<forall>n. ch_kill_ends ch n)"
  shows "\<exists>r. verify_proof_bytes H env ots_path options expected given raw = Some r"
  using verify_external_ots_returns [OF assms]
  by (auto simp: verify_proof_bytes_def split: option.splits sum.splits ots_internal_error.splits)

text \<open>
  C17: Verification returns, also when the verifier process never exits by itself: as long as the clock reaches
  the timeout for every child that does not exit before, and a kill ends a child, the wait for the killed child ends
  and a result is reported.
\<close>

theorem verification_returns:
  assumes "\<And>binary staged raw artifact ch. oe_spawn_verify env binary staged raw artifact = Some ch \<Longrightarrow>
      (\<exists>n. ch_try_wait ch n \<noteq> Ok None \<or> nanos (vo_timeout options) \<le> ch_elapsed ch n) \<and> (\<forall>n. ch_kill_ends ch n)"
  shows "\<exists>r. verify_ots_proof_with_options H env ots_path options = Some r"
proof -
  have "(\<exists>n. \<not> keeps_running ch (vo_timeout options) n) \<and> (\<forall>n. ch_kill_ends ch n)" if "oe_spawn_verify env binary staged raw artifact = Some ch"
    for binary staged raw artifact ch
    using assms [OF that] by (auto simp: keeps_running_def not_less)
  from verify_proof_bytes_returns [OF this] show ?thesis
    by (auto simp: verify_ots_proof_with_options_def split: sum.splits option.splits io_error.splits)
qed

section \<open>A concrete verification\<close>

definition example_digest :: "bytes \<Rightarrow> bytes" where
  "example_digest bs = replicate 32 (of_nat (length bs))"

definition example_proof :: bytes where
  "example_proof = OTS_HEADER_MAGIC @ [1, OTS_OP_SHA256] @ replicate 32 3
     @ [OTS_OP_APPEND, 2, 7, 9, OTS_OP_SHA256, OTS_TIMESTAMP_ATTESTATION]
     @ OTS_BITCOIN_BLOCK_HEADER_ATTESTATION_TAG @ [1, 0x20]"

text \<open>A verifier that is still running at its first poll and has exited at the second.\<close>

definition example_child :: child where
  "example_child = \<lparr>ch_try_wait = (\<lambda>n. Ok (if n = 0 then None else Some True)), ch_elapsed = (\<lambda>n. 25 * n),
     ch_kill_ends = (\<lambda>_. True), ch_ends_alone = (\<lambda>_. True)\<rparr>"

text \<open>A verifier that hangs until it is killed.\<close>

definition hanging_child :: child where
  "hanging_child = \<lparr>ch_try_wait = (\<lambda>_. Ok None), ch_elapsed = (\<lambda>n. 25 * n),
     ch_kill_ends = (\<lambda>_. True), ch_ends_alone = (\<lambda>_. False)\<rparr>"

definition example_ots_env :: ots_env where
  "example_ots_env = \<lparr>
     oe_read = (\<lambda>path. if path = ''day/d.bin.ots'' then Ok example_proof
       else if path = ''day/d.bin'' then Ok [1, 2, 3] else Err NotFound),
     oe_read_to_string = (\<lambda>_. Err NotFound), oe_canonicalize = (\<lambda>p. Ok p), oe_instant_add = (\<lambda>_. True),
     oe_metadata = (\<lambda>path. if path = ''/bin/ots'' then Some (True, 0x1ED) else None),
     oe_search_path = Some [''/usr'', ''/bin''], oe_tempdir = Some ''/tmp/s'', oe_write = (\<lambda>_ _. True),
     oe_spawn_verify = (\<lambda>_ _ _ _. Some example_child), oe_parse_json = (\<lambda>_. None)\<rparr>"

definition example_ots_options :: ots_verify_options where
  "example_ots_options = default_ots_verify_options\<lparr>vo_expected_artifact_sha := Some (concat (replicate 32 ''03''))\<rparr>"

lemma example_wait: "wait_for_exit example_child (30, 0) 0 = Some (Ok (Some True))"
  by (simp add: wait_for_exit.simps [of _ _ 0] wait_for_exit.simps [of _ _ "Suc 0"] example_child_def nanos_def)

lemma example_detached:
  "parse_stationary_stub example_proof = None" "trim_ascii example_proof \<noteq> PLACEHOLDER_BYTES"
  "verify_detached_ots_proof example_digest example_ots_env example_proof ''day/d.bin.ots'' (Some (replicate 32 3)) = Err Fallback"
  by code_simp+

lemma example_external:
  "parse_expected_digest (Some (concat (replicate 32 ''03''))) = Ok (Some (replicate 32 3))"
  "read_artifact_for_ots example_ots_env ''day/d.bin.ots'' = Ok [1, 2, 3]"
  "find_executable example_ots_env ''ots'' = Some ''/bin/ots''" "is_executable example_ots_env ''/bin/ots''"
  "stage_ots_verification example_ots_env ''day/d.bin.ots'' example_proof [1, 2, 3] = Ok ''/tmp/s/d.bin.ots''"
  by code_simp+

lemma example_verification:
  "verify_ots_proof_with_options example_digest example_ots_env ''day/d.bin.ots'' example_ots_options
     = Some (success Verified ''ots-verified'')"
proof -
  have env: "oe_instant_add example_ots_env d" "oe_read example_ots_env ''day/d.bin.ots'' = Ok example_proof"
    "oe_spawn_verify example_ots_env b p r a = Some example_child" "example_digest [1, 2, 3] = replicate 32 3" for d b p r a
    by (simp_all add: example_ots_env_def example_digest_def)
  show ?thesis
    by (simp add: verify_ots_proof_with_options_def validate_ots_options_def example_ots_options_def default_ots_verify_options_def
        default_verify_timeout_def OTS_VERIFY_TIMEOUT_SECS_def verify_proof_bytes_def verify_external_ots_def env
        example_detached example_external example_wait exit_result_def del: replicate.simps concat.simps)
qed

theorem accepted_proof_has_evidence_witness:
  "\<exists>raw. oe_read example_ots_env ''day/d.bin.ots'' = Ok raw
     \<and> proof_evidence example_digest example_ots_env ''day/d.bin.ots'' example_ots_options raw Verified
     \<and> artifact_is_expected example_digest example_ots_env ''day/d.bin.ots'' (Some (concat (replicate 32 ''03'')))"
  using accepted_proof_has_evidence [OF example_verification]
  by (simp add: example_ots_options_def del: replicate.simps concat.simps)

theorem verification_returns_witness:
  "(\<forall>n. ch_try_wait hanging_child n = Ok None) \<and>
   (\<exists>r. verify_ots_proof_with_options example_digest (example_ots_env\<lparr>oe_spawn_verify := (\<lambda>_ _ _ _. Some hanging_child)\<rparr>)
     ''day/d.bin.ots'' example_ots_options = Some r)"
proof (intro conjI verification_returns)
  show "\<forall>n. ch_try_wait hanging_child n = Ok None" by (simp add: hanging_child_def)
  fix binary staged raw artifact ch
  assume "oe_spawn_verify (example_ots_env\<lparr>oe_spawn_verify := (\<lambda>_ _ _ _. Some hanging_child)\<rparr>) binary staged raw artifact = Some ch"
  then have ch: "ch = hanging_child" by simp
  show "\<exists>n. ch_try_wait ch n \<noteq> Ok None \<or> nanos (vo_timeout example_ots_options) \<le> ch_elapsed ch n"
    by (intro exI [of _ "nanos (vo_timeout example_ots_options)"]) (simp add: ch hanging_child_def)
  show "\<forall>n. ch_kill_ends ch n" by (simp add: ch hanging_child_def)
qed

section \<open>Integers of more than 64 bits\<close>

text \<open>A tenth byte may carry bits beyond the 64th; they are dropped and the integer is accepted.\<close>

lemma varuint_drops_high_bits:
  "read_varuint (ots_cursor_new (replicate 9 0x80 @ [2])) = Ok (0, \<lparr>oc_raw = replicate 9 0x80 @ [2], oc_offset = 10\<rparr>)"
  by code_simp

section \<open>The metadata sidecar\<close>

definition resolves_to :: "ots_env \<Rightarrow> path_component list \<Rightarrow> path_component list \<Rightarrow> bool" where
  "resolves_to env named expected \<longleftrightarrow> (\<exists>real. oe_canonicalize env named = Ok real \<and> oe_canonicalize env expected = Ok real)"

lemma same_file_Ok_iff: "same_file env expected_path named missing unresolved mismatch = Ok () \<longleftrightarrow>
    resolves_to env named (path_components expected_path)"
  by (auto simp: same_file_def resolves_to_def and_then_Ok_iff Let_def split: if_splits)

definition only_failures :: "('a, ots_verify_result) result \<Rightarrow> bool" where
  "only_failures r \<longleftrightarrow> (\<forall>e. r = Err e \<longrightarrow> \<not> or_ok e)"

lemma only_failures_intros:
  "only_failures (Ok x)"
  "\<not> or_ok e \<Longrightarrow> only_failures (Err e)"
  "only_failures r \<Longrightarrow> (\<And>x. only_failures (f x)) \<Longrightarrow> only_failures (and_then r f)"
  "(\<And>e. \<not> or_ok (g e)) \<Longrightarrow> only_failures (map_err g r')"
  "\<not> or_ok e \<Longrightarrow> only_failures (ok_or v e)"
  "(b \<Longrightarrow> only_failures r) \<Longrightarrow> (\<not> b \<Longrightarrow> only_failures s) \<Longrightarrow> only_failures (if b then r else s)"
  by (auto simp: only_failures_def and_then_def map_err_def ok_or_def split: sum.splits option.splits)

lemma same_file_fails: "only_failures (same_file env expected_path named missing unresolved mismatch)"
  unfolding same_file_def Let_def by (intro only_failures_intros) simp_all

lemma check_meta_sidecar_fails: "only_failures (check_meta_sidecar H env meta_path repo_root artifact_path ots_path)"
proof -
  have "only_failures (case v of JObject entries \<Rightarrow> Ok entries | _ \<Rightarrow> Err (failure Failed reason))" for v :: json and reason
    by (cases v) (auto intro: only_failures_intros)
  then show ?thesis
    unfolding check_meta_sidecar_def meta_field_def by (intro only_failures_intros same_file_fails) simp_all
qed

text \<open>
  A metadata sidecar is valid exactly when it is a JSON object whose artifact and proof fields resolve,
  from the repository root, to the very files under check, whose day is the stem of the artifact's name
  and whose digest, in either letter case, is the SHA-256 of the artifact's bytes.
\<close>

lemma sidecar_valid_iff:
  "or_ok (validate_meta_sidecar_native H env meta_path repo_root artifact_path ots_path) \<longleftrightarrow>
     (\<exists>text entries artifact_rel day sha ots_rel content.
       oe_read_to_string env meta_path = Ok text \<and> oe_parse_json env text = Some (JObject entries)
       \<and> bt_get ''artifact'' entries = Some (JString artifact_rel) \<and> bt_get ''day'' entries = Some (JString day)
       \<and> bt_get ''artifact_sha256'' entries = Some (JString sha) \<and> bt_get ''ots_proof'' entries = Some (JString ots_rel)
       \<and> resolves_to env (resolve_from (path_components repo_root) artifact_rel) (path_components artifact_path)
       \<and> resolves_to env (resolve_from (path_components repo_root) ots_rel) (path_components ots_path)
       \<and> day \<noteq> [] \<and> file_stem artifact_path = Some day
       \<and> is_sha256_hex sha \<and> oe_read env artifact_path = Ok content \<and> normalize_hex sha = sha256_hex H content)"
    (is "?L \<longleftrightarrow> ?R")
proof -
  have field: "meta_field entries key = Ok v \<longleftrightarrow> bt_get key entries = Some (JString v)" for entries key v
    by (auto simp: meta_field_def required_str_field_def ok_or_Ok_iff split: option.splits json.splits)
  have obj: "(case v of JObject entries \<Rightarrow> Ok entries | _ \<Rightarrow> Err e) = Ok entries \<longleftrightarrow> v = JObject entries" for v :: json and e :: ots_verify_result and entries
    by (cases v) auto
  have "?L \<longleftrightarrow> check_meta_sidecar H env meta_path repo_root artifact_path ots_path = Ok ()"
    using check_meta_sidecar_fails [of H env meta_path repo_root artifact_path ots_path]
    by (auto simp: validate_meta_sidecar_native_def only_failures_def split: sum.splits)
  also have "\<dots> \<longleftrightarrow> ?R"
    unfolding check_meta_sidecar_def and_then_Ok_iff
    by (auto simp: field obj same_file_Ok_iff ok_or_Ok_iff and_then_Ok_iff split: if_splits option.splits) metis+
  finally show ?thesis .
qed

end
