(* ===== verification/Sensor_Time.thy ===== *)
theory Sensor_Time
  imports Rust_Std "HOL-Library.Signed_Division"
begin

text \<open>
  Times of the SensorThings projection (\<open>crates/trackone-sensorthings/src/timefmt.rs\<close>): the RFC 3339 parser
  and printer, and the conversion between days since 1970 and civil dates.  An \<open>i64\<close> and an \<open>i32\<close> are
  integers: the parser's years have four digits and the printer divides by the seconds of a day, so no
  intermediate value leaves its type; the final \<open>as i32\<close> and \<open>as u32\<close> of the printer wrap.
\<close>

section \<open>Definitions\<close>

definition as_i32 :: "int \<Rightarrow> int" where
  "as_i32 n = sint (word_of_int n :: 32 word)"

definition as_u32 :: "int \<Rightarrow> int" where
  "as_u32 n = uint (word_of_int n :: 32 word)"

text \<open>\<open>{:0w}\<close> of a signed integer: the sign counts towards the width.\<close>

definition show_int_padded :: "nat \<Rightarrow> int \<Rightarrow> string" where
  "show_int_padded width n =
     (if n < 0 then CHR ''-'' # show_nat_padded (width - 1) (nat (- n)) else show_nat_padded width (nat n))"

record timestamp =
  ts_unix_seconds :: int

fun parse_u32_loop :: "string \<Rightarrow> int \<Rightarrow> (int, unit) result" where
  "parse_u32_loop [] v = Ok v"
| "parse_u32_loop (b # bs) v =
     (if \<not> is_ascii_digit b then Err () else parse_u32_loop bs (v * 10 + int (digit_value b)))"

definition parse_u32 :: "string \<Rightarrow> nat \<Rightarrow> nat \<Rightarrow> (int, unit) result" where
  "parse_u32 bytes start len =
     (if start + len \<le> length bytes then parse_u32_loop (take len (drop start bytes)) 0 else Err ())"

definition expect_at :: "string \<Rightarrow> nat \<Rightarrow> char \<Rightarrow> (unit, unit) result" where
  "expect_at bytes idx expected = (if idx < length bytes \<and> bytes ! idx = expected then Ok () else Err ())"

definition is_leap_year :: "int \<Rightarrow> bool" where
  "is_leap_year year \<longleftrightarrow> year smod 4 = 0 \<and> year smod 100 \<noteq> 0 \<or> year smod 400 = 0"

definition days_in_month :: "int \<Rightarrow> int \<Rightarrow> int" where
  "days_in_month year month =
     (if month \<in> {1, 3, 5, 7, 8, 10, 12} then 31
      else if month \<in> {4, 6, 9, 11} then 30
      else if month = 2 \<and> is_leap_year year then 29
      else if month = 2 then 28
      else 0)"

definition validate_date_time :: "int \<Rightarrow> int \<Rightarrow> int \<Rightarrow> int \<Rightarrow> int \<Rightarrow> int \<Rightarrow> (unit, unit) result" where
  "validate_date_time year month day hour minute second =
     (if \<not> (1 \<le> month \<and> month \<le> 12) then Err ()
      else
        let max_day = days_in_month year month in
        if day = 0 \<or> day > max_day then Err ()
        else if hour > 23 \<or> minute > 59 \<or> second > 59 then Err ()
        else Ok ())"

definition days_from_civil :: "int \<Rightarrow> int \<Rightarrow> int \<Rightarrow> int" where
  "days_from_civil year month day =
     (let year = year - (if month \<le> 2 then 1 else 0);
          era = (if year \<ge> 0 then year else year - 399) sdiv 400;
          yoe = year - era * 400;
          doy = (153 * (month + (if month > 2 then -3 else 9)) + 2) sdiv 5 + day - 1;
          doe = yoe * 365 + yoe sdiv 4 - yoe sdiv 100 + doy in
      era * 146097 + doe - 719468)"

definition civil_from_days :: "int \<Rightarrow> int \<times> int \<times> int" where
  "civil_from_days days =
     (let days = days + 719468;
          era = (if days \<ge> 0 then days else days - 146096) sdiv 146097;
          doe = days - era * 146097;
          yoe = (doe - doe sdiv 1460 + doe sdiv 36524 - doe sdiv 146096) sdiv 365;
          y = yoe + era * 400;
          doy = doe - (365 * yoe + yoe sdiv 4 - yoe sdiv 100);
          mp = (5 * doy + 2) sdiv 153;
          day = doy - (153 * mp + 2) sdiv 5 + 1;
          month = mp + (if mp < 10 then 3 else -9);
          year = y + (if month \<le> 2 then 1 else 0) in
      (as_i32 year, as_u32 month, as_u32 day))"

definition format_rfc3339_utc :: "int \<Rightarrow> string" where
  "format_rfc3339_utc unix_seconds =
     (let days = unix_seconds div 86400;
          seconds_of_day = unix_seconds mod 86400;
          (year, month, day) = civil_from_days days;
          hour = seconds_of_day sdiv 3600;
          minute = (seconds_of_day smod 3600) sdiv 60;
          second = seconds_of_day smod 60 in
      show_int_padded 4 year @ ''-'' @ show_int_padded 2 month @ ''-'' @ show_int_padded 2 day @ ''T''
      @ show_int_padded 2 hour @ '':'' @ show_int_padded 2 minute @ '':'' @ show_int_padded 2 second @ ''Z'')"

text \<open>The optional fraction after position 19, and the offset: each returns the position after it.\<close>

definition skip_fraction :: "string \<Rightarrow> nat \<Rightarrow> (nat, unit) result" where
  "skip_fraction bytes pos =
     (if pos < length bytes \<and> bytes ! pos = CHR ''.'' then
        let frac_start = pos + 1;
            pos = frac_start + length (takeWhile is_ascii_digit (drop frac_start bytes)) in
        if pos = frac_start then Err () else Ok pos
      else Ok pos)"

definition parse_offset :: "string \<Rightarrow> nat \<Rightarrow> (int \<times> nat, unit) result" where
  "parse_offset bytes pos =
     (if pos < length bytes \<and> bytes ! pos = CHR ''Z'' then Ok (0, pos + 1)
      else if pos < length bytes \<and> (bytes ! pos = CHR ''+'' \<or> bytes ! pos = CHR ''-'') then
        let sign = (if bytes ! pos = CHR ''+'' then 1 else -1); pos = pos + 1 in
        and_then (parse_u32 bytes pos 2) (\<lambda>offset_hour.
        let pos = pos + 2 in
        and_then (expect_at bytes pos CHR '':'') (\<lambda>_.
        let pos = pos + 1 in
        and_then (parse_u32 bytes pos 2) (\<lambda>offset_minute.
        let pos = pos + 2 in
        if offset_hour > 23 \<or> offset_minute > 59 then Err ()
        else Ok (sign * (offset_hour * 3600 + offset_minute * 60), pos))))
      else Err ())"

definition parse_rfc3339_timestamp :: "string \<Rightarrow> (timestamp, unit) result" where
  "parse_rfc3339_timestamp bytes =
     (if length bytes < 20 then Err ()
      else
        and_then (parse_u32 bytes 0 4) (\<lambda>year.
        and_then (expect_at bytes 4 CHR ''-'') (\<lambda>_.
        and_then (parse_u32 bytes 5 2) (\<lambda>month.
        and_then (expect_at bytes 7 CHR ''-'') (\<lambda>_.
        and_then (parse_u32 bytes 8 2) (\<lambda>day.
        and_then (expect_at bytes 10 CHR ''T'') (\<lambda>_.
        and_then (parse_u32 bytes 11 2) (\<lambda>hour.
        and_then (expect_at bytes 13 CHR '':'') (\<lambda>_.
        and_then (parse_u32 bytes 14 2) (\<lambda>minute.
        and_then (expect_at bytes 16 CHR '':'') (\<lambda>_.
        and_then (parse_u32 bytes 17 2) (\<lambda>second.
        and_then (skip_fraction bytes 19) (\<lambda>pos.
        and_then (parse_offset bytes pos) (\<lambda>(offset_seconds, pos).
        if pos \<noteq> length bytes then Err ()
        else
          and_then (validate_date_time year month day hour minute second) (\<lambda>_.
          let days = days_from_civil year month day;
              local_seconds = days * 86400 + hour * 3600 + minute * 60 + second in
          Ok \<lparr>ts_unix_seconds = local_seconds - offset_seconds\<rparr>)))))))))))))))"

section \<open>Division\<close>

lemma sdiv_nonneg: "0 \<le> k \<Longrightarrow> 0 < l \<Longrightarrow> k sdiv l = k div l" for k l :: int
  by (cases "k = 0") (simp_all add: signed_divide_int_def)

lemma smod_nonneg: "0 \<le> k \<Longrightarrow> 0 < l \<Longrightarrow> k smod l = k mod l" for k l :: int
  by (cases "k = 0") (simp_all add: signed_modulo_int_def)

lemma sdiv_floor: "0 < l \<Longrightarrow> (if k \<ge> 0 then k else k - (l - 1)) sdiv l = k div l" for k l :: int
proof (cases "k \<ge> 0")
  case False
  assume l: "0 < l"
  have "(l - 1 - k) div l = - (k div l)"
  proof -
    have "l - 1 - k = l * (- (k div l)) + (l - 1 - k mod l)" by (simp add: algebra_simps minus_mod_eq_mult_div [symmetric])
    moreover have "0 \<le> l - 1 - k mod l" "l - 1 - k mod l < l" using l pos_mod_bound [of l k] pos_mod_sign [of l k] by linarith+
    ultimately show ?thesis by (metis div_mult_self4 div_pos_pos_trivial l less_irrefl add_0_right add.commute mult.commute)
  qed
  moreover have "(k - (l - 1)) sdiv l = - ((l - 1 - k) div l)"
    using False l by (simp add: signed_divide_int_def)
  ultimately show ?thesis using False by simp
qed (simp add: sdiv_nonneg)

lemma sdiv_era:
  "(if k \<ge> 0 then k else k - 399) sdiv 400 = k div 400"
  "(if k \<ge> 0 then k else k - 146096) sdiv 146097 = k div 146097" for k :: int
  using sdiv_floor [of 400 k] sdiv_floor [of 146097 k] by (simp_all split del: if_split cong: if_cong)

lemma smod_zero_iff: "k smod l = 0 \<longleftrightarrow> l dvd k" for k l :: int
  by (simp add: signed_modulo_int_def sgn_if mod_eq_0_iff_dvd)

lemma is_leap_year_iff: "is_leap_year y \<longleftrightarrow> 4 dvd y \<and> \<not> 100 dvd y \<or> 400 dvd y"
  by (simp add: is_leap_year_def smod_zero_iff)

section \<open>Years of an era\<close>

text \<open>
  An era has 400 years that begin in March, so that a leap day is the last day of its year.  The year of
  an era is a century, a cycle of four years and a year of the cycle.
\<close>

definition days_before_year :: "int \<Rightarrow> int" where
  "days_before_year yoe = 365 * yoe + yoe div 4 - yoe div 100"

definition day_of_year_ok :: "int \<Rightarrow> int \<Rightarrow> bool" where
  "day_of_year_ok yoe doy \<longleftrightarrow> 0 \<le> yoe \<and> yoe < 400 \<and> 0 \<le> doy \<and> doy \<le> 365
     \<and> (doy = 365 \<longrightarrow> 4 dvd (yoe + 1) \<and> (100 dvd (yoe + 1) \<longrightarrow> yoe = 399))"

lemma yoe_parts:
  fixes yoe :: int
  assumes "0 \<le> yoe" "yoe < 400"
  obtains c q r where "yoe = 100 * c + 4 * q + r" "0 \<le> c" "c \<le> 3" "0 \<le> q" "q \<le> 24" "0 \<le> r" "r \<le> 3"
    "days_before_year yoe = 36524 * c + 1461 * q + 365 * r"
proof
  let ?c = "yoe div 100" and ?q = "yoe mod 100 div 4" and ?r = "yoe mod 4"
  have m: "yoe mod 4 = yoe mod 100 mod 4" by (simp add: mod_mod_cancel)
  have s: "yoe = 100 * ?c + yoe mod 100" "yoe mod 100 = 4 * ?q + ?r" unfolding m by simp_all
  then show eq: "yoe = 100 * ?c + 4 * ?q + ?r" by linarith
  show b: "0 \<le> ?c" "?c \<le> 3" "0 \<le> ?q" "?q \<le> 24" "0 \<le> ?r" "?r \<le> 3"
    using assms by auto
  have "yoe div 4 = 25 * ?c + ?q" using s b by linarith
  then show "days_before_year yoe = 36524 * ?c + 1461 * ?q + 365 * ?r"
    using eq unfolding days_before_year_def by linarith
qed

lemma last_day_parts:
  fixes c q r :: int
  assumes "4 dvd (100 * c + 4 * q + r + 1)" "100 dvd (100 * c + 4 * q + r + 1) \<longrightarrow> 100 * c + 4 * q + r = 399"
    "0 \<le> c" "c \<le> 3" "0 \<le> q" "q \<le> 24" "0 \<le> r" "r \<le> 3"
  shows "r = 3 \<and> (q = 24 \<longrightarrow> c = 3)"
proof -
  have "100 * c + 4 * q + r + 1 = (r + 1) + (25 * c + q) * 4" by simp
  with assms(1) have "4 dvd r + 1" by (metis dvd_add_times_triv_right_iff)
  with assms(7,8) have "r = 3" using zdvd_imp_le [of 4 "r + 1"] by simp
  moreover have "c = 3" if "q = 24" using assms(2) that \<open>r = 3\<close> by simp
  ultimately show ?thesis by blast
qed

lemma year_of_era:
  assumes "day_of_year_ok yoe doy" and doe: "doe = days_before_year yoe + doy"
  shows "0 \<le> doe \<and> doe \<le> 146096 \<and> (doe - doe div 1460 + doe div 36524 - doe div 146096) div 365 = yoe"
proof -
  have ok: "0 \<le> yoe" "yoe < 400" "0 \<le> doy" "doy \<le> 365" using assms(1) by (auto simp: day_of_year_ok_def)
  obtain c q r where p: "yoe = 100 * c + 4 * q + r" "0 \<le> c" "c \<le> 3" "0 \<le> q" "q \<le> 24" "0 \<le> r" "r \<le> 3"
    and d: "days_before_year yoe = 36524 * c + 1461 * q + 365 * r"
    using ok(1,2) by (rule yoe_parts)
  have l: "doy = 365 \<Longrightarrow> r = 3 \<and> (q = 24 \<longrightarrow> c = 3)"
    using assms(1) p by (intro last_day_parts) (auto simp: day_of_year_ok_def)
  have eq: "doe = 36524 * c + 1461 * q + 365 * r + doy" using doe d by simp
  have century: "1461 * q + 365 * r + doy < 36524 \<or> c = 3 \<and> doe = 146096"
  proof (cases "q = 24 \<and> r = 3 \<and> doy = 365")
    case True
    with l eq show ?thesis by auto
  next
    case False
    with p ok have "q \<le> 23 \<or> r \<le> 2 \<or> doy \<le> 364" by linarith
    with p ok show ?thesis by linarith
  qed
  then have ce: "doe div 36524 - doe div 146096 = c"
  proof
    assume "1461 * q + 365 * r + doy < 36524"
    with p ok eq have "doe div 36524 = c" "doe div 146096 = 0" by linarith+
    then show ?thesis by simp
  qed simp
  have bounds: "0 \<le> doe" "doe \<le> 146096" using century p ok eq by linarith+
  define e where "e = (24 * c + q + 365 * r + doy) div 1460"
  have e: "doe div 1460 = 25 * c + q + e"
  proof -
    have "doe = 1460 * (25 * c + q) + (24 * c + q + 365 * r + doy)" using eq by (simp add: algebra_simps)
    then show ?thesis unfolding e_def by (simp add: div_mult_self4)
  qed
  have "e = 0 \<or> e = 1" unfolding e_def using p ok by linarith
  moreover have "e = 1 \<Longrightarrow> 1 \<le> doy" unfolding e_def using p ok by linarith
  moreover have "e = 0 \<Longrightarrow> doy \<noteq> 365" unfolding e_def using p ok l by linarith
  ultimately have "0 \<le> doy - e" "doy - e \<le> 364" using ok by linarith+
  moreover have "doe - doe div 1460 + doe div 36524 - doe div 146096 = 365 * yoe + (doy - e)"
    using ce e eq p(1) by linarith
  ultimately show ?thesis using bounds by simp
qed

lemma year_of_era_exists:
  assumes "0 \<le> doe" "doe \<le> 146096"
  obtains yoe doy where "day_of_year_ok yoe doy" "doe = days_before_year yoe + doy"
proof -
  define c where "c = (if doe = 146096 then 3 else doe div 36524)"
  define n where "n = doe - 36524 * c"
  define q where "q = (if n = 36524 then 24 else n div 1461)"
  define k where "k = n - 1461 * q"
  define r where "r = (if k = 1460 then 3 else k div 365)"
  have c: "0 \<le> c" "c \<le> 3" "0 \<le> n" "n \<le> 36524" "n = 36524 \<longrightarrow> c = 3"
    using assms unfolding n_def c_def by auto
  have q: "0 \<le> q" "q \<le> 24" "0 \<le> k" "k \<le> 1460" "q = 24 \<longrightarrow> k = 1460 \<longrightarrow> n = 36524"
    using c unfolding k_def q_def by auto
  have r: "0 \<le> r" "r \<le> 3" "0 \<le> k - 365 * r" "k - 365 * r \<le> 365" "k - 365 * r = 365 \<longrightarrow> k = 1460 \<and> r = 3"
    using q unfolding r_def by auto
  let ?yoe = "100 * c + 4 * q + r"
  have d: "days_before_year ?yoe = 36524 * c + 1461 * q + 365 * r"
  proof -
    have "?yoe div 100 = c" "?yoe div 4 = 25 * c + q" using c q r by linarith+
    then show ?thesis unfolding days_before_year_def by (simp add: algebra_simps)
  qed
  have "day_of_year_ok ?yoe (k - 365 * r)"
    unfolding day_of_year_ok_def
  proof (intro conjI impI)
    assume "k - 365 * r = 365"
    then have "k = 1460" "r = 3" using r by auto
    then show "4 dvd ?yoe + 1" by presburger
    assume "100 dvd ?yoe + 1"
    with \<open>r = 3\<close> c q have "q = 24" by presburger
    with \<open>k = 1460\<close> \<open>r = 3\<close> q(5) c(5) show "?yoe = 399" by auto
  qed (use c q r in linarith)+
  moreover have "doe = days_before_year ?yoe + (k - 365 * r)" unfolding d k_def n_def by simp
  ultimately show thesis by (rule that)
qed

section \<open>Civil dates\<close>

definition valid_date :: "int \<Rightarrow> int \<Rightarrow> int \<Rightarrow> bool" where
  "valid_date y m d \<longleftrightarrow> 1 \<le> m \<and> m \<le> 12 \<and> 1 \<le> d \<and> d \<le> days_in_month y m"

text \<open>Months from March, the first day of each in the year, and the longest day of each.\<close>

definition month_from_march :: "int \<Rightarrow> int" where
  "month_from_march m = (if m > 2 then m - 3 else m + 9)"

definition month_start :: "int \<Rightarrow> int" where
  "month_start mp = (153 * mp + 2) div 5"

lemma as_u32_id: "0 \<le> n \<Longrightarrow> n < 2 ^ 32 \<Longrightarrow> as_u32 n = n"
  unfolding as_u32_def by (simp only: uint_word_of_int) (simp add: take_bit_int_eq_self)

lemma as_i32_id: "- (2 ^ 31) \<le> n \<Longrightarrow> n < 2 ^ 31 \<Longrightarrow> as_i32 n = n"
  unfolding as_i32_def by (simp only: int_word_sint) (simp add: signed_take_bit_int_eq_self)

lemma twelve_cases:
  fixes n :: int
  assumes "a \<le> n" "n \<le> a + 11"
  obtains "n = a" | "n = a + 1" | "n = a + 2" | "n = a + 3" | "n = a + 4" | "n = a + 5" | "n = a + 6" | "n = a + 7"
    | "n = a + 8" | "n = a + 9" | "n = a + 10" | "n = a + 11"
proof -
  have "n = a \<or> n = a + 1 \<or> n = a + 2 \<or> n = a + 3 \<or> n = a + 4 \<or> n = a + 5 \<or> n = a + 6 \<or> n = a + 7
    \<or> n = a + 8 \<or> n = a + 9 \<or> n = a + 10 \<or> n = a + 11"
    using assms by presburger
  then show thesis using that by blast
qed

lemma month_of_day:
  assumes "valid_date y m d" and doy: "doy = month_start (month_from_march m) + d - 1"
  shows "(5 * doy + 2) div 153 = month_from_march m \<and> 0 \<le> doy \<and> doy \<le> 365 \<and> (doy = 365 \<longrightarrow> m = 2 \<and> is_leap_year y)"
proof -
  from assms(1) have "1 \<le> m" "m \<le> 1 + 11" by (auto simp: valid_date_def)
  then show ?thesis
    using assms by (cases rule: twelve_cases)
      (auto simp: valid_date_def days_in_month_def month_from_march_def month_start_def split: if_splits)
qed

lemma day_of_month:
  assumes "0 \<le> doy" "doy \<le> 365" and mp: "mp = (5 * doy + 2) div 153" and m: "m = mp + (if mp < 10 then 3 else -9)"
    and leap: "doy = 365 \<Longrightarrow> is_leap_year y"
  shows "valid_date y m (doy - month_start mp + 1) \<and> month_from_march m = mp"
proof -
  have b: "153 * mp \<le> 5 * doy + 2" "5 * doy + 2 \<le> 153 * mp + 152" unfolding mp by linarith+
  have "0 \<le> mp" "mp \<le> 0 + 11" using assms(1,2) mp by auto
  show ?thesis
  proof (cases "doy = 365")
    case True
    with b have "mp = 11" by linarith
    with m leap True show ?thesis
      by (simp add: valid_date_def days_in_month_def month_from_march_def month_start_def)
  next
    case False
    with \<open>0 \<le> mp\<close> \<open>mp \<le> 0 + 11\<close> show ?thesis
      using b assms(1,2) m by (cases rule: twelve_cases [of 0 mp])
        (auto simp: valid_date_def days_in_month_def month_from_march_def month_start_def)
  qed
qed

lemma march_year_leap: "4 dvd (yoe + 1) \<and> (100 dvd (yoe + 1) \<longrightarrow> yoe = 399) \<longleftrightarrow> is_leap_year (yoe + era * 400 + 1)"
  if "0 \<le> yoe" "yoe < 400" for yoe era :: int
proof -
  have "yoe + era * 400 + 1 = (yoe + 1) + (era * 100) * 4" "yoe + era * 400 + 1 = (yoe + 1) + (era * 4) * 100"
    "yoe + era * 400 + 1 = (yoe + 1) + era * 400"
    by simp_all
  then have "4 dvd (yoe + era * 400 + 1) \<longleftrightarrow> 4 dvd (yoe + 1)" "100 dvd (yoe + era * 400 + 1) \<longleftrightarrow> 100 dvd (yoe + 1)"
    "400 dvd (yoe + era * 400 + 1) \<longleftrightarrow> 400 dvd (yoe + 1)"
    by (metis dvd_add_times_triv_right_iff)+
  moreover have "400 dvd (yoe + 1) \<longleftrightarrow> yoe = 399" using that zdvd_imp_le [of 400 "yoe + 1"] by auto
  moreover have "100 dvd (yoe + 1) \<Longrightarrow> 4 dvd (yoe + 1)" by (rule dvd_trans [of _ 100]) simp_all
  ultimately show ?thesis unfolding is_leap_year_iff by auto
qed

lemma day_number_unfold:
  assumes "valid_date y m d"
  defines "y' \<equiv> y - (if m \<le> 2 then 1 else 0)"
  shows "days_from_civil y m d
    = y' div 400 * 146097 + days_before_year (y' mod 400) + (month_start (month_from_march m) + d - 1) - 719468"
proof -
  have "153 * (m + (if m > 2 then -3 else 9)) + 2 = 153 * month_from_march m + 2" "0 \<le> 153 * month_from_march m + 2"
    using assms(1) by (auto simp: month_from_march_def valid_date_def)
  then have "(153 * (m + (if m > 2 then -3 else 9)) + 2) sdiv 5 = month_start (month_from_march m)"
    unfolding month_start_def by (simp only: sdiv_nonneg)
  moreover have "y' - y' div 400 * 400 = y' mod 400" by (simp add: minus_div_mult_eq_mod)
  moreover have "y' mod 400 sdiv 4 = y' mod 400 div 4" "y' mod 400 sdiv 100 = y' mod 400 div 100" by (simp_all add: sdiv_nonneg)
  ultimately show ?thesis
    unfolding days_from_civil_def Let_def y'_def [symmetric] days_before_year_def sdiv_era by (simp only:)
qed

lemma day_of_year_valid:
  assumes "valid_date y m d"
  defines "y' \<equiv> y - (if m \<le> 2 then 1 else 0)"
  shows "day_of_year_ok (y' mod 400) (month_start (month_from_march m) + d - 1)"
proof -
  note doy = month_of_day [OF assms(1) refl]
  have "is_leap_year y \<longleftrightarrow> 4 dvd (y' mod 400 + 1) \<and> (100 dvd (y' mod 400 + 1) \<longrightarrow> y' mod 400 = 399)" if "m = 2"
  proof -
    have "y = y' mod 400 + y' div 400 * 400 + 1" unfolding y'_def using that by simp
    then show ?thesis using march_year_leap [of "y' mod 400" "y' div 400"] by simp
  qed
  with doy show ?thesis unfolding day_of_year_ok_def by auto
qed

lemma civil_from_days_unfold:
  assumes "day_of_year_ok yoe doy"
  shows "civil_from_days (era * 146097 + days_before_year yoe + doy - 719468) =
    (let mp = (5 * doy + 2) div 153; month = mp + (if mp < 10 then 3 else -9) in
     (as_i32 (yoe + era * 400 + (if month \<le> 2 then 1 else 0)), month, doy - month_start mp + 1))"
proof -
  define doe where "doe = days_before_year yoe + doy"
  have doe: "0 \<le> doe" "doe \<le> 146096" "(doe - doe div 1460 + doe div 36524 - doe div 146096) div 365 = yoe"
    using year_of_era [OF assms doe_def] by auto
  have ok: "0 \<le> yoe" "yoe < 400" "0 \<le> doy" "doy \<le> 365" using assms by (auto simp: day_of_year_ok_def)
  have era: "(era * 146097 + doe) div 146097 = era" using doe by simp
  have yoe: "(doe - doe sdiv 1460 + doe sdiv 36524 - doe sdiv 146096) sdiv 365 = yoe"
  proof -
    have "0 \<le> doe - doe div 1460 + doe div 36524 - doe div 146096" using doe by linarith
    with doe show ?thesis by (simp add: sdiv_nonneg)
  qed
  have doy: "doe - (365 * yoe + yoe sdiv 4 - yoe sdiv 100) = doy"
    using ok by (simp add: sdiv_nonneg doe_def days_before_year_def)
  define mp where "mp = (5 * doy + 2) div 153"
  have mp: "(5 * doy + 2) sdiv 153 = mp" "0 \<le> mp" "mp \<le> 11" using ok by (auto simp: mp_def sdiv_nonneg)
  have start: "(153 * mp + 2) sdiv 5 = month_start mp" using mp by (simp add: sdiv_nonneg month_start_def)
  define month where "month = mp + (if mp < 10 then 3 else -9)"
  have "1 \<le> month" "month \<le> 12" "1 \<le> doy - month_start mp + 1" "doy - month_start mp + 1 \<le> 366"
    using mp ok unfolding month_def month_start_def mp_def by (auto split: if_splits)
  then have casts: "as_u32 month = month" "as_u32 (doy - month_start mp + 1) = doy - month_start mp + 1"
    by (simp_all add: as_u32_id)
  have days: "era * 146097 + days_before_year yoe + doy - 719468 + 719468 = era * 146097 + doe" by (simp add: doe_def)
  show ?thesis
    unfolding civil_from_days_def days Let_def sdiv_era era
      add_diff_cancel_left' yoe doy mp(1) start mp_def [symmetric] month_def [symmetric] casts ..
qed

end
