(* ===== verification/Sensor_Calendar.thy ===== *)
theory Sensor_Calendar
  imports Sensor_Time
begin

text \<open>
  What the day arithmetic and the RFC 3339 text of \<open>timefmt.rs\<close> compute: the day number counts days of the
  Gregorian calendar, and the printer and the parser are inverse for the years of four digits.
\<close>

section \<open>Day numbers\<close>

lemma civil_of_day_number:
  assumes "valid_date y m d"
  shows "civil_from_days (days_from_civil y m d) = (as_i32 y, m, d)"
proof -
  let ?y = "y - (if m \<le> 2 then 1 else 0)" and ?mp = "month_from_march m"
  let ?doy = "month_start ?mp + d - 1"
  have mp: "(5 * ?doy + 2) div 153 = ?mp" using month_of_day [OF assms refl] by simp
  have month: "?mp + (if ?mp < 10 then 3 else -9) = m"
    using assms by (auto simp: month_from_march_def valid_date_def)
  have "?y mod 400 + ?y div 400 * 400 + (if m \<le> 2 then 1 else 0) = y" by simp
  then show ?thesis
    unfolding day_number_unfold [OF assms] civil_from_days_unfold [OF day_of_year_valid [OF assms]] Let_def mp month
    by simp
qed

lemma day_number_exists:
  obtains y m d where "valid_date y m d" "n = days_from_civil y m d"
proof -
  define era doe where "era = (n + 719468) div 146097" and "doe = (n + 719468) mod 146097"
  have "0 \<le> doe" "doe \<le> 146096" by (simp_all add: doe_def)
  then obtain yoe doy where ok: "day_of_year_ok yoe doy" and doe: "doe = days_before_year yoe + doy"
    by (rule year_of_era_exists)
  define mp where "mp = (5 * doy + 2) div 153"
  define m where "m = mp + (if mp < 10 then 3 else -9)"
  define y where "y = yoe + era * 400 + (if m \<le> 2 then 1 else 0)"
  have b: "0 \<le> yoe" "yoe < 400" "0 \<le> doy" "doy \<le> 365" using ok by (auto simp: day_of_year_ok_def)
  have "is_leap_year y" if "doy = 365"
  proof -
    have "m = 2" using that by (simp add: m_def mp_def)
    with that ok march_year_leap [OF b(1,2), of era] show ?thesis by (simp add: y_def day_of_year_ok_def)
  qed
  from day_of_month [OF b(3,4) mp_def m_def this]
  have v: "valid_date y m (doy - month_start mp + 1)" and mp: "month_from_march m = mp" by auto
  have y': "y - (if m \<le> 2 then 1 else 0) = era * 400 + yoe" by (simp add: y_def)
  have "n = days_from_civil y m (doy - month_start mp + 1)"
    unfolding day_number_unfold [OF v] y' mp using b doe by (simp add: era_def doe_def [symmetric])
      (simp add: doe_def era_def minus_mod_eq_div_mult [symmetric])
  with v show thesis by (rule that)
qed

text \<open>Days before a year that begins in March, over all eras.\<close>

definition march_days :: "int \<Rightarrow> int" where
  "march_days y = 365 * y + y div 4 - y div 100 + y div 400"

lemma march_days_era: "y div 400 * 146097 + days_before_year (y mod 400) = march_days y"
proof -
  define e r where "e = y div 400" and "r = y mod 400"
  have y: "y = r + e * 100 * 4" "y = r + e * 4 * 100" "y = r + e * 400" by (simp_all add: e_def r_def)
  have "y div 4 = e * 100 + r div 4" unfolding y(1) by simp
  moreover have "y div 100 = e * 4 + r div 100" unfolding y(2) by simp
  ultimately show ?thesis
    unfolding march_days_def days_before_year_def e_def [symmetric] r_def [symmetric] using y(3) by simp
qed

lemma day_number_closed:
  assumes "valid_date y m d"
  shows "days_from_civil y m d =
    march_days (y - (if m \<le> 2 then 1 else 0)) + (month_start (month_from_march m) + d - 1) - 719468"
proof -
  let ?y = "y - (if m \<le> 2 then 1 else 0)"
  show ?thesis unfolding day_number_unfold [OF assms] march_days_era [of ?y] by simp
qed

lemma div_Suc: "0 < k \<Longrightarrow> (y + 1) div k = y div k + (if k dvd y + 1 then 1 else 0)" for y k :: int
proof -
  assume k: "0 < k"
  have y: "y + 1 = (y mod k + 1) + y div k * k" by simp
  have d: "k dvd y + 1 \<longleftrightarrow> k dvd y mod k + 1" by (subst y) (rule dvd_add_times_triv_right_iff)
  have q: "(y + 1) div k = y div k + (y mod k + 1) div k" by (subst y) (rule div_mult_self1, use k in simp)
  have r: "0 \<le> y mod k" "y mod k < k" using k by simp_all
  show ?thesis
  proof (cases "y mod k + 1 = k")
    case True
    then show ?thesis unfolding q d using k by simp
  next
    case False
    with r have "y mod k + 1 < k" "0 < y mod k + 1" by linarith+
    then show ?thesis unfolding q d using zdvd_not_zless by auto
  qed
qed

lemma march_days_Suc: "march_days (y + 1) = march_days y + (if is_leap_year (y + 1) then 366 else 365)"
proof -
  have "400 dvd y + 1 \<Longrightarrow> 100 dvd y + 1" "100 dvd y + 1 \<Longrightarrow> 4 dvd y + 1"
    by (erule dvd_trans [rotated], simp)+
  then show ?thesis unfolding march_days_def is_leap_year_iff by (simp add: div_Suc)
qed

definition next_date :: "int \<times> int \<times> int \<Rightarrow> int \<times> int \<times> int" where
  "next_date t = (case t of (y, m, d) \<Rightarrow>
     if d < days_in_month y m then (y, m, d + 1) else if m < 12 then (y, m + 1, 1) else (y + 1, 1, 1))"

lemma next_date_valid: "valid_date y m d \<Longrightarrow> next_date (y, m, d) = (y', m', d') \<Longrightarrow> valid_date y' m' d'"
  by (auto simp: next_date_def valid_date_def days_in_month_def split: if_splits)

lemma month_start_next:
  assumes "1 \<le> m" "m < 12" "m \<noteq> 2"
  shows "month_start (month_from_march (m + 1)) = month_start (month_from_march m) + days_in_month y m"
proof -
  from assms have "1 \<le> m" "m \<le> 1 + 11" by auto
  then show ?thesis using assms
    by (cases rule: twelve_cases) (auto simp: month_start_def month_from_march_def days_in_month_def)
qed

lemma day_number_next:
  assumes v: "valid_date y m d" and n: "next_date (y, m, d) = (y', m', d')"
  shows "days_from_civil y' m' d' = days_from_civil y m d + 1"
proof -
  note closed = day_number_closed [OF v] day_number_closed [OF next_date_valid [OF v n]]
  consider "d < days_in_month y m" | "d = days_in_month y m" "m = 2" | "d = days_in_month y m" "m < 12" "m \<noteq> 2"
    | "d = days_in_month y m" "m = 12" using v unfolding valid_date_def by linarith
  then show ?thesis
  proof cases
    case 1
    with n closed show ?thesis by (simp add: next_date_def)
  next
    case 2
    with n have "y' = y" "m' = 3" "d' = 1" by (auto simp: next_date_def)
    with closed 2 march_days_Suc [of "y - 1"] show ?thesis
      by (simp add: month_start_def month_from_march_def days_in_month_def)
  next
    case 3
    with n have "y' = y" "m' = m + 1" "d' = 1" by (auto simp: next_date_def)
    with closed 3 v month_start_next [of m y] show ?thesis by (auto simp: valid_date_def split: if_splits)
  next
    case 4
    with n have "y' = y + 1" "m' = 1" "d' = 1" by (auto simp: next_date_def days_in_month_def)
    with closed 4 show ?thesis by (simp add: month_start_def month_from_march_def days_in_month_def)
  qed
qed

text \<open>The days of the years 0000 to 9999.\<close>

lemma day_number_range:
  assumes v: "valid_date y m d"
  shows "0 \<le> y \<and> y \<le> 9999 \<longleftrightarrow> -719528 \<le> days_from_civil y m d \<and> days_from_civil y m d \<le> 2932896"
proof -
  define y' where "y' = y - (if m \<le> 2 then 1 else 0)"
  define doy where "doy = month_start (month_from_march m) + d - 1"
  have doy: "0 \<le> doy" "doy \<le> 365" "m \<le> 2 \<longleftrightarrow> 306 \<le> doy"
    using month_of_day [OF v refl] v unfolding doy_def [symmetric] by (auto simp: month_from_march_def valid_date_def split: if_splits)
  have n: "days_from_civil y m d = march_days y' + doy - 719468"
    unfolding day_number_closed [OF v] y'_def doy_def by simp
  consider "y' < -1" | "y' = -1" | "0 \<le> y'" "y' < 9999" | "y' = 9999" | "9999 < y'" by linarith
  then show ?thesis
  proof cases
    case 1
    then have "march_days y' < -500" unfolding march_days_def by linarith
    moreover have "y < 0" using 1 unfolding y'_def by (auto split: if_splits)
    ultimately show ?thesis using n doy by linarith
  next
    case 2
    with n doy show ?thesis unfolding y'_def march_days_def by (auto split: if_splits)
  next
    case 3
    then have "-2 \<le> march_days y'" "march_days y' \<le> 3651998" unfolding march_days_def by linarith+
    moreover have "0 \<le> y \<and> y \<le> 9999" using 3 unfolding y'_def by (auto split: if_splits)
    ultimately show ?thesis using n doy by linarith
  next
    case 4
    with n doy show ?thesis unfolding y'_def march_days_def by (auto split: if_splits)
  next
    case 5
    then have "3652365 < march_days y'" unfolding march_days_def by linarith
    moreover have "9999 < y" using 5 unfolding y'_def by (auto split: if_splits)
    ultimately show ?thesis using n doy by linarith
  qed
qed

section \<open>Decimal fields\<close>

lemma digits_value_Cons: "digits_value (c # s) = digit_value c * 10 ^ length s + digits_value s"
proof (induction s rule: rev_induct)
  case (snoc d s)
  have "digits_value ((c # s) @ [d]) = digits_value (c # s) * 10 + digit_value d" by (rule digits_value_snoc)
  with snoc show ?case by (simp add: digits_value_snoc algebra_simps)
qed (simp add: digits_value_def)

lemma parse_u32_loop_digits:
  "list_all is_ascii_digit s \<Longrightarrow> parse_u32_loop s v = Ok (v * 10 ^ length s + int (digits_value s))"
proof (induction s arbitrary: v)
  case (Cons c s)
  have "digits_value (c # s) = digit_value c * 10 ^ length s + digits_value s" by (rule digits_value_Cons)
  with Cons show ?case by (simp add: algebra_simps)
qed (simp add: digits_value_def)

lemma parse_u32_loop_Ok: "parse_u32_loop s v = Ok n \<Longrightarrow> list_all is_ascii_digit s"
  by (induction s arbitrary: v) (auto split: if_splits)

lemma parse_u32_Ok_iff:
  "parse_u32 s i k = Ok n \<longleftrightarrow>
     i + k \<le> length s \<and> list_all is_ascii_digit (take k (drop i s)) \<and> n = int (digits_value (take k (drop i s)))"
  using parse_u32_loop_digits [of "take k (drop i s)" 0] parse_u32_loop_Ok [of "take k (drop i s)" 0]
  by (auto simp: parse_u32_def)

lemma expect_at_Ok_iff: "expect_at s i c = Ok u \<longleftrightarrow> i < length s \<and> s ! i = c"
  by (simp add: expect_at_def)

lemma show_nat_long: "10 ^ k \<le> n \<Longrightarrow> k < length (show_nat n)"
  using digits_value_bound [OF show_nat_digits [of n]] by (metis digits_value_show_nat le_less_trans one_less_numeral_iff
      power_strict_increasing_iff semiring_norm(76))

section \<open>The text of a time\<close>

definition date_time_text :: "string \<Rightarrow> string \<Rightarrow> string \<Rightarrow> string \<Rightarrow> string \<Rightarrow> string \<Rightarrow> string" where
  "date_time_text year month day hour minute second =
     year @ ''-'' @ month @ ''-'' @ day @ ''T'' @ hour @ '':'' @ minute @ '':'' @ second @ ''Z''"

lemma length_2_conv: "length s = 2 \<longleftrightarrow> (\<exists>a b. s = [a, b])"
  by (auto simp: numeral_2_eq_2 length_Suc_conv)

lemma length_4_conv: "length s = 4 \<longleftrightarrow> (\<exists>a b c d. s = [a, b, c, d])"
  by (auto simp: numeral_eq_Suc length_Suc_conv)

lemma parse_date_time_text:
  assumes "length ye = 4" "length mo = 2" "length da = 2" "length ho = 2" "length mi = 2" "length se = 2"
    and "list_all is_ascii_digit ye" "list_all is_ascii_digit mo" "list_all is_ascii_digit da"
    and "list_all is_ascii_digit ho" "list_all is_ascii_digit mi" "list_all is_ascii_digit se"
    and "validate_date_time (int (digits_value ye)) (int (digits_value mo)) (int (digits_value da))
      (int (digits_value ho)) (int (digits_value mi)) (int (digits_value se)) = Ok ()"
  shows "parse_rfc3339_timestamp (date_time_text ye mo da ho mi se) = Ok \<lparr>ts_unix_seconds =
      days_from_civil (int (digits_value ye)) (int (digits_value mo)) (int (digits_value da)) * 86400
      + int (digits_value ho) * 3600 + int (digits_value mi) * 60 + int (digits_value se)\<rparr>"
proof -
  obtain y1 y2 y3 y4 m1 m2 d1 d2 h1 h2 i1 i2 s1 s2 where s: "ye = [y1, y2, y3, y4]" "mo = [m1, m2]" "da = [d1, d2]"
    "ho = [h1, h2]" "mi = [i1, i2]" "se = [s1, s2]"
    using assms(1-6) unfolding length_2_conv length_4_conv by blast
  let ?v = "date_time_text ye mo da ho mi se"
  have fields: "parse_u32 ?v 0 4 = Ok (int (digits_value ye))" "parse_u32 ?v 5 2 = Ok (int (digits_value mo))"
    "parse_u32 ?v 8 2 = Ok (int (digits_value da))" "parse_u32 ?v 11 2 = Ok (int (digits_value ho))"
    "parse_u32 ?v 14 2 = Ok (int (digits_value mi))" "parse_u32 ?v 17 2 = Ok (int (digits_value se))"
    using assms(7-12) unfolding parse_u32_Ok_iff by (simp_all add: s date_time_text_def)
  have marks: "expect_at ?v 4 CHR ''-'' = Ok ()" "expect_at ?v 7 CHR ''-'' = Ok ()" "expect_at ?v 10 CHR ''T'' = Ok ()"
    "expect_at ?v 13 CHR '':'' = Ok ()" "expect_at ?v 16 CHR '':'' = Ok ()"
    by (simp_all add: expect_at_def s date_time_text_def)
  have zone: "skip_fraction ?v 19 = Ok 19" "parse_offset ?v 19 = Ok (0, 20)" "length ?v = 20"
    by (simp_all add: skip_fraction_def parse_offset_def s date_time_text_def)
  show ?thesis
    unfolding parse_rfc3339_timestamp_def Let_def
    by (simp only: fields marks zone and_then_simps assms(13) prod.case if_False less_irrefl refl not_True_eq_False diff_0_right)
qed

lemma parse_u32_nonneg: "parse_u32 s i k = Ok n \<Longrightarrow> 0 \<le> n"
  by (simp add: parse_u32_Ok_iff)

lemma parse_u32_bound: "parse_u32 s i k = Ok n \<Longrightarrow> n < 10 ^ k"
  using digits_value_bound [of "take k (drop i s)"] by (auto simp: parse_u32_Ok_iff)

lemma parse_offset_bound: "parse_offset s pos = Ok (n, pos') \<Longrightarrow> \<bar>n\<bar> \<le> 86340"
  by (fastforce simp: parse_offset_def and_then_Ok_iff Let_def split: if_splits dest!: parse_u32_nonneg)

lemma validate_date_time_Ok_iff:
  "validate_date_time y m d h mi s = Ok u \<longleftrightarrow>
     1 \<le> m \<and> m \<le> 12 \<and> d \<noteq> 0 \<and> d \<le> days_in_month y m \<and> h \<le> 23 \<and> mi \<le> 59 \<and> s \<le> 59"
  by (auto simp: validate_date_time_def Let_def)

lemma parse_timestamp_Ok:
  assumes "parse_rfc3339_timestamp v = Ok ts"
  obtains year month day where "valid_date year month day" "0 \<le> year" "year \<le> 9999"
    "list_all is_ascii_digit (take 4 v)" "20 \<le> length v" "v ! 4 = CHR ''-''"
    "\<bar>ts_unix_seconds ts - days_from_civil year month day * 86400\<bar> < 2 * 86400"
proof -
  from assms obtain year month day hour minute second pos n pos' where len: "20 \<le> length v"
    and year: "parse_u32 v 0 4 = Ok year" and mark: "expect_at v 4 CHR ''-'' = Ok ()"
    and f: "parse_u32 v 5 2 = Ok month" "parse_u32 v 8 2 = Ok day" "parse_u32 v 11 2 = Ok hour"
      "parse_u32 v 14 2 = Ok minute" "parse_u32 v 17 2 = Ok second"
    and zone: "parse_offset v pos = Ok (n, pos')"
    and valid: "validate_date_time year month day hour minute second = Ok ()"
    and ts: "ts_unix_seconds ts = days_from_civil year month day * 86400 + hour * 3600 + minute * 60 + second - n"
    by (auto simp: parse_rfc3339_timestamp_def and_then_Ok_iff Let_def split: if_splits)
  note nonneg = year [THEN parse_u32_nonneg] f [THEN parse_u32_nonneg]
  have "valid_date year month day"
    using valid nonneg unfolding valid_date_def validate_date_time_Ok_iff by linarith
  moreover have "year \<le> 9999" using parse_u32_bound [OF year] by simp
  moreover have "list_all is_ascii_digit (take 4 v)" using year by (simp add: parse_u32_Ok_iff)
  moreover have "v ! 4 = CHR ''-''" using mark by (simp add: expect_at_Ok_iff)
  moreover have "\<bar>ts_unix_seconds ts - days_from_civil year month day * 86400\<bar> < 2 * 86400"
    using parse_offset_bound [OF zone] valid nonneg unfolding ts validate_date_time_Ok_iff by linarith
  ultimately show thesis using nonneg(1) len that by blast
qed

section \<open>Printer and parser\<close>

definition MIN_TEXT_SECONDS :: int where "MIN_TEXT_SECONDS = -719528 * 86400"
definition MAX_TEXT_SECONDS :: int where "MAX_TEXT_SECONDS = 2932896 * 86400 + 86399"

lemma format_unfold:
  assumes v: "valid_date y m d" and n: "t div 86400 = days_from_civil y m d"
  shows "format_rfc3339_utc t = show_int_padded 4 (as_i32 y) @ ''-'' @ show_nat_padded 2 (nat m) @ ''-'' @ show_nat_padded 2 (nat d)
      @ ''T'' @ show_nat_padded 2 (nat (t mod 86400 div 3600)) @ '':'' @ show_nat_padded 2 (nat (t mod 3600 div 60)) @ '':''
      @ show_nat_padded 2 (nat (t mod 60)) @ ''Z''"
proof -
  have s: "(t mod 86400) smod 3600 = t mod 3600" "(t mod 86400) smod 60 = t mod 60"
    by (simp_all add: smod_nonneg mod_mod_cancel)
  have q: "(t mod 86400) sdiv 3600 = t mod 86400 div 3600" "(t mod 3600) sdiv 60 = t mod 3600 div 60"
    by (simp_all add: sdiv_nonneg)
  have "\<not> m < 0" "\<not> d < 0" "\<not> t mod 86400 div 3600 < 0" "\<not> t mod 3600 div 60 < 0" "\<not> t mod 60 < 0"
    using v by (auto simp: valid_date_def not_less pos_imp_zdiv_nonneg_iff)
  then show ?thesis
    unfolding format_rfc3339_utc_def Let_def n civil_of_day_number [OF v] prod.case s q
    by (simp only: show_int_padded_def [of 2] if_False)
qed

lemma seconds_split: "t = t div 86400 * 86400 + t mod 86400 div 3600 * 3600 + t mod 3600 div 60 * 60 + t mod 60" for t :: int
proof -
  have "t mod 3600 = t mod 86400 mod 3600" "t mod 60 = t mod 3600 mod 60" by (simp_all add: mod_mod_cancel)
  then have "t mod 86400 = t mod 86400 div 3600 * 3600 + t mod 3600" "t mod 3600 = t mod 3600 div 60 * 60 + t mod 60"
    by (metis div_mult_mod_eq)+
  moreover have "t = t div 86400 * 86400 + t mod 86400" by simp
  ultimately show ?thesis by linarith
qed

lemma two_digits:
  assumes "0 \<le> n" "n < 100"
  shows "length (show_nat_padded 2 (nat n)) = 2" and "list_all is_ascii_digit (show_nat_padded 2 (nat n))"
    and "int (digits_value (show_nat_padded 2 (nat n))) = n"
  using assms padded_length [of "nat n" 1] by (simp_all add: padded_digits digits_value_padded nat_less_iff numeral_2_eq_2)

lemma four_digits:
  assumes "0 \<le> n" "n \<le> 9999"
  shows "length (show_nat_padded 4 (nat n)) = 4" and "list_all is_ascii_digit (show_nat_padded 4 (nat n))"
    and "int (digits_value (show_nat_padded 4 (nat n))) = n"
  using assms padded_length [of "nat n" 3] by (simp_all add: padded_digits digits_value_padded nat_less_iff)

lemma parse_format:
  assumes "MIN_TEXT_SECONDS \<le> t" "t \<le> MAX_TEXT_SECONDS"
  shows "parse_rfc3339_timestamp (format_rfc3339_utc t) = Ok \<lparr>ts_unix_seconds = t\<rparr>"
proof -
  obtain y m d where v: "valid_date y m d" and n: "t div 86400 = days_from_civil y m d" by (rule day_number_exists)
  have "-719528 \<le> t div 86400" "t div 86400 \<le> 2932896"
    using assms unfolding MIN_TEXT_SECONDS_def MAX_TEXT_SECONDS_def by linarith+
  with day_number_range [OF v] n have y: "0 \<le> y" "y \<le> 9999" by simp_all
  have b: "0 \<le> t mod 86400 div 3600" "t mod 86400 div 3600 \<le> 23" "0 \<le> t mod 3600 div 60" "t mod 3600 div 60 \<le> 59"
    "0 \<le> t mod 60" "t mod 60 \<le> 59"
    using pos_mod_bound [of 86400 t] pos_mod_bound [of 3600 t] pos_mod_bound [of 60 t] by (simp_all add: pos_imp_zdiv_nonneg_iff)
  have md: "1 \<le> m" "m \<le> 12" "1 \<le> d" "d \<le> 31" "d \<le> days_in_month y m"
    using v by (auto simp: valid_date_def days_in_month_def split: if_splits)
  have f: "format_rfc3339_utc t = date_time_text (show_nat_padded 4 (nat y)) (show_nat_padded 2 (nat m)) (show_nat_padded 2 (nat d))
      (show_nat_padded 2 (nat (t mod 86400 div 3600))) (show_nat_padded 2 (nat (t mod 3600 div 60))) (show_nat_padded 2 (nat (t mod 60)))"
    unfolding format_unfold [OF v n] date_time_text_def using y by (simp add: as_i32_id show_int_padded_def)
  have valid: "validate_date_time y m d (t mod 86400 div 3600) (t mod 3600 div 60) (t mod 60) = Ok ()"
    using md b unfolding validate_date_time_Ok_iff by linarith
  have c: "0 \<le> m" "m < 100" "0 \<le> d" "d < 100" "t mod 86400 div 3600 < 100" "t mod 3600 div 60 < 100" "t mod 60 < 100"
    using md b by linarith+
  note two = two_digits [OF c(1,2)] two_digits [OF c(3,4)] two_digits [OF b(1) c(5)] two_digits [OF b(3) c(6)] two_digits [OF b(5) c(7)]
  note four = four_digits [OF y]
  have "parse_rfc3339_timestamp (format_rfc3339_utc t) = Ok \<lparr>ts_unix_seconds =
      days_from_civil y m d * 86400 + t mod 86400 div 3600 * 3600 + t mod 3600 div 60 * 60 + t mod 60\<rparr>"
    unfolding f
    by (rule parse_date_time_text [OF four(1) two(1,4,7,10,13) four(2) two(2,5,8,11,14), unfolded four(3) two(3,6,9,12,15), OF valid])
  then show ?thesis using seconds_split [of t] n by simp
qed

text \<open>The days of the years of an \<open>i32\<close>.\<close>

definition MIN_I32_DAY :: int where "MIN_I32_DAY = -784353015833"
definition MAX_I32_DAY :: int where "MAX_I32_DAY = 784351576776"

lemma day_number_i32:
  assumes v: "valid_date y m d"
  shows "- (2 ^ 31) \<le> y \<and> y < 2 ^ 31 \<longleftrightarrow> MIN_I32_DAY \<le> days_from_civil y m d \<and> days_from_civil y m d \<le> MAX_I32_DAY"
proof -
  define y' where "y' = y - (if m \<le> 2 then 1 else 0)"
  define doy where "doy = month_start (month_from_march m) + d - 1"
  have doy: "0 \<le> doy" "doy \<le> 365" "m \<le> 2 \<longleftrightarrow> 306 \<le> doy"
    using month_of_day [OF v refl] v unfolding doy_def [symmetric] by (auto simp: month_from_march_def valid_date_def split: if_splits)
  have n: "days_from_civil y m d = march_days y' + doy - 719468"
    unfolding day_number_closed [OF v] y'_def doy_def by simp
  consider "y' < -2147483649" | "y' = -2147483649" | "-2147483649 < y'" "y' < 2147483647" | "y' = 2147483647" | "2147483647 < y'"
    by linarith
  then show ?thesis
  proof cases
    case 1
    then have "march_days y' < -784352297000" unfolding march_days_def by linarith
    moreover have "y < - (2 ^ 31)" using 1 unfolding y'_def by (auto split: if_splits)
    ultimately show ?thesis using n doy unfolding MIN_I32_DAY_def by linarith
  next
    case 2
    with n doy show ?thesis unfolding y'_def march_days_def MIN_I32_DAY_def MAX_I32_DAY_def by (auto split: if_splits)
  next
    case 3
    then have "-784352296310 \<le> march_days y'" "march_days y' \<le> 784352295580" unfolding march_days_def by linarith+
    moreover have "- (2 ^ 31) \<le> y \<and> y < 2 ^ 31" using 3 unfolding y'_def by (auto split: if_splits)
    ultimately show ?thesis using n doy unfolding MIN_I32_DAY_def MAX_I32_DAY_def by linarith
  next
    case 4
    with n doy show ?thesis unfolding y'_def march_days_def MIN_I32_DAY_def MAX_I32_DAY_def by (auto split: if_splits)
  next
    case 5
    then have "784352296300 < march_days y'" unfolding march_days_def by linarith
    moreover have "2 ^ 31 \<le> y" using 5 unfolding y'_def by (auto split: if_splits)
    ultimately show ?thesis using n doy unfolding MAX_I32_DAY_def by linarith
  qed
qed

text \<open>A year beyond four digits does not print as one.\<close>

lemma four_digit_year:
  assumes "list_all is_ascii_digit (take 4 v)" "v ! 4 = CHR ''-''" "v = show_int_padded 4 y @ rest" "rest \<noteq> []"
  shows "0 \<le> y \<and> y \<le> 9999"
proof (rule ccontr)
  assume "\<not> (0 \<le> y \<and> y \<le> 9999)"
  then consider "y < 0" | "10000 \<le> y" by linarith
  then show False
  proof cases
    case 1
    with assms(1,3) show False by (simp add: show_int_padded_def is_ascii_digit_def)
  next
    case 2
    then have "10 ^ 4 \<le> nat y" by simp
    from show_nat_long [OF this] have "4 < length (show_nat_padded 4 (nat y))" by (simp add: show_nat_padded_def)
    then have "v ! 4 = show_nat_padded 4 (nat y) ! 4" "is_ascii_digit (show_nat_padded 4 (nat y) ! 4)"
      using 2 assms(3) padded_digits [of 4 "nat y"] by (auto simp: show_int_padded_def nth_append list_all_length)
    with assms(2) show False by (simp add: is_ascii_digit_def)
  qed
qed

lemma parsed_text_range:
  assumes "parse_rfc3339_timestamp (format_rfc3339_utc t) = Ok ts" "MIN_I32_DAY \<le> t div 86400" "t div 86400 \<le> MAX_I32_DAY"
  shows "MIN_TEXT_SECONDS \<le> t \<and> t \<le> MAX_TEXT_SECONDS"
proof -
  from assms(1) have p: "list_all is_ascii_digit (take 4 (format_rfc3339_utc t))" "format_rfc3339_utc t ! 4 = CHR ''-''"
    by (auto elim: parse_timestamp_Ok)
  obtain y m d where d: "valid_date y m d" "t div 86400 = days_from_civil y m d" by (rule day_number_exists)
  from day_number_i32 [OF d(1)] assms(2,3) have i: "as_i32 y = y" by (simp add: as_i32_id d(2))
  obtain rest where "format_rfc3339_utc t = show_int_padded 4 y @ ''-'' @ rest"
    using format_unfold [OF d] unfolding i by metis
  from four_digit_year [OF p this] have "0 \<le> y \<and> y \<le> 9999" by simp
  with day_number_range [OF d(1)] d(2) have "-719528 \<le> t div 86400" "t div 86400 \<le> 2932896" by auto
  then show ?thesis unfolding MIN_TEXT_SECONDS_def MAX_TEXT_SECONDS_def by linarith
qed

lemma parsed_seconds_bound:
  assumes "parse_rfc3339_timestamp v = Ok ts"
  shows "MIN_I32_DAY \<le> ts_unix_seconds ts div 86400 \<and> ts_unix_seconds ts div 86400 \<le> MAX_I32_DAY"
proof -
  from assms obtain year month day where p: "valid_date year month day" "0 \<le> year" "year \<le> 9999"
    "\<bar>ts_unix_seconds ts - days_from_civil year month day * 86400\<bar> < 2 * 86400"
    by (auto elim: parse_timestamp_Ok)
  with day_number_range [OF p(1)] have "\<bar>ts_unix_seconds ts\<bar> \<le> 300000000000" by linarith
  then show ?thesis unfolding MIN_I32_DAY_def MAX_I32_DAY_def by linarith
qed

lemma canonical_text_iff:
  "parse_rfc3339_timestamp v = Ok ts \<and> format_rfc3339_utc (ts_unix_seconds ts) = v \<longleftrightarrow>
   MIN_TEXT_SECONDS \<le> ts_unix_seconds ts \<and> ts_unix_seconds ts \<le> MAX_TEXT_SECONDS
   \<and> v = format_rfc3339_utc (ts_unix_seconds ts)" (is "?lhs \<longleftrightarrow> ?rhs")
proof
  assume l: ?lhs
  then show ?rhs using parsed_text_range [of "ts_unix_seconds ts" ts] parsed_seconds_bound [of v ts] by auto
next
  assume r: ?rhs
  then have "parse_rfc3339_timestamp v = Ok \<lparr>ts_unix_seconds = ts_unix_seconds ts\<rparr>" using parse_format by blast
  with r show ?lhs by (cases ts) simp
qed

text \<open>
  C21: The day numbers count the days of the proleptic Gregorian calendar from 1970-01-01, and the two
  conversions are inverse for every year of an \<open>i32\<close>.
\<close>

theorem day_numbers_count_gregorian_days:
  assumes "valid_date y m d"
  shows "days_from_civil 1970 1 1 = 0
    \<and> (case next_date (y, m, d) of (y', m', d') \<Rightarrow> days_from_civil y' m' d' = days_from_civil y m d + 1)
    \<and> (- (2 ^ 31) \<le> y \<and> y < 2 ^ 31 \<longrightarrow> civil_from_days (days_from_civil y m d) = (y, m, d))"
proof (intro conjI impI)
  show "days_from_civil 1970 1 1 = 0" by code_simp
  show "case next_date (y, m, d) of (y', m', d') \<Rightarrow> days_from_civil y' m' d' = days_from_civil y m d + 1"
    by (auto split: prod.split intro: day_number_next [OF assms])
  show "civil_from_days (days_from_civil y m d) = (y, m, d)" if "- (2 ^ 31) \<le> y \<and> y < 2 ^ 31"
    using that civil_of_day_number [OF assms] by (simp add: as_i32_id)
qed

theorem day_numbers_count_gregorian_days_witness:
  "days_from_civil 1970 1 1 = 0 \<and> days_from_civil 2024 3 1 = days_from_civil 2024 2 29 + 1
   \<and> civil_from_days (days_from_civil 2024 2 29) = (2024, 2, 29)"
proof -
  have v: "valid_date 2024 2 29" by code_simp
  have n: "next_date (2024, 2, 29) = (2024, 3, 1)" by code_simp
  show ?thesis using day_numbers_count_gregorian_days [OF v] by (simp add: n)
qed

text \<open>Beyond the years of an \<open>i32\<close> the year wraps: a time about \<open>2 ^ 32\<close> years ahead prints as a date of our days.\<close>

lemma far_future_wraps: "format_rfc3339_utc 135536078510668800 = ''2024-03-01T00:00:00Z''"
  by code_simp

end
