(* ===== verification/Sensor_Projection.thy ===== *)
theory Sensor_Projection
  imports Sensor_Calendar Core_Types Ledger_Json
begin

unbundle bit_operations_syntax

text \<open>
  The read-only SensorThings projection (\<open>crates/trackone-sensorthings\<close>): entity identifiers (\<open>ids.rs\<close>),
  validation (\<open>validate.rs\<close>), the mapping of observations (\<open>mapping.rs\<close>) and the adapter from canonical facts
  (\<open>adapter.rs\<close>).  A binary64 value is its bit pattern.
\<close>

section \<open>Entities\<close>

record time_interval =
  ti_start_rfc3339_utc :: string
  ti_end_rfc3339_utc :: string

record sensor_things_thing =
  th_id :: string
  th_pod_id :: string
  th_site_id :: "string option"

record sensor_things_datastream =
  ds_id :: string
  ds_thing_id :: string
  ds_sensor_id :: string
  ds_observed_property_id :: string
  ds_stream_key :: string

datatype observation_payload = ScalarPayload u64 | StructuredPayload json

record sensor_things_observation =
  ob_id :: string
  ob_datastream_id :: string
  ob_phenomenon_time :: time_interval
  ob_result_time_rfc3339_utc :: string
  ob_result :: observation_payload

record sensor_things_entity_ids =
  ei_thing_id :: string
  ei_sensor_id :: string
  ei_observed_property_id :: string
  ei_datastream_id :: string
  ei_observation_id :: string

section \<open>Identifiers\<close>

definition sensor_sha256_hex :: "(bytes \<Rightarrow> bytes) \<Rightarrow> bytes \<Rightarrow> string" where
  "sensor_sha256_hex H v = concat (map (\<lambda>b. [HEX ! unat (drop_bit 4 b), HEX ! unat (b AND 0x0f)]) (H v))"

definition ENTITY_ID_DOMAIN :: string where
  "ENTITY_ID_DOMAIN = ''trackone:sensorthings:entity-id:v2''"

datatype entity_kind = EntityThing | EntitySensor | EntityObservedProperty | EntityDatastream | EntityObservation | EntityLocation

definition entity_prefix :: "entity_kind \<Rightarrow> string" where
  "entity_prefix kind = (case kind of
       EntityThing \<Rightarrow> ''thing''
     | EntitySensor \<Rightarrow> ''sensor''
     | EntityObservedProperty \<Rightarrow> ''observed-property''
     | EntityDatastream \<Rightarrow> ''datastream''
     | EntityObservation \<Rightarrow> ''observation''
     | EntityLocation \<Rightarrow> ''location'')"

definition append_length_prefixed :: "bytes \<Rightarrow> bytes \<Rightarrow> bytes" where
  "append_length_prefixed out v = out @ to_be_bytes (word_of_nat (length v) :: u64) @ v"

definition entity_material :: "entity_kind \<Rightarrow> string list \<Rightarrow> bytes" where
  "entity_material kind components =
     (let material = append_length_prefixed [] (str_bytes ENTITY_ID_DOMAIN);
          material = append_length_prefixed material (str_bytes (entity_prefix kind));
          material = material @ to_be_bytes (word_of_nat (length components) :: u64) in
      foldl (\<lambda>material component. append_length_prefixed material (str_bytes component)) material components)"

definition entity_id :: "(bytes \<Rightarrow> bytes) \<Rightarrow> entity_kind \<Rightarrow> string list \<Rightarrow> string" where
  "entity_id H kind components =
     ''trackone:'' @ entity_prefix kind @ '':'' @ sensor_sha256_hex H (entity_material kind components)"

section \<open>Validation\<close>

datatype validation_error =
    MissingField string
  | InvalidRfc3339 string
  | InvalidTimeRange
  | NonFiniteScalarResult

definition validation_error_display :: "validation_error \<Rightarrow> string" where
  "validation_error_display e = (case e of
       MissingField field \<Rightarrow> ''missing required field: '' @ field
     | InvalidRfc3339 field \<Rightarrow> ''invalid RFC3339 UTC timestamp: '' @ field
     | InvalidTimeRange \<Rightarrow> ''phenomenon time end must not be before start''
     | NonFiniteScalarResult \<Rightarrow> ''scalar observation result must be finite'')"

datatype observation_result = ScalarResult u64 | StructuredResult json

record env_observation_projection_input =
  pi_pod_id :: string
  pi_frame_counter :: u64
  pi_site_id :: "string option"
  pi_sensor_key :: string
  pi_observed_property_key :: string
  pi_stream_key :: string
  pi_phenomenon_time_start :: string
  pi_phenomenon_time_end :: string
  pi_result_time :: string
  pi_result :: observation_result

definition require_field :: "string \<Rightarrow> string \<Rightarrow> (unit, validation_error) result" where
  "require_field field v = (if trim_is_empty v then Err (MissingField field) else Ok ())"

definition parse_rfc3339_utc :: "string \<Rightarrow> string \<Rightarrow> (timestamp, validation_error) result" where
  "parse_rfc3339_utc field v =
     and_then (map_err (\<lambda>_. InvalidRfc3339 field) (parse_rfc3339_timestamp v)) (\<lambda>timestamp.
     if format_rfc3339_utc (ts_unix_seconds timestamp) \<noteq> v then Err (InvalidRfc3339 field) else Ok timestamp)"

definition validate_env_observation_input :: "env_observation_projection_input \<Rightarrow> (unit, validation_error) result" where
  "validate_env_observation_input input =
     and_then (require_field ''pod_id'' (pi_pod_id input)) (\<lambda>_.
     and_then (require_field ''sensor_key'' (pi_sensor_key input)) (\<lambda>_.
     and_then (require_field ''observed_property_key'' (pi_observed_property_key input)) (\<lambda>_.
     and_then (require_field ''stream_key'' (pi_stream_key input)) (\<lambda>_.
     and_then (require_field ''phenomenon_time_start_rfc3339_utc'' (pi_phenomenon_time_start input)) (\<lambda>_.
     and_then (require_field ''phenomenon_time_end_rfc3339_utc'' (pi_phenomenon_time_end input)) (\<lambda>_.
     and_then (require_field ''result_time_rfc3339_utc'' (pi_result_time input)) (\<lambda>_.
     and_then (parse_rfc3339_utc ''phenomenon_time_start_rfc3339_utc'' (pi_phenomenon_time_start input)) (\<lambda>phenomenon_start.
     and_then (parse_rfc3339_utc ''phenomenon_time_end_rfc3339_utc'' (pi_phenomenon_time_end input)) (\<lambda>phenomenon_end.
     and_then (parse_rfc3339_utc ''result_time_rfc3339_utc'' (pi_result_time input)) (\<lambda>_.
     if ts_unix_seconds phenomenon_end < ts_unix_seconds phenomenon_start then Err InvalidTimeRange
     else if (case pi_result input of ScalarResult v \<Rightarrow> \<not> f64_is_finite v | StructuredResult _ \<Rightarrow> False)
     then Err NonFiniteScalarResult
     else Ok ()))))))))))"

section \<open>Projection\<close>

record env_observation_projection =
  ep_ids :: sensor_things_entity_ids
  ep_thing :: sensor_things_thing
  ep_datastream :: sensor_things_datastream
  ep_observation :: sensor_things_observation

definition normalize_rfc3339_utc :: "string \<Rightarrow> string \<Rightarrow> (string, validation_error) result" where
  "normalize_rfc3339_utc field v =
     and_then (map_err (\<lambda>_. InvalidRfc3339 field) (parse_rfc3339_timestamp v)) (\<lambda>timestamp.
     Ok (format_rfc3339_utc (ts_unix_seconds timestamp)))"

definition project_env_observation ::
  "(bytes \<Rightarrow> bytes) \<Rightarrow> env_observation_projection_input \<Rightarrow> (env_observation_projection, validation_error) result" where
  "project_env_observation H input =
     and_then (validate_env_observation_input input) (\<lambda>_.
     and_then (normalize_rfc3339_utc ''phenomenon_time_start_rfc3339_utc'' (pi_phenomenon_time_start input)) (\<lambda>phenomenon_time_start.
     and_then (normalize_rfc3339_utc ''phenomenon_time_end_rfc3339_utc'' (pi_phenomenon_time_end input)) (\<lambda>phenomenon_time_end.
     and_then (normalize_rfc3339_utc ''result_time_rfc3339_utc'' (pi_result_time input)) (\<lambda>result_time.
     let thing_id = entity_id H EntityThing [pi_pod_id input];
         sensor_id = entity_id H EntitySensor [pi_pod_id input, pi_sensor_key input];
         observed_property_id = entity_id H EntityObservedProperty [pi_observed_property_key input];
         datastream_id = entity_id H EntityDatastream
           [pi_pod_id input, pi_sensor_key input, pi_observed_property_key input, pi_stream_key input];
         frame_counter = show_nat (unat (pi_frame_counter input));
         observation_id = entity_id H EntityObservation [datastream_id, pi_pod_id input, frame_counter];
         ids = \<lparr>ei_thing_id = thing_id, ei_sensor_id = sensor_id, ei_observed_property_id = observed_property_id,
           ei_datastream_id = datastream_id, ei_observation_id = observation_id\<rparr>;
         thing = \<lparr>th_id = thing_id, th_pod_id = pi_pod_id input, th_site_id = pi_site_id input\<rparr>;
         datastream = \<lparr>ds_id = datastream_id, ds_thing_id = thing_id, ds_sensor_id = sensor_id,
           ds_observed_property_id = observed_property_id, ds_stream_key = pi_stream_key input\<rparr>;
         observation = \<lparr>ob_id = observation_id, ob_datastream_id = datastream_id,
           ob_phenomenon_time = \<lparr>ti_start_rfc3339_utc = phenomenon_time_start, ti_end_rfc3339_utc = phenomenon_time_end\<rparr>,
           ob_result_time_rfc3339_utc = result_time,
           ob_result = (case pi_result input of
               ScalarResult v \<Rightarrow> ScalarPayload v
             | StructuredResult v \<Rightarrow> StructuredPayload v)\<rparr> in
     Ok \<lparr>ep_ids = ids, ep_thing = thing, ep_datastream = datastream, ep_observation = observation\<rparr>))))"

section \<open>Adapter\<close>

record env_observation_adapter_context =
  ac_site_id :: "string option"
  ac_sensor_key_override :: "string option"
  ac_deployment_sensor_key :: "string option"
  ac_provisioning_sensor_key :: "string option"
  ac_provisioning_identity :: "string option"

datatype adapter_error =
    NotEnvFact
  | AdapterInvalidFact fact_validation_error
  | MissingSensorIdentity string string "u8 option"
  | AdapterValidation validation_error

definition adapter_error_display :: "adapter_error \<Rightarrow> string" where
  "adapter_error_display e = (case e of
       NotEnvFact \<Rightarrow> ''fact is not an environmental observation''
     | AdapterInvalidFact err \<Rightarrow> ''invalid canonical fact: '' @ fact_validation_error_display err
     | MissingSensorIdentity pod_id observed_property_key sensor_channel \<Rightarrow>
         ''missing provisioning/deployment-backed sensor identity for '' @ pod_id
         @ '' observed_property='' @ observed_property_key @ '' sensor_channel=''
         @ (case sensor_channel of None \<Rightarrow> ''None'' | Some c \<Rightarrow> ''Some('' @ show_nat (unat c) @ '')'')
     | AdapterValidation err \<Rightarrow> validation_error_display err)"

definition adapter_error_source :: "adapter_error \<Rightarrow> (fact_validation_error + validation_error) option" where
  "adapter_error_source e = (case e of
       AdapterInvalidFact error \<Rightarrow> Some (Inl error)
     | AdapterValidation error \<Rightarrow> Some (Inr error)
     | _ \<Rightarrow> None)"

fun observed_property_key :: "sample_type \<Rightarrow> string" where
  "observed_property_key AmbientAirTemperature = ''temperature_air''"
| "observed_property_key AmbientRelativeHumidity = ''relative_humidity''"
| "observed_property_key InterfaceTemperature = ''temperature_interface''"
| "observed_property_key CoverageCapacitance = ''coverage_capacitance''"
| "observed_property_key BioImpedanceMagnitude = ''bioimpedance_magnitude''"
| "observed_property_key BioImpedanceActivity = ''bioimpedance_activity''"
| "observed_property_key SupplyVoltage = ''supply_voltage''"
| "observed_property_key BatterySoc = ''battery_soc''"
| "observed_property_key FloodContact = ''flood_contact''"
| "observed_property_key LinkQuality = ''link_quality''"
| "observed_property_key WaterLevel = ''water_level''"
| "observed_property_key WaterFlowRate = ''water_flow_rate''"
| "observed_property_key WaterVolume = ''water_volume''"
| "observed_property_key WaterPressure = ''water_pressure''"
| "observed_property_key WaterTemperature = ''water_temperature''"
| "observed_property_key WaterElectricalConductivity = ''water_electrical_conductivity''"
| "observed_property_key WaterPh = ''water_ph''"
| "observed_property_key WaterDissolvedOxygen = ''water_dissolved_oxygen''"
| "observed_property_key WaterTurbidity = ''water_turbidity''"
| "observed_property_key WaterSalinity = ''water_salinity''"
| "observed_property_key WaterTotalDissolvedSolids = ''water_total_dissolved_solids''"
| "observed_property_key Rainfall = ''rainfall''"
| "observed_property_key RainIntensity = ''rain_intensity''"
| "observed_property_key WindSpeed = ''wind_speed''"
| "observed_property_key WindDirection = ''wind_direction''"
| "observed_property_key BarometricPressure = ''barometric_pressure''"
| "observed_property_key SolarIrradiance = ''solar_irradiance''"
| "observed_property_key SoilMoisture = ''soil_moisture''"
| "observed_property_key SoilTemperature = ''soil_temperature''"
| "observed_property_key SoilElectricalConductivity = ''soil_electrical_conductivity''"
| "observed_property_key VibrationRms = ''vibration_rms''"
| "observed_property_key VibrationPeak = ''vibration_peak''"
| "observed_property_key ShockAcceleration = ''shock_acceleration''"
| "observed_property_key InclinationAngle = ''inclination_angle''"
| "observed_property_key Displacement = ''displacement''"
| "observed_property_key Strain = ''strain''"
| "observed_property_key CrackWidth = ''crack_width''"
| "observed_property_key AcousticNoise = ''acoustic_noise''"
| "observed_property_key AirQualityPm25 = ''air_quality_pm25''"
| "observed_property_key AirQualityPm10 = ''air_quality_pm10''"
| "observed_property_key CarbonDioxide = ''carbon_dioxide''"
| "observed_property_key VolatileOrganicCompounds = ''volatile_organic_compounds''"
| "observed_property_key BatteryVoltage = ''battery_voltage''"
| "observed_property_key BatteryCurrent = ''battery_current''"
| "observed_property_key BatteryTemperature = ''battery_temperature''"
| "observed_property_key SolarChargeCurrent = ''solar_charge_current''"
| "observed_property_key EnclosureHumidity = ''enclosure_humidity''"
| "observed_property_key EnclosureTemperature = ''enclosure_temperature''"
| "observed_property_key RadioRssi = ''radio_rssi''"
| "observed_property_key RadioSnr = ''radio_snr''"
| "observed_property_key CustomSample = ''custom''"

definition derive_provisioned_sensor_key :: "(bytes \<Rightarrow> bytes) \<Rightarrow> string \<Rightarrow> string \<Rightarrow> u8 option \<Rightarrow> string" where
  "derive_provisioned_sensor_key H identity property_key sensor_channel =
     (let digest = sensor_sha256_hex H (str_bytes identity);
          fingerprint = take 16 digest;
          suffix = (case sensor_channel of
              Some channel \<Rightarrow> ''ch'' @ show_nat (unat channel)
            | None \<Rightarrow> map (\<lambda>c. if c = CHR ''_'' then CHR ''-'' else c) property_key) in
      ''prov-'' @ fingerprint @ ''-'' @ suffix)"

definition unix_to_rfc3339 :: "i64 \<Rightarrow> string" where
  "unix_to_rfc3339 v = format_rfc3339_utc (sint v)"

definition or_else :: "'a option \<Rightarrow> 'a option \<Rightarrow> 'a option" where
  "or_else a b = (case a of Some x \<Rightarrow> Some x | None \<Rightarrow> b)"

definition resolve_sensor_key ::
  "(bytes \<Rightarrow> bytes) \<Rightarrow> env_observation_adapter_context \<Rightarrow> env_fact \<Rightarrow> string option" where
  "resolve_sensor_key H ctx env =
     or_else (or_else (or_else (ac_sensor_key_override ctx) (ac_deployment_sensor_key ctx)) (ac_provisioning_sensor_key ctx))
       (map_option (\<lambda>identity. derive_provisioned_sensor_key H identity (observed_property_key (ef_sample_type env))
          (ef_sensor_channel env)) (ac_provisioning_identity ctx))"

text \<open>\<open>json!\<close> of an optional \<open>f32\<close> (a number, or null when it is absent or not finite), and of the small integers.\<close>

definition json_f32 :: "f32 option \<Rightarrow> json" where
  "json_f32 v = (case v of None \<Rightarrow> JNull
     | Some x \<Rightarrow> if f64_is_finite (f32_to_f64 x) then JNumber (JFloat (f32_to_f64 x)) else JNull)"

definition json_uint :: "'a::len word option \<Rightarrow> json" where
  "json_uint v = (case v of None \<Rightarrow> JNull | Some x \<Rightarrow> JNumber (PosInt (ucast x)))"

definition summary_json :: "env_fact \<Rightarrow> json" where
  "summary_json env = JObject (bt_collect []
     [(''min'', json_f32 (ef_min env)), (''max'', json_f32 (ef_max env)), (''mean'', json_f32 (ef_mean env)),
      (''count'', json_uint (ef_count env)), (''quality'', json_f32 (ef_quality env)),
      (''sensor_channel'', json_uint (ef_sensor_channel env))])"

definition adapt_env_fact_input ::
  "(bytes \<Rightarrow> bytes) \<Rightarrow> fact \<Rightarrow> env_observation_adapter_context \<Rightarrow> (env_observation_projection_input, adapter_error) result" where
  "adapt_env_fact_input H f ctx =
     and_then (map_err AdapterInvalidFact (fact_validate f)) (\<lambda>_.
     case (fact_kind f, fact_payload f) of
       (KindEnv, PayloadEnv env) \<Rightarrow>
         let property_key = observed_property_key (ef_sample_type env) in
         and_then (ok_or (resolve_sensor_key H ctx env)
             (MissingSensorIdentity (pod_id_fmt_hex (fact_pod_id f)) property_key (ef_sensor_channel env))) (\<lambda>sensor_key.
         Ok \<lparr>pi_pod_id = pod_id_fmt_hex (fact_pod_id f), pi_frame_counter = fact_fc f, pi_site_id = ac_site_id ctx,
           pi_sensor_key = sensor_key, pi_observed_property_key = property_key,
           pi_stream_key = (if ef_value env \<noteq> None then ''raw'' else ''summary''),
           pi_phenomenon_time_start = unix_to_rfc3339 (ef_phenomenon_time_start env),
           pi_phenomenon_time_end = unix_to_rfc3339 (ef_phenomenon_time_end env),
           pi_result_time = unix_to_rfc3339 (fact_ingest_time f),
           pi_result = (case ef_value env of
               Some v \<Rightarrow> ScalarResult (f32_to_f64 v)
             | None \<Rightarrow> StructuredResult (summary_json env))\<rparr>)
     | _ \<Rightarrow> Err NotEnvFact)"

definition project_fact_env_observation ::
  "(bytes \<Rightarrow> bytes) \<Rightarrow> fact \<Rightarrow> env_observation_adapter_context \<Rightarrow> (env_observation_projection, adapter_error) result" where
  "project_fact_env_observation H f ctx =
     and_then (adapt_env_fact_input H f ctx) (\<lambda>input.
     map_err AdapterValidation (project_env_observation H input))"

end
