(* ===== verification/Sensor_Properties.thy ===== *)
theory Sensor_Properties
  imports Sensor_Projection
begin

unbundle bit_operations_syntax

text \<open>
  What the SensorThings projection guarantees: identifiers commit to their components, times are accepted
  exactly in canonical form, and a fact is projected exactly when its times have four-digit years.
\<close>

section \<open>Identifiers\<close>

lemma sensor_sha256_hex_eq: "sensor_sha256_hex H v = hex_lower (H v)"
proof -
  have "concat (map (\<lambda>b. [HEX ! unat (drop_bit 4 b), HEX ! unat (b AND 0x0f)]) bs) = hex_lower bs" for bs :: bytes
    by (induction bs) simp_all
  then show ?thesis unfolding sensor_sha256_hex_def .
qed

definition length_prefixed :: "bytes \<Rightarrow> bytes" where
  "length_prefixed v = to_be_bytes (word_of_nat (length v) :: u64) @ v"

lemma append_length_prefixed_eq: "append_length_prefixed out v = out @ length_prefixed v"
  by (simp add: append_length_prefixed_def length_prefixed_def)

lemma length_prefixed_inject:
  assumes "length v < 2 ^ 64" "length w < 2 ^ 64"
  shows "length_prefixed v @ r = length_prefixed w @ r' \<longleftrightarrow> v = w \<and> r = r'"
proof -
  have "length v = length w" if "(word_of_nat (length v) :: u64) = word_of_nat (length w)"
    using that assms by (simp add: word_of_nat_eq_iff take_bit_nat_eq_self)
  then show ?thesis unfolding length_prefixed_def by auto
qed

lemma fold_append_length_prefixed:
  "foldl (\<lambda>m c. append_length_prefixed m (str_bytes c)) m cs = m @ concat (map (\<lambda>c. length_prefixed (str_bytes c)) cs)"
  by (induction cs arbitrary: m) (simp_all add: append_length_prefixed_eq)

lemma entity_material_eq:
  "entity_material kind cs = length_prefixed (str_bytes ENTITY_ID_DOMAIN) @ length_prefixed (str_bytes (entity_prefix kind))
     @ to_be_bytes (word_of_nat (length cs) :: u64) @ concat (map (\<lambda>c. length_prefixed (str_bytes c)) cs)"
  unfolding entity_material_def Let_def fold_append_length_prefixed by (simp add: append_length_prefixed_eq)

lemma entity_prefix_inject: "entity_prefix k = entity_prefix k' \<longleftrightarrow> k = k'"
  by (cases k; cases k') (simp_all add: entity_prefix_def)

lemma entity_prefix_short: "length (entity_prefix k) < 18446744073709551616"
  by (cases k) (simp_all add: entity_prefix_def)

definition components_ok :: "string list \<Rightarrow> bool" where
  "components_ok cs \<longleftrightarrow> length cs < 2 ^ 64 \<and> list_all (\<lambda>c. length c < 2 ^ 64) cs"

lemma concat_length_prefixed_inject:
  assumes "length cs = length cs'" "list_all (\<lambda>c. length c < 2 ^ 64) cs" "list_all (\<lambda>c. length c < 2 ^ 64) cs'"
  shows "concat (map (\<lambda>c. length_prefixed (str_bytes c)) cs) = concat (map (\<lambda>c. length_prefixed (str_bytes c)) cs') \<longleftrightarrow> cs = cs'"
  using assms by (induction cs cs' rule: list_induct2) (simp_all add: length_prefixed_inject)

lemma entity_material_inject:
  assumes "components_ok cs" "components_ok cs'"
  shows "entity_material k cs = entity_material k' cs' \<longleftrightarrow> k = k' \<and> cs = cs'"
proof
  assume "entity_material k cs = entity_material k' cs'"
  then have "entity_prefix k = entity_prefix k'"
    and n: "(word_of_nat (length cs) :: u64) = word_of_nat (length cs')"
    and c: "concat (map (\<lambda>c. length_prefixed (str_bytes c)) cs) = concat (map (\<lambda>c. length_prefixed (str_bytes c)) cs')"
    unfolding entity_material_eq by (simp_all add: length_prefixed_inject entity_prefix_short)
  moreover have "length cs = length cs'"
    using n assms by (simp add: components_ok_def word_of_nat_eq_iff take_bit_nat_eq_self)
  ultimately show "k = k' \<and> cs = cs'"
    using assms concat_length_prefixed_inject [of cs cs'] by (simp add: components_ok_def entity_prefix_inject)
qed simp

lemma entity_id_inject:
  assumes "components_ok cs" "components_ok cs'"
    and "H (entity_material k cs) = H (entity_material k' cs') \<longrightarrow> entity_material k cs = entity_material k' cs'"
  shows "entity_id H k cs = entity_id H k' cs' \<longleftrightarrow> k = k' \<and> cs = cs'"
proof
  assume e: "entity_id H k cs = entity_id H k' cs'"
  have "entity_prefix k = entity_prefix k'"
  proof -
    have c: "CHR '':'' \<notin> set (entity_prefix k)" for k by (cases k) (simp_all add: entity_prefix_def)
    have t: "takeWhile (\<lambda>x. x \<noteq> CHR '':'') (entity_prefix k @ '':'' @ s) = entity_prefix k" for k s
      using c [of k] by (subst takeWhile_append2) (auto simp: takeWhile_eq_Nil_iff)
    from e have "entity_prefix k @ '':'' @ sensor_sha256_hex H (entity_material k cs)
        = entity_prefix k' @ '':'' @ sensor_sha256_hex H (entity_material k' cs')"
      unfolding entity_id_def by simp
    then show ?thesis using t by metis
  qed
  with e have "H (entity_material k cs) = H (entity_material k' cs')"
    by (simp add: entity_id_def sensor_sha256_hex_eq)
  with assms(3) entity_material_inject [OF assms(1,2)] show "k = k' \<and> cs = cs'" by blast
qed simp

section \<open>Times\<close>

text \<open>
  C20: The validator of time texts accepts exactly what the printer writes for the times of the years 0000 to
  9999, and returns the printed time: no fraction, no offset other than \<open>Z\<close>, no date that does not exist.
\<close>

theorem time_accepted_exactly_in_canonical_form:
  "parse_rfc3339_utc field v = Ok ts \<longleftrightarrow>
     v = format_rfc3339_utc (ts_unix_seconds ts)
     \<and> MIN_TEXT_SECONDS \<le> ts_unix_seconds ts \<and> ts_unix_seconds ts \<le> MAX_TEXT_SECONDS"
proof -
  have "parse_rfc3339_utc field v = Ok ts \<longleftrightarrow>
      parse_rfc3339_timestamp v = Ok ts \<and> format_rfc3339_utc (ts_unix_seconds ts) = v"
    by (auto simp: parse_rfc3339_utc_def and_then_Ok_iff map_err_Ok_iff split: if_splits)
  then show ?thesis unfolding canonical_text_iff by auto
qed

section \<open>Fields that are not blank\<close>

lemma not_blank_ascii:
  assumes "list_all (\<lambda>c. (of_char c :: nat) < 128) s" "c \<in> set s" "\<not> char_is_whitespace (of_char c)"
  shows "\<not> trim_is_empty s"
proof -
  have "utf8_decode (str_bytes s) = Some (map unat (str_bytes s))"
    using assms(1) by (intro utf8_decode_ascii) (auto simp: str_bytes_def list_all_iff unat_of_char)
  then have "str_chars s = map of_char s" by (simp add: str_chars_def str_bytes_def unat_of_char comp_def)
  with assms(2,3) show ?thesis by (auto simp: trim_is_empty_def list_all_iff)
qed

lemma printable_not_blank:
  assumes "list_all (\<lambda>c. 33 \<le> (of_char c :: nat) \<and> (of_char c :: nat) < 128) s" "s \<noteq> []"
  shows "\<not> trim_is_empty s"
proof -
  have "33 \<le> (of_char (hd s) :: nat)" "(of_char (hd s) :: nat) < 128" using assms by (auto simp: list_all_iff)
  then have "\<not> char_is_whitespace (of_char (hd s))" by (auto simp: char_is_whitespace_def)
  then show ?thesis using assms by (intro not_blank_ascii [of s "hd s"]) (auto simp: list_all_iff)
qed

lemma hex_not_blank: "p \<noteq> [] \<Longrightarrow> \<not> trim_is_empty (pod_id_fmt_hex p)"
proof -
  assume "p \<noteq> []"
  have d: "(of_char c :: nat) < 128 \<and> \<not> char_is_whitespace (of_char c)" if "c \<in> set HEX" for c
    using that by (auto simp: HEX_def char_is_whitespace_def)
  have n: "HEX ! unat (drop_bit 4 b) \<in> set HEX" "HEX ! unat (b AND 0x0f) \<in> set HEX" for b :: u8
  proof -
    have l: "length HEX = 16" by (simp add: HEX_def)
    have "unat b < 16 * 16" using unsigned_less [of b] by simp
    then have "unat b div 16 < length HEX" "unat b mod 16 < length HEX"
      unfolding l by (simp_all add: div_less_iff_less_mult)
    then show "HEX ! unat (drop_bit 4 b) \<in> set HEX" "HEX ! unat (b AND 0x0f) \<in> set HEX"
      unfolding nibble_high nibble_low by simp_all
  qed
  have "set (pod_id_fmt_hex p) \<subseteq> set HEX" unfolding pod_id_fmt_hex_def using n by auto
  moreover from \<open>p \<noteq> []\<close> have "hd (pod_id_fmt_hex p) \<in> set (pod_id_fmt_hex p)"
    by (intro hd_in_set) (auto simp: pod_id_fmt_hex_def)
  ultimately show ?thesis using d by (intro not_blank_ascii [of _ "hd (pod_id_fmt_hex p)"]) (auto simp: list_all_iff)
qed

lemma property_key_not_blank: "\<not> trim_is_empty (observed_property_key s)"
proof (rule not_blank_ascii)
  show "list_all (\<lambda>c. (of_char c :: nat) < 128) (observed_property_key s)" by (cases s) simp_all
  show "hd (observed_property_key s) \<in> set (observed_property_key s)" by (cases s) simp_all
  show "\<not> char_is_whitespace (of_char (hd (observed_property_key s)))" by (cases s) (simp_all add: char_is_whitespace_def)
qed

lemma digits_ascii: "list_all is_ascii_digit s \<Longrightarrow> list_all (\<lambda>c. (of_char c :: nat) < 128) s"
  by (auto simp: list_all_iff is_ascii_digit_def)

lemma time_text_not_blank:
  assumes "MIN_TEXT_SECONDS \<le> t" "t \<le> MAX_TEXT_SECONDS"
  shows "\<not> trim_is_empty (format_rfc3339_utc t)"
proof -
  obtain y m d where d: "valid_date y m d" "t div 86400 = days_from_civil y m d" by (rule day_number_exists)
  have "-719528 \<le> t div 86400" "t div 86400 \<le> 2932896"
    using assms unfolding MIN_TEXT_SECONDS_def MAX_TEXT_SECONDS_def by linarith+
  with day_number_range [OF d(1)] d(2) have "0 \<le> y" "y \<le> 9999" by simp_all
  then have "show_int_padded 4 (as_i32 y) = show_nat_padded 4 (nat y)" by (simp add: as_i32_id show_int_padded_def)
  then show ?thesis
    unfolding format_unfold [OF d] using padded_digits [THEN digits_ascii]
    by (intro not_blank_ascii [of _ "CHR ''Z''"]) (simp_all add: char_is_whitespace_def)
qed

section \<open>Binary64 from binary32\<close>

lemma f64_exp_parts: "s < 2 \<Longrightarrow> e < 2048 \<Longrightarrow> m < 2 ^ 52 \<Longrightarrow> f64_exp (f64_parts s e m) = e"
proof -
  assume b: "s < 2" "e < 2048" "m < 2 ^ 52"
  have n: "s * 2 ^ 63 + e * 2 ^ 52 + m = (s * 2048 + e) * 2 ^ 52 + m" by simp
  have "s * 2048 + e < 2 ^ 12" using b by simp
  then have "(s * 2048 + e) * 2 ^ 52 + m < 2 ^ 64" using b(3) by simp
  then have u: "unat (f64_parts s e m) = (s * 2048 + e) * 2 ^ 52 + m"
    unfolding f64_parts_def n by (subst unat_of_nat) (simp add: take_bit_nat_eq_self)
  have "((s * 2048 + e) * 2 ^ 52 + m) div 2 ^ 52 = s * 2048 + e" using b(3) by simp
  then show ?thesis unfolding f64_exp_def u using b(2) by simp
qed

lemma f32_finite_exponent: "f32_is_finite v \<longleftrightarrow> unat v div 2 ^ 23 mod 2 ^ 8 \<noteq> 255"
proof -
  have m: "(0x7FFFFFFF :: u32) = mask 31" by (simp add: mask_eq_exp_minus_1)
  have s: "unat v mod 2 ^ 31 = unat v div 2 ^ 23 mod 2 ^ 8 * 2 ^ 23 + unat v mod 2 ^ 23"
    using mod_mult2_eq [of "unat v" "2 ^ 23" "2 ^ 8"] by simp
  have b: "unat v div 2 ^ 23 mod 2 ^ 8 < 256" "unat v mod 2 ^ 23 < 2 ^ 23" by simp_all
  have "f32_is_finite v \<longleftrightarrow> unat v mod 2 ^ 31 < 0x7F800000"
    unfolding f32_is_finite_def m word_less_nat_alt unat_and_mask by simp
  also have "\<dots> \<longleftrightarrow> unat v div 2 ^ 23 mod 2 ^ 8 \<noteq> 255" unfolding s using b by auto
  finally show ?thesis .
qed

lemma f32_to_f64_finite:
  assumes "f32_is_finite v"
  shows "f64_is_finite (f32_to_f64 v)"
proof -
  define s e m where "s = unat v div 2 ^ 31" and "e = unat v div 2 ^ 23 mod 2 ^ 8" and "m = unat v mod 2 ^ 23"
  have b: "s < 2" "e < 256" "m < 2 ^ 23" "e \<noteq> 255"
    using assms unsigned_less [of v] by (simp_all add: s_def e_def m_def f32_finite_exponent less_mult_imp_div_less)
  have sub: "(m - 2 ^ (floorlog 2 m - 1)) * 2 ^ (52 - (floorlog 2 m - 1)) < 2 ^ 52 \<and> floorlog 2 m - 1 \<le> 22" if "m \<noteq> 0"
  proof -
    let ?k = "floorlog 2 m - 1"
    have k: "2 ^ ?k \<le> m" "m < 2 ^ Suc ?k" using floorlog_bounds [of m 2] floorlog_eq_zero_iff [of 2 m] that by (auto simp flip: power_Suc)
    have "?k < 23" by (rule power_less_imp_less_exp [OF _ le_less_trans [OF k(1) b(3)]]) simp
    have "(m - 2 ^ ?k) * 2 ^ (52 - ?k) < 2 ^ ?k * 2 ^ (52 - ?k)" using k by simp
    also have "\<dots> = 2 ^ 52" using \<open>?k < 23\<close> by (simp flip: power_add)
    finally show ?thesis using \<open>?k < 23\<close> by simp
  qed
  have split: "unat v div 2 ^ (8 + 23) = s" "unat v div 2 ^ 23 mod 2 ^ 8 = e" "unat v mod 2 ^ 23 = m"
    by (simp_all add: s_def e_def m_def)
  have "f64_exp (f32_to_f64 v) \<noteq> 2047"
    unfolding f32_to_f64_def widen_def Let_def split
    using b sub by (auto simp: f64_exp_parts)
  then show ?thesis by (simp add: f64_is_finite_iff)
qed

section \<open>The projection of an accepted input\<close>

lemma if_Err_Ok_iff: "(if b then Err e else r) = Ok x \<longleftrightarrow> \<not> b \<and> r = Ok x"
  by simp

lemma require_field_Ok_iff: "require_field field v = Ok u \<longleftrightarrow> \<not> trim_is_empty v"
  by (simp add: require_field_def)

lemma parse_utc_Ok_iff:
  "parse_rfc3339_utc field v = Ok ts \<longleftrightarrow> parse_rfc3339_timestamp v = Ok ts \<and> format_rfc3339_utc (ts_unix_seconds ts) = v"
  by (auto simp: parse_rfc3339_utc_def and_then_Ok_iff map_err_Ok_iff split: if_splits)

lemma utc_format:
  "MIN_TEXT_SECONDS \<le> t \<Longrightarrow> t \<le> MAX_TEXT_SECONDS \<Longrightarrow> parse_rfc3339_utc field (format_rfc3339_utc t) = Ok \<lparr>ts_unix_seconds = t\<rparr>"
  by (simp add: parse_utc_Ok_iff parse_format)

lemma normalize_canonical: "parse_rfc3339_utc field v = Ok ts \<Longrightarrow> normalize_rfc3339_utc field' v = Ok v"
  by (auto simp: parse_utc_Ok_iff normalize_rfc3339_utc_def)

definition scalar_finite :: "observation_result \<Rightarrow> bool" where
  "scalar_finite r \<longleftrightarrow> (case r of ScalarResult v \<Rightarrow> f64_is_finite v | StructuredResult _ \<Rightarrow> True)"

lemma validate_input_Ok_iff:
  "validate_env_observation_input input = Ok u \<longleftrightarrow>
     \<not> trim_is_empty (pi_pod_id input) \<and> \<not> trim_is_empty (pi_sensor_key input)
     \<and> \<not> trim_is_empty (pi_observed_property_key input) \<and> \<not> trim_is_empty (pi_stream_key input)
     \<and> \<not> trim_is_empty (pi_phenomenon_time_start input) \<and> \<not> trim_is_empty (pi_phenomenon_time_end input)
     \<and> \<not> trim_is_empty (pi_result_time input) \<and> scalar_finite (pi_result input)
     \<and> (\<exists>s e r. parse_rfc3339_utc ''phenomenon_time_start_rfc3339_utc'' (pi_phenomenon_time_start input) = Ok s
        \<and> parse_rfc3339_utc ''phenomenon_time_end_rfc3339_utc'' (pi_phenomenon_time_end input) = Ok e
        \<and> parse_rfc3339_utc ''result_time_rfc3339_utc'' (pi_result_time input) = Ok r
        \<and> ts_unix_seconds s \<le> ts_unix_seconds e)"
  unfolding validate_env_observation_input_def
  by (cases "pi_result input") (auto simp: and_then_Ok_iff require_field_Ok_iff scalar_finite_def if_Err_Ok_iff not_less)

lemma project_Ok:
  assumes "project_env_observation H input = Ok p"
  shows "validate_env_observation_input input = Ok ()"
    and "ob_phenomenon_time (ep_observation p)
      = \<lparr>ti_start_rfc3339_utc = pi_phenomenon_time_start input, ti_end_rfc3339_utc = pi_phenomenon_time_end input\<rparr>"
    and "ob_result_time_rfc3339_utc (ep_observation p) = pi_result_time input"
    and "ob_result (ep_observation p) = (case pi_result input of ScalarResult v \<Rightarrow> ScalarPayload v | StructuredResult v \<Rightarrow> StructuredPayload v)"
    and "ep_thing p = \<lparr>th_id = ei_thing_id (ep_ids p), th_pod_id = pi_pod_id input, th_site_id = pi_site_id input\<rparr>"
    and "ds_stream_key (ep_datastream p) = pi_stream_key input"
    and "ds_id (ep_datastream p) = ei_datastream_id (ep_ids p)" "ob_datastream_id (ep_observation p) = ei_datastream_id (ep_ids p)"
    and "ei_datastream_id (ep_ids p) = entity_id H EntityDatastream
        [pi_pod_id input, pi_sensor_key input, pi_observed_property_key input, pi_stream_key input]"
    and "ei_observation_id (ep_ids p) = entity_id H EntityObservation
        [ei_datastream_id (ep_ids p), pi_pod_id input, show_nat (unat (pi_frame_counter input))]"
  using assms unfolding project_env_observation_def and_then_Ok_iff validate_input_Ok_iff Let_def
  by (auto simp: normalize_canonical)

lemma project_total:
  assumes "validate_env_observation_input input = Ok ()"
  shows "\<exists>p. project_env_observation H input = Ok p"
  using assms unfolding project_env_observation_def Let_def
  by (auto simp: normalize_canonical and_then_Ok_iff dest!: iffD1 [OF validate_input_Ok_iff])

section \<open>The projection of a fact\<close>

definition text_time :: "i64 \<Rightarrow> bool" where
  "text_time v \<longleftrightarrow> MIN_TEXT_SECONDS \<le> sint v \<and> sint v \<le> MAX_TEXT_SECONDS"

definition i32_year_time :: "i64 \<Rightarrow> bool" where
  "i32_year_time v \<longleftrightarrow> MIN_I32_DAY \<le> sint v div 86400 \<and> sint v div 86400 \<le> MAX_I32_DAY"

lemma i32_year_time_iff:
  "valid_date y m d \<Longrightarrow> sint v div 86400 = days_from_civil y m d \<Longrightarrow> i32_year_time v \<longleftrightarrow> - (2 ^ 31) \<le> y \<and> y < 2 ^ 31"
  using day_number_i32 [of y m d] by (simp add: i32_year_time_def)

lemma parse_unix_to_rfc3339:
  assumes "i32_year_time v"
  shows "parse_rfc3339_utc field (unix_to_rfc3339 v) = Ok ts \<longleftrightarrow> text_time v \<and> ts = \<lparr>ts_unix_seconds = sint v\<rparr>"
  using parsed_text_range [of "sint v"] parse_format [of "sint v"] assms
  by (auto simp: parse_utc_Ok_iff unix_to_rfc3339_def text_time_def i32_year_time_def)

lemma adapt_Ok:
  assumes "adapt_env_fact_input H f ctx = Ok input" and env: "fact_payload f = PayloadEnv env"
  shows "\<exists>key. fact_kind f = KindEnv \<and> env_fact_validate env = Ok () \<and> resolve_sensor_key H ctx env = Some key
    \<and> input = \<lparr>pi_pod_id = pod_id_fmt_hex (fact_pod_id f), pi_frame_counter = fact_fc f, pi_site_id = ac_site_id ctx,
      pi_sensor_key = key, pi_observed_property_key = observed_property_key (ef_sample_type env),
      pi_stream_key = (if ef_value env \<noteq> None then ''raw'' else ''summary''),
      pi_phenomenon_time_start = unix_to_rfc3339 (ef_phenomenon_time_start env),
      pi_phenomenon_time_end = unix_to_rfc3339 (ef_phenomenon_time_end env),
      pi_result_time = unix_to_rfc3339 (fact_ingest_time f),
      pi_result = (case ef_value env of Some v \<Rightarrow> ScalarResult (f32_to_f64 v) | None \<Rightarrow> StructuredResult (summary_json env))\<rparr>"
  using assms
  by (auto simp: adapt_env_fact_input_def and_then_Ok_iff map_err_Ok_iff ok_or_Ok_iff fact_validate_def Let_def split: fact_kind.splits)

lemma adapt_total:
  assumes "fact_kind f = KindEnv" "fact_payload f = PayloadEnv env" "env_fact_validate env = Ok ()" "resolve_sensor_key H ctx env = Some key"
  shows "\<exists>input. adapt_env_fact_input H f ctx = Ok input \<and> pi_sensor_key input = key"
  using assms by (simp add: adapt_env_fact_input_def fact_validate_def)

lemma adapted_input_valid_iff:
  assumes "adapt_env_fact_input H f ctx = Ok input" and env: "fact_payload f = PayloadEnv env" and pod: "fact_pod_id f \<noteq> []"
    and times: "i32_year_time (ef_phenomenon_time_start env)" "i32_year_time (ef_phenomenon_time_end env)" "i32_year_time (fact_ingest_time f)"
  shows "validate_env_observation_input input = Ok () \<longleftrightarrow>
    \<not> trim_is_empty (pi_sensor_key input)
    \<and> text_time (ef_phenomenon_time_start env) \<and> text_time (ef_phenomenon_time_end env) \<and> text_time (fact_ingest_time f)"
proof -
  obtain key where kind: "fact_kind f = KindEnv" and valid: "env_fact_validate env = Ok ()"
    and input: "input = \<lparr>pi_pod_id = pod_id_fmt_hex (fact_pod_id f), pi_frame_counter = fact_fc f, pi_site_id = ac_site_id ctx,
      pi_sensor_key = key, pi_observed_property_key = observed_property_key (ef_sample_type env),
      pi_stream_key = (if ef_value env \<noteq> None then ''raw'' else ''summary''),
      pi_phenomenon_time_start = unix_to_rfc3339 (ef_phenomenon_time_start env),
      pi_phenomenon_time_end = unix_to_rfc3339 (ef_phenomenon_time_end env),
      pi_result_time = unix_to_rfc3339 (fact_ingest_time f),
      pi_result = (case ef_value env of Some v \<Rightarrow> ScalarResult (f32_to_f64 v) | None \<Rightarrow> StructuredResult (summary_json env))\<rparr>"
    using adapt_Ok [OF assms(1) env] by blast
  have streams: "\<not> trim_is_empty ''raw''" "\<not> trim_is_empty ''summary''" by code_simp+
  have finite: "scalar_finite (pi_result input)"
    using valid f32_to_f64_finite by (auto simp: input scalar_finite_def env_fact_validate_def split: option.splits if_splits)
  have blank: "text_time v \<Longrightarrow> \<not> trim_is_empty (unix_to_rfc3339 v)" for v
    unfolding text_time_def unix_to_rfc3339_def by (rule time_text_not_blank) auto
  have order: "sint (ef_phenomenon_time_start env) \<le> sint (ef_phenomenon_time_end env)"
    using valid by (auto simp: env_fact_validate_def split: if_splits)
  show ?thesis
    unfolding validate_input_Ok_iff using finite blank order streams hex_not_blank [OF pod] property_key_not_blank
    by (auto simp: input parse_unix_to_rfc3339 times)
qed

definition projectable :: "(bytes \<Rightarrow> bytes) \<Rightarrow> fact \<Rightarrow> env_fact \<Rightarrow> env_observation_adapter_context \<Rightarrow> bool" where
  "projectable H f env ctx \<longleftrightarrow> fact_kind f = KindEnv \<and> env_fact_validate env = Ok ()
     \<and> (case resolve_sensor_key H ctx env of None \<Rightarrow> False | Some key \<Rightarrow> \<not> trim_is_empty key)
     \<and> text_time (ef_phenomenon_time_start env) \<and> text_time (ef_phenomenon_time_end env) \<and> text_time (fact_ingest_time f)"

definition observes_fact :: "fact \<Rightarrow> env_fact \<Rightarrow> env_observation_projection \<Rightarrow> bool" where
  "observes_fact f env p \<longleftrightarrow>
     (let ob = ep_observation p in
      parse_rfc3339_timestamp (ti_start_rfc3339_utc (ob_phenomenon_time ob)) = Ok \<lparr>ts_unix_seconds = sint (ef_phenomenon_time_start env)\<rparr>
      \<and> parse_rfc3339_timestamp (ti_end_rfc3339_utc (ob_phenomenon_time ob)) = Ok \<lparr>ts_unix_seconds = sint (ef_phenomenon_time_end env)\<rparr>
      \<and> parse_rfc3339_timestamp (ob_result_time_rfc3339_utc ob) = Ok \<lparr>ts_unix_seconds = sint (fact_ingest_time f)\<rparr>
      \<and> ob_result ob = (case ef_value env of Some v \<Rightarrow> ScalarPayload (f32_to_f64 v) | None \<Rightarrow> StructuredPayload (summary_json env))
      \<and> th_pod_id (ep_thing p) = pod_id_fmt_hex (fact_pod_id f)
      \<and> ob_datastream_id ob = ds_id (ep_datastream p)
      \<and> ds_stream_key (ep_datastream p) = (if ef_value env = None then ''summary'' else ''raw''))"

lemma projected_observes:
  assumes adapt: "adapt_env_fact_input H f ctx = Ok input" and env: "fact_payload f = PayloadEnv env"
    and project: "project_env_observation H input = Ok p"
    and range: "text_time (ef_phenomenon_time_start env)" "text_time (ef_phenomenon_time_end env)" "text_time (fact_ingest_time f)"
  shows "observes_fact f env p"
proof -
  have parse: "text_time v \<Longrightarrow> parse_rfc3339_timestamp (unix_to_rfc3339 v) = Ok \<lparr>ts_unix_seconds = sint v\<rparr>" for v
    unfolding text_time_def unix_to_rfc3339_def by (rule parse_format) auto
  show ?thesis
    using adapt_Ok [OF adapt env] unfolding observes_fact_def Let_def project_Ok [OF project]
    by (auto simp: parse range split: option.splits)
qed

text \<open>What is projected from a fact: nothing, unless it carries an environmental payload.\<close>

lemma other_payloads_are_refused: "fact_payload f = PayloadCustom bs \<Longrightarrow> \<exists>e. project_fact_env_observation H f ctx = Err e"
  by (cases "fact_kind f") (auto simp: project_fact_env_observation_def adapt_env_fact_input_def fact_validate_def)

lemma projected_iff:
  assumes env: "fact_payload f = PayloadEnv env" and pod: "length (fact_pod_id f) = 8"
    and times: "i32_year_time (ef_phenomenon_time_start env)" "i32_year_time (ef_phenomenon_time_end env)" "i32_year_time (fact_ingest_time f)"
  shows "case project_fact_env_observation H f ctx of
      Inr p \<Rightarrow> projectable H f env ctx \<and> observes_fact f env p
    | Inl _ \<Rightarrow> \<not> projectable H f env ctx"
proof (cases "adapt_env_fact_input H f ctx")
  case (Inl e)
  then have "\<not> projectable H f env ctx"
    using adapt_total [OF _ env] by (fastforce simp: projectable_def split: option.splits)
  with Inl show ?thesis by (simp add: project_fact_env_observation_def)
next
  case (Inr input)
  have pod': "fact_pod_id f \<noteq> []" using pod by auto
  have iff: "projectable H f env ctx \<longleftrightarrow> validate_env_observation_input input = Ok ()"
    unfolding adapted_input_valid_iff [OF Inr env pod' times] using adapt_Ok [OF Inr env] by (auto simp: projectable_def)
  show ?thesis
  proof (cases "project_env_observation H input")
    case (Inl e)
    with iff project_total [of input H] Inr show ?thesis by (auto simp: project_fact_env_observation_def map_err_def)
  next
    case p: (Inr p)
    with iff have "projectable H f env ctx" using project_Ok(1) by blast
    then have "observes_fact f env p"
      by (intro projected_observes [OF Inr env p]) (auto simp: projectable_def)
    with \<open>projectable H f env ctx\<close> p Inr show ?thesis by (simp add: project_fact_env_observation_def map_err_def)
  qed
qed

text \<open>
  C18: A fact of a pod whose times lie in the years of an \<open>i32\<close> is projected exactly when it carries an
  environmental payload, is valid, a sensor key that is not blank is known, and its three times have
  years of four digits.  The observation then carries exactly the fact's times, its value or summary,
  its pod and its stream.
\<close>

theorem fact_is_projected_exactly:
  assumes "length (fact_pod_id f) = 8" and "i32_year_time (fact_ingest_time f)"
    and "\<And>env. fact_payload f = PayloadEnv env \<Longrightarrow>
      i32_year_time (ef_phenomenon_time_start env) \<and> i32_year_time (ef_phenomenon_time_end env)"
  shows "case project_fact_env_observation H f ctx of
      Inr p \<Rightarrow> \<exists>env. fact_payload f = PayloadEnv env \<and> projectable H f env ctx \<and> observes_fact f env p
    | Inl _ \<Rightarrow> \<nexists>env. fact_payload f = PayloadEnv env \<and> projectable H f env ctx"
proof (cases "fact_payload f")
  case (PayloadEnv env)
  with projected_iff [OF PayloadEnv assms(1), of H ctx] assms(2,3) show ?thesis by (auto split: sum.splits)
next
  case (PayloadCustom bs)
  with other_payloads_are_refused [OF PayloadCustom, of H ctx] show ?thesis by auto
qed

definition example_env :: env_fact where
  "example_env = \<lparr>ef_sample_type = AmbientAirTemperature, ef_phenomenon_time_start = 1709251500,
     ef_phenomenon_time_end = 1709251500, ef_value = Some 0x41AC0000, ef_min = None, ef_max = None, ef_mean = None,
     ef_count = Some 1, ef_quality = None, ef_sensor_channel = None\<rparr>"

definition example_fact :: fact where
  "example_fact = \<lparr>fact_pod_id = [0, 0, 0, 0, 0, 0, 0, 7], fact_fc = 1, fact_ingest_time = 1709251501, fact_pod_time = None,
     fact_kind = KindEnv, fact_payload = PayloadEnv example_env\<rparr>"

definition example_context :: env_observation_adapter_context where
  "example_context = \<lparr>ac_site_id = None, ac_sensor_key_override = Some ''shtc3-ambient'', ac_deployment_sensor_key = None,
     ac_provisioning_sensor_key = None, ac_provisioning_identity = None\<rparr>"

theorem fact_is_projected_exactly_witness:
  "case project_fact_env_observation (\<lambda>x. x) example_fact example_context of
      Inr p \<Rightarrow> projectable (\<lambda>x. x) example_fact example_env example_context \<and> observes_fact example_fact example_env p
    | Inl _ \<Rightarrow> False"
proof -
  have "projectable (\<lambda>x. x) example_fact example_env example_context" by code_simp
  moreover have "i32_year_time (ef_phenomenon_time_start example_env)" "i32_year_time (ef_phenomenon_time_end example_env)"
    "i32_year_time (fact_ingest_time example_fact)" "fact_payload example_fact = PayloadEnv example_env" "length (fact_pod_id example_fact) = 8"
    by code_simp+
  ultimately show ?thesis
    using fact_is_projected_exactly [of example_fact "\<lambda>x. x" example_context] by (auto split: sum.splits)
qed

section \<open>Observation identity\<close>

definition datastream_components :: "env_observation_projection_input \<Rightarrow> string list" where
  "datastream_components i = [pi_pod_id i, pi_sensor_key i, pi_observed_property_key i, pi_stream_key i]"

definition datastream_material :: "env_observation_projection_input \<Rightarrow> bytes" where
  "datastream_material i = entity_material EntityDatastream (datastream_components i)"

definition observation_material :: "(bytes \<Rightarrow> bytes) \<Rightarrow> env_observation_projection_input \<Rightarrow> bytes" where
  "observation_material H i = entity_material EntityObservation
     [entity_id H EntityDatastream (datastream_components i), pi_pod_id i, show_nat (unat (pi_frame_counter i))]"

lemma entity_id_length: "length (entity_id H k cs) \<le> 30 + 2 * length (H (entity_material k cs))"
proof -
  have "length (hex_lower bs) = 2 * length bs" for bs by (induction bs) simp_all
  then show ?thesis by (cases k) (simp_all add: entity_id_def sensor_sha256_hex_eq entity_prefix_def)
qed

text \<open>
  C19: Two accepted observations have the same identifier exactly when they agree in pod, sensor key, observed
  property, stream and frame counter, provided the hash does not collide on the materials hashed.  Times and
  results do not enter the identifier.
\<close>

theorem observation_id_commits:
  assumes "project_env_observation H a = Ok p" "project_env_observation H b = Ok q"
    and len: "\<And>x. length (H x) = 32"
    and short: "list_all (\<lambda>c. length c < 2 ^ 64) (datastream_components a @ datastream_components b)"
    and datastreams: "H (datastream_material a) = H (datastream_material b) \<longrightarrow> datastream_material a = datastream_material b"
    and observations: "H (observation_material H a) = H (observation_material H b) \<longrightarrow> observation_material H a = observation_material H b"
  shows "ei_observation_id (ep_ids p) = ei_observation_id (ep_ids q) \<longleftrightarrow>
    datastream_components a = datastream_components b \<and> pi_frame_counter a = pi_frame_counter b"
proof -
  let ?ds = "\<lambda>i. entity_id H EntityDatastream (datastream_components i)"
  have "length (show_nat (unat w)) < 2 ^ 64" for w :: u64
  proof -
    have "unat w < 2 ^ LENGTH(64)" by (rule unsigned_less)
    then have "unat w < 10 ^ Suc 19" by (rule less_le_trans) simp
    from length_show_nat [OF this] show ?thesis by simp
  qed
  moreover have "length (?ds i) < 2 ^ 64" for i using entity_id_length [of H EntityDatastream "datastream_components i"] len by simp
  ultimately have ok: "components_ok [?ds a, pi_pod_id a, show_nat (unat (pi_frame_counter a))]"
    "components_ok [?ds b, pi_pod_id b, show_nat (unat (pi_frame_counter b))]"
    "components_ok (datastream_components a)" "components_ok (datastream_components b)"
    using short by (simp_all add: components_ok_def datastream_components_def)
  have ids: "ei_observation_id (ep_ids p) = entity_id H EntityObservation [?ds a, pi_pod_id a, show_nat (unat (pi_frame_counter a))]"
    "ei_observation_id (ep_ids q) = entity_id H EntityObservation [?ds b, pi_pod_id b, show_nat (unat (pi_frame_counter b))]"
    using project_Ok(9,10) [OF assms(1)] project_Ok(9,10) [OF assms(2)] by (simp_all add: datastream_components_def)
  have "ei_observation_id (ep_ids p) = ei_observation_id (ep_ids q) \<longleftrightarrow>
      ?ds a = ?ds b \<and> pi_pod_id a = pi_pod_id b \<and> pi_frame_counter a = pi_frame_counter b"
    unfolding ids using entity_id_inject [OF ok(1,2), of H EntityObservation EntityObservation] observations
    by (simp add: observation_material_def word_unat_eq_iff)
  moreover have "?ds a = ?ds b \<longleftrightarrow> datastream_components a = datastream_components b"
    using entity_id_inject [OF ok(3,4), of H EntityDatastream EntityDatastream] datastreams by (simp add: datastream_material_def)
  ultimately show ?thesis by (auto simp: datastream_components_def)
qed

definition example_input :: "u64 \<Rightarrow> string \<Rightarrow> env_observation_projection_input" where
  "example_input fc result_time = \<lparr>pi_pod_id = ''pod-01'', pi_frame_counter = fc, pi_site_id = None, pi_sensor_key = ''shtc3-0'',
     pi_observed_property_key = ''temperature_air'', pi_stream_key = ''raw'',
     pi_phenomenon_time_start = ''2026-03-06T00:00:00Z'', pi_phenomenon_time_end = ''2026-03-06T00:00:00Z'',
     pi_result_time = result_time, pi_result = ScalarResult 0x4035800000000000\<rparr>"

text \<open>A digest that keeps the end of its input, which holds the counter.\<close>

definition tail_digest :: "bytes \<Rightarrow> bytes" where
  "tail_digest bs = take 32 (rev bs @ replicate 32 0)"

lemma tail_digest_snoc: "tail_digest (xs @ [b]) = b # take 31 (rev xs @ replicate 32 0)"
  by (simp add: tail_digest_def take_Cons')

lemma observation_material_snoc:
  obtains xs where "observation_material H i = xs @ [last (str_bytes (show_nat (unat (pi_frame_counter i))))]"
proof -
  define s where "s = str_bytes (show_nat (unat (pi_frame_counter i)))"
  have "s \<noteq> []" by (simp add: s_def str_bytes_def)
  obtain ys where "observation_material H i = ys @ s"
    unfolding observation_material_def entity_material_eq by (simp add: length_prefixed_def s_def)
  also have "s = butlast s @ [last s]" using \<open>s \<noteq> []\<close> by simp
  finally show thesis using that [of "ys @ butlast s"] by (simp add: s_def)
qed

lemma example_input_valid:
  assumes "s = ''2026-03-06T00:05:01Z'' \<or> s = ''2026-03-06T00:05:02Z''"
  shows "validate_env_observation_input (example_input fc s) = Ok ()"
proof -
  have f: "format_rfc3339_utc 1772755200 = ''2026-03-06T00:00:00Z''" "format_rfc3339_utc 1772755501 = ''2026-03-06T00:05:01Z''"
    "format_rfc3339_utc 1772755502 = ''2026-03-06T00:05:02Z''"
    by code_simp+
  have r: "MIN_TEXT_SECONDS \<le> 1772755200" "MIN_TEXT_SECONDS \<le> 1772755501" "MIN_TEXT_SECONDS \<le> 1772755502"
    "1772755200 \<le> MAX_TEXT_SECONDS" "1772755501 \<le> MAX_TEXT_SECONDS" "1772755502 \<le> MAX_TEXT_SECONDS"
    by (simp_all add: MIN_TEXT_SECONDS_def MAX_TEXT_SECONDS_def)
  note utc = utc_format [OF r(1,4), unfolded f] utc_format [OF r(2,5), unfolded f] utc_format [OF r(3,6), unfolded f]
  have finite: "f64_is_finite 0x4035800000000000" by (simp add: f64_is_finite_iff f64_exp_def)
  show ?thesis
    using assms by (auto simp: validate_input_Ok_iff example_input_def utc scalar_finite_def finite printable_not_blank)
qed

theorem observation_id_commits_witness:
  "\<exists>p q r. project_env_observation tail_digest (example_input 42 ''2026-03-06T00:05:01Z'') = Ok p
     \<and> project_env_observation tail_digest (example_input 42 ''2026-03-06T00:05:02Z'') = Ok q
     \<and> project_env_observation tail_digest (example_input 43 ''2026-03-06T00:05:01Z'') = Ok r
     \<and> ei_observation_id (ep_ids p) = ei_observation_id (ep_ids q)
     \<and> ei_observation_id (ep_ids p) \<noteq> ei_observation_id (ep_ids r)"
proof -
  have v: "validate_env_observation_input (example_input 42 ''2026-03-06T00:05:01Z'') = Ok ()"
    "validate_env_observation_input (example_input 42 ''2026-03-06T00:05:02Z'') = Ok ()"
    "validate_env_observation_input (example_input 43 ''2026-03-06T00:05:01Z'') = Ok ()"
    by (simp_all add: example_input_valid)
  then obtain p q r where project: "project_env_observation tail_digest (example_input 42 ''2026-03-06T00:05:01Z'') = Ok p"
    "project_env_observation tail_digest (example_input 42 ''2026-03-06T00:05:02Z'') = Ok q"
    "project_env_observation tail_digest (example_input 43 ''2026-03-06T00:05:01Z'') = Ok r"
    using project_total by metis
  have len: "length (tail_digest x) = 32" for x by (simp add: tail_digest_def)
  have short: "list_all (\<lambda>c. length c < 2 ^ 64) (datastream_components (example_input m s) @ datastream_components (example_input n t))" for m n s t
    by (simp add: datastream_components_def example_input_def)
  have same: "datastream_material (example_input m s) = datastream_material (example_input n t)"
    "observation_material tail_digest (example_input m s) = observation_material tail_digest (example_input m t)" for m n s t
    by (simp_all add: datastream_material_def observation_material_def datastream_components_def example_input_def)
  have differ: "tail_digest (observation_material tail_digest (example_input 42 ''2026-03-06T00:05:01Z''))
      \<noteq> tail_digest (observation_material tail_digest (example_input 43 ''2026-03-06T00:05:01Z''))"
  proof -
    let ?a = "example_input 42 ''2026-03-06T00:05:01Z''" and ?b = "example_input 43 ''2026-03-06T00:05:01Z''"
    obtain xs where a: "observation_material tail_digest ?a = xs @ [last (str_bytes (show_nat (unat (pi_frame_counter ?a))))]"
      by (rule observation_material_snoc)
    obtain ys where b: "observation_material tail_digest ?b = ys @ [last (str_bytes (show_nat (unat (pi_frame_counter ?b))))]"
      by (rule observation_material_snoc)
    have "last (str_bytes (show_nat (unat (pi_frame_counter ?a)))) \<noteq> last (str_bytes (show_nat (unat (pi_frame_counter ?b))))"
      by code_simp
    then show ?thesis unfolding a b tail_digest_snoc by simp
  qed
  have pq: "ei_observation_id (ep_ids p) = ei_observation_id (ep_ids q)"
    using observation_id_commits [OF project(1,2) len short] same by (simp add: datastream_components_def example_input_def)
  have pr: "ei_observation_id (ep_ids p) \<noteq> ei_observation_id (ep_ids r)"
    using observation_id_commits [OF project(1,3) len short] same differ by (simp add: datastream_components_def example_input_def)
  from project pq pr show ?thesis by blast
qed

end
