(* ===== verification/Spec2Isabelle.thy ===== *)
theory Spec2Isabelle
  imports Snapshot_Evidence Evidence_Timestamp Core_Cbor Pod_Properties Ots_Properties Sensor_Properties
begin

text \<open>
  A verification of the core of TrackOne: telemetry facts are encoded and encrypted on a pod, admitted
  by a gateway behind a replay window, committed to a ledger of sealed segments, and every artifact is
  canonical CBOR under a Merkle root.

  \<^bold>\<open>Parts and theories.\<close>  Each theory names the source it translates; a definition has the name of the
  Rust function or type, with a prefix where Isabelle or another crate already uses the name.

  \<^item> \<open>Trackone_Prelude\<close>: machine integers at their width, \<open>Result\<close> as a sum (\<open>Ok\<close>, \<open>Err\<close>, \<open>and_then\<close>
    for the question mark), checked and saturating arithmetic, big-endian bytes, UTF-8, ordered maps.
  \<^item> \<open>Ledger_Hex\<close>, \<open>Vtl_Policy\<close>, \<open>Vtl_Merkle\<close>, \<open>Cbor_Head\<close>, \<open>Vtl_Cbor\<close>, \<open>Vtl_Segment\<close>, \<open>Float_Bits\<close>,
    \<open>Vtl_Record\<close>, \<open>Ledger_Json\<close> (\<open>crates/trackone-ledger\<close>): hexadecimal text, closure policies, the two
    Merkle trees, CBOR heads, the strict CBOR parser, segment artifacts and their chain, IEEE floats by
    their bits, the canonical-record validator, the deterministic writer of JSON values.
  \<^item> \<open>Gateway_Producer\<close>, \<open>Gateway_Ledger\<close>, \<open>Gateway_Deltas\<close>, \<open>Gateway_Reachable\<close>, \<open>Gateway_History\<close>,
    \<open>Gateway_Fleet\<close>, \<open>Gateway_Properties\<close> (\<open>apps/trackone-gateway-svc/src/producer.rs\<close>): the producer state
    machine and the in-memory store, its operations as runs, the changes a transition hands to a store, the
    states one producer reaches over any sequence of operations, failures and restarts, the history of the
    ledger, several producers on one store, and what follows for the in-memory store.
  \<^item> \<open>Core_Types\<close>, \<open>Core_Cbor\<close> (\<open>crates/trackone-core\<close>): facts, their validation and canonical bytes.
  \<^item> \<open>Ingest_Frame\<close>, \<open>Ingest_Admission\<close>, \<open>Ingest_Replay\<close> (\<open>crates/trackone-ingest\<close>): frames, admission,
    fixtures, rejection audit, the replay window.
  \<^item> \<open>Pod_Firmware\<close>, \<open>Pod_Properties\<close> (\<open>crates/trackone-pod-fw\<close>): the emitting pod, its nonce source, the
    liveness registry, the event waiter and the stack guard.
  \<^item> \<open>Evidence_Bundle\<close>, \<open>Evidence_Soundness\<close>, \<open>Evidence_Properties\<close> (\<open>apps/trackone-evidence\<close>): the auditor's
    verifier of evidence bundles, what a clean verification establishes, and that a full disclosure
    verifies.  \<open>Ledger_Evidence\<close> joins it with the gateway's ledger, \<open>Evidence_Timestamp\<close>
    (\<open>vtl/timestamp.rs\<close>) with the RFC 3161 verifier.
  \<^item> \<open>Rust_Std\<close>, \<open>Rust_Process\<close>: paths, text and durations, and child processes of the Rust standard library:
    polls, the clock at each poll, kill, and the wait that blocks until the child has ended.
  \<^item> \<open>Ots_Proof\<close>, \<open>Ots_Verify\<close>, \<open>Ots_Grammar\<close>, \<open>Ots_Properties\<close> (\<open>crates/trackone-ots\<close>): the parser of detached
    OpenTimestamps proofs, stubs, the external verifier and the metadata sidecar; the grammar of proofs as
    trees, and what acceptance establishes.
  \<^item> \<open>Rfc3161_Time\<close>, \<open>Rfc3161_Process\<close>, \<open>Rfc3161_Verify\<close>, \<open>Rfc3161_Properties\<close> (\<open>crates/trackone-rfc3161\<close>): signed
    times of arbitrary precision, the bounded OpenSSL process and PEM, field extraction, policies, revocation
    and path checks, and what a verified timestamp establishes.
  \<^item> \<open>Sensor_Time\<close>, \<open>Sensor_Calendar\<close>, \<open>Sensor_Projection\<close>, \<open>Sensor_Properties\<close> (\<open>crates/trackone-sensorthings\<close>):
    civil dates and RFC 3339 text, the calendar they follow, entity identifiers, validation, mapping and the
    adapter from facts, and what is projected.
  \<^item> \<open>Gateway_Snapshot\<close> (\<open>apps/trackone-gateway-svc/src/snapshot.rs\<close>): the material of a disclosure snapshot, its
    checks and the files prepared from it; \<open>Snapshot_Evidence\<close>: what is exported verifies.

  \<^bold>\<open>State and effects.\<close>  A method that mutates returns its result with the new state; a store operation
  returns the store after it; a clock is read once per operation (\<open>clock_reading\<close>).  Positions into byte
  strings are natural numbers: on a 64-bit target every length fits, so \<open>usize::try_from\<close> of a 64-bit
  length does not fail and a sum that would overflow already exceeds the input.  A Rust string is the list
  of its UTF-8 bytes as characters.  \<open>sha256\<close> is a parameter \<open>H\<close>; theorems that need it assume its length
  of 32 bytes or that a given pair does not collide.  The postcard codec, XChaCha20-Poly1305 and the
  cipher of a pod are parameters with their round trip as hypothesis (\<open>postcard_ok\<close>, \<open>xchacha_ok\<close>,
  \<open>aead_cipher\<close>).  Files, processes and the DER, CMS, X.509, JSON and base64 readers of the verifiers are fields of an
  environment record (\<open>evidence_env\<close>, \<open>ots_env\<close>, \<open>tsp_env\<close>); what is written for a process is passed to it.

  \<^bold>\<open>Interfaces.\<close>  The locales \<open>ledger_store\<close> and \<open>readable_store\<close> state what the producer needs of a store;
  the in-memory store interprets them.  \<open>aead_cipher\<close> is met by the dummy cipher for every key,
  \<open>nonce_source\<close> by the counter nonce.  The two CBOR writers interpret the contract of a canonical head.

  \<^bold>\<open>Loops.\<close>  The loop that closes expired intervals is a partial function into \<open>option\<close>; that it returns for
  every state with valid policies is a theorem.  The waits on external verifiers are partial functions too:
  on timeout the child is killed and waited for, and they return when the clock reaches the timeout and a kill ends
  the child (and, for OpenSSL, closes its pipes).  All other recursion is total, with its measure: the
  parsers descend in remaining bytes and nesting depth, the trees in the number of leaves.

  \<^bold>\<open>What is shown.\<close>  The decoder and the encoder of segments, the CBOR parser and the record validator accept
  exactly the canonical bytes.  Batch roots compose to the segment root, which commits to the multiset of
  records.  In the in-memory ledger, whichever producers write to it, the sealed segments and the open
  interval hold exactly the admitted records, and a stale producer is refused with the concurrent-writer error; for
  one producer through failures and restarts the segments form one chain, limits are kept, failed writes change
  nothing, keyed admissions replay, and every operation refines an append-only log.  Facts encode injectively; admitted
  frames are bound to their device; no counter is accepted twice and no two emitted frames share a nonce; pods that ran
  out of counters stay silent; the watchdog is fed only on full progress.  A bundle that verifies at the
  public scope discloses the committed records, a stored segment can be proved, an exported
  snapshot of any class verifies at its scope, and what was verified is what was stored; no
  file outside the bundle and the policy influences the verifier.  The parser of OpenTimestamps proofs accepts exactly its grammar; an accepted proof or
  timestamp has the evidence its result names; signed times and revocation dates are compared exactly; a
  verified bundle was timestamped.  Facts are projected to SensorThings exactly when they are valid, with their
  own times and values; times are printed and read along the Gregorian calendar.  The property below joins pod and replay window.

  \<^bold>\<open>Not modelled.\<close>  HTTP, PostgreSQL, configuration and process start-up of the gateway service; signatures and
  certificate paths inside OpenSSL; the evidence verifier's archives and network access; JSON text; hardware mocks other than the watchdog.  Memory exhaustion
  (\<open>try_reserve_exact\<close>) is outside the model; operations of different producers interleave as wholes, since the one
  write of an operation is its compare-and-swap.
\<close>

section \<open>From the pod to the replay window\<close>

lemma highest_of_increasing_run:
  assumes "replay_run width (fcs @ [fc]) w" and "sorted_wrt (<) (fcs @ [fc])"
  shows "rw_highest_fc_seen w = Some fc"
proof -
  have inv: "window_inv width (fcs @ [fc]) w" using assms(1) by (rule replay_run_inv)
  then obtain h where h: "rw_highest_fc_seen w = Some h"
    by (auto simp: window_inv_def split: option.splits)
  with inv have "h \<in> set (fcs @ [fc])" "fc \<in> rw_seen w \<or> unat fc + unat width < unat h" "\<forall>x \<in> rw_seen w. x \<le> h"
    by (auto simp: window_inv_def)
  moreover from this assms(2) have "h \<le> fc" by (auto simp: sorted_wrt_append less_imp_le)
  moreover from calculation have "fc \<le> h" by (auto simp: word_le_nat_alt)
  ultimately show ?thesis using h by simp
qed

lemma increasing_counters_accepted:
  assumes "sorted_wrt (<) fcs"
    and "\<forall>i. Suc i < length fcs \<longrightarrow> unat (fcs ! Suc i) \<le> unat (fcs ! i) + unat width"
  shows "\<exists>w. replay_run width fcs w"
  using assms
proof (induction fcs rule: rev_induct)
  case Nil
  then show ?case using replay_run.fresh_window by blast
next
  case (snoc fc fcs)
  have "\<forall>i. Suc i < length fcs \<longrightarrow> unat (fcs ! Suc i) \<le> unat (fcs ! i) + unat width"
    using snoc.prems(2) by (auto simp: nth_append dest: spec split: if_splits)
  with snoc obtain w where w: "replay_run width fcs w" by (auto simp: sorted_wrt_append)
  have "unat h \<le> unat fc + unat width \<and> unat fc \<le> unat h + unat width" if h: "rw_highest_fc_seen w = Some h" for h
  proof (cases fcs rule: rev_cases)
    case Nil
    with replay_run_inv [OF w] h show ?thesis by (auto simp: window_inv_def)
  next
    case (snoc fcs' fc')
    with w highest_of_increasing_run [of width fcs' fc' w] snoc.prems(1) h have "h = fc'"
      by (auto simp: sorted_wrt_append)
    moreover from snoc snoc.prems(2) [rule_format, of "length fcs'"] have "unat fc \<le> unat fc' + unat width"
      by (simp add: nth_append)
    moreover from snoc snoc.prems(1) have "fc' < fc" by (simp add: sorted_wrt_append)
    ultimately show ?thesis by (simp add: word_less_nat_alt)
  qed
  moreover have "fc \<notin> set fcs" using snoc.prems(1) by (auto simp: sorted_wrt_append)
  ultimately show ?case using fresh_in_window [OF w] replay_run.accepted [OF w] by blast
qed

lemma pod_run_frames:
  "pod_run pc n p0 frames p \<Longrightarrow> frame \<in> set frames \<Longrightarrow>
     \<exists>nonce f. encrypt_fact pc (pd_cipher p0) n nonce f = Ok frame \<and> fact_pod_id f = pd_pod_id p0"
proof (induction rule: pod_run.induct)
  case (emit_ok frames p f frame' p')
  have "pd_cipher p = pd_cipher p0" "pd_pod_id p = pd_pod_id p0"
    using pod_run_inv [OF emit_ok(1)] by (simp_all add: pod_inv_def)
  with emit_fact_Ok [OF emit_ok(2)] have "\<exists>nonce f. encrypt_fact pc (pd_cipher p0) n nonce f = Ok frame'
      \<and> fact_pod_id f = pd_pod_id p0" by metis
  with emit_ok show ?case by auto
next
  case (payload_ok frames p v frame' p')
  have "pd_cipher p = pd_cipher p0" "pd_pod_id p = pd_pod_id p0"
    using pod_run_inv [OF payload_ok(1)] by (simp_all add: pod_inv_def)
  moreover have "fact_pod_id (payload_fact p fc v) = pd_pod_id p" for fc by (simp add: payload_fact_def)
  ultimately have "\<exists>nonce f. encrypt_fact pc (pd_cipher p0) n nonce f = Ok frame'
      \<and> fact_pod_id f = pd_pod_id p0" using emit_payload_Ok [OF payload_ok(2)] by metis
  with payload_ok show ?case by auto
qed simp_all

text \<open>C11: Telemetry from the pod to the gateway: whatever a pod does, the frames it emits, delivered in
  order and with no counter further ahead of the previous one than the window is wide, are each
  accepted by the replay window once and refused ever after; and, for a cipher and a codec that invert
  their encodings, each frame whose ciphertext has at most 256 bytes decrypts to a fact of this pod
  with the frame's counter, and a longer one is refused as undecodable.\<close>

theorem pod_telemetry_passes_window_once:
  assumes "pod_run pc n (pod_new pid cipher (nonce_for_frame g)) frames p"
    and "\<forall>i. Suc i < length frames \<longrightarrow>
      unat (enf_fc (frames ! Suc i)) \<le> unat (enf_fc (frames ! i)) + unat width"
    and "postcard_ok pc" and "aead_cipher cipher"
  shows "\<exists>w. replay_run width (map enf_fc frames) w
    \<and> (\<forall>frame \<in> set frames. (\<exists>e. check_and_update w (enf_fc frame) = (Err e, w))
        \<and> (\<exists>f. decrypt_fact pc cipher frame pid
              = (if length (enf_ciphertext frame) \<le> 256 then Ok f else Err DeserializeError)
            \<and> fact_pod_id f = pid \<and> fact_fc f = enf_fc frame))"
proof -
  have "sorted_wrt (<) (map enf_fc frames)"
    using pod_run_inv [OF assms(1)] by (simp add: pod_inv_def)
  with assms(2) increasing_counters_accepted [of "map enf_fc frames" width]
  obtain w where w: "replay_run width (map enf_fc frames) w" by auto
  have "\<exists>f. decrypt_fact pc cipher frame pid
        = (if length (enf_ciphertext frame) \<le> 256 then Ok f else Err DeserializeError)
      \<and> fact_pod_id f = pid \<and> fact_fc f = enf_fc frame"
    if "frame \<in> set frames" for frame
  proof -
    from pod_run_frames [OF assms(1) that] obtain nonce f
      where e: "encrypt_fact pc cipher n nonce f = Ok frame" and f: "fact_pod_id f = pid"
      by (auto simp: pod_new_def)
    have "fact_fc f = enf_fc frame" using e by (rule aead_cipher.encrypt_fact_Ok [OF assms(4)]) simp
    with aead_cipher.decrypt_encrypt_fact [OF assms(4,3) e] f show ?thesis
      by (auto simp: MAX_FACT_LEN_def)
  qed
  with w accepted_refused [OF w] show ?thesis by auto
qed

theorem pod_telemetry_passes_window_once_witness:
  "\<exists>w e f. replay_run 5 [0, 5] w \<and> check_and_update w 5 = (Err e, w)
    \<and> decrypt_fact example_codec (dummy_aead [0x5A]) (example_frame 5 0x58) (pod_id_from_u32 7) = Ok f \<and> fact_fc f = 5"
proof -
  have "enf_fc (example_frame fc b) = ucast fc" "length (enf_ciphertext (example_frame fc b)) \<le> 256" for fc b
    by (simp_all add: example_frame_def)
  with pod_telemetry_passes_window_once [OF example_pod_run [unfolded example_pod_def] _ example_codec_ok
      dummy.aead_cipher_axioms, of 5]
  show ?thesis by fastforce
qed

end
